(* ===== verification/Prelude.thy ===== *)
theory Prelude
  imports Main "HOL-Library.AList" "HOL-Library.Char_ord" "HOL-Library.List_Lexorder"
    "HOL-Library.Sublist"
begin

text \<open>
  The vocabulary of Go that the components share.  Go maps are association lists: the order
  of the list stands for the (unspecified) iteration order of the map, and every statement
  quantifies over the list, hence over the order.  Strings are lists of bytes, as in Go.
  Errors are the left values of a sum.  The locale \<open>go_map\<close> is the contract of a map
  value; the loops the components write over maps (store many keys, delete the keys a
  holder still owns, drop the entries that satisfy a test) are verified once inside it.
\<close>

named_theorems go_simps \<open>unfolding rules for the Go library functions\<close>

section \<open>Maps\<close>

type_synonym ('k, 'v) gomap = "('k \<times> 'v) list"

abbreviation mget :: "('k, 'v) gomap \<Rightarrow> 'k \<Rightarrow> 'v option" where
  "mget m k \<equiv> map_of m k"

abbreviation mput :: "'k \<Rightarrow> 'v \<Rightarrow> ('k, 'v) gomap \<Rightarrow> ('k, 'v) gomap" where
  "mput k v m \<equiv> AList.update k v m"

abbreviation mdel :: "'k \<Rightarrow> ('k, 'v) gomap \<Rightarrow> ('k, 'v) gomap" where
  "mdel k m \<equiv> AList.delete k m"

abbreviation mkeys :: "('k, 'v) gomap \<Rightarrow> 'k list" where
  "mkeys m \<equiv> map fst m"

text \<open>A map value has one entry per key.\<close>

definition map_ok :: "('k, 'v) gomap \<Rightarrow> bool" where
  "map_ok m \<longleftrightarrow> distinct (mkeys m)"

text \<open>\<open>for k, v := range m { if p(k, v) { delete(m, k) } }\<close>\<close>

definition mdrop_if :: "('k \<Rightarrow> 'v \<Rightarrow> bool) \<Rightarrow> ('k, 'v) gomap \<Rightarrow> ('k, 'v) gomap" where
  "mdrop_if p m = filter (\<lambda>(k, v). \<not> p k v) m"

text \<open>\<open>for _, k := range ks { m[k] = v }\<close>\<close>

primrec mput_all :: "'k list \<Rightarrow> 'v \<Rightarrow> ('k, 'v) gomap \<Rightarrow> ('k, 'v) gomap" where
  "mput_all [] v m = m"
| "mput_all (k # ks) v m = mput_all ks v (mput k v m)"

text \<open>\<open>for _, k := range ks { if m[k] == v { delete(m, k) } }\<close>\<close>

primrec mdel_owned :: "'k list \<Rightarrow> 'v \<Rightarrow> ('k, 'v) gomap \<Rightarrow> ('k, 'v) gomap" where
  "mdel_owned [] v m = m"
| "mdel_owned (k # ks) v m = mdel_owned ks v (if mget m k = Some v then mdel k m else m)"

locale go_map =
  fixes lookup :: "'m \<Rightarrow> 'k \<Rightarrow> 'v option"
    and put :: "'k \<Rightarrow> 'v \<Rightarrow> 'm \<Rightarrow> 'm"
    and del :: "'k \<Rightarrow> 'm \<Rightarrow> 'm"
    and entries :: "'m \<Rightarrow> ('k \<times> 'v) set"
    and invar :: "'m \<Rightarrow> bool"
  assumes lookup_put: "lookup (put k v m) = (lookup m)(k \<mapsto> v)"
    and lookup_del: "lookup (del k m) = (lookup m)(k := None)"
    and entries_lookup: "invar m \<Longrightarrow> (k, v) \<in> entries m \<longleftrightarrow> lookup m k = Some v"
    and invar_put: "invar m \<Longrightarrow> invar (put k v m)"
    and invar_del: "invar m \<Longrightarrow> invar (del k m)"
begin

lemma lookup_put_all:
  "lookup (fold (\<lambda>k. put k v) ks m) k = (if k \<in> set ks then Some v else lookup m k)"
  by (induction ks arbitrary: m) (auto simp: lookup_put)

lemma invar_put_all: "invar m \<Longrightarrow> invar (fold (\<lambda>k. put k v) ks m)"
  by (induction ks arbitrary: m) (auto intro: invar_put)

lemma lookup_del_owned:
  "lookup (fold (\<lambda>k m. if lookup m k = Some v then del k m else m) ks m) k =
     (if k \<in> set ks \<and> lookup m k = Some v then None else lookup m k)"
  by (induction ks arbitrary: m) (auto simp: lookup_del)

lemma invar_del_owned:
  "invar m \<Longrightarrow> invar (fold (\<lambda>k m. if lookup m k = Some v then del k m else m) ks m)"
  by (induction ks arbitrary: m) (auto intro: invar_del)

lemma entries_put:
  "invar m \<Longrightarrow> entries (put k v m) = insert (k, v) {(k', v') \<in> entries m. k' \<noteq> k}"
  by (auto simp: entries_lookup invar_put lookup_put split: if_splits)

lemma entries_del: "invar m \<Longrightarrow> entries (del k m) = {(k', v') \<in> entries m. k' \<noteq> k}"
  by (auto simp: entries_lookup invar_del lookup_del split: if_splits)

end

interpretation gm: go_map mget mput mdel set map_ok
proof unfold_locales
  fix m :: "('a, 'b) gomap" and k v
  show "mget (mput k v m) = (mget m)(k \<mapsto> v)" by (rule update_conv')
  show "mget (mdel k m) = (mget m)(k := None)" by (rule delete_conv')
  show "map_ok m \<Longrightarrow> ((k, v) \<in> set m) = (mget m k = Some v)"
    by (simp add: map_ok_def map_of_eq_Some_iff)
  show "map_ok m \<Longrightarrow> map_ok (mput k v m)" by (simp add: map_ok_def distinct_update)
  show "map_ok m \<Longrightarrow> map_ok (mdel k m)" by (simp add: map_ok_def distinct_delete)
qed

lemmas mget_put = gm.lookup_put
lemmas mget_del = gm.lookup_del

lemma map_ok_Nil [simp]: "map_ok []"
  by (simp add: map_ok_def)

lemma mput_all_fold: "mput_all ks v m = fold (\<lambda>k. mput k v) ks m"
  by (induction ks arbitrary: m) auto

lemma mdel_owned_fold:
  "mdel_owned ks v m = fold (\<lambda>k m. if mget m k = Some v then mdel k m else m) ks m"
  by (induction ks arbitrary: m) auto

lemma mget_put_all: "mget (mput_all ks v m) k = (if k \<in> set ks then Some v else mget m k)"
  by (simp add: mput_all_fold gm.lookup_put_all)

lemma mget_del_owned:
  "mget (mdel_owned ks v m) k =
     (if k \<in> set ks \<and> mget m k = Some v then None else mget m k)"
  by (simp add: mdel_owned_fold gm.lookup_del_owned)

lemma map_ok_put_all [intro]: "map_ok m \<Longrightarrow> map_ok (mput_all ks v m)"
  by (simp add: mput_all_fold gm.invar_put_all)

lemma map_ok_del_owned [intro]: "map_ok m \<Longrightarrow> map_ok (mdel_owned ks v m)"
  by (simp add: mdel_owned_fold gm.invar_del_owned)

lemma map_ok_mdrop_if [intro]: "map_ok m \<Longrightarrow> map_ok (mdrop_if p m)"
  by (simp add: map_ok_def mdrop_if_def distinct_map_filter)

lemma mget_mdrop_if:
  assumes "map_ok m"
  shows "mget (mdrop_if p m) k =
    (case mget m k of None \<Rightarrow> None | Some v \<Rightarrow> if p k v then None else Some v)"
proof -
  have "mget (mdrop_if p m) k = Some v \<longleftrightarrow> (k, v) \<in> set (mdrop_if p m)" for v
    using gm.entries_lookup [OF map_ok_mdrop_if [OF assms]] by blast
  also have "(k, v) \<in> set (mdrop_if p m) \<longleftrightarrow> (k, v) \<in> set m \<and> \<not> p k v" for v
    by (auto simp: mdrop_if_def)
  also have "(k, v) \<in> set m \<longleftrightarrow> mget m k = Some v" for v
    by (rule gm.entries_lookup [OF assms])
  finally have eq: "mget (mdrop_if p m) k = Some v \<longleftrightarrow> mget m k = Some v \<and> \<not> p k v" for v .
  show ?thesis
  proof (cases "mget m k")
    case None
    then have "\<nexists>v. mget (mdrop_if p m) k = Some v" by (simp add: eq)
    with None show ?thesis by simp
  next
    case (Some v)
    show ?thesis
    proof (cases "p k v")
      case True
      with Some have "\<nexists>v. mget (mdrop_if p m) k = Some v" by (simp add: eq)
      with Some True show ?thesis by simp
    next
      case False
      with Some have "mget (mdrop_if p m) k = Some v" by (simp add: eq)
      with Some False show ?thesis by simp
    qed
  qed
qed

lemma map_ok_put [intro]: "map_ok m \<Longrightarrow> map_ok (mput k v m)"
  by (rule gm.invar_put)

lemma map_ok_del [intro]: "map_ok m \<Longrightarrow> map_ok (mdel k m)"
  by (rule gm.invar_del)

lemma map_ok_entry: "map_ok m \<Longrightarrow> (k, v) \<in> set m \<longleftrightarrow> mget m k = Some v"
  by (rule gm.entries_lookup)

lemmas map_ok_intros = map_ok_Nil map_ok_put map_ok_del map_ok_put_all map_ok_del_owned
  map_ok_mdrop_if

section \<open>Sets written as \<open>map[K]struct{}\<close>\<close>

definition set_add :: "'a \<Rightarrow> 'a list \<Rightarrow> 'a list" where
  "set_add x xs = (if x \<in> set xs then xs else xs @ [x])"

lemma set_set_add [simp]: "set (set_add x xs) = insert x (set xs)"
  by (auto simp: set_add_def)

lemma distinct_set_add [simp]: "distinct (set_add x xs) = distinct xs"
  by (auto simp: set_add_def)

section \<open>Strings\<close>

text \<open>
  \<open>strings.TrimSpace\<close> removes the UTF-8 encodings of the Unicode \<open>White_Space\<close> runes
  from both ends.
\<close>

definition go_spaces :: "string list" where
  "go_spaces =
    [[CHR 0x09], [CHR 0x0A], [CHR 0x0B], [CHR 0x0C], [CHR 0x0D], [CHR 0x20],
     [CHR 0xC2, CHR 0x85], [CHR 0xC2, CHR 0xA0], [CHR 0xE1, CHR 0x9A, CHR 0x80],
     [CHR 0xE2, CHR 0x80, CHR 0x80], [CHR 0xE2, CHR 0x80, CHR 0x81],
     [CHR 0xE2, CHR 0x80, CHR 0x82], [CHR 0xE2, CHR 0x80, CHR 0x83],
     [CHR 0xE2, CHR 0x80, CHR 0x84], [CHR 0xE2, CHR 0x80, CHR 0x85],
     [CHR 0xE2, CHR 0x80, CHR 0x86], [CHR 0xE2, CHR 0x80, CHR 0x87],
     [CHR 0xE2, CHR 0x80, CHR 0x88], [CHR 0xE2, CHR 0x80, CHR 0x89],
     [CHR 0xE2, CHR 0x80, CHR 0x8A], [CHR 0xE2, CHR 0x80, CHR 0xA8],
     [CHR 0xE2, CHR 0x80, CHR 0xA9], [CHR 0xE2, CHR 0x80, CHR 0xAF],
     [CHR 0xE2, CHR 0x81, CHR 0x9F], [CHR 0xE3, CHR 0x80, CHR 0x80]]"

fun strip_prefix :: "'a list \<Rightarrow> 'a list \<Rightarrow> 'a list option" where
  "strip_prefix [] s = Some s"
| "strip_prefix (p # ps) [] = None"
| "strip_prefix (p # ps) (c # cs) = (if p = c then strip_prefix ps cs else None)"

fun strip_first :: "'a list list \<Rightarrow> 'a list \<Rightarrow> 'a list option" where
  "strip_first [] s = None"
| "strip_first (w # ws) s =
     (case strip_prefix w s of Some t \<Rightarrow> Some t | None \<Rightarrow> strip_first ws s)"

function trim_with :: "'a list list \<Rightarrow> 'a list \<Rightarrow> 'a list" where
  "trim_with ws s =
     (case strip_first ws s of
        None \<Rightarrow> s
      | Some t \<Rightarrow> if length t < length s then trim_with ws t else s)"
  by pat_completeness auto
termination
  by (relation "measure (\<lambda>(ws, s). length s)") auto

declare trim_with.simps [simp del]

definition go_trim_left :: "string \<Rightarrow> string" where
  "go_trim_left s = trim_with go_spaces s"

definition go_trim_right :: "string \<Rightarrow> string" where
  "go_trim_right s = rev (trim_with (map rev go_spaces) (rev s))"

definition go_trim_space :: "string \<Rightarrow> string" where
  "go_trim_space s = go_trim_right (go_trim_left s)"

lemma strip_prefix_Some: "strip_prefix p s = Some t \<longleftrightarrow> s = p @ t"
  by (induction p s rule: strip_prefix.induct) auto

lemma strip_first_Some: "strip_first ws s = Some t \<Longrightarrow> \<exists>w \<in> set ws. s = w @ t"
  by (induction ws s rule: strip_first.induct) (auto simp: strip_prefix_Some split: option.splits)

lemma strip_prefix_None: "strip_prefix p s = None \<longleftrightarrow> \<not> prefix p s"
  by (induction p s rule: strip_prefix.induct) auto

lemma strip_first_None: "strip_first ws s = None \<longleftrightarrow> (\<forall>w \<in> set ws. \<not> prefix w s)"
  by (induction ws s rule: strip_first.induct) (auto simp: strip_prefix_None strip_prefix_Some split: option.splits)

lemma trim_with_idem: "trim_with ws (trim_with ws s) = trim_with ws s"
proof (induction ws s rule: trim_with.induct)
  case (1 ws s)
  show ?case
  proof (cases "\<exists>t. strip_first ws s = Some t \<and> length t < length s")
    case True
    then show ?thesis using 1 by (auto simp: trim_with.simps [of ws s])
  next
    case False
    then have "trim_with ws s = s" by (auto simp: trim_with.simps [of ws s] split: option.splits)
    then show ?thesis by simp
  qed
qed

lemma trim_with_suffix: "suffix (trim_with ws s) s"
proof (induction ws s rule: trim_with.induct)
  case (1 ws s)
  show ?case
  proof (cases "strip_first ws s")
    case None
    then show ?thesis by (simp add: trim_with.simps [of ws s])
  next
    case (Some t)
    then have "suffix t s" by (auto dest: strip_first_Some simp: suffix_def)
    then show ?thesis using 1 Some
      by (auto simp: trim_with.simps [of ws s] intro: suffix_order.trans)
  qed
qed

text \<open>Text that begins and ends with a visible ASCII character is not changed.\<close>

definition plain_char :: "char \<Rightarrow> bool" where
  "plain_char c \<longleftrightarrow> 32 < (of_char c :: nat) \<and> (of_char c :: nat) < 127"

lemma trim_with_plain:
  assumes "\<forall>w \<in> set ws. w \<noteq> [] \<and> \<not> plain_char (hd w)" "plain_char (hd s)" "s \<noteq> []"
  shows "trim_with ws s = s"
proof -
  have "strip_first ws s = None"
    unfolding strip_first_None using assms by (metis hd_append2 prefix_def)
  then show ?thesis by (simp add: trim_with.simps [of ws s])
qed

lemma go_spaces_plain:
  "\<forall>w \<in> set go_spaces. w \<noteq> [] \<and> \<not> plain_char (hd w)" "\<forall>w \<in> set (map rev go_spaces). w \<noteq> [] \<and> \<not> plain_char (hd w)"
  by (simp_all add: go_spaces_def plain_char_def)

lemma go_trim_plain:
  assumes "s \<noteq> []" "plain_char (hd s)" "plain_char (last s)"
  shows "go_trim_space s = s"
proof -
  have "trim_with go_spaces s = s" using assms by (intro trim_with_plain [OF go_spaces_plain(1)])
  moreover have "trim_with (map rev go_spaces) (rev s) = rev s"
    using assms by (intro trim_with_plain [OF go_spaces_plain(2)]) (simp_all add: hd_rev)
  ultimately show ?thesis by (simp add: go_trim_space_def go_trim_left_def go_trim_right_def)
qed

lemma go_trim_Nil [simp]: "go_trim_space [] = []"
proof -
  have "strip_first ws [] = None" if "\<forall>w \<in> set ws. w \<noteq> []" for ws :: "string list"
    using that by (simp add: strip_first_None)
  then have "trim_with ws [] = []" if "\<forall>w \<in> set ws. w \<noteq> []" for ws :: "string list"
    using that by (simp add: trim_with.simps [of ws])
  then show ?thesis using go_spaces_plain by (simp add: go_trim_space_def go_trim_left_def go_trim_right_def)
qed

text \<open>\<open>strings.Split\<close> with a one-byte separator.\<close>

fun go_split :: "char \<Rightarrow> string \<Rightarrow> string list" where
  "go_split c [] = [[]]"
| "go_split c (x # xs) =
     (if x = c then [] # go_split c xs
      else case go_split c xs of p # ps \<Rightarrow> (x # p) # ps | [] \<Rightarrow> [[x]])"

lemma go_split_not_Nil [simp]: "go_split c s \<noteq> []"
  by (induction c s rule: go_split.induct) (auto split: list.splits)

lemma go_split_sep_free: "p \<in> set (go_split c s) \<Longrightarrow> c \<notin> set p"
  by (induction c s arbitrary: p rule: go_split.induct) (auto split: list.splits if_splits)

lemma go_split_plain: "c \<notin> set s \<Longrightarrow> go_split c s = [s]"
  by (induction c s rule: go_split.induct) auto

lemma go_split_append: "c \<notin> set s \<Longrightarrow> go_split c (s @ c # t) = s # go_split c t"
  by (induction s) auto

section \<open>Results\<close>

text \<open>\<open>if err != nil { return err }\<close>: sequencing of fallible steps.\<close>

definition rbind :: "'e + 'a \<Rightarrow> ('a \<Rightarrow> 'e + 'b) \<Rightarrow> 'e + 'b" where
  "rbind r f = (case r of Inl e \<Rightarrow> Inl e | Inr x \<Rightarrow> f x)"

lemma rbind_simps [simp]: "rbind (Inl e) f = Inl e" "rbind (Inr x) f = f x"
  by (simp_all add: rbind_def)

lemma rbind_Inr: "rbind r f = Inr y \<longleftrightarrow> (\<exists>x. r = Inr x \<and> f x = Inr y)"
  by (cases r) auto

lemma find_Some_iff2: "find p xs = Some x \<Longrightarrow> x \<in> set xs \<and> p x"
  by (auto simp: find_Some_iff)

lemma find_least:
  assumes "sorted xs" "find P xs = Some x" "y \<in> set xs" "P y"
  shows "x \<le> (y :: 'a :: linorder)"
  using assms by (induction xs) (auto split: if_splits)

section \<open>Searching strings\<close>

definition go_has_prefix :: "string \<Rightarrow> string \<Rightarrow> bool" where
  "go_has_prefix s p \<longleftrightarrow> take (length p) s = p"

definition go_has_suffix :: "string \<Rightarrow> string \<Rightarrow> bool" where
  "go_has_suffix s p \<longleftrightarrow> length p \<le> length s \<and> drop (length s - length p) s = p"

definition go_contains :: "string \<Rightarrow> string \<Rightarrow> bool" where
  "go_contains s p \<longleftrightarrow> list_ex (\<lambda>i. go_has_prefix (drop i s) p) [0..<Suc (length s)]"

text \<open>\<open>strings.SplitN(s, sep, 2)\<close> for one separating byte: the parts before and after its first occurrence.\<close>

definition go_cut :: "char \<Rightarrow> string \<Rightarrow> (string \<times> string) option" where
  "go_cut c s = (case dropWhile (\<lambda>x. x \<noteq> c) s of [] \<Rightarrow> None | _ # r \<Rightarrow> Some (takeWhile (\<lambda>x. x \<noteq> c) s, r))"

lemma go_has_prefix_append [simp]: "go_has_prefix (p @ s) p"
  by (simp add: go_has_prefix_def)

lemma go_has_prefix_iff: "go_has_prefix s p \<longleftrightarrow> (\<exists>r. s = p @ r)"
  unfolding go_has_prefix_def by (metis append_take_drop_id append_eq_conv_conj)

lemma go_has_suffix_iff: "go_has_suffix s p \<longleftrightarrow> (\<exists>r. s = r @ p)"
proof
  assume "go_has_suffix s p"
  then have "s = take (length s - length p) s @ p" by (metis append_take_drop_id go_has_suffix_def)
  then show "\<exists>r. s = r @ p" by blast
qed (auto simp: go_has_suffix_def)

lemma go_contains_iff: "go_contains s p \<longleftrightarrow> (\<exists>a b. s = a @ p @ b)"
proof
  assume "go_contains s p"
  then obtain i b where "drop i s = p @ b" by (auto simp: go_contains_def list_ex_iff go_has_prefix_iff)
  then have "s = take i s @ p @ b" by (metis append_take_drop_id)
  then show "\<exists>a b. s = a @ p @ b" by blast
next
  assume "\<exists>a b. s = a @ p @ b"
  then obtain a b where "s = a @ p @ b" by blast
  then have "go_has_prefix (drop (length a) s) p" "length a \<in> set [0..<Suc (length s)]" by simp_all
  then show "go_contains s p" unfolding go_contains_def list_ex_iff by blast
qed

lemma go_cut_append: "c \<notin> set a \<Longrightarrow> go_cut c (a @ c # b) = Some (a, b)"
  by (simp add: go_cut_def dropWhile_append takeWhile_append)

end
