(* ===== verification/Job_Resources.thy ===== *)
theory Job_Resources
  imports Prelude "HOL-Library.Word"
begin

text \<open>
  The typed resources of internal/jobs/resource.go, their conflict matrix and the lock table
  of internal/jobs/service.go (\<open>lockMany\<close>, \<open>ReplaceResources\<close>, \<open>unlockAll\<close>).  Every
  operation on the table runs under the service mutex, so an operation is one atomic step
  and an execution of concurrent jobs is a sequence of such steps (\<open>lock_step\<close>).
\<close>

section \<open>Resources\<close>

datatype ResourceKind =
    ResourceKindGlobal
  | ResourceKindDockerDaemon
  | ResourceKindDockerRegistry
  | ResourceKindSelfUpdate
  | ResourceKindImageUpdates
  | ResourceKindStack
  | ResourceKindBackupRepository
  | ResourceKindOther "8 word" \<comment> \<open>a \<open>uint8\<close> that is none of the constants, as the zero value\<close>

record Resource =
  res_kind :: ResourceKind
  res_id :: string

definition GlobalResource :: Resource where
  "GlobalResource = \<lparr>res_kind = ResourceKindGlobal, res_id = ''''\<rparr>"

definition DockerDaemonResource :: Resource where
  "DockerDaemonResource = \<lparr>res_kind = ResourceKindDockerDaemon, res_id = ''''\<rparr>"

definition DockerRegistryResource :: Resource where
  "DockerRegistryResource = \<lparr>res_kind = ResourceKindDockerRegistry, res_id = ''''\<rparr>"

definition SelfUpdateResource :: Resource where
  "SelfUpdateResource = \<lparr>res_kind = ResourceKindSelfUpdate, res_id = ''''\<rparr>"

definition ImageUpdatesResource :: Resource where
  "ImageUpdatesResource = \<lparr>res_kind = ResourceKindImageUpdates, res_id = ''''\<rparr>"

definition StackResource :: "string \<Rightarrow> Resource" where
  "StackResource stackID = \<lparr>res_kind = ResourceKindStack, res_id = go_trim_space stackID\<rparr>"

definition BackupRepositoryResource :: "string \<Rightarrow> Resource" where
  "BackupRepositoryResource key = \<lparr>res_kind = ResourceKindBackupRepository, res_id = go_trim_space key\<rparr>"

definition zero_resource :: Resource where
  "zero_resource = \<lparr>res_kind = ResourceKindOther 0, res_id = ''''\<rparr>"

fun StackResources :: "string list \<Rightarrow> Resource list" where
  "StackResources [] = []"
| "StackResources (stackID # stackIDs) =
     (let resource = StackResource stackID
      in if res_id resource \<noteq> '''' then resource # StackResources stackIDs else StackResources stackIDs)"

definition resource_string :: "Resource \<Rightarrow> string" where
  "resource_string r =
     (case res_kind r of
        ResourceKindGlobal \<Rightarrow> ''global''
      | ResourceKindDockerDaemon \<Rightarrow> ''docker-daemon''
      | ResourceKindDockerRegistry \<Rightarrow> ''docker-registry''
      | ResourceKindSelfUpdate \<Rightarrow> ''self-update''
      | ResourceKindImageUpdates \<Rightarrow> ''image-updates''
      | ResourceKindStack \<Rightarrow> ''stack:'' @ res_id r
      | ResourceKindBackupRepository \<Rightarrow> ''backup-repository:'' @ res_id r
      | ResourceKindOther _ \<Rightarrow> ''invalid'')"

datatype ConflictReason = ConflictReasonResourceHeld | ConflictReasonDrainActive | ConflictReasonDrainBlocked

datatype job_error =
    ErrInvalidResource Resource
  | ErrResourcesRequired
  | ResourceConflictError ConflictReason Resource Resource string \<comment> \<open>requested, conflicting, holder\<close>
  | ErrLeaseNotActive
  | IndexPanic \<comment> \<open>\<open>resources[0]\<close> of an empty slice\<close>

definition validate :: "Resource \<Rightarrow> job_error option" where
  "validate r =
     (case res_kind r of
        ResourceKindStack \<Rightarrow> if res_id r = '''' then Some (ErrInvalidResource r) else None
      | ResourceKindBackupRepository \<Rightarrow> if res_id r = '''' then Some (ErrInvalidResource r) else None
      | ResourceKindOther _ \<Rightarrow> Some (ErrInvalidResource r)
      | _ \<Rightarrow> if res_id r \<noteq> '''' then Some (ErrInvalidResource r) else None)"

definition ResourcesConflict :: "Resource \<Rightarrow> Resource \<Rightarrow> bool" where
  "ResourcesConflict left right =
     (if left = right then True
      else if res_kind left = ResourceKindBackupRepository \<or> res_kind right = ResourceKindBackupRepository
        then False
      else if res_kind left = ResourceKindGlobal \<or> res_kind right = ResourceKindGlobal then True
      else if res_kind left = ResourceKindDockerDaemon \<or> res_kind right = ResourceKindDockerDaemon then
        (let other = (if res_kind left \<noteq> ResourceKindDockerDaemon then res_kind left else res_kind right)
         in other = ResourceKindStack \<or> other = ResourceKindDockerRegistry)
      else if res_kind left = ResourceKindDockerRegistry \<or> res_kind right = ResourceKindDockerRegistry then
        (let other = (if res_kind left \<noteq> ResourceKindDockerRegistry then res_kind left else res_kind right)
         in other = ResourceKindStack)
      else False)"

text \<open>The loop of \<open>normalizeResources\<close> that validates and collects the requested set.\<close>

fun collect_resources :: "Resource list \<Rightarrow> Resource list \<Rightarrow> job_error + Resource list" where
  "collect_resources unique [] = Inr unique"
| "collect_resources unique (resource # requested) =
     (case validate resource of
        Some err \<Rightarrow> Inl err
      | None \<Rightarrow> collect_resources (set_add resource unique) requested)"

definition normalizeResources :: "string \<Rightarrow> Resource list \<Rightarrow> job_error + Resource list" where
  "normalizeResources stackID requested =
     (let unique0 = (if go_trim_space stackID \<noteq> '''' then [StackResource stackID] else [])
      in case collect_resources unique0 requested of
           Inl err \<Rightarrow> Inl err
         | Inr unique \<Rightarrow>
             if unique = [] then Inl ErrResourcesRequired
             else let unique' = (if GlobalResource \<in> set unique
                                 then filter (\<lambda>r. \<not> (r \<noteq> GlobalResource \<and> res_kind r \<noteq> ResourceKindBackupRepository)) unique
                                 else unique)
                  in Inr (sort_key resource_string unique'))"

section \<open>The lock table\<close>

record lock_table =
  lockedByResource :: "(Resource, string) gomap"
  resourcesByJob :: "(string, Resource list) gomap"
  drainingJobID :: string
  drainingResource :: Resource

definition empty_locks :: lock_table where
  "empty_locks = \<lparr>lockedByResource = [], resourcesByJob = [], drainingJobID = '''', drainingResource = zero_resource\<rparr>"

text \<open>\<open>firstLockedResourceLocked\<close>: the held resource with the least name.\<close>

definition pick_first :: "(Resource \<times> string) option \<Rightarrow> Resource \<times> string \<Rightarrow> (Resource \<times> string) option" where
  "pick_first selected entry =
     (case selected of
        None \<Rightarrow> Some entry
      | Some best \<Rightarrow> if resource_string (fst entry) < resource_string (fst best) then Some entry else selected)"

definition firstLockedResourceLocked :: "lock_table \<Rightarrow> (Resource \<times> string) option" where
  "firstLockedResourceLocked s = foldl pick_first None (lockedByResource s)"

text \<open>The nested loops that look for a held resource in conflict with a requested one.\<close>

fun first_conflict ::
  "(Resource \<Rightarrow> Resource \<times> string \<Rightarrow> bool) \<Rightarrow> Resource list \<Rightarrow> (Resource, string) gomap \<Rightarrow>
    (Resource \<times> Resource \<times> string) option" where
  "first_conflict p [] held = None"
| "first_conflict p (requested # rest) held =
     (case find (p requested) held of
        Some (conflicting, holder) \<Rightarrow> Some (requested, conflicting, holder)
      | None \<Rightarrow> first_conflict p rest held)"

definition head_error :: "Resource list \<Rightarrow> (Resource \<Rightarrow> job_error) \<Rightarrow> job_error" where
  "head_error resources mk = (case resources of [] \<Rightarrow> IndexPanic | r # _ \<Rightarrow> mk r)"

definition lockMany :: "string \<Rightarrow> Resource list \<Rightarrow> bool \<Rightarrow> lock_table \<Rightarrow> job_error + lock_table" where
  "lockMany jobID resources draining s =
     (if drainingJobID s \<noteq> '''' \<and> drainingJobID s \<noteq> jobID
      then Inl (head_error resources (\<lambda>r. ResourceConflictError ConflictReasonDrainActive r
                  (drainingResource s) (drainingJobID s)))
      else case (if draining then firstLockedResourceLocked s else None) of
        Some (conflicting, conflictingJobID) \<Rightarrow>
          Inl (head_error resources (\<lambda>r. ResourceConflictError ConflictReasonDrainBlocked r
                 conflicting conflictingJobID))
      | None \<Rightarrow>
          (case first_conflict (\<lambda>requested (conflicting, currentJobID).
                   currentJobID \<noteq> '''' \<and> currentJobID \<noteq> jobID \<and> ResourcesConflict requested conflicting)
                 resources (lockedByResource s) of
             Some (requested, conflicting, holder) \<Rightarrow>
               Inl (ResourceConflictError ConflictReasonResourceHeld requested conflicting holder)
           | None \<Rightarrow>
               let s' = s\<lparr>lockedByResource := mput_all resources jobID (lockedByResource s),
                          resourcesByJob := mput jobID resources (resourcesByJob s)\<rparr>
               in if draining
                  then (case resources of
                          [] \<Rightarrow> Inl IndexPanic
                        | r # _ \<Rightarrow> Inr (s'\<lparr>drainingJobID := jobID, drainingResource := r\<rparr>))
                  else Inr s'))"

definition ReplaceResources :: "string \<Rightarrow> Resource list \<Rightarrow> lock_table \<Rightarrow> job_error + lock_table" where
  "ReplaceResources jobID requested s =
     (case normalizeResources '''' requested of
        Inl err \<Rightarrow> Inl err
      | Inr resources \<Rightarrow>
          (case mget (resourcesByJob s) jobID of
             None \<Rightarrow> Inl ErrLeaseNotActive
           | Some old \<Rightarrow>
               if drainingJobID s \<noteq> '''' \<and> drainingJobID s \<noteq> jobID
               then Inl (head_error resources (\<lambda>r. ResourceConflictError ConflictReasonDrainActive r
                           (drainingResource s) (drainingJobID s)))
               else (case first_conflict (\<lambda>requested (resource, holder).
                              holder \<noteq> jobID \<and> ResourcesConflict requested resource)
                            resources (lockedByResource s) of
                  Some (requested, resource, holder) \<Rightarrow>
                    Inl (ResourceConflictError ConflictReasonResourceHeld requested resource holder)
                | None \<Rightarrow>
                    let s' = s\<lparr>lockedByResource :=
                                 mput_all resources jobID (mdel_owned old jobID (lockedByResource s)),
                               resourcesByJob := mput jobID resources (resourcesByJob s)\<rparr>
                    in Inr (if drainingJobID s = jobID
                            then s'\<lparr>drainingJobID := '''', drainingResource := zero_resource\<rparr>
                            else s'))))"

definition unlockAll :: "string \<Rightarrow> lock_table \<Rightarrow> lock_table" where
  "unlockAll jobID s =
     (let s1 = (if drainingJobID s = jobID
                then s\<lparr>drainingJobID := '''', drainingResource := zero_resource\<rparr> else s)
      in case mget (resourcesByJob s1) jobID of
           None \<Rightarrow> s1
         | Some resources \<Rightarrow>
             s1\<lparr>lockedByResource := mdel_owned resources jobID (lockedByResource s1),
                resourcesByJob := mdel jobID (resourcesByJob s1)\<rparr>)"

section \<open>The conflict matrix\<close>

lemma ResourcesConflict_refl [simp]: "ResourcesConflict r r"
  by (simp add: ResourcesConflict_def)

lemma ResourcesConflict_sym: "ResourcesConflict a b \<longleftrightarrow> ResourcesConflict b a"
  by (auto simp: ResourcesConflict_def Let_def)

lemma validate_cases:
  "validate r = None \<longleftrightarrow>
     (case res_kind r of
        ResourceKindStack \<Rightarrow> res_id r \<noteq> ''''
      | ResourceKindBackupRepository \<Rightarrow> res_id r \<noteq> ''''
      | ResourceKindOther _ \<Rightarrow> False
      | _ \<Rightarrow> res_id r = '''')"
  by (auto simp: validate_def split: ResourceKind.splits)

text \<open>Valid resources are named apart, so sorting by name has one result.\<close>

lemma resource_string_inject:
  assumes "validate a = None" "validate b = None" "resource_string a = resource_string b"
  shows "a = b"
proof -
  have "res_kind a = res_kind b \<and> res_id a = res_id b"
    using assms by (auto simp: validate_cases resource_string_def split: ResourceKind.splits)
  then show ?thesis by (intro Resource.equality) auto
qed

section \<open>Normalisation of a request\<close>

text \<open>What a caller asks for: the stack of the job, if any, and the listed resources.\<close>

definition requested_set :: "string \<Rightarrow> Resource list \<Rightarrow> Resource set" where
  "requested_set stackID requested =
     (if go_trim_space stackID \<noteq> '''' then {StackResource stackID} else {}) \<union> set requested"

lemma collect_resources_spec:
  assumes "collect_resources u rs = Inr v"
  shows "(\<forall>r \<in> set rs. validate r = None) \<and> set v = set u \<union> set rs \<and> (distinct u \<longrightarrow> distinct v)"
  using assms
  by (induction u rs rule: collect_resources.induct) (auto split: option.splits)

lemma collect_resources_total:
  "\<forall>r \<in> set rs. validate r = None \<Longrightarrow> \<exists>v. collect_resources u rs = Inr v"
  by (induction u rs rule: collect_resources.induct) auto

lemma collect_resources_Inl:
  "collect_resources u rs = Inl e \<Longrightarrow> \<exists>r \<in> set rs. e = ErrInvalidResource r \<and> validate r = Some e"
  by (induction u rs rule: collect_resources.induct)
    (auto split: option.splits, auto simp: validate_def split: ResourceKind.splits if_splits)

lemma normalizeResources_spec:
  assumes "normalizeResources sid rs = Inr res"
  shows "res \<noteq> []" "distinct res" "sorted (map resource_string res)"
    "\<forall>r \<in> set rs. validate r = None" "\<forall>r \<in> set res. validate r = None"
    "set res = (if GlobalResource \<in> requested_set sid rs
       then {r \<in> requested_set sid rs. r = GlobalResource \<or> res_kind r = ResourceKindBackupRepository}
       else requested_set sid rs)"
proof -
  let ?u0 = "if go_trim_space sid \<noteq> '''' then [StackResource sid] else []"
  obtain u where u: "collect_resources ?u0 rs = Inr u" "u \<noteq> []"
    and res: "res = sort_key resource_string (if GlobalResource \<in> set u
      then filter (\<lambda>r. \<not> (r \<noteq> GlobalResource \<and> res_kind r \<noteq> ResourceKindBackupRepository)) u else u)"
    using assms by (auto simp: normalizeResources_def Let_def split: sum.splits if_splits)
  have sp: "\<forall>r \<in> set rs. validate r = None" "set u = requested_set sid rs" "distinct u"
    using collect_resources_spec [OF u(1)] by (auto simp: requested_set_def split: if_splits)
  show "\<forall>r \<in> set rs. validate r = None" by (rule sp(1))
  show set_res: "set res = (if GlobalResource \<in> requested_set sid rs
       then {r \<in> requested_set sid rs. r = GlobalResource \<or> res_kind r = ResourceKindBackupRepository}
       else requested_set sid rs)"
    using res sp(2) by auto
  show "res \<noteq> []" using res u(2) by (auto simp: filter_empty_conv simp flip: set_empty split: if_splits)
  show "distinct res" using res sp(3) by (auto simp: distinct_sort)
  show "sorted (map resource_string res)" using res by simp
  have "validate (StackResource sid) = None" if "go_trim_space sid \<noteq> ''''"
    using that by (simp add: StackResource_def validate_def)
  then show "\<forall>r \<in> set res. validate r = None"
    using set_res sp(1) by (auto simp: requested_set_def split: if_splits)
qed

text \<open>Dropping what the global lock covers does not change what the request excludes.\<close>

lemma normalizeResources_conflicts:
  assumes "normalizeResources sid rs = Inr res"
  shows "(\<exists>x \<in> set res. ResourcesConflict r x) \<longleftrightarrow> (\<exists>x \<in> requested_set sid rs. ResourcesConflict r x)"
proof (cases "GlobalResource \<in> requested_set sid rs")
  case False
  then show ?thesis using normalizeResources_spec(6) [OF assms] by simp
next
  case True
  have "ResourcesConflict r GlobalResource"
    if "ResourcesConflict r x" "x \<noteq> GlobalResource" "res_kind x \<noteq> ResourceKindBackupRepository" for x
    using that by (auto simp: ResourcesConflict_def GlobalResource_def split: if_splits)
  with True show ?thesis using normalizeResources_spec(6) [OF assms] by auto
qed

text \<open>The normal form depends on the set asked for, not on the order or on map iteration.\<close>

lemma sort_key_unique:
  assumes "sorted (map f xs)" "sorted (map f ys)" "distinct xs" "distinct ys" "set xs = set ys"
    "inj_on f (set xs)"
  shows "xs = ys"
proof -
  have "map f xs = map f ys"
    using assms by (intro sorted_distinct_set_unique) (auto simp: distinct_map)
  then show ?thesis using assms(5,6) by (metis Un_absorb map_inj_on)
qed

lemma normalizeResources_canonical:
  assumes "normalizeResources sid rs = Inr res" "set rs' = set rs"
  shows "normalizeResources sid rs' = Inr res"
proof -
  let ?u0 = "if go_trim_space sid \<noteq> '''' then [StackResource sid] else []"
  obtain v where v: "collect_resources ?u0 rs' = Inr v"
    using collect_resources_total normalizeResources_spec(4) [OF assms(1)] assms(2) by metis
  have req: "requested_set sid rs' = requested_set sid rs"
    using assms(2) by (simp add: requested_set_def)
  have "requested_set sid rs \<noteq> {}"
    using normalizeResources_spec(1,6) [OF assms(1)] by (auto split: if_splits)
  then have "v \<noteq> []"
    using collect_resources_spec [OF v] req by (auto simp: requested_set_def split: if_splits)
  with v obtain res' where res': "normalizeResources sid rs' = Inr res'"
    by (simp add: normalizeResources_def Let_def)
  have "set res' = set res"
    using normalizeResources_spec(6) [OF assms(1)] normalizeResources_spec(6) [OF res'] req by simp
  moreover have "inj_on resource_string (set res')"
    using normalizeResources_spec(5) [OF res'] by (auto intro!: inj_onI resource_string_inject)
  ultimately have "res' = res"
    using normalizeResources_spec(2,3) [OF assms(1)] normalizeResources_spec(2,3) [OF res']
    by (intro sort_key_unique) auto
  with res' show ?thesis by simp
qed

section \<open>The lock table keeps its promises\<close>

definition holds :: "lock_table \<Rightarrow> string \<Rightarrow> Resource set" where
  "holds s j = (case mget (resourcesByJob s) j of None \<Rightarrow> {} | Some rs \<Rightarrow> set rs)"

definition lock_inv :: "lock_table \<Rightarrow> bool" where
  "lock_inv s \<longleftrightarrow>
     map_ok (lockedByResource s) \<and> map_ok (resourcesByJob s) \<and>
     (\<forall>r j. mget (lockedByResource s) r = Some j \<longleftrightarrow> r \<in> holds s j) \<and>
     (\<forall>j rs. mget (resourcesByJob s) j = Some rs \<longrightarrow> j \<noteq> '''' \<and> rs \<noteq> []) \<and>
     (\<forall>j j' r r'. j \<noteq> j' \<longrightarrow> r \<in> holds s j \<longrightarrow> r' \<in> holds s j' \<longrightarrow> \<not> ResourcesConflict r r') \<and>
     (drainingJobID s \<noteq> '''' \<longrightarrow> dom (mget (resourcesByJob s)) = {drainingJobID s})"

lemma lock_invI:
  assumes "map_ok (lockedByResource s)" "map_ok (resourcesByJob s)"
    and "\<And>r j. mget (lockedByResource s) r = Some j \<longleftrightarrow> r \<in> holds s j"
    and "\<And>j rs. mget (resourcesByJob s) j = Some rs \<Longrightarrow> j \<noteq> '''' \<and> rs \<noteq> []"
    and "\<And>j j' r r'. j \<noteq> j' \<Longrightarrow> r \<in> holds s j \<Longrightarrow> r' \<in> holds s j' \<Longrightarrow> \<not> ResourcesConflict r r'"
    and "drainingJobID s \<noteq> '''' \<Longrightarrow> dom (mget (resourcesByJob s)) = {drainingJobID s}"
  shows "lock_inv s"
  unfolding lock_inv_def using assms by blast

lemma lock_invD:
  assumes "lock_inv s"
  shows "map_ok (lockedByResource s)" "map_ok (resourcesByJob s)"
    "mget (lockedByResource s) r = Some j \<longleftrightarrow> r \<in> holds s j"
    "mget (resourcesByJob s) j = Some rs \<Longrightarrow> j \<noteq> '''' \<and> rs \<noteq> []"
    "j \<noteq> j' \<Longrightarrow> r \<in> holds s j \<Longrightarrow> r' \<in> holds s j' \<Longrightarrow> \<not> ResourcesConflict r r'"
    "drainingJobID s \<noteq> '''' \<Longrightarrow> dom (mget (resourcesByJob s)) = {drainingJobID s}"
  using assms unfolding lock_inv_def by simp_all

lemma lock_inv_empty: "lock_inv empty_locks"
  by (auto simp: lock_inv_def empty_locks_def holds_def)

lemma holds_iff: "r \<in> holds s j \<longleftrightarrow> (\<exists>rs. mget (resourcesByJob s) j = Some rs \<and> r \<in> set rs)"
  by (auto simp: holds_def split: option.splits)

lemma lock_inv_entry:
  assumes "lock_inv s"
  shows "(r, j) \<in> set (lockedByResource s) \<longleftrightarrow> r \<in> holds s j"
  using lock_invD(1,3) [OF assms] map_ok_entry by metis

lemma lock_inv_unique: "lock_inv s \<Longrightarrow> r \<in> holds s j \<Longrightarrow> r \<in> holds s k \<Longrightarrow> j = k"
  using lock_invD(5) [of s j k r r] by auto

text \<open>The search loops find a conflict exactly when there is one.\<close>

lemma first_conflict_None:
  "first_conflict p rs held = None \<longleftrightarrow> (\<forall>r \<in> set rs. \<forall>e \<in> set held. \<not> p r e)"
  by (induction p rs held rule: first_conflict.induct) (auto simp: find_None_iff find_Some_iff split: option.splits)

lemma first_conflict_Some:
  "first_conflict p rs held = Some (r, c, h) \<Longrightarrow> r \<in> set rs \<and> (c, h) \<in> set held \<and> p r (c, h)"
  by (induction p rs held rule: first_conflict.induct)
    (auto split: option.splits dest!: find_Some_iff2)

lemma pick_first_fold:
  "foldl pick_first sel m = None \<longleftrightarrow> sel = None \<and> m = []"
  by (induction m arbitrary: sel) (auto simp: pick_first_def split: option.splits)

lemma firstLocked_None: "firstLockedResourceLocked s = None \<longleftrightarrow> lockedByResource s = []"
  by (simp add: firstLockedResourceLocked_def pick_first_fold)

lemma lock_inv_no_locks:
  assumes "lock_inv s"
  shows "lockedByResource s = [] \<longleftrightarrow> (\<forall>j. mget (resourcesByJob s) j = None)"
proof
  assume e: "lockedByResource s = []"
  show "\<forall>j. mget (resourcesByJob s) j = None"
  proof (rule ccontr)
    assume "\<not> (\<forall>j. mget (resourcesByJob s) j = None)"
    then obtain j rs where "mget (resourcesByJob s) j = Some rs" by auto
    moreover from this obtain r where "r \<in> set rs"
      using lock_invD(4) [OF assms] by (cases rs) auto
    ultimately have "(r, j) \<in> set (lockedByResource s)"
      using lock_inv_entry [OF assms] holds_iff by blast
    with e show False by simp
  qed
next
  assume "\<forall>j. mget (resourcesByJob s) j = None"
  then have "(r, j) \<notin> set (lockedByResource s)" for r j
    by (simp add: lock_inv_entry [OF assms] holds_def)
  then show "lockedByResource s = []" by (cases "lockedByResource s") auto
qed

text \<open>What a successful \<open>lockMany\<close> is, and when it succeeds.\<close>

lemma lockMany_Inr:
  assumes "lockMany j rs dr s = Inr s'"
  shows "drainingJobID s = '''' \<or> drainingJobID s = j"
    "dr \<longrightarrow> lockedByResource s = []"
    "\<forall>r \<in> set rs. \<forall>(c, h) \<in> set (lockedByResource s).
       \<not> (h \<noteq> '''' \<and> h \<noteq> j \<and> ResourcesConflict r c)"
    "lockedByResource s' = mput_all rs j (lockedByResource s)"
    "resourcesByJob s' = mput j rs (resourcesByJob s)"
    "drainingJobID s' = (if dr then j else drainingJobID s)"
  using assms
  by (auto simp: lockMany_def Let_def first_conflict_None firstLocked_None
      split: if_splits option.splits list.splits)

lemma lockMany_succeeds:
  assumes "drainingJobID s = '''' \<or> drainingJobID s = j" "rs \<noteq> []"
    and "dr \<Longrightarrow> lockedByResource s = []"
    and "\<And>r c h. r \<in> set rs \<Longrightarrow> (c, h) \<in> set (lockedByResource s) \<Longrightarrow> h \<noteq> j \<Longrightarrow> \<not> ResourcesConflict r c"
  shows "\<exists>s'. lockMany j rs dr s = Inr s'"
proof -
  have "first_conflict (\<lambda>r (c, h). h \<noteq> '''' \<and> h \<noteq> j \<and> ResourcesConflict r c) rs (lockedByResource s) = None"
    using assms(4) by (auto simp: first_conflict_None)
  moreover have "(if dr then firstLockedResourceLocked s else None) = None"
    using assms(3) by (simp add: firstLocked_None)
  ultimately show ?thesis
    using assms(1,2) by (auto simp: lockMany_def Let_def split: list.splits)
qed

lemma holds_upd:
  "resourcesByJob s' = mput j rs (resourcesByJob s) \<Longrightarrow> holds s' = (holds s)(j := set rs)"
  by (rule ext) (simp add: holds_def mget_put)

lemma lockMany_holds: "lockMany j rs dr s = Inr s' \<Longrightarrow> holds s' = (holds s)(j := set rs)"
  by (intro holds_upd lockMany_Inr(5))

lemma lockMany_inv:
  assumes inv: "lock_inv s" and fresh: "j \<noteq> ''''" "mget (resourcesByJob s) j = None" and ne: "rs \<noteq> []"
    and ok: "lockMany j rs dr s = Inr s'"
  shows "lock_inv s'"
proof (rule lock_invI)
  note L = lockMany_Inr [OF ok] and I = lock_invD [OF inv]
  note H = lockMany_holds [OF ok]
  have hj: "holds s j = {}" using fresh(2) by (simp add: holds_def)
  have free: "\<not> ResourcesConflict r r'" if "r \<in> set rs" "r' \<in> holds s j'" "j' \<noteq> j" for r r' j'
  proof -
    have "(r', j') \<in> set (lockedByResource s)" using that(2) lock_inv_entry [OF inv] by simp
    moreover have "j' \<noteq> ''''" using that(2) I(4) by (auto simp: holds_iff)
    ultimately show ?thesis using L(3) that by auto
  qed
  have free_sym: "\<not> ResourcesConflict r' r" if "r \<in> set rs" "r' \<in> holds s j'" "j' \<noteq> j" for r r' j'
    using free [OF that] ResourcesConflict_sym by simp
  show "map_ok (lockedByResource s')" "map_ok (resourcesByJob s')"
    using I(1,2) by (auto simp: L(4,5))
  show "mget (lockedByResource s') r = Some k \<longleftrightarrow> r \<in> holds s' k" for r k
  proof (cases "r \<in> set rs")
    case True
    moreover have "k \<noteq> j \<Longrightarrow> r \<notin> holds s k" using free [OF True, of r k] by auto
    ultimately show ?thesis by (auto simp: H L(4) mget_put_all)
  next
    case False
    then show ?thesis using I(3) hj by (auto simp: H L(4) mget_put_all)
  qed
  show "k \<noteq> '''' \<and> ks \<noteq> []" if "mget (resourcesByJob s') k = Some ks" for k ks
    using that I(4) fresh ne by (auto simp: L(5) mget_put split: if_splits)
  show "\<not> ResourcesConflict r r'" if "k \<noteq> k'" "r \<in> holds s' k" "r' \<in> holds s' k'" for k k' r r'
    using that free free_sym I(5) unfolding H by (auto split: if_splits)
  show "dom (mget (resourcesByJob s')) = {drainingJobID s'}" if "drainingJobID s' \<noteq> ''''"
  proof (cases dr)
    case True
    then have "\<forall>k. mget (resourcesByJob s) k = None" using L(2) lock_inv_no_locks [OF inv] by simp
    with True show ?thesis by (simp add: L(5,6) mget_put dom_def)
  next
    case False
    with that L(1,6) have "drainingJobID s = j" by auto
    moreover from this have "j \<in> dom (mget (resourcesByJob s))" using I(6) fresh(1) by simp
    ultimately show ?thesis using fresh(2) by auto
  qed
qed

lemma ReplaceResources_Inr:
  assumes "ReplaceResources j rs s = Inr s'"
  obtains res old where "normalizeResources '''' rs = Inr res"
    "mget (resourcesByJob s) j = Some old"
    "drainingJobID s = '''' \<or> drainingJobID s = j"
    "\<forall>r \<in> set res. \<forall>e \<in> set (lockedByResource s). \<not> (case e of (c, h) \<Rightarrow> h \<noteq> j \<and> ResourcesConflict r c)"
    "lockedByResource s' = mput_all res j (mdel_owned old j (lockedByResource s))"
    "resourcesByJob s' = mput j res (resourcesByJob s)"
    "drainingJobID s' = (if drainingJobID s = j then '''' else drainingJobID s)"
  using assms
  by (auto simp: ReplaceResources_def Let_def first_conflict_None
      split: if_splits option.splits sum.splits)

lemma ReplaceResources_holds:
  assumes "ReplaceResources j rs s = Inr s'"
  obtains res where "normalizeResources '''' rs = Inr res" "holds s' = (holds s)(j := set res)"
  using assms by (elim ReplaceResources_Inr) (blast intro: holds_upd)

lemma ReplaceResources_inv:
  assumes inv: "lock_inv s" and ok: "ReplaceResources j rs s = Inr s'"
  shows "lock_inv s'"
proof -
  from ok obtain res old where R: "normalizeResources '''' rs = Inr res"
    "mget (resourcesByJob s) j = Some old" "drainingJobID s = '''' \<or> drainingJobID s = j"
    "\<forall>r \<in> set res. \<forall>e \<in> set (lockedByResource s). \<not> (case e of (c, h) \<Rightarrow> h \<noteq> j \<and> ResourcesConflict r c)"
    "lockedByResource s' = mput_all res j (mdel_owned old j (lockedByResource s))"
    "resourcesByJob s' = mput j res (resourcesByJob s)"
    "drainingJobID s' = (if drainingJobID s = j then '''' else drainingJobID s)"
    by (rule ReplaceResources_Inr)
  note H = holds_upd [OF R(6)] and I = lock_invD [OF inv]
  have old: "holds s j = set old" using R(2) by (simp add: holds_def)
  have ne: "j \<noteq> ''''" using I(4) R(2) by simp
  have free: "\<not> ResourcesConflict r r'" "\<not> ResourcesConflict r' r"
    if "r \<in> set res" "r' \<in> holds s k" "k \<noteq> j" for r r' k
  proof -
    have "(r', k) \<in> set (lockedByResource s)" using that(2) lock_inv_entry [OF inv] by simp
    then show "\<not> ResourcesConflict r r'" using R(4) that by auto
    then show "\<not> ResourcesConflict r' r" using ResourcesConflict_sym by simp
  qed
  show ?thesis
  proof (rule lock_invI)
    show "map_ok (lockedByResource s')" "map_ok (resourcesByJob s')"
      using I(1,2) by (auto simp: R(5,6))
    show "mget (lockedByResource s') r = Some k \<longleftrightarrow> r \<in> holds s' k" for r k
    proof (cases "r \<in> set res")
      case True
      moreover have "k \<noteq> j \<Longrightarrow> r \<notin> holds s k" using free(1) [OF True, of r k] by auto
      ultimately show ?thesis by (auto simp: H R(5) mget_put_all)
    next
      case False
      moreover have "k \<noteq> j \<Longrightarrow> r \<in> set old \<Longrightarrow> r \<notin> holds s k"
        using lock_inv_unique [OF inv, of r j k] old by blast
      ultimately show ?thesis using I(3) [of r k] I(3) [of r j] old
        by (auto simp: H R(5) mget_put_all mget_del_owned)
    qed
    show "k \<noteq> '''' \<and> ks \<noteq> []" if "mget (resourcesByJob s') k = Some ks" for k ks
      using that I(4) ne normalizeResources_spec(1) [OF R(1)]
      by (auto simp: R(6) mget_put split: if_splits)
    show "\<not> ResourcesConflict r r'" if "k \<noteq> k'" "r \<in> holds s' k" "r' \<in> holds s' k'" for k k' r r'
      using that free I(5) unfolding H by (auto split: if_splits)
    show "dom (mget (resourcesByJob s')) = {drainingJobID s'}" if "drainingJobID s' \<noteq> ''''"
      using that R(3) by (auto simp: R(7) split: if_splits)
  qed
qed

lemma unlockAll_fields:
  "drainingJobID (unlockAll j s) = (if drainingJobID s = j then '''' else drainingJobID s)"
  "resourcesByJob (unlockAll j s) = (if mget (resourcesByJob s) j = None then resourcesByJob s
     else mdel j (resourcesByJob s))"
  "lockedByResource (unlockAll j s) = (case mget (resourcesByJob s) j of None \<Rightarrow> lockedByResource s
     | Some rs \<Rightarrow> mdel_owned rs j (lockedByResource s))"
  by (auto simp: unlockAll_def Let_def split: option.splits)

lemma unlockAll_byJob: "mget (resourcesByJob (unlockAll j s)) = (mget (resourcesByJob s))(j := None)"
  by (auto simp: unlockAll_fields mget_del)

lemma unlockAll_holds: "holds (unlockAll j s) = (holds s)(j := {})"
  by (rule ext) (simp add: holds_def unlockAll_byJob)

lemma unlockAll_inv:
  assumes inv: "lock_inv s"
  shows "lock_inv (unlockAll j s)"
proof (rule lock_invI)
  note H = unlockAll_holds [of j s] and I = lock_invD [OF inv]
  show "map_ok (lockedByResource (unlockAll j s))" "map_ok (resourcesByJob (unlockAll j s))"
    using I(1,2) by (auto simp: unlockAll_fields split: option.splits)
  show "mget (lockedByResource (unlockAll j s)) r = Some k \<longleftrightarrow> r \<in> holds (unlockAll j s) k" for r k
  proof (cases "mget (resourcesByJob s) j")
    case None
    then show ?thesis using I(3) [of r k] by (auto simp: H unlockAll_fields holds_def)
  next
    case (Some rs)
    then have "holds s j = set rs" by (simp add: holds_def)
    moreover from this have "k \<noteq> j \<Longrightarrow> r \<in> set rs \<Longrightarrow> r \<notin> holds s k"
      using lock_inv_unique [OF inv, of r j k] by blast
    ultimately show ?thesis using Some I(3) [of r k] I(3) [of r j]
      by (auto simp: H unlockAll_fields mget_del_owned)
  qed
  show "k \<noteq> '''' \<and> ks \<noteq> []" if "mget (resourcesByJob (unlockAll j s)) k = Some ks" for k ks
    using that I(4) by (auto simp: unlockAll_byJob split: if_splits)
  show "\<not> ResourcesConflict r r'"
    if "k \<noteq> k'" "r \<in> holds (unlockAll j s) k" "r' \<in> holds (unlockAll j s) k'" for k k' r r'
    using that I(5) unfolding H by (auto split: if_splits)
  show "dom (mget (resourcesByJob (unlockAll j s))) = {drainingJobID (unlockAll j s)}"
    if "drainingJobID (unlockAll j s) \<noteq> ''''"
  proof -
    have "drainingJobID s \<noteq> '''' \<and> drainingJobID s \<noteq> j"
      using that by (simp add: unlockAll_fields(1) split: if_splits)
    moreover have "dom (mget (resourcesByJob (unlockAll j s))) = dom (mget (resourcesByJob s)) - {j}"
      unfolding unlockAll_byJob by (auto split: if_splits)
    ultimately show ?thesis using I(6) by (auto simp: unlockAll_fields(1))
  qed
qed

section \<open>The contract of an exclusive lock manager\<close>

text \<open>
  What the job service relies on: a job that holds nothing may acquire a set of resources
  that conflicts with nobody else's, releasing frees exactly the job's own resources, and
  holdings of different jobs never conflict.
\<close>

locale lock_manager =
  fixes inv :: "'s \<Rightarrow> bool"
    and opened :: "'s \<Rightarrow> bool" \<comment> \<open>no exclusive barrier is installed\<close>
    and owned :: "'s \<Rightarrow> 'j \<Rightarrow> 'r set"
    and conflict :: "'r \<Rightarrow> 'r \<Rightarrow> bool"
    and proper :: "'j \<Rightarrow> bool"
    and acquire :: "'j \<Rightarrow> 'r list \<Rightarrow> 's \<Rightarrow> 's option"
    and release :: "'j \<Rightarrow> 's \<Rightarrow> 's"
  assumes acquire_inv: "inv s \<Longrightarrow> proper j \<Longrightarrow> owned s j = {} \<Longrightarrow> rs \<noteq> [] \<Longrightarrow> acquire j rs s = Some s' \<Longrightarrow> inv s'"
    and acquire_owned: "acquire j rs s = Some s' \<Longrightarrow> owned s' = (owned s)(j := set rs)"
    and acquire_opened: "acquire j rs s = Some s' \<Longrightarrow> opened s \<Longrightarrow> opened s'"
    and release_inv: "inv s \<Longrightarrow> inv (release j s)"
    and release_owned: "owned (release j s) = (owned s)(j := {})"
    and release_opened: "opened s \<Longrightarrow> opened (release j s)"
    and exclusive: "inv s \<Longrightarrow> j \<noteq> j' \<Longrightarrow> r \<in> owned s j \<Longrightarrow> r' \<in> owned s j' \<Longrightarrow> \<not> conflict r r'"
    and available: "inv s \<Longrightarrow> opened s \<Longrightarrow> rs \<noteq> [] \<Longrightarrow>
      (\<And>r j' r'. r \<in> set rs \<Longrightarrow> j' \<noteq> j \<Longrightarrow> r' \<in> owned s j' \<Longrightarrow> \<not> conflict r r') \<Longrightarrow>
      \<exists>s'. acquire j rs s = Some s'"
    and conflict_refl: "conflict r r"
begin

lemma holder_unique: "inv s \<Longrightarrow> r \<in> owned s j \<Longrightarrow> r \<in> owned s j' \<Longrightarrow> j = j'"
  using exclusive [of s j j' r r] conflict_refl by blast

text \<open>Releasing the only holder in the way lets a waiting request through.\<close>

lemma release_enables:
  assumes "inv s" "opened s" "rs \<noteq> []"
    and "\<And>r k r'. r \<in> set rs \<Longrightarrow> k \<noteq> j \<Longrightarrow> k \<noteq> blocker \<Longrightarrow> r' \<in> owned s k \<Longrightarrow> \<not> conflict r r'"
  shows "\<exists>s'. acquire j rs (release blocker s) = Some s'"
proof (rule available)
  show "inv (release blocker s)" "opened (release blocker s)" "rs \<noteq> []"
    using assms release_inv release_opened by auto
  show "\<not> conflict r r'" if "r \<in> set rs" "k \<noteq> j" "r' \<in> owned (release blocker s) k" for r k r'
    using that assms(4) unfolding release_owned by (auto split: if_splits)
qed

text \<open>Acquiring and releasing leaves every other job's holdings alone.\<close>

lemma acquire_release_frame:
  assumes "acquire j rs s = Some s'" "owned s j = {}"
  shows "owned (release j s') = owned s"
  using assms(2) by (simp add: release_owned acquire_owned [OF assms(1)] fun_upd_idem)

end

definition acquire_job :: "string \<Rightarrow> Resource list \<Rightarrow> lock_table \<Rightarrow> lock_table option" where
  "acquire_job j rs s = (case lockMany j rs False s of Inl _ \<Rightarrow> None | Inr s' \<Rightarrow> Some s')"

lemma acquire_job_Some: "acquire_job j rs s = Some s' \<longleftrightarrow> lockMany j rs False s = Inr s'"
  by (auto simp: acquire_job_def split: sum.splits)

interpretation jl: lock_manager lock_inv "\<lambda>s. drainingJobID s = ''''" holds ResourcesConflict
  "\<lambda>j. j \<noteq> ''''" acquire_job unlockAll
proof (unfold_locales, goal_cases)
  case (1 s j rs s')
  have "mget (resourcesByJob s) j = None"
    using 1(3) lock_invD(4) [OF 1(1), of j] by (cases "mget (resourcesByJob s) j") (auto simp: holds_def)
  with 1 show ?case by (auto simp: acquire_job_Some intro: lockMany_inv)
next
  case (2 j rs s s')
  then show ?case by (simp add: acquire_job_Some lockMany_holds)
next
  case (3 j rs s s')
  then show ?case by (auto simp: acquire_job_Some dest: lockMany_Inr(6))
next
  case (4 s j)
  then show ?case by (rule unlockAll_inv)
next
  case (5 j s)
  show ?case by (rule unlockAll_holds)
next
  case (6 s j)
  then show ?case by (simp add: unlockAll_fields)
next
  case (7 s j j' r r')
  then show ?case by (rule lock_invD(5))
next
  case (8 s rs j)
  have "\<exists>s'. lockMany j rs False s = Inr s'"
    using 8 lock_inv_entry [OF 8(1)] by (intro lockMany_succeeds) auto
  then show ?case by (simp add: acquire_job_Some)
next
  case (9 r)
  show ?case by simp
qed

section \<open>Interleavings of concurrent jobs\<close>

text \<open>
  One step is one critical section of the service mutex.  Job ids are fresh random tokens,
  so a starting job holds nothing.
\<close>

inductive lock_step :: "lock_table \<Rightarrow> lock_table \<Rightarrow> bool" where
  step_lock: "\<lbrakk>j \<noteq> ''''; mget (resourcesByJob s) j = None; normalizeResources stackID requested = Inr rs;
     lockMany j rs draining s = Inr s'\<rbrakk> \<Longrightarrow> lock_step s s'"
| step_replace: "ReplaceResources j requested s = Inr s' \<Longrightarrow> lock_step s s'"
| step_unlock: "lock_step s (unlockAll j s)"

inductive lock_reachable :: "lock_table \<Rightarrow> bool" where
  reach_start: "lock_reachable empty_locks"
| reach_step: "lock_reachable s \<Longrightarrow> lock_step s s' \<Longrightarrow> lock_reachable s'"

lemma lock_step_inv: "lock_step s s' \<Longrightarrow> lock_inv s \<Longrightarrow> lock_inv s'"
  by (induction rule: lock_step.induct)
    (auto intro: lockMany_inv ReplaceResources_inv unlockAll_inv dest: normalizeResources_spec(1))

lemma lock_reachable_inv: "lock_reachable s \<Longrightarrow> lock_inv s"
  by (induction rule: lock_reachable.induct) (auto intro: lock_inv_empty lock_step_inv)

section \<open>What the lock table guarantees\<close>

text \<open>Over every interleaving of critical sections, resources held by different jobs never
  conflict.\<close>

theorem resource_mutual_exclusion:
  assumes "lock_reachable s" "j \<noteq> j'" "r \<in> holds s j" "r' \<in> holds s j'"
  shows "\<not> ResourcesConflict r r'"
  using jl.exclusive [OF lock_reachable_inv [OF assms(1)] assms(2-4)] .

definition example_locks :: lock_table where
  "example_locks = (case lockMany ''b'' [StackResource ''api''] False
     (case lockMany ''a'' [StackResource ''web''] False empty_locks of Inr s \<Rightarrow> s | Inl _ \<Rightarrow> empty_locks) of
       Inr s \<Rightarrow> s | Inl _ \<Rightarrow> empty_locks)"

lemma example_locks_eval:
  "lockMany ''a'' [StackResource ''web''] False empty_locks =
     Inr \<lparr>lockedByResource = [(StackResource ''web'', ''a'')], resourcesByJob = [(''a'', [StackResource ''web''])],
          drainingJobID = '''', drainingResource = zero_resource\<rparr>"
  "lockMany ''b'' [StackResource ''api''] False
     \<lparr>lockedByResource = [(StackResource ''web'', ''a'')], resourcesByJob = [(''a'', [StackResource ''web''])],
          drainingJobID = '''', drainingResource = zero_resource\<rparr> = Inr example_locks"
  "normalizeResources ''web'' [] = Inr [StackResource ''web'']"
  "normalizeResources ''api'' [] = Inr [StackResource ''api'']"
  "mget (resourcesByJob empty_locks) ''a'' = None"
  "holds example_locks ''a'' = {StackResource ''web''}" "holds example_locks ''b'' = {StackResource ''api''}"
  "drainingJobID example_locks = ''''"
  by code_simp+

lemma example_locks_reachable: "lock_reachable example_locks"
proof -
  let ?s = "\<lparr>lockedByResource = [(StackResource ''web'', ''a'')], resourcesByJob = [(''a'', [StackResource ''web''])],
          drainingJobID = '''', drainingResource = zero_resource\<rparr>"
  have "lock_step empty_locks ?s"
    by (rule step_lock [OF _ example_locks_eval(5,3,1)]) simp
  moreover have "lock_step ?s example_locks"
    by (rule step_lock [OF _ _ example_locks_eval(4,2)]) simp_all
  ultimately show ?thesis by (blast intro: lock_reachable.intros)
qed

theorem resource_mutual_exclusion_witness: "\<not> ResourcesConflict (StackResource ''web'') (StackResource ''api'')"
  using resource_mutual_exclusion [OF example_locks_reachable, of "''a''" "''b''" "StackResource ''web''" "StackResource ''api''"]
  by (simp add: example_locks_eval)

text \<open>A new job is admitted exactly when nothing in its request conflicts with what another
  job holds and no drain by another job is in force; a refusal leaves the table as it was and
  names a conflict that exists.\<close>

theorem admission_exact:
  assumes "lock_reachable s" "normalizeResources sid requested = Inr rs" "holds s j = {}"
  shows "(\<exists>s'. lockMany j rs False s = Inr s') \<longleftrightarrow>
    (drainingJobID s = '''' \<or> drainingJobID s = j) \<and>
    (\<forall>r \<in> requested_set sid requested. \<forall>k r'. r' \<in> holds s k \<longrightarrow> \<not> ResourcesConflict r r')"
proof -
  note inv = lock_reachable_inv [OF assms(1)]
  have conf: "(\<exists>r \<in> set rs. ResourcesConflict r r') \<longleftrightarrow> (\<exists>r \<in> requested_set sid requested. ResourcesConflict r r')" for r'
    using normalizeResources_conflicts [OF assms(2), of r'] ResourcesConflict_sym by metis
  show ?thesis
  proof
    assume "\<exists>s'. lockMany j rs False s = Inr s'"
    then obtain s' where L: "lockMany j rs False s = Inr s'" by blast
    have "\<not> ResourcesConflict r r'" if "r \<in> set rs" "r' \<in> holds s k" for r r' k
    proof -
      have "(r', k) \<in> set (lockedByResource s)" using that(2) lock_inv_entry [OF inv] by simp
      moreover have "k \<noteq> ''''" "k \<noteq> j" using that(2) lock_invD(4) [OF inv] assms(3) by (auto simp: holds_iff)
      ultimately show ?thesis using lockMany_Inr(3) [OF L] that(1) by auto
    qed
    then show "(drainingJobID s = '''' \<or> drainingJobID s = j) \<and>
      (\<forall>r \<in> requested_set sid requested. \<forall>k r'. r' \<in> holds s k \<longrightarrow> \<not> ResourcesConflict r r')"
      using lockMany_Inr(1) [OF L] conf by blast
  next
    assume A: "(drainingJobID s = '''' \<or> drainingJobID s = j) \<and>
      (\<forall>r \<in> requested_set sid requested. \<forall>k r'. r' \<in> holds s k \<longrightarrow> \<not> ResourcesConflict r r')"
    show "\<exists>s'. lockMany j rs False s = Inr s'"
    proof (rule lockMany_succeeds)
      show "\<not> ResourcesConflict r c" if "r \<in> set rs" "(c, h) \<in> set (lockedByResource s)" for r c h
        using that A conf [of c] lock_inv_entry [OF inv] by blast
    qed (use A normalizeResources_spec(1) [OF assms(2)] in auto)
  qed
qed

theorem admission_exact_witness:
  "(\<exists>s'. lockMany ''c'' [StackResource ''db''] False example_locks = Inr s') \<and>
   \<not> (\<exists>s'. lockMany ''c'' [GlobalResource] False example_locks = Inr s')"
proof -
  have e: "normalizeResources ''db'' [] = Inr [StackResource ''db'']" "normalizeResources '''' [GlobalResource] = Inr [GlobalResource]"
    "holds example_locks ''c'' = {}" "\<not> isl (lockMany ''c'' [StackResource ''db''] False example_locks)"
    by code_simp+
  then have "\<exists>s'. lockMany ''c'' [StackResource ''db''] False example_locks = Inr s'"
    by (cases "lockMany ''c'' [StackResource ''db''] False example_locks") auto
  moreover have "GlobalResource \<in> requested_set '''' [GlobalResource]" "StackResource ''web'' \<in> holds example_locks ''a''"
    "ResourcesConflict GlobalResource (StackResource ''web'')"
    by (simp add: requested_set_def, simp add: example_locks_eval, code_simp)
  ultimately show ?thesis
    using admission_exact [OF example_locks_reachable e(2,3)] by blast
qed

end
