(* ===== verification/Go_Time.thy ===== *)
theory Go_Time
  imports Prelude
begin

text \<open>
  Instants, durations and their text form.  A \<open>time.Time\<close> is the number of nanoseconds
  since Go's zero time, 0001-01-01T00:00:00Z, so that \<open>IsZero\<close> is equality with 0; wall
  clock and monotonic readings agree.  A \<open>time.Duration\<close> is a signed 64-bit number of
  nanoseconds, and \<open>Sub\<close> saturates at its bounds.  The store keeps instants as
  RFC 3339 text with nanoseconds and compares the text, so the calendar and the text layout
  are modelled as well, with the exact relation between text order and time order.
\<close>

type_synonym "time" = int
type_synonym duration = int

definition Nanosecond :: duration where "Nanosecond = 1"
definition Second :: duration where "Second = 1000000000"
definition Minute :: duration where "Minute = 60 * Second"
definition Hour :: duration where "Hour = 60 * Minute"

lemmas duration_defs = Nanosecond_def Second_def Minute_def Hour_def

definition min_duration :: duration where "min_duration = - (2 ^ 63)"
definition max_duration :: duration where "max_duration = 2 ^ 63 - 1"

definition time_sub :: "time \<Rightarrow> time \<Rightarrow> duration" where
  "time_sub t u = max min_duration (min max_duration (t - u))"

definition time_is_zero :: "time \<Rightarrow> bool" where
  "time_is_zero t \<longleftrightarrow> t = 0"

text \<open>Comparing a saturated difference with a 64-bit bound is comparing the difference.\<close>

lemma time_sub_le: "min_duration \<le> d \<Longrightarrow> d < max_duration \<Longrightarrow> time_sub t u \<le> d \<longleftrightarrow> t - u \<le> d"
  by (auto simp: time_sub_def min_duration_def max_duration_def)

lemma time_sub_ge: "min_duration < d \<Longrightarrow> d \<le> max_duration \<Longrightarrow> d \<le> time_sub t u \<longleftrightarrow> d \<le> t - u"
  by (auto simp: time_sub_def min_duration_def max_duration_def)

lemma time_sub_gt: "min_duration \<le> d \<Longrightarrow> d < max_duration \<Longrightarrow> d < time_sub t u \<longleftrightarrow> d < t - u"
  using time_sub_le [of d t u] by linarith

section \<open>Decimal numerals\<close>

definition digit :: "nat \<Rightarrow> char" where
  "digit n = char_of (48 + n mod 10)"

fun pad_dec :: "nat \<Rightarrow> nat \<Rightarrow> string" where
  "pad_dec 0 n = []"
| "pad_dec (Suc w) n = pad_dec w (n div 10) @ [digit n]"

lemma length_pad_dec [simp]: "length (pad_dec w n) = w"
  by (induction w n rule: pad_dec.induct) auto

lemma of_char_digit: "of_char (digit n) = (48 + n mod 10 :: nat)"
  unfolding digit_def by (subst of_char_of) (simp add: mod_less)

lemma digit_less: "digit a < digit b \<longleftrightarrow> a mod 10 < b mod 10"
  by (simp add: less_char_def of_char_digit)

lemma digit_eq: "digit a = digit b \<longleftrightarrow> a mod 10 = b mod 10"
proof
  assume "digit a = digit b"
  then have "(of_char (digit a) :: nat) = of_char (digit b)" by simp
  then show "a mod 10 = b mod 10" by (simp add: of_char_digit)
qed (simp add: digit_def)

text \<open>Lexicographic order of concatenations whose first parts have equal length.\<close>

lemma append_less_append:
  "length xs = length xs' \<Longrightarrow>
    (xs @ ys < xs' @ ys') \<longleftrightarrow> (xs < xs' \<or> xs = xs' \<and> ys < (ys' :: 'a :: order list))"
  by (induction xs xs' rule: list_induct2) auto

lemma pad_dec_less:
  "a < 10 ^ w \<Longrightarrow> b < 10 ^ w \<Longrightarrow> pad_dec w a < pad_dec w b \<longleftrightarrow> a < b"
  and pad_dec_eq: "a < 10 ^ w \<Longrightarrow> b < 10 ^ w \<Longrightarrow> pad_dec w a = pad_dec w b \<longleftrightarrow> a = b"
proof (induction w arbitrary: a b)
  case 0
  { case 1 then show ?case by simp }
  { case 2 then show ?case by simp }
next
  case (Suc w)
  have d: "x < 10 ^ Suc w \<Longrightarrow> x div 10 < 10 ^ w" for x :: nat by simp
  { case 2
    then have "pad_dec w (a div 10) = pad_dec w (b div 10) \<longleftrightarrow> a div 10 = b div 10"
      by (intro Suc.IH(2) d)
    then have "pad_dec (Suc w) a = pad_dec (Suc w) b \<longleftrightarrow> a div 10 = b div 10 \<and> a mod 10 = b mod 10"
      by (simp add: digit_eq)
    also have "\<dots> \<longleftrightarrow> a = b" by (metis div_mult_mod_eq)
    finally show ?case . }
  { case 1
    then have "pad_dec w (a div 10) = pad_dec w (b div 10) \<longleftrightarrow> a div 10 = b div 10"
      by (intro Suc.IH(2) d)
    moreover from 1 have "pad_dec w (a div 10) < pad_dec w (b div 10) \<longleftrightarrow> a div 10 < b div 10"
      by (intro Suc.IH(1) d)
    ultimately have "pad_dec (Suc w) a < pad_dec (Suc w) b \<longleftrightarrow>
        a div 10 < b div 10 \<or> a div 10 = b div 10 \<and> a mod 10 < b mod 10"
      by (simp add: append_less_append digit_less)
    also have "\<dots> \<longleftrightarrow> a < b"
      using div_mult_mod_eq [of a 10] div_mult_mod_eq [of b 10]
        mod_less_divisor [of 10 a] mod_less_divisor [of 10 b] by linarith
    finally show ?case . }
qed

section \<open>The Gregorian calendar\<close>

definition is_leap :: "nat \<Rightarrow> bool" where
  "is_leap y \<longleftrightarrow> y mod 4 = 0 \<and> (y mod 100 \<noteq> 0 \<or> y mod 400 = 0)"

text \<open>Days from 0001-01-01 to the first day of year \<open>Suc y\<close>.\<close>

definition days_before :: "nat \<Rightarrow> nat" where
  "days_before y = 365 * y + y div 4 - y div 100 + y div 400"

lemma days_before_Suc:
  "days_before (Suc y) = days_before y + (if is_leap (Suc y) then 366 else 365)"
proof -
  have "Suc y mod 400 = 0 \<Longrightarrow> Suc y mod 100 = 0"
    using dvd_trans [of 100 400 "Suc y"] by (simp add: dvd_eq_mod_eq_0 [symmetric])
  moreover have "Suc y mod 100 = 0 \<Longrightarrow> Suc y mod 4 = 0"
    using dvd_trans [of 4 100 "Suc y"] by (simp add: dvd_eq_mod_eq_0 [symmetric])
  moreover obtain k where "y div 4 = y div 100 + k"
    using div_le_mono2 [of 4 100 y] by (auto dest: le_Suc_ex)
  ultimately show ?thesis by (auto simp: days_before_def is_leap_def div_Suc)
qed

lemma days_before_ge: "y \<le> days_before y"
  by (induction y) (auto simp: days_before_Suc)

lemma days_before_le: "days_before y \<le> 366 * y"
proof (induction y)
  case 0
  show ?case by (simp add: days_before_def)
next
  case (Suc y)
  then show ?case by (simp add: days_before_Suc)
qed

lemma days_before_mono: "x \<le> y \<Longrightarrow> days_before x \<le> days_before y"
  by (induction y) (auto simp: days_before_Suc le_Suc_eq)

text \<open>The year (minus one) of a day number, by search from a lower estimate.\<close>

function year_search :: "nat \<Rightarrow> nat \<Rightarrow> nat" where
  "year_search d y = (if days_before (Suc y) \<le> d then year_search d (Suc y) else y)"
  by pat_completeness auto
termination
proof (relation "measure (\<lambda>(d, y). Suc d - y)")
  show "wf (measure (\<lambda>(d, y). Suc d - y))" by simp
next
  fix d y :: nat
  assume "days_before (Suc y) \<le> d"
  then have "Suc y \<le> d" using days_before_ge [of "Suc y"] by linarith
  then show "((d, Suc y), (d, y)) \<in> measure (\<lambda>(d, y). Suc d - y)" by simp
qed

declare year_search.simps [simp del]

definition year0_of_day :: "nat \<Rightarrow> nat" where
  "year0_of_day d = year_search d (d div 366)"

lemma year_search_spec:
  "days_before y \<le> d \<Longrightarrow>
    days_before (year_search d y) \<le> d \<and> d < days_before (Suc (year_search d y))"
proof (induction d y rule: year_search.induct)
  case (1 d y)
  show ?case
  proof (cases "days_before (Suc y) \<le> d")
    case True
    then show ?thesis using "1.IH" by (simp add: year_search.simps [of d y])
  next
    case False
    then show ?thesis using "1.prems" by (simp add: year_search.simps [of d y])
  qed
qed

lemma year0_of_day_spec:
  "days_before (year0_of_day d) \<le> d \<and> d < days_before (Suc (year0_of_day d))"
proof -
  have "days_before (d div 366) \<le> 366 * (d div 366)" by (rule days_before_le)
  also have "\<dots> \<le> d" by simp
  finally show ?thesis unfolding year0_of_day_def by (rule year_search_spec)
qed

lemma year0_of_day_mono: "d \<le> e \<Longrightarrow> year0_of_day d \<le> year0_of_day e"
proof (rule ccontr)
  assume "d \<le> e" and "\<not> year0_of_day d \<le> year0_of_day e"
  then have "days_before (Suc (year0_of_day e)) \<le> days_before (year0_of_day d)"
    by (intro days_before_mono) simp
  with year0_of_day_spec [of d] year0_of_day_spec [of e] \<open>d \<le> e\<close> show False by linarith
qed

definition month_lengths :: "bool \<Rightarrow> nat list" where
  "month_lengths leap = [31, if leap then 29 else 28, 31, 30, 31, 30, 31, 31, 30, 31, 30, 31]"

fun month_search :: "nat list \<Rightarrow> nat \<Rightarrow> nat \<Rightarrow> nat \<times> nat" where
  "month_search [] m d = (m, Suc d)"
| "month_search (l # ls) m d = (if d < l then (m, Suc d) else month_search ls (Suc m) (d - l))"

lemma month_search_ge: "m \<le> fst (month_search ls m d)"
  by (induction ls arbitrary: m d) (auto intro: Suc_leD)

lemma month_search_mono:
  "d < e \<Longrightarrow> fst (month_search ls m d) < fst (month_search ls m e) \<or>
     fst (month_search ls m d) = fst (month_search ls m e) \<and>
     snd (month_search ls m d) < snd (month_search ls m e)"
proof (induction ls m d arbitrary: e rule: month_search.induct)
  case (2 l ls m d)
  show ?case
  proof (cases "e < l")
    case True
    with 2 show ?thesis by simp
  next
    case e: False
    show ?thesis
    proof (cases "d < l")
      case True
      have "Suc m \<le> fst (month_search ls (Suc m) (e - l))" by (rule month_search_ge)
      with True e show ?thesis by simp
    next
      case False
      with e 2 show ?thesis by simp
    qed
  qed
qed simp

record civil =
  cyear :: nat
  cmonth :: nat
  cday :: nat

definition civil_of_day :: "nat \<Rightarrow> civil" where
  "civil_of_day d =
     (let y = year0_of_day d; (m, dd) = month_search (month_lengths (is_leap (Suc y))) 1 (d - days_before y)
      in \<lparr>cyear = Suc y, cmonth = m, cday = dd\<rparr>)"

lemma civil_of_day_mono:
  assumes "d < e"
  shows "cyear (civil_of_day d) < cyear (civil_of_day e) \<or>
    cyear (civil_of_day d) = cyear (civil_of_day e) \<and>
      (cmonth (civil_of_day d) < cmonth (civil_of_day e) \<or>
       cmonth (civil_of_day d) = cmonth (civil_of_day e) \<and>
       cday (civil_of_day d) < cday (civil_of_day e))"
proof -
  have "year0_of_day d \<le> year0_of_day e" using assms by (intro year0_of_day_mono) simp
  then consider "year0_of_day d < year0_of_day e" | "year0_of_day d = year0_of_day e" by linarith
  then show ?thesis
  proof cases
    case 1
    then show ?thesis by (simp add: civil_of_day_def Let_def split_beta)
  next
    case 2
    have "d - days_before (year0_of_day d) < e - days_before (year0_of_day e)"
      unfolding 2 [symmetric] using assms year0_of_day_spec [of d] by (intro diff_less_mono) simp_all
    from month_search_mono [OF this] 2 show ?thesis
      by (simp add: civil_of_day_def Let_def split_beta)
  qed
qed

section \<open>RFC 3339 text with nanoseconds\<close>

fun dec :: "nat \<Rightarrow> string" where
  "dec n = (if n < 10 then [digit n] else dec (n div 10) @ [digit n])"

declare dec.simps [simp del]

definition year_text :: "nat \<Rightarrow> string" where
  "year_text y = (if y < 10000 then pad_dec 4 y else dec y)"

definition date_text :: "nat \<Rightarrow> string" where
  "date_text d =
     (let c = civil_of_day d
      in year_text (cyear c) @ ''-'' @ pad_dec 2 (cmonth c) @ ''-'' @ pad_dec 2 (cday c))"

definition clock_text :: "nat \<Rightarrow> string" where
  "clock_text s = pad_dec 2 (s div 3600) @ '':'' @ pad_dec 2 (s mod 3600 div 60) @ '':'' @ pad_dec 2 (s mod 60)"

definition seconds_text :: "nat \<Rightarrow> string" where
  "seconds_text s = date_text (s div 86400) @ ''T'' @ clock_text (s mod 86400)"

definition strip_zeros :: "string \<Rightarrow> string" where
  "strip_zeros s = rev (dropWhile (\<lambda>c. c = CHR ''0'') (rev s))"

definition frac_text :: "nat \<Rightarrow> string" where
  "frac_text n = (if n = 0 then [] else CHR ''.'' # strip_zeros (pad_dec 9 n))"

text \<open>\<open>t.UTC().Format(time.RFC3339Nano)\<close>\<close>

definition rfc3339nano :: "time \<Rightarrow> string" where
  "rfc3339nano t = seconds_text (nat (t div Second)) @ frac_text (nat (t mod Second)) @ ''Z''"

text \<open>The comparisons of the store: SQLite compares text columns byte by byte.\<close>

definition ts_less :: "time \<Rightarrow> time \<Rightarrow> bool" where
  "ts_less t u \<longleftrightarrow> rfc3339nano t < rfc3339nano u"

definition ts_eq :: "time \<Rightarrow> time \<Rightarrow> bool" where
  "ts_eq t u \<longleftrightarrow> rfc3339nano t = rfc3339nano u"

text \<open>The instants whose year has four digits.\<close>

definition text_time :: "time \<Rightarrow> bool" where
  "text_time t \<longleftrightarrow> 0 \<le> t \<and> t < int (days_before 9999) * 86400 * Second"

lemma month_search_bounds:
  assumes "d < sum_list ls" "\<forall>l \<in> set ls. l \<le> 31"
  shows "fst (month_search ls m d) < m + length ls \<and> snd (month_search ls m d) \<le> 31"
  using assms
proof (induction ls m d rule: month_search.induct)
  case (2 l ls m d)
  show ?case
  proof (cases "d < l")
    case True
    with 2 show ?thesis by auto
  next
    case False
    with 2 have "fst (month_search ls (Suc m) (d - l)) < Suc m + length ls \<and>
        snd (month_search ls (Suc m) (d - l)) \<le> 31"
      by (intro "2.IH") auto
    with False show ?thesis by simp
  qed
qed simp

lemma civil_of_day_bounds:
  assumes "d < days_before 9999"
  shows "cyear (civil_of_day d) < 10000" "cmonth (civil_of_day d) < 13" "cday (civil_of_day d) < 32"
proof -
  let ?y = "year0_of_day d" and ?r = "d - days_before (year0_of_day d)"
  have "?y < 9999"
  proof (rule ccontr)
    assume "\<not> ?y < 9999"
    then have "days_before 9999 \<le> days_before ?y" by (intro days_before_mono) simp
    with assms year0_of_day_spec [of d] show False by linarith
  qed
  then show "cyear (civil_of_day d) < 10000" by (simp add: civil_of_day_def Let_def split_beta)
  have "?r < (if is_leap (Suc ?y) then 366 else 365)"
    using year0_of_day_spec [of d] by (auto simp: days_before_Suc)
  also have "\<dots> = sum_list (month_lengths (is_leap (Suc ?y)))" by (simp add: month_lengths_def)
  finally have "fst (month_search (month_lengths (is_leap (Suc ?y))) 1 ?r) <
        1 + length (month_lengths (is_leap (Suc ?y))) \<and>
      snd (month_search (month_lengths (is_leap (Suc ?y))) 1 ?r) \<le> 31"
    by (intro month_search_bounds) (auto simp: month_lengths_def)
  then show "cmonth (civil_of_day d) < 13" "cday (civil_of_day d) < 32"
    by (simp_all add: civil_of_day_def Let_def split_beta month_lengths_def)
qed

lemma date_text_mono:
  assumes "d < e" "e < days_before 9999"
  shows "date_text d < date_text e"
proof -
  have "d < days_before 9999" using assms by simp
  note b = civil_of_day_bounds [OF this] civil_of_day_bounds [OF assms(2)]
  show ?thesis using civil_of_day_mono [OF assms(1)] b
    by (auto simp: date_text_def Let_def year_text_def append_less_append pad_dec_less pad_dec_eq)
qed

lemma length_date_text: "d < days_before 9999 \<Longrightarrow> length (date_text d) = 10"
  using civil_of_day_bounds(1) [of d] by (simp add: date_text_def Let_def year_text_def)

lemma div_mod_less:
  assumes "a < b"
  shows "a div k < b div k \<or> a div k = b div k \<and> a mod k < b mod (k :: nat)"
proof (cases "a div k = b div k")
  case True
  then show ?thesis using assms div_mult_mod_eq [of a k] div_mult_mod_eq [of b k]
    by (metis nat_add_left_cancel_less)
next
  case False
  moreover have "a div k \<le> b div k" using assms by (simp add: div_le_mono)
  ultimately show ?thesis by simp
qed

lemma clock_text_mono:
  assumes "r < s" "s < 86400"
  shows "clock_text r < clock_text s"
proof -
  have "r div 3600 < s div 3600 \<or> r div 3600 = s div 3600 \<and> r mod 3600 < s mod 3600"
    using assms(1) by (rule div_mod_less)
  moreover have "r mod 3600 div 60 < s mod 3600 div 60 \<or>
      r mod 3600 div 60 = s mod 3600 div 60 \<and> r mod 3600 mod 60 < s mod 3600 mod 60"
    if "r mod 3600 < s mod 3600"
    using that by (rule div_mod_less)
  moreover have "x mod 3600 mod 60 = x mod 60" for x :: nat by (simp add: mod_mod_cancel)
  moreover have "r div 3600 < 10 ^ 2" "s div 3600 < 10 ^ 2"
    "r mod 3600 div 60 < 10 ^ 2" "s mod 3600 div 60 < 10 ^ 2" "r mod 60 < 10 ^ 2" "s mod 60 < 10 ^ 2"
    using assms mod_less_divisor [of 3600 r] mod_less_divisor [of 3600 s]
      mod_less_divisor [of 60 r] mod_less_divisor [of 60 s] by (simp_all add: less_mult_imp_div_less)
  ultimately show ?thesis
    by (auto simp: clock_text_def append_less_append pad_dec_less pad_dec_eq)
qed

lemma seconds_text_mono:
  assumes "r < s" "s < days_before 9999 * 86400"
  shows "seconds_text r < seconds_text s"
proof -
  have e: "s div 86400 < days_before 9999" using assms(2) by (simp add: less_mult_imp_div_less)
  have le: "r div 86400 \<le> s div 86400" using assms(1) by (simp add: div_le_mono)
  then have len: "length (date_text (r div 86400)) = length (date_text (s div 86400))"
    using e by (simp add: length_date_text)
  consider "r div 86400 < s div 86400" | "r div 86400 = s div 86400" using le by linarith
  then show ?thesis
  proof cases
    case 1
    then show ?thesis using date_text_mono [OF 1 e] len
      by (simp add: seconds_text_def append_less_append)
  next
    case 2
    then have "r mod 86400 < s mod 86400"
      using div_mod_less [OF assms(1), of 86400] by simp
    then have "clock_text (r mod 86400) < clock_text (s mod 86400)"
      by (intro clock_text_mono) auto
    with 2 show ?thesis by (simp add: seconds_text_def append_less_append)
  qed
qed

lemma length_seconds_text: "s < days_before 9999 * 86400 \<Longrightarrow> length (seconds_text s) = 19"
  by (simp add: seconds_text_def clock_text_def length_date_text less_mult_imp_div_less)

lemma text_time_seconds:
  assumes "text_time t"
  shows "nat (t div Second) < days_before 9999 * 86400"
proof -
  have "t div Second < int (days_before 9999) * 86400"
    using assms div_mult_mod_eq [of t Second] pos_mod_sign [of Second t]
    unfolding text_time_def Second_def by linarith
  then show ?thesis using assms by (simp add: text_time_def nat_less_iff pos_imp_zdiv_nonneg_iff Second_def)
qed

lemma ts_less_seconds:
  assumes "text_time t" "text_time u" "t div Second < u div Second"
  shows "ts_less t u"
proof -
  have "0 \<le> t div Second" using assms(1) by (simp add: text_time_def pos_imp_zdiv_nonneg_iff Second_def)
  then have "nat (t div Second) < nat (u div Second)" using assms(3) by simp
  then have "seconds_text (nat (t div Second)) < seconds_text (nat (u div Second))"
    by (intro seconds_text_mono text_time_seconds assms(2))
  then show ?thesis
    using text_time_seconds [OF assms(1)] text_time_seconds [OF assms(2)]
    by (simp add: ts_less_def rfc3339nano_def append_less_append length_seconds_text)
qed

lemma ts_less_irrefl [simp]: "\<not> ts_less t t"
  by (simp add: ts_less_def)

lemma ts_less_trans: "ts_less t u \<Longrightarrow> ts_less u v \<Longrightarrow> ts_less t v"
  unfolding ts_less_def by (rule less_trans)

lemma ts_less_asym: "ts_less t u \<Longrightarrow> \<not> ts_less u t"
  unfolding ts_less_def by (rule less_not_sym)

text \<open>Text order and time order agree on instants of different seconds.\<close>

lemma ts_less_iff:
  assumes "text_time t" "text_time u" "t div Second \<noteq> u div Second"
  shows "ts_less t u \<longleftrightarrow> t < u"
proof (cases "t div Second < u div Second")
  case True
  have "\<not> u \<le> t" using True zdiv_mono1 [of u t Second] by (auto simp: Second_def)
  then show ?thesis using ts_less_seconds [OF assms(1,2) True] by simp
next
  case False
  with assms(3) have less: "u div Second < t div Second" by simp
  then have "\<not> t \<le> u" using zdiv_mono1 [of t u Second] by (auto simp: Second_def)
  then show ?thesis using ts_less_asym ts_less_seconds [OF assms(2,1) less] by auto
qed

text \<open>A whole second of distance is enough.\<close>

lemma ts_less_gap:
  assumes "text_time t" "text_time u" "t + Second \<le> u"
  shows "ts_less t u"
proof (rule ts_less_seconds [OF assms(1,2)])
  have "(t + Second) div Second \<le> u div Second" using assms(3) by (intro zdiv_mono1) (auto simp: Second_def)
  then show "t div Second < u div Second" by (simp add: Second_def)
qed

text \<open>
  Within one second it does not: \<open>RFC3339Nano\<close> drops trailing zeros, and a fraction
  begins with a full stop, which sorts before the \<open>Z\<close> of a whole second.
\<close>

lemma ts_less_whole_second:
  assumes "0 \<le> t" "t mod Second = 0" "0 < n" "n < Second"
  shows "ts_less (t + n) t"
proof -
  have "(t + n) div Second = t div Second" "(t + n) mod Second = n"
    using assms by (auto simp: div_add1_eq mod_add_eq Second_def)
  then show ?thesis using assms
    by (simp add: ts_less_def rfc3339nano_def frac_text_def append_less_append less_char_def)
qed

text \<open>The text determines the instant, so comparing text for equality compares instants.\<close>

lemma strip_zeros_decomp: "\<exists>k. s = strip_zeros s @ replicate k (CHR ''0'')"
proof -
  let ?z = "\<lambda>c. c = CHR ''0''"
  have "takeWhile ?z (rev s) = replicate (length (takeWhile ?z (rev s))) (CHR ''0'')"
    by (intro replicate_eqI) (auto dest: set_takeWhileD)
  moreover have "s = rev (dropWhile ?z (rev s)) @ rev (takeWhile ?z (rev s))"
    by (metis rev_append rev_rev_ident takeWhile_dropWhile_id)
  ultimately show ?thesis unfolding strip_zeros_def by (metis rev_replicate)
qed

lemma strip_zeros_inject:
  assumes "length s = length s'" "strip_zeros s = strip_zeros s'"
  shows "s = s'"
proof -
  obtain k where k: "s = strip_zeros s @ replicate k (CHR ''0'')" using strip_zeros_decomp by blast
  obtain k' where k': "s' = strip_zeros s' @ replicate k' (CHR ''0'')" using strip_zeros_decomp by blast
  have "length s = length (strip_zeros s) + k" "length s' = length (strip_zeros s') + k'"
    by (subst k, simp) (subst k', simp)
  with assms have "k = k'" by simp
  with k k' assms(2) show ?thesis by metis
qed

lemma frac_text_inject:
  assumes "n < 1000000000" "m < 1000000000" "frac_text n = frac_text m"
  shows "n = m"
proof (cases "n = 0 \<or> m = 0")
  case True
  with assms(3) show ?thesis by (auto simp: frac_text_def split: if_splits)
next
  case False
  with assms(3) have "strip_zeros (pad_dec 9 n) = strip_zeros (pad_dec 9 m)"
    by (simp add: frac_text_def)
  then have "pad_dec 9 n = pad_dec 9 m" by (rule strip_zeros_inject [rotated]) simp
  then show ?thesis using assms(1,2) pad_dec_eq [of n 9 m] by simp
qed

lemma ts_eq_iff:
  assumes "text_time t" "text_time u"
  shows "ts_eq t u \<longleftrightarrow> t = u"
proof
  assume eq: "ts_eq t u"
  have sec: "t div Second = u div Second"
  proof (rule ccontr)
    assume "t div Second \<noteq> u div Second"
    then have "ts_less t u \<or> ts_less u t"
      using ts_less_seconds [OF assms] ts_less_seconds [OF assms(2,1)] by linarith
    with eq show False by (auto simp: ts_less_def ts_eq_def)
  qed
  have "frac_text (nat (t mod Second)) = frac_text (nat (u mod Second))"
    using eq sec by (simp add: ts_eq_def rfc3339nano_def)
  moreover have "nat (x mod Second) < 1000000000" for x
    using pos_mod_bound [of Second x] by (simp add: Second_def)
  ultimately have "nat (t mod Second) = nat (u mod Second)" by (intro frac_text_inject) auto
  then have "t mod Second = u mod Second"
    using pos_mod_sign [of Second t] pos_mod_sign [of Second u] by (simp add: Second_def)
  with sec show "t = u" by (metis div_mult_mod_eq)
qed (simp add: ts_eq_def)

end
