(* ===== verification/Job_Store.thy ===== *)
theory Job_Store
  imports Go_Time "HOL-Library.Product_Lexorder"
begin

text \<open>
  The \<open>jobs\<close> and \<open>job_events\<close> tables of internal/store/store.go.  A table is the list
  of its rows.  A nullable text column written through \<open>nullIfEmpty\<close> reads back as the
  same string, a workflow or step column written as JSON reads back as the same value, and a
  timestamp column is the text of an instant; the model keeps the decoded values and applies
  the text comparisons of \<open>Go_Time\<close> where SQL compares columns.

  SQLite may fail at any statement.  Each operation takes a \<open>fault\<close>: \<open>Some e\<close> stands
  for a failing statement or commit, after which the transaction has been rolled back and
  the tables are unchanged.
\<close>

type_synonym fault = "string option"

record JobWorkflowStep =
  ws_action :: string
  ws_state :: string
  ws_target_stack :: string
  ws_services :: "string list"

record Job =
  job_id :: string
  job_stack :: string
  job_action :: string
  job_state :: string
  job_requested_by :: string
  job_request_id :: string
  job_requested_at :: "time"
  job_started_at :: "time option"
  job_finished_at :: "time option"
  job_workflow :: "JobWorkflowStep list option"
  job_error_code :: string
  job_error_message :: string

record JobEventStep =
  es_index :: int
  es_total :: int
  es_action :: string
  es_state :: string
  es_target_stack :: string
  es_services :: "string list"

record JobProgress =
  pr_phase :: string
  pr_completed :: int
  pr_total :: int
  pr_unit :: string
  pr_detail :: string

record JobEvent =
  ev_job :: string
  ev_seq :: int
  ev_event :: string
  ev_state :: string
  ev_message :: string
  ev_data :: string
  ev_step :: "JobEventStep option"
  ev_progress :: "JobProgress option"
  ev_time :: "time"

text \<open>A row of \<open>jobs\<close>: the job and its \<open>event_sequence\<close> counter.\<close>

record job_row =
  row_job :: Job
  row_seq :: int

record job_db =
  db_jobs :: "job_row list"
  db_events :: "JobEvent list"

datatype store_error =
    ErrStoreNotFound
  | ErrPasswordVersionChanged
  | ErrSessionChanged
  | ErrStore string

definition active_states :: "string list" where
  "active_states = [''queued'', ''running'', ''cancel_requested'']"

abbreviation row_id :: "job_row \<Rightarrow> string" where
  "row_id r \<equiv> job_id (row_job r)"

definition find_job :: "string \<Rightarrow> job_db \<Rightarrow> job_row option" where
  "find_job jid db = find (\<lambda>r. row_id r = jid) (db_jobs db)"

text \<open>\<open>UPDATE jobs SET ... WHERE id = ?\<close>\<close>

definition map_job :: "string \<Rightarrow> (job_row \<Rightarrow> job_row) \<Rightarrow> job_db \<Rightarrow> job_db" where
  "map_job jid f db = db\<lparr>db_jobs := map (\<lambda>r. if row_id r = jid then f r else r) (db_jobs db)\<rparr>"

section \<open>Operations\<close>

definition createJob :: "fault \<Rightarrow> Job \<Rightarrow> job_db \<Rightarrow> store_error + job_db" where
  "createJob io job db =
     (case io of
        Some e \<Rightarrow> Inl (ErrStore e)
      | None \<Rightarrow>
          if find_job (job_id job) db \<noteq> None then Inl (ErrStore ''UNIQUE constraint failed: jobs.id'')
          else Inr (db\<lparr>db_jobs := db_jobs db @ [\<lparr>row_job = job, row_seq = 0\<rparr>]\<rparr>))"

definition event_key :: "JobEvent \<Rightarrow> string \<times> int" where
  "event_key e = (ev_job e, ev_seq e)"

definition createJobEvent :: "fault \<Rightarrow> JobEvent \<Rightarrow> job_db \<Rightarrow> store_error + job_db" where
  "createJobEvent io event db =
     (case io of
        Some e \<Rightarrow> Inl (ErrStore e)
      | None \<Rightarrow>
          if event_key event \<in> event_key ` set (db_events db)
          then Inl (ErrStore ''UNIQUE constraint failed: job_events'')
          else Inr (db\<lparr>db_events := db_events db @ [event]\<rparr>))"

definition CreateJobWithInitialEvent :: "fault \<Rightarrow> Job \<Rightarrow> JobEvent \<Rightarrow> job_db \<Rightarrow> store_error + job_db" where
  "CreateJobWithInitialEvent io job event db =
     (if ev_job event \<noteq> job_id job \<or> ev_seq event \<noteq> 1
      then Inl (ErrStore ''initial job event must use the job id and sequence 1'')
      else case createJob io job db of
        Inl err \<Rightarrow> Inl err
      | Inr db1 \<Rightarrow> createJobEvent io event (map_job (job_id job) (\<lambda>r. r\<lparr>row_seq := 1\<rparr>) db1))"

text \<open>The columns an update statement writes.\<close>

definition update_columns :: "Job \<Rightarrow> Job \<Rightarrow> Job" where
  "update_columns job old =
     old\<lparr>job_state := job_state job, job_started_at := job_started_at job,
         job_finished_at := job_finished_at job, job_workflow := job_workflow job,
         job_error_code := job_error_code job, job_error_message := job_error_message job\<rparr>"

definition updateJob :: "fault \<Rightarrow> Job \<Rightarrow> string list option \<Rightarrow> job_db \<Rightarrow> store_error + (bool \<times> job_db)" where
  "updateJob io job states db =
     (case io of
        Some e \<Rightarrow> Inl (ErrStore e)
      | None \<Rightarrow>
          (case find_job (job_id job) db of
             None \<Rightarrow> Inr (False, db)
           | Some row \<Rightarrow>
               if (case states of None \<Rightarrow> True | Some ss \<Rightarrow> job_state (row_job row) \<in> set ss)
               then Inr (True, map_job (job_id job) (\<lambda>r. r\<lparr>row_job := update_columns job (row_job r)\<rparr>) db)
               else Inr (False, db)))"

definition UpdateJob :: "fault \<Rightarrow> Job \<Rightarrow> job_db \<Rightarrow> store_error + job_db" where
  "UpdateJob io job db =
     (case updateJob io job None db of
        Inl err \<Rightarrow> Inl err
      | Inr (updated, db') \<Rightarrow> if updated then Inr db' else Inl ErrStoreNotFound)"

definition UpdateJobIfStateIn :: "fault \<Rightarrow> Job \<Rightarrow> string list \<Rightarrow> job_db \<Rightarrow> store_error + (bool \<times> job_db)" where
  "UpdateJobIfStateIn io job states db =
     (if states = [] then Inr (False, db) else updateJob io job (Some states) db)"

definition UpdateJobWorkflow :: "fault \<Rightarrow> string \<Rightarrow> JobWorkflowStep list option \<Rightarrow> job_db \<Rightarrow> store_error + job_db" where
  "UpdateJobWorkflow io jid workflow db =
     (case io of
        Some e \<Rightarrow> Inl (ErrStore e)
      | None \<Rightarrow>
          if find_job jid db = None then Inl ErrStoreNotFound
          else Inr (map_job jid (\<lambda>r. r\<lparr>row_job := (row_job r)\<lparr>job_workflow := workflow\<rparr>\<rparr>) db))"

text \<open>The loop that numbers and inserts the events of a transition.\<close>

fun insert_events :: "int \<Rightarrow> JobEvent list \<Rightarrow> job_db \<Rightarrow> store_error + (JobEvent list \<times> job_db)" where
  "insert_events seq [] db = Inr ([], db)"
| "insert_events seq (event # events) db =
     (let event' = event\<lparr>ev_seq := seq\<rparr>
      in case createJobEvent None event' db of
           Inl err \<Rightarrow> Inl err
         | Inr db' \<Rightarrow>
             (case insert_events (seq + 1) events db' of
                Inl err \<Rightarrow> Inl err
              | Inr (committed, db'') \<Rightarrow> Inr (event' # committed, db'')))"

definition TransitionJobWithEvents ::
  "fault \<Rightarrow> Job \<Rightarrow> string list \<Rightarrow> JobEvent list \<Rightarrow> job_db \<Rightarrow> store_error + (bool \<times> JobEvent list \<times> job_db)" where
  "TransitionJobWithEvents io job allowedStates events db =
     (if allowedStates = [] \<or> events = []
      then Inl (ErrStore ''job transition requires allowed states and events'')
      else if \<exists>event \<in> set events. ev_job event \<noteq> job_id job \<or> ev_state event \<noteq> job_state job
      then Inl (ErrStore ''job transition event must match job id and state'')
      else case io of
        Some e \<Rightarrow> Inl (ErrStore e)
      | None \<Rightarrow>
          (case find_job (job_id job) db of
             None \<Rightarrow> Inr (False, [], db)
           | Some row \<Rightarrow>
               if job_state (row_job row) \<notin> set allowedStates then Inr (False, [], db)
               else
                 let db1 = map_job (job_id job)
                       (\<lambda>r. r\<lparr>row_job := update_columns job (row_job r),
                              row_seq := row_seq r + int (length events)\<rparr>) db;
                     lastSequence = row_seq row + int (length events);
                     firstSequence = lastSequence - int (length events) + 1
                 in case insert_events firstSequence events db1 of
                      Inl err \<Rightarrow> Inl err
                    | Inr (committed, db2) \<Rightarrow> Inr (True, committed, db2)))"

definition JobByID :: "fault \<Rightarrow> string \<Rightarrow> job_db \<Rightarrow> store_error + Job" where
  "JobByID io jid db =
     (case io of
        Some e \<Rightarrow> Inl (ErrStore e)
      | None \<Rightarrow> (case find_job jid db of None \<Rightarrow> Inl ErrStoreNotFound | Some row \<Rightarrow> Inr (row_job row)))"

definition job_order_key :: "Job \<Rightarrow> string \<times> string" where
  "job_order_key job =
     (rfc3339nano (case job_started_at job of Some t \<Rightarrow> t | None \<Rightarrow> job_requested_at job),
      rfc3339nano (job_requested_at job))"

definition ListActiveJobs :: "fault \<Rightarrow> job_db \<Rightarrow> store_error + Job list" where
  "ListActiveJobs io db =
     (case io of
        Some e \<Rightarrow> Inl (ErrStore e)
      | None \<Rightarrow> Inr (rev (sort_key job_order_key
                  (filter (\<lambda>job. job_state job \<in> set active_states) (map row_job (db_jobs db))))))"

definition NextJobEventSequence :: "fault \<Rightarrow> string \<Rightarrow> job_db \<Rightarrow> store_error + int" where
  "NextJobEventSequence io jid db =
     (case io of
        Some e \<Rightarrow> Inl (ErrStore e)
      | None \<Rightarrow>
          (case map ev_seq (filter (\<lambda>e. ev_job e = jid) (db_events db)) of
             [] \<Rightarrow> Inr 1
           | s # ss \<Rightarrow> Inr (fold max ss s + 1)))"

definition AppendJobEvent :: "fault \<Rightarrow> JobEvent \<Rightarrow> job_db \<Rightarrow> store_error + (JobEvent \<times> job_db)" where
  "AppendJobEvent io event db =
     (case io of
        Some e \<Rightarrow> Inl (ErrStore e)
      | None \<Rightarrow>
          (case find_job (ev_job event) db of
             None \<Rightarrow> Inl ErrStoreNotFound
           | Some row \<Rightarrow>
               let event' = event\<lparr>ev_seq := row_seq row + 1, ev_state := job_state (row_job row)\<rparr>
               in case createJobEvent None event'
                         (map_job (ev_job event) (\<lambda>r. r\<lparr>row_seq := row_seq r + 1\<rparr>) db) of
                    Inl err \<Rightarrow> Inl err
                  | Inr db' \<Rightarrow> Inr (event', db')))"

definition CreateJobEvent :: "fault \<Rightarrow> JobEvent \<Rightarrow> job_db \<Rightarrow> store_error + job_db" where
  "CreateJobEvent io event db =
     (case createJobEvent io event db of
        Inl err \<Rightarrow> Inl err
      | Inr db1 \<Rightarrow> Inr (map_job (ev_job event) (\<lambda>r. r\<lparr>row_seq := max (row_seq r) (ev_seq event)\<rparr>) db1))"

definition ListJobEvents :: "fault \<Rightarrow> string \<Rightarrow> job_db \<Rightarrow> store_error + JobEvent list" where
  "ListJobEvents io jid db =
     (case io of
        Some e \<Rightarrow> Inl (ErrStore e)
      | None \<Rightarrow> Inr (sort_key ev_seq (filter (\<lambda>e. ev_job e = jid) (db_events db))))"

definition LatestJobEvent :: "fault \<Rightarrow> string \<Rightarrow> job_db \<Rightarrow> store_error + JobEvent option" where
  "LatestJobEvent io jid db =
     (case io of
        Some e \<Rightarrow> Inl (ErrStore e)
      | None \<Rightarrow>
          (case rev (sort_key ev_seq (filter (\<lambda>e. ev_job e = jid) (db_events db))) of
             [] \<Rightarrow> Inr None
           | e # _ \<Rightarrow> Inr (Some e)))"

section \<open>Row access\<close>

lemma find_job_SomeD: "find_job jid db = Some r \<Longrightarrow> r \<in> set (db_jobs db) \<and> row_id r = jid"
  by (auto simp: find_job_def find_Some_iff in_set_conv_nth)

lemma find_job_None_iff: "find_job jid db = None \<longleftrightarrow> jid \<notin> row_id ` set (db_jobs db)"
  by (auto simp: find_job_def find_None_iff)

lemma find_job_unique:
  assumes "distinct (map row_id (db_jobs db))" "r \<in> set (db_jobs db)"
  shows "find_job (row_id r) db = Some r"
proof -
  obtain r' where r': "find_job (row_id r) db = Some r'"
    using assms(2) find_job_None_iff [of "row_id r" db] by fastforce
  then have "r' \<in> set (db_jobs db)" "row_id r' = row_id r" by (auto dest: find_job_SomeD)
  with assms have "r' = r" by (auto simp: distinct_map inj_on_def)
  with r' show ?thesis by simp
qed

lemma find_map_update:
  assumes "\<And>r. row_id (f r) = row_id r"
  shows "find (\<lambda>r. row_id r = j) (map (\<lambda>r. if row_id r = jid then f r else r) rs) =
         map_option (\<lambda>r. if j = jid then f r else r) (find (\<lambda>r. row_id r = j) rs)"
  using assms by (induction rs) auto

lemma find_job_map_job:
  assumes "\<And>r. row_id (f r) = row_id r"
  shows "find_job j (map_job jid f db) = map_option (\<lambda>r. if j = jid then f r else r) (find_job j db)"
  using find_map_update [OF assms] by (simp add: find_job_def map_job_def)

lemma map_job_ids:
  assumes "\<And>r. row_id (f r) = row_id r"
  shows "map row_id (db_jobs (map_job jid f db)) = map row_id (db_jobs db)"
  using assms by (simp add: map_job_def)

lemma map_job_events [simp]: "db_events (map_job jid f db) = db_events db"
  by (simp add: map_job_def)

lemma find_job_events_update [simp]: "find_job j (db\<lparr>db_events := evs\<rparr>) = find_job j db"
  by (simp add: find_job_def)

lemma find_job_append:
  "find_job j (db\<lparr>db_jobs := db_jobs db @ [r]\<rparr>) =
     (case find_job j db of None \<Rightarrow> if row_id r = j then Some r else None | Some r' \<Rightarrow> Some r')"
proof -
  have "find P (xs @ [y]) = (case find P xs of None \<Rightarrow> if P y then Some y else None | Some z \<Rightarrow> Some z)"
    for P :: "job_row \<Rightarrow> bool" and xs y
    by (induction xs) auto
  then show ?thesis by (simp add: find_job_def)
qed

lemma update_columns_id [simp]: "job_id (update_columns job old) = job_id old"
  by (simp add: update_columns_def)

lemma update_columns_state [simp]: "job_state (update_columns job old) = job_state job"
  by (simp add: update_columns_def)

section \<open>The table invariant\<close>

text \<open>
  Job ids are unique, every event belongs to a stored job, the events of a job have
  distinct sequence numbers, and none exceeds the job's counter.
\<close>

definition event_bound :: "job_db \<Rightarrow> JobEvent \<Rightarrow> bool" where
  "event_bound db e \<longleftrightarrow>
     (case find_job (ev_job e) db of None \<Rightarrow> False | Some r \<Rightarrow> 1 \<le> ev_seq e \<and> ev_seq e \<le> row_seq r)"

definition db_inv :: "job_db \<Rightarrow> bool" where
  "db_inv db \<longleftrightarrow>
     distinct (map row_id (db_jobs db)) \<and>
     distinct (map event_key (db_events db)) \<and>
     (\<forall>r \<in> set (db_jobs db). 0 \<le> row_seq r) \<and>
     (\<forall>e \<in> set (db_events db). event_bound db e)"

definition empty_db :: job_db where
  "empty_db = \<lparr>db_jobs = [], db_events = []\<rparr>"

lemma db_inv_empty [simp]: "db_inv empty_db"
  by (simp add: db_inv_def empty_db_def)

lemma db_invD:
  assumes "db_inv db"
  shows "distinct (map row_id (db_jobs db))" "distinct (map event_key (db_events db))"
    "\<And>r. r \<in> set (db_jobs db) \<Longrightarrow> 0 \<le> row_seq r"
    "\<And>e. e \<in> set (db_events db) \<Longrightarrow> event_bound db e"
  using assms by (auto simp: db_inv_def)

lemma db_inv_find_seq:
  "db_inv db \<Longrightarrow> find_job jid db = Some r \<Longrightarrow> 0 \<le> row_seq r"
  by (auto dest: find_job_SomeD simp: db_inv_def)

lemma db_inv_events_below:
  assumes "db_inv db" "find_job jid db = Some r" "e \<in> set (db_events db)" "ev_job e = jid"
  shows "1 \<le> ev_seq e" "ev_seq e \<le> row_seq r"
  using db_invD(4) [OF assms(1,3)] assms(2,4) by (auto simp: event_bound_def)

lemma db_inv_no_job_no_events:
  "db_inv db \<Longrightarrow> find_job jid db = None \<Longrightarrow> e \<in> set (db_events db) \<Longrightarrow> ev_job e \<noteq> jid"
  by (auto simp: db_inv_def event_bound_def)

lemma map_job_set:
  "r' \<in> set (db_jobs (map_job jid f db)) \<longleftrightarrow>
     (\<exists>r \<in> set (db_jobs db). r' = (if row_id r = jid then f r else r))"
proof -
  have "set (db_jobs (map_job jid f db)) = (\<lambda>r. if row_id r = jid then f r else r) ` set (db_jobs db)"
    by (simp add: map_job_def)
  then show ?thesis by (simp only: image_iff)
qed

lemma db_inv_map_job:
  assumes "db_inv db" "\<And>r. row_id (f r) = row_id r" "\<And>r. row_seq r \<le> row_seq (f r)"
  shows "db_inv (map_job jid f db)"
proof -
  have "event_bound (map_job jid f db) e" if "event_bound db e" for e
    using that assms(3) order_trans
    by (fastforce simp: event_bound_def find_job_map_job [OF assms(2)] split: option.splits)
  moreover have "0 \<le> row_seq r'" if "r' \<in> set (db_jobs (map_job jid f db))" for r'
    using that db_invD(3) [OF assms(1)] assms(3) order_trans by (fastforce simp: map_job_set)
  ultimately show ?thesis
    using assms(1) by (auto simp: db_inv_def map_job_ids [OF assms(2)])
qed

text \<open>Appending numbered events of one job above all its existing events.\<close>

definition numbered :: "int \<Rightarrow> JobEvent list \<Rightarrow> JobEvent list" where
  "numbered seq events = map (\<lambda>(i, e). e\<lparr>ev_seq := seq + int i\<rparr>) (enumerate 0 events)"

lemma numbered_Nil [simp]: "numbered seq [] = []"
  by (simp add: numbered_def)

lemma numbered_Cons [simp]:
  "numbered seq (e # es) = e\<lparr>ev_seq := seq\<rparr> # numbered (seq + 1) es"
proof -
  have "enumerate (Suc 0) es = map (\<lambda>(i, x). (Suc i, x)) (enumerate 0 es)"
    by (simp add: enumerate_eq_zip map_Suc_upt [symmetric] zip_map1 del: upt.upt_Suc)
  then show ?thesis
    by (auto simp: numbered_def)
qed

lemma length_numbered [simp]: "length (numbered seq es) = length es"
  by (simp add: numbered_def)

lemma numbered_seqs: "map ev_seq (numbered seq es) = map (\<lambda>i. seq + int i) [0..<length es]"
  by (rule nth_equalityI) (auto simp: numbered_def enumerate_eq_zip)

lemma numbered_fields:
  "e \<in> set (numbered seq es) \<Longrightarrow>
     \<exists>e' \<in> set es. ev_job e = ev_job e' \<and> ev_state e = ev_state e' \<and> seq \<le> ev_seq e \<and> ev_seq e < seq + int (length es)"
proof (induction es arbitrary: seq)
  case (Cons a es)
  then show ?case by (force simp: add.commute)
qed simp

lemma event_key_eq [simp]: "event_key a = event_key b \<longleftrightarrow> ev_job a = ev_job b \<and> ev_seq a = ev_seq b"
  by (simp add: event_key_def)

lemma insert_events_eq:
  assumes "\<forall>e \<in> set es. ev_job e = jid"
    and "\<forall>e \<in> set (db_events db). ev_job e = jid \<longrightarrow> ev_seq e < seq"
  shows "insert_events seq es db =
           Inr (numbered seq es, db\<lparr>db_events := db_events db @ numbered seq es\<rparr>)"
  using assms
proof (induction es arbitrary: seq db)
  case (Cons a es)
  let ?a = "a\<lparr>ev_seq := seq\<rparr>"
  have a: "createJobEvent None ?a db = Inr (db\<lparr>db_events := db_events db @ [?a]\<rparr>)"
    using Cons.prems by (fastforce simp: createJobEvent_def)
  have "insert_events (seq + 1) es (db\<lparr>db_events := db_events db @ [?a]\<rparr>) =
          Inr (numbered (seq + 1) es,
               db\<lparr>db_events := (db_events db @ [?a]) @ numbered (seq + 1) es\<rparr>)"
  proof (subst Cons.IH)
    show "\<forall>e\<in>set (db_events (db\<lparr>db_events := db_events db @ [?a]\<rparr>)). ev_job e = jid \<longrightarrow> ev_seq e < seq + 1"
      using Cons.prems(2) by (auto simp: zless_add1_eq)
  qed (use Cons.prems(1) in auto)
  with a show ?case by (simp add: Let_def)
qed simp

lemma numbered_inv:
  assumes inv: "db_inv db" and row: "find_job jid db = Some r"
    and es: "\<forall>e \<in> set es. ev_job e = jid"
    and below: "\<forall>e \<in> set (db_events db). ev_job e = jid \<longrightarrow> ev_seq e < seq"
    and seq: "1 \<le> seq" "seq + int (length es) \<le> row_seq r + 1"
  shows "db_inv (db\<lparr>db_events := db_events db @ numbered seq es\<rparr>)"
proof -
  have new: "ev_job e = jid" "seq \<le> ev_seq e" "ev_seq e \<le> row_seq r"
    if "e \<in> set (numbered seq es)" for e
    using numbered_fields [OF that] es seq by auto
  have "distinct (map ev_seq (numbered seq es))"
    by (simp add: numbered_seqs distinct_map inj_on_def)
  then have keys: "distinct (map event_key (numbered seq es))"
    by (auto simp: distinct_map inj_on_def)
  have "event_key e \<notin> event_key ` set (numbered seq es)" if "e \<in> set (db_events db)" for e
    using new(1,2) below that by (fastforce simp: image_iff)
  then have "event_key ` set (db_events db) \<inter> event_key ` set (numbered seq es) = {}"
    by blast
  then have "distinct (map event_key (db_events db @ numbered seq es))"
    using keys db_invD(2) [OF inv] by (simp add: distinct_append del: event_key_eq)
  moreover have "event_bound (db\<lparr>db_events := db_events db @ numbered seq es\<rparr>) e"
    if "e \<in> set (db_events db @ numbered seq es)" for e
    using that new [of e] db_invD(4) [OF inv, of e] row seq(1) by (auto simp: event_bound_def)
  ultimately show ?thesis
    using inv by (simp add: db_inv_def)
qed

section \<open>What the operations do\<close>

lemma createJob_Inr:
  "createJob io job db = Inr db' \<longleftrightarrow>
     io = None \<and> find_job (job_id job) db = None \<and>
     db' = db\<lparr>db_jobs := db_jobs db @ [\<lparr>row_job = job, row_seq = 0\<rparr>]\<rparr>"
  by (auto simp: createJob_def split: option.splits)

lemma createJob_inv:
  assumes "db_inv db" "createJob io job db = Inr db'"
  shows "db_inv db'"
  using assms
  by (auto simp: createJob_Inr db_inv_def event_bound_def find_job_append find_job_None_iff
      split: option.splits)

lemma map_job_append_new:
  "find_job jid db = None \<Longrightarrow>
     map_job jid f (db\<lparr>db_jobs := db_jobs db @ [r]\<rparr>) =
     db\<lparr>db_jobs := db_jobs db @ [if row_id r = jid then f r else r]\<rparr>"
proof -
  assume "find_job jid db = None"
  then have "map (\<lambda>r. if row_id r = jid then f r else r) (db_jobs db) = db_jobs db"
    by (intro map_idI) (auto simp: find_job_None_iff)
  then show ?thesis by (simp add: map_job_def)
qed

lemma CreateJobWithInitialEvent_Inr:
  assumes "db_inv db"
  shows "CreateJobWithInitialEvent io job event db = Inr db' \<longleftrightarrow>
     ev_job event = job_id job \<and> ev_seq event = 1 \<and> io = None \<and> find_job (job_id job) db = None \<and>
     db' = \<lparr>db_jobs = db_jobs db @ [\<lparr>row_job = job, row_seq = 1\<rparr>], db_events = db_events db @ [event]\<rparr>"
proof (cases "ev_job event = job_id job \<and> ev_seq event = 1 \<and> io = None \<and> find_job (job_id job) db = None")
  case True
  then have "event_key event \<notin> event_key ` set (db_events db)"
    using db_inv_no_job_no_events [OF assms, of "job_id job"] by (metis event_key_eq imageE)
  with True show ?thesis
    by (auto simp: CreateJobWithInitialEvent_def createJob_def createJobEvent_def map_job_append_new)
qed (auto simp: CreateJobWithInitialEvent_def createJob_def split: option.splits)

lemma CreateJobWithInitialEvent_inv:
  assumes "db_inv db" "CreateJobWithInitialEvent io job event db = Inr db'"
  shows "db_inv db'"
proof -
  let ?db1 = "db\<lparr>db_jobs := db_jobs db @ [\<lparr>row_job = job, row_seq = 1\<rparr>]\<rparr>"
  have new: "find_job (job_id job) db = None" "ev_job event = job_id job" "ev_seq event = 1"
    and db': "db' = ?db1\<lparr>db_events := db_events ?db1 @ numbered 1 [event]\<rparr>"
    using assms(2) unfolding CreateJobWithInitialEvent_Inr [OF assms(1)] by auto
  have "db_inv (map_job (job_id job) (\<lambda>r. r\<lparr>row_seq := row_seq r + 1\<rparr>)
           (db\<lparr>db_jobs := db_jobs db @ [\<lparr>row_job = job, row_seq = 0\<rparr>]\<rparr>))"
    by (rule db_inv_map_job, rule createJob_inv [OF assms(1)])
      (use new in \<open>auto simp: createJob_Inr\<close>)
  then have "db_inv ?db1" by (simp add: map_job_append_new [OF new(1)])
  moreover have "find_job (job_id job) ?db1 = Some \<lparr>row_job = job, row_seq = 1\<rparr>"
    using new by (simp add: find_job_append)
  ultimately show ?thesis
    unfolding db' using new db_inv_no_job_no_events [OF assms(1) new(1)]
    by (intro numbered_inv) auto
qed

definition transition_row :: "Job \<Rightarrow> int \<Rightarrow> job_row \<Rightarrow> job_row" where
  "transition_row job n r = r\<lparr>row_job := update_columns job (row_job r), row_seq := row_seq r + n\<rparr>"

lemma transition_row_simps [simp]:
  "row_job (transition_row job n r) = update_columns job (row_job r)"
  "row_seq (transition_row job n r) = row_seq r + n"
  by (simp_all add: transition_row_def)

definition events_match :: "Job \<Rightarrow> JobEvent list \<Rightarrow> bool" where
  "events_match job events \<longleftrightarrow> (\<forall>e \<in> set events. ev_job e = job_id job \<and> ev_state e = job_state job)"

lemma TransitionJobWithEvents_eq:
  assumes "db_inv db" "allowed \<noteq> []" "events \<noteq> []" "events_match job events"
  shows "TransitionJobWithEvents io job allowed events db =
    (case io of Some e \<Rightarrow> Inl (ErrStore e)
     | None \<Rightarrow> (case find_job (job_id job) db of
         None \<Rightarrow> Inr (False, [], db)
       | Some row \<Rightarrow>
           if job_state (row_job row) \<in> set allowed
           then Inr (True, numbered (row_seq row + 1) events,
             (map_job (job_id job) (transition_row job (int (length events))) db)
               \<lparr>db_events := db_events db @ numbered (row_seq row + 1) events\<rparr>)
           else Inr (False, [], db)))"
proof (cases "find_job (job_id job) db")
  case (Some row)
  have "insert_events (row_seq row + 1) events (map_job (job_id job) f db) =
         Inr (numbered (row_seq row + 1) events,
           (map_job (job_id job) f db)\<lparr>db_events := db_events db @ numbered (row_seq row + 1) events\<rparr>)" for f
    using assms(4) db_inv_events_below(2) [OF assms(1) Some]
    by (subst insert_events_eq [of _ "job_id job"]) (fastforce simp: events_match_def)+
  then show ?thesis
    using assms(2-4) Some
    by (auto simp: TransitionJobWithEvents_def events_match_def transition_row_def [abs_def] Let_def
        split: option.splits)
qed (use assms in \<open>auto simp: TransitionJobWithEvents_def events_match_def split: option.splits\<close>)

lemma transition_inv:
  assumes "db_inv db" "find_job (job_id job) db = Some row"
    "\<And>r. row_id (f r) = row_id r" "\<And>r. row_seq (f r) = row_seq r + int (length events)"
    "\<forall>e \<in> set events. ev_job e = job_id job"
  shows "db_inv ((map_job (job_id job) f db)\<lparr>db_events := db_events db @ numbered (row_seq row + 1) events\<rparr>)"
proof -
  let ?db = "map_job (job_id job) f db"
  have "db_inv (?db\<lparr>db_events := db_events ?db @ numbered (row_seq row + 1) events\<rparr>)"
  proof (rule numbered_inv)
    show "db_inv ?db" using assms by (intro db_inv_map_job) auto
    show "find_job (job_id job) ?db = Some (f row)"
      using assms by (simp add: find_job_map_job)
    show "\<forall>e\<in>set (db_events ?db). ev_job e = job_id job \<longrightarrow> ev_seq e < row_seq row + 1"
      using db_inv_events_below(2) [OF assms(1,2)] by (auto intro: zle_add1_eq_le [THEN iffD2])
  qed (use assms(4,5) db_inv_find_seq [OF assms(1,2)] in auto)
  then show ?thesis by simp
qed

lemma TransitionJobWithEvents_inv:
  assumes "db_inv db" "TransitionJobWithEvents io job allowed events db = Inr (u, evs, db')"
  shows "db_inv db'"
proof -
  have match: "allowed \<noteq> []" "events \<noteq> []" "events_match job events"
    using assms(2) by (auto simp: TransitionJobWithEvents_def events_match_def split: if_splits)
  show ?thesis
    using assms transition_inv [OF assms(1), of job _ "transition_row job (int (length events))" events] match(3)
    by (auto simp: TransitionJobWithEvents_eq [OF assms(1) match] events_match_def
        split: option.splits if_splits)
qed

definition appended_row :: "job_row \<Rightarrow> job_row" where
  "appended_row r = r\<lparr>row_seq := row_seq r + 1\<rparr>"

lemma appended_row_simps [simp]:
  "row_job (appended_row r) = row_job r" "row_seq (appended_row r) = row_seq r + 1"
  by (simp_all add: appended_row_def)

lemma AppendJobEvent_eq:
  assumes "db_inv db"
  shows "AppendJobEvent io event db =
    (case io of Some e \<Rightarrow> Inl (ErrStore e)
     | None \<Rightarrow> (case find_job (ev_job event) db of
         None \<Rightarrow> Inl ErrStoreNotFound
       | Some row \<Rightarrow>
           let event' = event\<lparr>ev_seq := row_seq row + 1, ev_state := job_state (row_job row)\<rparr>
           in Inr (event', (map_job (ev_job event) appended_row db)\<lparr>db_events := db_events db @ [event']\<rparr>)))"
proof (cases "find_job (ev_job event) db")
  case (Some row)
  then have "event_key (event\<lparr>ev_seq := row_seq row + 1, ev_state := s\<rparr>) \<notin> event_key ` set (db_events db)" for s
    using db_inv_events_below(2) [OF assms Some] by fastforce
  with Some show ?thesis
    by (simp add: AppendJobEvent_def createJobEvent_def Let_def appended_row_def [abs_def] split: option.splits)
qed (auto simp: AppendJobEvent_def split: option.splits)

lemma AppendJobEvent_inv:
  assumes "db_inv db" "AppendJobEvent io event db = Inr (e, db')"
  shows "db_inv db'"
proof -
  obtain row where row: "find_job (ev_job event) db = Some row"
    and db': "db' = (map_job (ev_job event) appended_row db)\<lparr>db_events := db_events db @
      numbered (row_seq row + 1) [event\<lparr>ev_state := job_state (row_job row)\<rparr>]\<rparr>"
    using assms by (auto simp: AppendJobEvent_eq Let_def split: option.splits)
  from row have id: "row_id row = ev_job event" by (auto dest: find_job_SomeD)
  show ?thesis
    unfolding db' id [symmetric]
    by (rule transition_inv) (use assms(1) row id in auto)
qed

lemma UpdateJobWorkflow_Inr:
  "UpdateJobWorkflow io jid w db = Inr db' \<longleftrightarrow>
     io = None \<and> find_job jid db \<noteq> None \<and>
     db' = map_job jid (\<lambda>r. r\<lparr>row_job := (row_job r)\<lparr>job_workflow := w\<rparr>\<rparr>) db"
  by (auto simp: UpdateJobWorkflow_def split: option.splits)

lemma UpdateJobWorkflow_inv:
  "db_inv db \<Longrightarrow> UpdateJobWorkflow io jid w db = Inr db' \<Longrightarrow> db_inv db'"
  by (auto simp: UpdateJobWorkflow_Inr intro!: db_inv_map_job)

lemma updateJob_inv:
  "db_inv db \<Longrightarrow> updateJob io job states db = Inr (u, db') \<Longrightarrow> db_inv db'"
  by (auto simp: updateJob_def intro!: db_inv_map_job split: option.splits if_splits)

lemma UpdateJob_inv: "db_inv db \<Longrightarrow> UpdateJob io job db = Inr db' \<Longrightarrow> db_inv db'"
  by (auto simp: UpdateJob_def split: sum.splits prod.splits if_splits dest: updateJob_inv)

lemma CreateJobEvent_inv:
  assumes "db_inv db" "CreateJobEvent io event db = Inr db'"
    "find_job (ev_job event) db \<noteq> None" "1 \<le> ev_seq event"
  shows "db_inv db'"
proof -
  let ?f = "\<lambda>r. r\<lparr>row_seq := max (row_seq r) (ev_seq event)\<rparr>"
  have fresh: "event_key event \<notin> event_key ` set (db_events db)"
    and db': "db' = (map_job (ev_job event) ?f db)\<lparr>db_events := db_events db @ [event]\<rparr>"
    using assms(2) by (auto simp: CreateJobEvent_def createJobEvent_def map_job_def split: option.splits if_splits)
  have inv: "db_inv (map_job (ev_job event) ?f db)"
    by (rule db_inv_map_job) (use assms(1) in auto)
  have "event_bound db' event"
    using assms(3,4) by (auto simp: db' event_bound_def find_job_map_job)
  then show ?thesis
    using inv fresh by (auto simp: db' db_inv_def event_bound_def simp del: event_key_eq)
qed

section \<open>Reading the log\<close>

lemma job_events_distinct:
  assumes "db_inv db"
  shows "distinct (map ev_seq (filter (\<lambda>e. ev_job e = jid) (db_events db)))"
  using db_invD(2) [OF assms]
  by (auto simp: distinct_map inj_on_def event_key_def)

lemma ListJobEvents_strict:
  assumes "db_inv db" "ListJobEvents io jid db = Inr es"
  shows "sorted_wrt (<) (map ev_seq es)"
proof -
  have es: "es = sort_key ev_seq (filter (\<lambda>e. ev_job e = jid) (db_events db))"
    using assms(2) by (auto simp: ListJobEvents_def split: option.splits)
  have "distinct (map ev_seq es)"
    using job_events_distinct [OF assms(1), of jid]
    by (simp add: es distinct_map)
  then show ?thesis
    by (simp add: es strict_sorted_iff)
qed

section \<open>Retention of jobs and events\<close>

text \<open>
  The statements of \<open>PruneOperationalData\<close> on these two tables: old events of jobs that
  are not active, then the old finished jobs no recent audit entry refers to, with all their
  events.  \<open>audited jid\<close> is the subquery on \<open>audit_entries\<close>.
\<close>

definition job_active :: "job_row \<Rightarrow> bool" where
  "job_active r \<longleftrightarrow> job_state (row_job r) \<in> set active_states"

definition prunable_job :: "time \<Rightarrow> (string \<Rightarrow> bool) \<Rightarrow> job_row \<Rightarrow> bool" where
  "prunable_job jobCutoff audited r \<longleftrightarrow>
     \<not> job_active r \<and>
     ts_less (case job_finished_at (row_job r) of Some t \<Rightarrow> t | None \<Rightarrow> job_requested_at (row_job r)) jobCutoff \<and>
     \<not> audited (row_id r)"

definition prune_job_tables :: "time \<Rightarrow> time \<Rightarrow> (string \<Rightarrow> bool) \<Rightarrow> job_db \<Rightarrow> job_db" where
  "prune_job_tables jobEventCutoff jobCutoff audited db =
     (let active = map row_id (filter job_active (db_jobs db));
          pruned = map row_id (filter (prunable_job jobCutoff audited) (db_jobs db));
          events1 = filter (\<lambda>e. \<not> (ts_less (ev_time e) jobEventCutoff \<and> ev_job e \<notin> set active)) (db_events db)
      in \<lparr>db_jobs = filter (\<lambda>r. \<not> prunable_job jobCutoff audited r) (db_jobs db),
          db_events = filter (\<lambda>e. ev_job e \<notin> set pruned) events1\<rparr>)"

lemma find_job_filter:
  assumes "distinct (map row_id (db_jobs db))"
  shows "find_job jid \<lparr>db_jobs = filter p (db_jobs db), db_events = es\<rparr> =
    (case find_job jid db of None \<Rightarrow> None | Some r \<Rightarrow> if p r then Some r else None)"
proof -
  have "find (\<lambda>r. row_id r = jid) (filter p rs) =
      (case find (\<lambda>r. row_id r = jid) rs of None \<Rightarrow> None | Some r \<Rightarrow> if p r then Some r else None)"
    if "distinct (map row_id rs)" for rs
    using that
    by (induction rs) (auto simp: find_None_iff image_iff split: option.splits dest!: find_Some_iff2)
  then show ?thesis using assms by (simp add: find_job_def)
qed

lemma prune_find_job:
  assumes "db_inv db"
  shows "find_job jid (prune_job_tables ec jc audited db) =
    (case find_job jid db of None \<Rightarrow> None
     | Some r \<Rightarrow> if prunable_job jc audited r then None else Some r)"
  using find_job_filter [OF db_invD(1) [OF assms]]
  by (auto simp: prune_job_tables_def Let_def split: option.splits)

lemma prune_events:
  "set (db_events (prune_job_tables ec jc audited db)) =
     {e \<in> set (db_events db).
        (ts_less (ev_time e) ec \<longrightarrow> (\<exists>r \<in> set (db_jobs db). job_active r \<and> row_id r = ev_job e)) \<and>
        \<not> (\<exists>r \<in> set (db_jobs db). prunable_job jc audited r \<and> row_id r = ev_job e)}"
  by (auto simp: prune_job_tables_def Let_def image_iff)

lemma prune_inv:
  assumes "db_inv db"
  shows "db_inv (prune_job_tables ec jc audited db)" (is "db_inv ?db")
proof -
  have "event_bound ?db e" if "e \<in> set (db_events ?db)" for e
  proof -
    have e: "e \<in> set (db_events db)" and keep: "\<forall>r \<in> set (db_jobs db). prunable_job jc audited r \<longrightarrow> row_id r \<noteq> ev_job e"
      using that by (auto simp: prune_events)
    then obtain r where r: "find_job (ev_job e) db = Some r" "1 \<le> ev_seq e" "ev_seq e \<le> row_seq r"
      using db_invD(4) [OF assms e] by (auto simp: event_bound_def split: option.splits)
    then have "\<not> prunable_job jc audited r" using keep by (auto dest: find_job_SomeD)
    with r show ?thesis by (simp add: event_bound_def prune_find_job [OF assms])
  qed
  then show ?thesis
    using assms by (auto simp: db_inv_def prune_job_tables_def Let_def distinct_map_filter)
qed

text \<open>An active job and all its events survive.\<close>

lemma prune_keeps_active:
  assumes "db_inv db" "find_job jid db = Some r" "job_active r"
  shows "find_job jid (prune_job_tables ec jc audited db) = Some r"
    "filter (\<lambda>e. ev_job e = jid) (db_events (prune_job_tables ec jc audited db)) =
     filter (\<lambda>e. ev_job e = jid) (db_events db)"
proof -
  have r: "r \<in> set (db_jobs db)" "row_id r = jid" using find_job_SomeD [OF assms(2)] by auto
  show "find_job jid (prune_job_tables ec jc audited db) = Some r"
    using assms by (simp add: prune_find_job prunable_job_def)
  have "row_id r' \<noteq> jid" if "r' \<in> set (db_jobs db)" "prunable_job jc audited r'" for r'
    using that assms(3) r find_job_unique [OF db_invD(1) [OF assms(1)]]
    by (metis option.inject prunable_job_def)
  with r assms(3) show "filter (\<lambda>e. ev_job e = jid) (db_events (prune_job_tables ec jc audited db)) =
     filter (\<lambda>e. ev_job e = jid) (db_events db)"
    by (auto simp: prune_job_tables_def Let_def intro!: filter_cong)
qed

end
