(* ===== verification/Job_Service.thy ===== *)
theory Job_Service
  imports Job_Resources Job_Store "HOL-Library.Word"
begin

text \<open>
  internal/jobs/service.go over the lock table of \<open>Job_Resources\<close> and the tables of
  \<open>Job_Store\<close>.  The random job id, the request id of the context, the clock and the fate
  of each store call are arguments.  Calls to the metrics observer, the terminal hook and a
  registered cancel function are recorded in \<open>svc_out\<close>.

  A handler that touches both the lock table and the store is written as the composition of
  its atomic parts, so that \<open>svc_step\<close> can interleave the parts of concurrent handlers.
\<close>

unbundle bit_operations_syntax

datatype svc_error =
    ErrJobNotFound
  | ErrNotCancellable
  | ErrTransitionConflict Job \<comment> \<open>with the current job returned beside it\<close>
  | ResourceError job_error
  | StoreError store_error

datatype svc_effect =
    ObservedStarted "time"
  | ObservedFinished "time" "time" string
  | TerminalHook Job
  | CancelCalled string

record job_service =
  svc_locks :: lock_table
  svc_db :: job_db
  svc_cancel :: "(string, string) gomap" \<comment> \<open>\<open>cancelByJob\<close>, a function by its name\<close>
  svc_subs :: "(string, nat list) gomap" \<comment> \<open>\<open>subsByJob\<close>, channels by number\<close>
  svc_chan :: "(nat, JobEvent list) gomap" \<comment> \<open>the buffer of each event channel\<close>
  svc_activity :: "(nat, bool) gomap" \<comment> \<open>\<open>activitySubs\<close>, with the pending signal\<close>
  svc_observer :: bool \<comment> \<open>a metrics observer is set\<close>
  svc_hook :: bool \<comment> \<open>a terminal hook is set\<close>
  svc_out :: "svc_effect list"

definition NewService :: "job_db \<Rightarrow> job_service" where
  "NewService db =
     \<lparr>svc_locks = empty_locks, svc_db = db, svc_cancel = [], svc_subs = [], svc_chan = [],
      svc_activity = [], svc_observer = False, svc_hook = False, svc_out = []\<rparr>"

definition emit :: "svc_effect \<Rightarrow> job_service \<Rightarrow> job_service" where
  "emit x s = s\<lparr>svc_out := svc_out s @ [x]\<rparr>"

section \<open>Subscriptions\<close>

definition SubscribeActivity :: "nat \<Rightarrow> job_service \<Rightarrow> job_service" where
  "SubscribeActivity ch s = s\<lparr>svc_activity := mput ch False (svc_activity s)\<rparr>"

definition unsubscribeActivity :: "nat \<Rightarrow> job_service \<Rightarrow> job_service" where
  "unsubscribeActivity ch s = s\<lparr>svc_activity := mdel ch (svc_activity s)\<rparr>"

definition notifyActivity :: "job_service \<Rightarrow> job_service" where
  "notifyActivity s = s\<lparr>svc_activity := map (\<lambda>(ch, _). (ch, True)) (svc_activity s)\<rparr>"

definition SetTerminalHook :: "bool \<Rightarrow> job_service \<Rightarrow> job_service" where
  "SetTerminalHook hook s = s\<lparr>svc_hook := hook\<rparr>"

definition SetMetricsObserver :: "bool \<Rightarrow> job_service \<Rightarrow> job_service" where
  "SetMetricsObserver observer s = s\<lparr>svc_observer := observer\<rparr>"

definition RegisterCancel :: "string \<Rightarrow> string option \<Rightarrow> job_service \<Rightarrow> job_service" where
  "RegisterCancel jobID cancel s =
     (case cancel of
        None \<Rightarrow> s
      | Some f \<Rightarrow> if jobID = '''' then s else s\<lparr>svc_cancel := mput jobID f (svc_cancel s)\<rparr>)"

definition unregisterCancel :: "string \<Rightarrow> string option \<Rightarrow> job_service \<Rightarrow> job_service" where
  "unregisterCancel jobID cancel s =
     (case cancel of
        None \<Rightarrow> s
      | Some f \<Rightarrow> if jobID = '''' then s else s\<lparr>svc_cancel := mdel jobID (svc_cancel s)\<rparr>)"

definition Subscribe :: "string \<Rightarrow> nat \<Rightarrow> job_service \<Rightarrow> job_service" where
  "Subscribe jobID ch s =
     (let subs = (case mget (svc_subs s) jobID of None \<Rightarrow> [] | Some chs \<Rightarrow> chs)
      in s\<lparr>svc_chan := mput ch [] (svc_chan s),
           svc_subs := mput jobID (set_add ch subs) (svc_subs s)\<rparr>)"

definition unsubscribe :: "string \<Rightarrow> nat \<Rightarrow> job_service \<Rightarrow> job_service" where
  "unsubscribe jobID ch s =
     (case mget (svc_subs s) jobID of
        None \<Rightarrow> s
      | Some chs \<Rightarrow>
          let chs' = removeAll ch chs
          in if chs' = [] then s\<lparr>svc_subs := mdel jobID (svc_subs s)\<rparr>
             else s\<lparr>svc_subs := mput jobID chs' (svc_subs s)\<rparr>)"

definition channel_capacity :: nat where
  "channel_capacity = 64"

text \<open>A send that gives up when the buffer is full.\<close>

definition try_send :: "JobEvent \<Rightarrow> nat \<Rightarrow> (nat, JobEvent list) gomap \<Rightarrow> (nat, JobEvent list) gomap" where
  "try_send event ch m =
     (case mget m ch of
        None \<Rightarrow> m
      | Some buf \<Rightarrow> if length buf < channel_capacity then mput ch (buf @ [event]) m else m)"

definition publishLive :: "JobEvent \<Rightarrow> job_service \<Rightarrow> job_service" where
  "publishLive event s =
     (let channels = (case mget (svc_subs s) (ev_job event) of None \<Rightarrow> [] | Some chs \<Rightarrow> chs)
      in s\<lparr>svc_chan := fold (try_send event) channels (svc_chan s)\<rparr>)"

definition publishCommittedEvents :: "JobEvent list \<Rightarrow> job_service \<Rightarrow> job_service" where
  "publishCommittedEvents events s = fold (\<lambda>event s. notifyActivity (publishLive event s)) events s"

definition observeJobStarted :: "time \<Rightarrow> job_service \<Rightarrow> job_service" where
  "observeJobStarted startedAt s = (if svc_observer s then emit (ObservedStarted startedAt) s else s)"

definition observeJobFinished :: "time \<Rightarrow> time \<Rightarrow> string \<Rightarrow> job_service \<Rightarrow> job_service" where
  "observeJobFinished startedAt finishedAt state s =
     (if svc_observer s then emit (ObservedFinished startedAt finishedAt state) s else s)"

text \<open>The FNV-1a hash that selects one of the 64 event locks.\<close>

definition lockJobEvents_index :: "string \<Rightarrow> nat" where
  "lockJobEvents_index jobID =
     unat (foldl (\<lambda>hash c. (hash XOR (of_char c :: 32 word)) * 16777619) 2166136261 jobID mod 64)"

section \<open>Starting a job\<close>

definition new_job :: "time \<Rightarrow> string \<Rightarrow> string \<Rightarrow> string \<Rightarrow> string \<Rightarrow> string \<Rightarrow> JobWorkflowStep list \<Rightarrow> Job" where
  "new_job now jid reqID stackID action requestedBy workflow =
     \<lparr>job_id = jid, job_stack = stackID, job_action = action, job_state = ''running'',
      job_requested_by = requestedBy, job_request_id = reqID, job_requested_at = now,
      job_started_at = Some now, job_finished_at = None,
      job_workflow = (if workflow \<noteq> [] then Some workflow else None),
      job_error_code = '''', job_error_message = ''''\<rparr>"

definition initial_event :: "Job \<Rightarrow> time \<Rightarrow> JobEvent" where
  "initial_event job now =
     \<lparr>ev_job = job_id job, ev_seq = 1, ev_event = ''job_started'', ev_state = job_state job,
      ev_message = ''Job started.'', ev_data = '''', ev_step = None, ev_progress = None, ev_time = now\<rparr>"

text \<open>\<open>start\<close> up to and including \<open>lockMany\<close>, and the rest of it.\<close>

definition start_reserve ::
  "string \<Rightarrow> string \<Rightarrow> Resource list \<Rightarrow> bool \<Rightarrow> job_service \<Rightarrow> svc_error + job_service" where
  "start_reserve jid stackID requested draining s =
     (case normalizeResources stackID requested of
        Inl err \<Rightarrow> Inl (ResourceError err)
      | Inr resources \<Rightarrow>
          (case lockMany jid resources draining (svc_locks s) of
             Inl err \<Rightarrow> Inl (ResourceError err)
           | Inr locks \<Rightarrow> Inr (s\<lparr>svc_locks := locks\<rparr>)))"

definition start_commit :: "fault \<Rightarrow> time \<Rightarrow> Job \<Rightarrow> job_service \<Rightarrow> (svc_error + Job) \<times> job_service" where
  "start_commit io now job s =
     (case CreateJobWithInitialEvent io job (initial_event job now) (svc_db s) of
        Inl err \<Rightarrow> (Inl (StoreError err), s\<lparr>svc_locks := unlockAll (job_id job) (svc_locks s)\<rparr>)
      | Inr db \<Rightarrow>
          (Inr job, observeJobStarted now (notifyActivity (publishLive (initial_event job now)
                      (s\<lparr>svc_db := db\<rparr>)))))"

definition start ::
  "fault \<Rightarrow> time \<Rightarrow> string \<Rightarrow> string \<Rightarrow> string \<Rightarrow> string \<Rightarrow> string \<Rightarrow> Resource list \<Rightarrow> bool \<Rightarrow>
    JobWorkflowStep list \<Rightarrow> job_service \<Rightarrow> (svc_error + Job) \<times> job_service" where
  "start io now jid reqID stackID action requestedBy requested draining workflow s =
     (let job = new_job now jid reqID stackID action requestedBy workflow
      in case start_reserve jid stackID requested draining s of
           Inl err \<Rightarrow> (Inl err, s)
         | Inr s1 \<Rightarrow> start_commit io now job s1)"

definition Start ::
  "fault \<Rightarrow> time \<Rightarrow> string \<Rightarrow> string \<Rightarrow> string \<Rightarrow> string \<Rightarrow> string \<Rightarrow> job_service \<Rightarrow> (svc_error + Job) \<times> job_service" where
  "Start io now jid reqID stackID action requestedBy =
     start io now jid reqID stackID action requestedBy [] False []"

definition StartDraining ::
  "fault \<Rightarrow> time \<Rightarrow> string \<Rightarrow> string \<Rightarrow> string \<Rightarrow> string \<Rightarrow> Resource \<Rightarrow> job_service \<Rightarrow> (svc_error + Job) \<times> job_service" where
  "StartDraining io now jid reqID action requestedBy barrier =
     start io now jid reqID '''' action requestedBy [barrier] True []"

section \<open>Reading jobs\<close>

definition Get :: "fault \<Rightarrow> string \<Rightarrow> job_service \<Rightarrow> svc_error + Job" where
  "Get io jid s =
     (case JobByID io jid (svc_db s) of
        Inl err \<Rightarrow> if err = ErrStoreNotFound then Inl ErrJobNotFound else Inl (StoreError err)
      | Inr job \<Rightarrow> Inr job)"

definition isTerminalJobState :: "string \<Rightarrow> bool" where
  "isTerminalJobState state \<longleftrightarrow> state \<in> {''succeeded'', ''failed'', ''cancelled'', ''timed_out''}"

definition ReplayEvents :: "fault \<Rightarrow> string \<Rightarrow> job_service \<Rightarrow> svc_error + JobEvent list" where
  "ReplayEvents io jid s =
     (case ListJobEvents io jid (svc_db s) of Inl err \<Rightarrow> Inl (StoreError err) | Inr es \<Rightarrow> Inr es)"

record EventsResponse =
  er_job :: string
  er_retained :: bool
  er_message :: string
  er_items :: "JobEvent list" \<comment> \<open>\<open>JobEventRecord\<close> has the fields of the stored event\<close>

definition Events :: "fault \<Rightarrow> fault \<Rightarrow> string \<Rightarrow> job_service \<Rightarrow> svc_error + EventsResponse" where
  "Events io1 io2 jid s =
     (case Get io1 jid s of
        Inl err \<Rightarrow> Inl err
      | Inr job \<Rightarrow>
          (case ListJobEvents io2 jid (svc_db s) of
             Inl err \<Rightarrow> Inl (StoreError err)
           | Inr storedEvents \<Rightarrow>
               Inr \<lparr>er_job = job_id job, er_retained = (storedEvents \<noteq> []),
                    er_message = (if storedEvents \<noteq> [] then ''''
                      else ''Detailed output for this job is no longer retained.''),
                    er_items = storedEvents\<rparr>))"

section \<open>Ending a job\<close>

definition newJobEvent ::
  "Job \<Rightarrow> string \<Rightarrow> string \<Rightarrow> string \<Rightarrow> JobEventStep option \<Rightarrow> JobProgress option \<Rightarrow> time \<Rightarrow> JobEvent" where
  "newJobEvent job eventType message data step progress timestamp =
     \<lparr>ev_job = job_id job, ev_seq = 0, ev_event = eventType, ev_state = job_state job,
      ev_message = message, ev_data = data, ev_step = step, ev_progress = progress, ev_time = timestamp\<rparr>"

text \<open>
  \<open>commitTerminalTransition\<close> in two parts: the store transaction, and what follows it
  (publishing, releasing the resources, telling the observer and the hook).
\<close>

datatype transition_outcome =
    TransitionFailed svc_error
  | TransitionLost Job \<comment> \<open>the stored job was in another state\<close>
  | TransitionDone "JobEvent list"

definition terminal_transition ::
  "fault \<Rightarrow> fault \<Rightarrow> Job \<Rightarrow> JobEvent list \<Rightarrow> job_service \<Rightarrow> transition_outcome \<times> job_service" where
  "terminal_transition io1 io2 job events s =
     (case TransitionJobWithEvents io1 job [''queued'', ''running'', ''cancel_requested''] events (svc_db s) of
        Inl err \<Rightarrow> (TransitionFailed (StoreError err), s)
      | Inr (updated, committedEvents, db) \<Rightarrow>
          if \<not> updated
          then (case Get io2 (job_id job) s of
                  Inl err \<Rightarrow> (TransitionFailed err, s)
                | Inr current \<Rightarrow> (TransitionLost current, s))
          else (TransitionDone committedEvents, s\<lparr>svc_db := db\<rparr>))"

definition unlock_job :: "string \<Rightarrow> job_service \<Rightarrow> job_service" where
  "unlock_job jid s = s\<lparr>svc_locks := unlockAll jid (svc_locks s)\<rparr>"

definition terminal_release ::
  "time \<Rightarrow> Job \<Rightarrow> transition_outcome \<Rightarrow> job_service \<Rightarrow> (svc_error + Job) \<times> job_service" where
  "terminal_release now2 job outcome s =
     (case outcome of
        TransitionFailed err \<Rightarrow> (Inl err, s)
      | TransitionLost current \<Rightarrow>
          if isTerminalJobState (job_state current)
          then (if job_state current = job_state job then Inr current else Inl (ErrTransitionConflict current),
                unlock_job (job_id job) s)
          else (Inl (ErrTransitionConflict current), s)
      | TransitionDone committedEvents \<Rightarrow>
          let s1 = unlock_job (job_id job) (publishCommittedEvents committedEvents s);
              startedAt = (case job_started_at job of Some t \<Rightarrow> t | None \<Rightarrow> job_requested_at job);
              finishedAt = (case job_finished_at job of Some t \<Rightarrow> t | None \<Rightarrow> now2);
              s2 = observeJobFinished startedAt finishedAt (job_state job) s1
          in (Inr job, if svc_hook s2 then emit (TerminalHook job) s2 else s2))"

definition commitTerminalTransition ::
  "fault \<Rightarrow> fault \<Rightarrow> time \<Rightarrow> Job \<Rightarrow> JobEvent list \<Rightarrow> job_service \<Rightarrow> (svc_error + Job) \<times> job_service" where
  "commitTerminalTransition io1 io2 now2 job events s =
     (case terminal_transition io1 io2 job events s of
        (outcome, s1) \<Rightarrow> terminal_release now2 job outcome s1)"

definition succeeded_job :: "time \<Rightarrow> Job \<Rightarrow> Job" where
  "succeeded_job now job = job\<lparr>job_state := ''succeeded'', job_finished_at := Some now\<rparr>"

definition FinishSucceeded ::
  "fault \<Rightarrow> fault \<Rightarrow> time \<Rightarrow> time \<Rightarrow> Job \<Rightarrow> job_service \<Rightarrow> (svc_error + Job) \<times> job_service" where
  "FinishSucceeded io1 io2 now now2 job s =
     (let job' = succeeded_job now job
      in commitTerminalTransition io1 io2 now2 job'
           [newJobEvent job' ''job_finished'' ''Job finished successfully.'' '''' None None now] s)"

definition finishTerminal ::
  "fault \<Rightarrow> fault \<Rightarrow> time \<Rightarrow> time \<Rightarrow> Job \<Rightarrow> string \<Rightarrow> string \<Rightarrow> string \<Rightarrow> string \<Rightarrow> job_service \<Rightarrow>
    (svc_error + Job) \<times> job_service" where
  "finishTerminal io1 io2 now now2 job state errorCode errorMessage finishMessage s =
     (let job' = job\<lparr>job_state := state, job_finished_at := Some now,
                     job_error_code := errorCode, job_error_message := errorMessage\<rparr>
      in commitTerminalTransition io1 io2 now2 job'
           [newJobEvent job' ''job_error'' errorMessage '''' None None now,
            newJobEvent job' ''job_finished'' finishMessage '''' None None now] s)"

definition FinishFailed ::
  "fault \<Rightarrow> fault \<Rightarrow> time \<Rightarrow> time \<Rightarrow> Job \<Rightarrow> string \<Rightarrow> string \<Rightarrow> job_service \<Rightarrow> (svc_error + Job) \<times> job_service" where
  "FinishFailed io1 io2 now now2 job errorCode errorMessage =
     finishTerminal io1 io2 now now2 job ''failed'' errorCode errorMessage ''Job finished with errors.''"

definition FinishTimedOut ::
  "fault \<Rightarrow> fault \<Rightarrow> time \<Rightarrow> time \<Rightarrow> Job \<Rightarrow> string \<Rightarrow> string \<Rightarrow> job_service \<Rightarrow> (svc_error + Job) \<times> job_service" where
  "FinishTimedOut io1 io2 now now2 job errorCode errorMessage =
     finishTerminal io1 io2 now now2 job ''timed_out'' errorCode errorMessage ''Job timed out.''"

definition FinishCancelled ::
  "fault \<Rightarrow> fault \<Rightarrow> time \<Rightarrow> time \<Rightarrow> Job \<Rightarrow> string \<Rightarrow> string \<Rightarrow> job_service \<Rightarrow> (svc_error + Job) \<times> job_service" where
  "FinishCancelled io1 io2 now now2 job errorCode errorMessage =
     finishTerminal io1 io2 now now2 job ''cancelled'' errorCode errorMessage ''Job was cancelled.''"

section \<open>Cancelling, progress\<close>

fun markWorkflowCancelRequested :: "JobWorkflowStep list \<Rightarrow> JobWorkflowStep list" where
  "markWorkflowCancelRequested [] = []"
| "markWorkflowCancelRequested (step # steps) =
     (if ws_state step = ''running'' \<or> ws_state step = ''queued''
      then step\<lparr>ws_state := ''cancel_requested''\<rparr> # steps
      else step # markWorkflowCancelRequested steps)"

definition cancel_requested_job :: "Job \<Rightarrow> Job" where
  "cancel_requested_job job =
     job\<lparr>job_state := ''cancel_requested'',
         job_workflow := map_option markWorkflowCancelRequested (job_workflow job)\<rparr>"

text \<open>The part of \<open>Cancel\<close> after the stored job and the cancel function have been read.\<close>

definition cancel_commit :: "fault \<Rightarrow> fault \<Rightarrow> time \<Rightarrow> Job \<Rightarrow> string \<Rightarrow> job_service \<Rightarrow> (svc_error + Job) \<times> job_service" where
  "cancel_commit io1 io2 now job0 cancel s =
     (let job = cancel_requested_job job0
      in case TransitionJobWithEvents io1 job [''queued'', ''running'']
                [newJobEvent job ''job_cancel_requested'' ''Cancellation requested.'' '''' None None now] (svc_db s) of
           Inl err \<Rightarrow> (Inl (StoreError err), s)
         | Inr (updated, committedEvents, db) \<Rightarrow>
             if \<not> updated
             then (case Get io2 (job_id job) s of
                     Inl err \<Rightarrow> (Inl err, s)
                   | Inr current \<Rightarrow>
                       (if job_state current = ''cancel_requested'' then Inr current else Inl ErrNotCancellable, s))
             else (Inr job, emit (CancelCalled cancel) (publishCommittedEvents committedEvents (s\<lparr>svc_db := db\<rparr>))))"

definition Cancel :: "fault \<Rightarrow> fault \<Rightarrow> fault \<Rightarrow> time \<Rightarrow> string \<Rightarrow> job_service \<Rightarrow> (svc_error + Job) \<times> job_service" where
  "Cancel io0 io1 io2 now jid s =
     (case Get io0 jid s of
        Inl err \<Rightarrow> (Inl err, s)
      | Inr job \<Rightarrow>
          if job_state job = ''cancel_requested'' then (Inr job, s)
          else if job_state job = ''queued'' \<or> job_state job = ''running''
          then (case mget (svc_cancel s) jid of
                  None \<Rightarrow> (Inl ErrNotCancellable, s)
                | Some cancel \<Rightarrow> cancel_commit io1 io2 now job cancel s)
          else (Inl ErrNotCancellable, s))"

definition UpdateWorkflow ::
  "fault \<Rightarrow> Job \<Rightarrow> JobWorkflowStep list \<Rightarrow> job_service \<Rightarrow> (svc_error + Job) \<times> job_service" where
  "UpdateWorkflow io job steps s =
     (case UpdateJobWorkflow io (job_id job) (Some steps) (svc_db s) of
        Inl err \<Rightarrow> (Inl (StoreError err), s)
      | Inr db \<Rightarrow> (Inr (job\<lparr>job_workflow := Some steps\<rparr>), s\<lparr>svc_db := db\<rparr>))"

definition PublishEventWithProgress ::
  "fault \<Rightarrow> time \<Rightarrow> Job \<Rightarrow> string \<Rightarrow> string \<Rightarrow> string \<Rightarrow> JobEventStep option \<Rightarrow> JobProgress option \<Rightarrow>
    job_service \<Rightarrow> svc_error option \<times> job_service" where
  "PublishEventWithProgress io now job eventType message data step progress s =
     (case AppendJobEvent io (newJobEvent job eventType message data step progress now) (svc_db s) of
        Inl err \<Rightarrow> (Some (StoreError err), s)
      | Inr (event, db) \<Rightarrow> (None, notifyActivity (publishLive event (s\<lparr>svc_db := db\<rparr>))))"

definition replace_resources :: "string \<Rightarrow> Resource list \<Rightarrow> job_service \<Rightarrow> svc_error option \<times> job_service" where
  "replace_resources jid requested s =
     (case ReplaceResources jid requested (svc_locks s) of
        Inl err \<Rightarrow> (Some (ResourceError err), s)
      | Inr locks \<Rightarrow> (None, s\<lparr>svc_locks := locks\<rparr>))"

section \<open>Reconciling jobs a restart interrupted\<close>

definition selfUpdateReconcileGracePeriod :: duration where
  "selfUpdateReconcileGracePeriod = 2 * Hour"

definition shouldSkipReconcile :: "time \<Rightarrow> Job \<Rightarrow> bool" where
  "shouldSkipReconcile now job =
     (if job_action job \<noteq> ''self_update_stacklab'' then False
      else let startedAt = (case job_started_at job of Some t \<Rightarrow> t | None \<Rightarrow> job_requested_at job)
           in time_sub now startedAt < selfUpdateReconcileGracePeriod)"

fun first_index :: "('a \<Rightarrow> bool) \<Rightarrow> 'a list \<Rightarrow> nat option" where
  "first_index p [] = None"
| "first_index p (x # xs) = (if p x then Some 0 else map_option Suc (first_index p xs))"

definition interruptedWorkflow :: "JobWorkflowStep list \<Rightarrow> JobWorkflowStep list \<times> JobEventStep option" where
  "interruptedWorkflow steps =
     (if steps = [] then ([], None)
      else case (case first_index (\<lambda>step. ws_state step = ''running'') steps of
                   Some i \<Rightarrow> Some i
                 | None \<Rightarrow> first_index (\<lambda>step. ws_state step = ''queued'' \<or> ws_state step = ''cancel_requested'') steps) of
        None \<Rightarrow> (steps, None)
      | Some index \<Rightarrow>
          let cloned = steps[index := (steps ! index)\<lparr>ws_state := ''failed''\<rparr>]
          in (cloned, Some \<lparr>es_index = int index + 1, es_total = int (length cloned),
                            es_action = ws_action (cloned ! index), es_state = ws_state (cloned ! index),
                            es_target_stack = ws_target_stack (cloned ! index), es_services = []\<rparr>))"

definition interrupted_job :: "time \<Rightarrow> Job \<Rightarrow> Job \<times> JobEvent list" where
  "interrupted_job now job0 =
     (let (workflow, stepRef) =
            (case job_workflow job0 of
               None \<Rightarrow> (None, None)
             | Some steps \<Rightarrow> (case interruptedWorkflow steps of (w, r) \<Rightarrow> (Some w, r)));
          errorMessage = ''Job did not finish before Stacklab restarted.'';
          job = job0\<lparr>job_workflow := workflow, job_state := ''failed'', job_finished_at := Some now,
                     job_error_code := ''job_interrupted'', job_error_message := errorMessage\<rparr>
      in (job,
          (if stepRef \<noteq> None
           then [newJobEvent job ''job_step_finished'' ''Step did not finish before Stacklab restarted.'' '''' stepRef None now]
           else []) @
          [newJobEvent job ''job_error'' errorMessage '''' stepRef None now,
           newJobEvent job ''job_finished'' ''Job marked failed after Stacklab restarted.'' '''' None None now]))"

definition reconcileInterruptedJob ::
  "fault \<Rightarrow> fault \<Rightarrow> time \<Rightarrow> time \<Rightarrow> Job \<Rightarrow> job_service \<Rightarrow> (svc_error + Job) \<times> job_service" where
  "reconcileInterruptedJob io1 io2 now now2 job0 s =
     (case interrupted_job now job0 of (job, events) \<Rightarrow> commitTerminalTransition io1 io2 now2 job events s)"

text \<open>The loop over the active jobs; \<open>clock\<close> and \<open>io\<close> give what each job's turn meets.\<close>

fun reconcile_loop ::
  "(string \<Rightarrow> fault \<times> fault) \<Rightarrow> (string \<Rightarrow> time) \<Rightarrow> Job list \<Rightarrow> job_service \<Rightarrow> (svc_error + Job list) \<times> job_service" where
  "reconcile_loop io clock [] s = (Inr [], s)"
| "reconcile_loop io clock (job # jobs) s =
     (if shouldSkipReconcile (clock (job_id job)) job then reconcile_loop io clock jobs s
      else case reconcileInterruptedJob (fst (io (job_id job))) (snd (io (job_id job)))
                  (clock (job_id job)) (clock (job_id job)) job s of
             (Inl err, s1) \<Rightarrow> (Inl err, s1)
           | (Inr failedJob, s1) \<Rightarrow>
               (case reconcile_loop io clock jobs s1 of
                  (Inl err, s2) \<Rightarrow> (Inl err, s2)
                | (Inr reconciled, s2) \<Rightarrow> (Inr (failedJob # reconciled), s2)))"

definition ReconcileInterrupted ::
  "fault \<Rightarrow> (string \<Rightarrow> fault \<times> fault) \<Rightarrow> (string \<Rightarrow> time) \<Rightarrow> job_service \<Rightarrow> (svc_error + Job list) \<times> job_service" where
  "ReconcileInterrupted io0 io clock s =
     (case ListActiveJobs io0 (svc_db s) of
        Inl err \<Rightarrow> (Inl (StoreError err), s)
      | Inr storedJobs \<Rightarrow> reconcile_loop io clock storedJobs s)"

section \<open>Listing active jobs\<close>

record ActiveJobEvent =
  ae_event :: string
  ae_message :: string
  ae_data :: string
  ae_time :: "time"
  ae_step :: "JobEventStep option"

record ActiveJobItem =
  ai_id :: string
  ai_stack :: "string option"
  ai_action :: string
  ai_state :: string
  ai_request_id :: string
  ai_requested_at :: "time"
  ai_started_at :: "time option"
  ai_workflow :: "(string \<times> string \<times> string) list option" \<comment> \<open>action, state, target stack\<close>
  ai_current_step :: "JobEventStep option"
  ai_latest_event :: "ActiveJobEvent option"

record ActiveJobCounts =
  ac_active :: nat
  ac_running :: nat
  ac_queued :: nat
  ac_cancel_requested :: nat

definition active_item :: "Job \<Rightarrow> JobEvent option \<Rightarrow> ActiveJobItem" where
  "active_item job latest =
     \<lparr>ai_id = job_id job,
      ai_stack = (if job_stack job \<noteq> '''' then Some (job_stack job) else None),
      ai_action = job_action job, ai_state = job_state job, ai_request_id = job_request_id job,
      ai_requested_at = job_requested_at job, ai_started_at = job_started_at job,
      ai_workflow = map_option (map (\<lambda>step. (ws_action step, ws_state step, ws_target_stack step))) (job_workflow job),
      ai_current_step = (case latest of None \<Rightarrow> None | Some e \<Rightarrow> ev_step e),
      ai_latest_event = map_option (\<lambda>e. \<lparr>ae_event = ev_event e, ae_message = ev_message e,
        ae_data = ev_data e, ae_time = ev_time e, ae_step = ev_step e\<rparr>) latest\<rparr>"

definition count_state :: "string \<Rightarrow> ActiveJobCounts \<Rightarrow> ActiveJobCounts" where
  "count_state state c =
     (if state = ''running'' then c\<lparr>ac_running := ac_running c + 1\<rparr>
      else if state = ''queued'' then c\<lparr>ac_queued := ac_queued c + 1\<rparr>
      else if state = ''cancel_requested'' then c\<lparr>ac_cancel_requested := ac_cancel_requested c + 1\<rparr>
      else c)"

fun list_active_loop ::
  "(string \<Rightarrow> fault) \<Rightarrow> job_db \<Rightarrow> Job list \<Rightarrow> ActiveJobItem list \<times> ActiveJobCounts \<Rightarrow>
    svc_error + ActiveJobItem list \<times> ActiveJobCounts" where
  "list_active_loop io db [] (items, c) = Inr (items, c\<lparr>ac_active := length items\<rparr>)"
| "list_active_loop io db (job # jobs) (items, c) =
     (case LatestJobEvent (io (job_id job)) (job_id job) db of
        Inl err \<Rightarrow> Inl (StoreError err)
      | Inr latest \<Rightarrow>
          list_active_loop io db jobs (items @ [active_item job latest], count_state (job_state job) c))"

definition ListActive ::
  "fault \<Rightarrow> (string \<Rightarrow> fault) \<Rightarrow> job_service \<Rightarrow> svc_error + ActiveJobItem list \<times> ActiveJobCounts" where
  "ListActive io0 io s =
     (case ListActiveJobs io0 (svc_db s) of
        Inl err \<Rightarrow> Inl (StoreError err)
      | Inr storedJobs \<Rightarrow>
          list_active_loop io (svc_db s) storedJobs
            ([], \<lparr>ac_active = 0, ac_running = 0, ac_queued = 0, ac_cancel_requested = 0\<rparr>))"

end
