(* ===== verification/Job_System.thy ===== *)
theory Job_System
  imports Job_Service
begin

text \<open>
  Concurrent executions of the job service.  A state adds to the service what its goroutines
  are in the middle of: the starts that hold their resources but have not inserted their
  row, and the terminal transitions that are committed but have not released anything yet.
  The event lock of a job (one of 64, by hash) is held through such a transition, which is
  the guard of every step that publishes events.  Job ids are random: a new id is one that
  nothing refers to.
\<close>

record job_sys =
  sys_svc :: job_service
  sys_used :: "string set" \<comment> \<open>the ids this process has given out\<close>
  sys_pending :: "Job list"
  sys_inflight :: "(Job \<times> transition_outcome) list"

abbreviation sys_db :: "job_sys \<Rightarrow> job_db" where
  "sys_db S \<equiv> svc_db (sys_svc S)"

abbreviation sys_locks :: "job_sys \<Rightarrow> lock_table" where
  "sys_locks S \<equiv> svc_locks (sys_svc S)"

abbreviation pending_ids :: "job_sys \<Rightarrow> string list" where
  "pending_ids S \<equiv> map job_id (sys_pending S)"

definition initial_sys :: "job_db \<Rightarrow> job_sys" where
  "initial_sys db = \<lparr>sys_svc = NewService db, sys_used = {}, sys_pending = [], sys_inflight = []\<rparr>"

definition fresh_id :: "job_sys \<Rightarrow> string \<Rightarrow> bool" where
  "fresh_id S jid \<longleftrightarrow>
     jid \<noteq> '''' \<and> jid \<notin> sys_used S \<and> find_job jid (sys_db S) = None \<and>
     mget (svc_subs (sys_svc S)) jid = None \<and> jid \<notin> job_id ` fst ` set (sys_inflight S)"

definition event_free :: "job_sys \<Rightarrow> string \<Rightarrow> bool" where
  "event_free S jid \<longleftrightarrow>
     lockJobEvents_index jid \<notin> lockJobEvents_index ` job_id ` fst ` set (sys_inflight S)"

inductive job_step :: "job_sys \<Rightarrow> job_sys \<Rightarrow> bool" where
  reserve: "fresh_id S jid \<Longrightarrow>
    start_reserve jid stackID requested draining (sys_svc S) = Inr s' \<Longrightarrow>
    job_step S (S\<lparr>sys_svc := s', sys_used := insert jid (sys_used S),
      sys_pending := new_job now jid reqID stackID action requestedBy workflow # sys_pending S\<rparr>)"
| commit: "job \<in> set (sys_pending S) \<Longrightarrow> event_free S (job_id job) \<Longrightarrow>
    start_commit io (job_requested_at job) job (sys_svc S) = (r, s') \<Longrightarrow>
    job_step S (S\<lparr>sys_svc := s', sys_pending := removeAll job (sys_pending S)\<rparr>)"
| transition: "event_free S (job_id job) \<Longrightarrow> isTerminalJobState (job_state job) \<Longrightarrow>
    terminal_transition io1 io2 job events (sys_svc S) = (outcome, s') \<Longrightarrow>
    job_step S (S\<lparr>sys_svc := s', sys_inflight := (job, outcome) # sys_inflight S\<rparr>)"
| release: "(job, outcome) \<in> set (sys_inflight S) \<Longrightarrow>
    terminal_release now2 job outcome (sys_svc S) = (r, s') \<Longrightarrow>
    job_step S (S\<lparr>sys_svc := s', sys_inflight := removeAll (job, outcome) (sys_inflight S)\<rparr>)"
| cancel: "event_free S (job_id job) \<Longrightarrow>
    cancel_commit io1 io2 now job f (sys_svc S) = (r, s') \<Longrightarrow>
    job_step S (S\<lparr>sys_svc := s'\<rparr>)"
| publish: "event_free S (job_id job) \<Longrightarrow>
    PublishEventWithProgress io now job ty msg data step progress (sys_svc S) = (e, s') \<Longrightarrow>
    job_step S (S\<lparr>sys_svc := s'\<rparr>)"
| workflow: "UpdateWorkflow io job steps (sys_svc S) = (r, s') \<Longrightarrow> job_step S (S\<lparr>sys_svc := s'\<rparr>)"
| replace: "replace_resources jid requested (sys_svc S) = (e, s') \<Longrightarrow> job_step S (S\<lparr>sys_svc := s'\<rparr>)"
| prune: "job_step S (S\<lparr>sys_svc := (sys_svc S)\<lparr>svc_db := prune_job_tables ec jc audited (sys_db S)\<rparr>\<rparr>)"
| subscribe: "mget (svc_chan (sys_svc S)) ch = None \<Longrightarrow>
    job_step S (S\<lparr>sys_svc := Subscribe jid ch (sys_svc S)\<rparr>)"
| unsubscribe: "job_step S (S\<lparr>sys_svc := unsubscribe jid ch (sys_svc S)\<rparr>)"
| receive: "mget (svc_chan (sys_svc S)) ch = Some (e # buf) \<Longrightarrow>
    job_step S (S\<lparr>sys_svc := (sys_svc S)\<lparr>svc_chan := mput ch buf (svc_chan (sys_svc S))\<rparr>\<rparr>)"
| register: "job_step S (S\<lparr>sys_svc := RegisterCancel jid f (sys_svc S)\<rparr>)"
| unregister: "job_step S (S\<lparr>sys_svc := unregisterCancel jid f (sys_svc S)\<rparr>)"

inductive job_reachable :: "job_db \<Rightarrow> job_sys \<Rightarrow> bool" for db where
  init: "job_reachable db (initial_sys db)"
| step: "job_reachable db S \<Longrightarrow> job_step S T \<Longrightarrow> job_reachable db T"

text \<open>The handlers of the service are sequences of these steps.\<close>

lemma start_steps:
  assumes "start io now jid reqID stackID action requestedBy requested draining workflow (sys_svc S) = (Inr job, s')"
    "fresh_id S jid" "event_free S jid" "sys_pending S = []"
  shows "job_step\<^sup>*\<^sup>* S (S\<lparr>sys_svc := s', sys_used := insert jid (sys_used S)\<rparr>)"
proof -
  let ?job = "new_job now jid reqID stackID action requestedBy workflow"
  obtain s1 where s1: "start_reserve jid stackID requested draining (sys_svc S) = Inr s1"
    and s': "start_commit io now ?job s1 = (Inr job, s')"
    using assms(1) by (auto simp: start_def Let_def split: sum.splits)
  let ?S1 = "S\<lparr>sys_svc := s1, sys_used := insert jid (sys_used S), sys_pending := ?job # sys_pending S\<rparr>"
  have "job_step S ?S1" by (rule reserve [OF assms(2) s1])
  moreover have "job_step ?S1 (?S1\<lparr>sys_svc := s', sys_pending := removeAll ?job (sys_pending ?S1)\<rparr>)"
    by (rule commit) (use assms(3) s' in \<open>auto simp: event_free_def new_job_def\<close>)
  moreover have "?S1\<lparr>sys_svc := s', sys_pending := removeAll ?job (sys_pending ?S1)\<rparr> =
      S\<lparr>sys_svc := s', sys_used := insert jid (sys_used S)\<rparr>"
    using assms(4) by (cases S) simp
  ultimately show ?thesis by (metis converse_rtranclp_into_rtranclp r_into_rtranclp)
qed

lemma commitTerminal_steps:
  assumes "commitTerminalTransition io1 io2 now2 job events (sys_svc S) = (r, s')"
    "event_free S (job_id job)" "isTerminalJobState (job_state job)"
  shows "job_step\<^sup>*\<^sup>* S (S\<lparr>sys_svc := s'\<rparr>)"
proof -
  obtain outcome s1 where s1: "terminal_transition io1 io2 job events (sys_svc S) = (outcome, s1)"
    and s': "terminal_release now2 job outcome s1 = (r, s')"
    using assms(1) by (auto simp: commitTerminalTransition_def split: prod.splits)
  let ?S1 = "S\<lparr>sys_svc := s1, sys_inflight := (job, outcome) # sys_inflight S\<rparr>"
  have "(job, outcome) \<notin> set (sys_inflight S)" using assms(2) by (force simp: event_free_def)
  then have "?S1\<lparr>sys_svc := s', sys_inflight := removeAll (job, outcome) (sys_inflight ?S1)\<rparr> = S\<lparr>sys_svc := s'\<rparr>"
    by simp
  moreover have "job_step S ?S1" by (rule transition [OF assms(2,3) s1])
  moreover have "job_step ?S1 (?S1\<lparr>sys_svc := s', sys_inflight := removeAll (job, outcome) (sys_inflight ?S1)\<rparr>)"
    by (rule release) (use s' in auto)
  ultimately show ?thesis by (metis converse_rtranclp_into_rtranclp r_into_rtranclp)
qed

lemma Cancel_steps:
  assumes "Cancel io0 io1 io2 now jid (sys_svc S) = (r, s')" "event_free S jid"
  shows "job_step\<^sup>*\<^sup>* S (S\<lparr>sys_svc := s'\<rparr>)"
proof (cases "s' = sys_svc S")
  case False
  then obtain job f where "Get io0 jid (sys_svc S) = Inr job" "cancel_commit io1 io2 now job f (sys_svc S) = (r, s')"
    using assms(1) by (auto simp: Cancel_def split: sum.splits if_splits option.splits)
  moreover from this have "job_id job = jid"
    by (auto simp: Get_def JobByID_def dest: find_job_SomeD split: option.splits sum.splits)
  ultimately show ?thesis using cancel [of S job] assms(2) by auto
qed simp

lemma job_reachable_steps: "job_step\<^sup>*\<^sup>* S T \<Longrightarrow> job_reachable db S \<Longrightarrow> job_reachable db T"
  by (induction rule: rtranclp_induct) (auto intro: job_reachable.step)

section \<open>Frames\<close>

lemma publish_frame [simp]:
  "svc_locks (publishLive e s) = svc_locks s" "svc_db (publishLive e s) = svc_db s"
  "svc_subs (publishLive e s) = svc_subs s" "svc_hook (publishLive e s) = svc_hook s"
  "svc_locks (notifyActivity s) = svc_locks s" "svc_db (notifyActivity s) = svc_db s"
  "svc_subs (notifyActivity s) = svc_subs s" "svc_chan (notifyActivity s) = svc_chan s"
  "svc_locks (emit x s) = svc_locks s" "svc_db (emit x s) = svc_db s"
  "svc_subs (emit x s) = svc_subs s" "svc_chan (emit x s) = svc_chan s"
  "svc_locks (observeJobStarted t s) = svc_locks s" "svc_db (observeJobStarted t s) = svc_db s"
  "svc_subs (observeJobStarted t s) = svc_subs s" "svc_chan (observeJobStarted t s) = svc_chan s"
  "svc_locks (observeJobFinished t u st s) = svc_locks s" "svc_db (observeJobFinished t u st s) = svc_db s"
  "svc_subs (observeJobFinished t u st s) = svc_subs s" "svc_chan (observeJobFinished t u st s) = svc_chan s"
  "svc_locks (unlock_job j s) = unlockAll j (svc_locks s)" "svc_db (unlock_job j s) = svc_db s"
  "svc_subs (unlock_job j s) = svc_subs s" "svc_chan (unlock_job j s) = svc_chan s"
  by (simp_all add: publishLive_def notifyActivity_def emit_def observeJobStarted_def
      observeJobFinished_def unlock_job_def Let_def)

lemma publishCommitted_frame [simp]:
  "svc_locks (publishCommittedEvents es s) = svc_locks s"
  "svc_db (publishCommittedEvents es s) = svc_db s"
  "svc_subs (publishCommittedEvents es s) = svc_subs s"
  unfolding publishCommittedEvents_def by (induction es arbitrary: s) simp_all

lemma subscription_frame [simp]:
  "svc_locks (Subscribe j ch s) = svc_locks s" "svc_db (Subscribe j ch s) = svc_db s"
  "svc_locks (unsubscribe j ch s) = svc_locks s" "svc_db (unsubscribe j ch s) = svc_db s"
  "svc_chan (unsubscribe j ch s) = svc_chan s"
  "svc_locks (RegisterCancel j f s) = svc_locks s" "svc_db (RegisterCancel j f s) = svc_db s"
  "svc_subs (RegisterCancel j f s) = svc_subs s" "svc_chan (RegisterCancel j f s) = svc_chan s"
  "svc_locks (unregisterCancel j f s) = svc_locks s" "svc_db (unregisterCancel j f s) = svc_db s"
  "svc_subs (unregisterCancel j f s) = svc_subs s" "svc_chan (unregisterCancel j f s) = svc_chan s"
  by (auto simp: Subscribe_def unsubscribe_def RegisterCancel_def unregisterCancel_def Let_def
      split: option.splits)

section \<open>Stored states\<close>

definition active_in :: "job_db \<Rightarrow> string \<Rightarrow> bool" where
  "active_in db jid \<longleftrightarrow> (case find_job jid db of None \<Rightarrow> False | Some r \<Rightarrow> job_active r)"

text \<open>
  A handler that is not a start or an end of a job creates no row and changes no job from
  active to inactive or back.
\<close>

definition rows_same :: "job_db \<Rightarrow> job_db \<Rightarrow> bool" where
  "rows_same db db' \<longleftrightarrow>
     (\<forall>jid. (find_job jid db = None \<longrightarrow> find_job jid db' = None) \<and> active_in db' jid = active_in db jid)"

lemma rows_same_refl [simp]: "rows_same db db"
  by (simp add: rows_same_def)

lemma rows_same_events [simp]: "rows_same db (db'\<lparr>db_events := es\<rparr>) = rows_same db db'"
  by (simp add: rows_same_def active_in_def)

lemma rows_same_map_job:
  assumes "\<And>r. row_id (f r) = row_id r"
    and "\<And>r. find_job jid db = Some r \<Longrightarrow> job_active (f r) = job_active r"
  shows "rows_same db (map_job jid f db)"
  using assms(2)
  by (auto simp: rows_same_def active_in_def find_job_map_job [OF assms(1)] split: option.splits if_splits)

lemma Transition_guard:
  assumes "TransitionJobWithEvents io job allowed events db = Inr (u, evs, db')"
  shows "allowed \<noteq> []" "events \<noteq> []" "events_match job events" "io = None"
  using assms by (auto simp: TransitionJobWithEvents_def events_match_def split: if_splits option.splits)

lemma Transition_same:
  assumes "db_inv db" "TransitionJobWithEvents io job allowed events db = Inr (u, evs, db')"
    "set allowed \<subseteq> set active_states" "job_state job \<in> set active_states"
  shows "rows_same db db'"
proof -
  note match = Transition_guard [OF assms(2)]
  have "rows_same db (map_job (job_id job) (transition_row job n) db)"
    if "find_job (job_id job) db = Some r" "job_state (row_job r) \<in> set allowed" for n r
    using that assms(3,4) by (intro rows_same_map_job) (auto simp: job_active_def)
  then show ?thesis
    using assms(2) by (auto simp: TransitionJobWithEvents_eq [OF assms(1) match(1-3)] split: option.splits if_splits)
qed

lemma Transition_terminal:
  assumes "db_inv db" "TransitionJobWithEvents io job allowed events db = Inr (True, evs, db')"
    "job_state job \<notin> set active_states"
  shows "active_in db' jid = (active_in db jid \<and> jid \<noteq> job_id job)"
    "find_job jid db = None \<Longrightarrow> find_job jid db' = None" "find_job (job_id job) db \<noteq> None"
  using assms(2,3) Transition_guard [OF assms(2)]
  by (auto simp: TransitionJobWithEvents_eq [OF assms(1)] active_in_def find_job_map_job job_active_def
      split: option.splits if_splits)

lemma Append_same:
  assumes "db_inv db" "AppendJobEvent io event db = Inr (e, db')"
  shows "rows_same db db'"
  using assms(2)
  by (auto simp: AppendJobEvent_eq [OF assms(1)] Let_def job_active_def
      intro!: rows_same_map_job split: option.splits)

lemma Workflow_same: "UpdateJobWorkflow io jid w db = Inr db' \<Longrightarrow> rows_same db db'"
  by (auto simp: UpdateJobWorkflow_Inr job_active_def intro!: rows_same_map_job)

lemma prune_same: "db_inv db \<Longrightarrow> rows_same db (prune_job_tables ec jc audited db)"
  by (auto simp: rows_same_def active_in_def prune_find_job prunable_job_def split: option.splits)

section \<open>Resources follow the job rows\<close>

definition releases :: "transition_outcome \<Rightarrow> bool" where
  "releases outcome =
     (case outcome of
        TransitionFailed _ \<Rightarrow> False
      | TransitionLost current \<Rightarrow> isTerminalJobState (job_state current)
      | TransitionDone _ \<Rightarrow> True)"

definition locked :: "job_sys \<Rightarrow> string \<Rightarrow> bool" where
  "locked S jid \<longleftrightarrow> mget (resourcesByJob (sys_locks S)) jid \<noteq> None"

definition releasing :: "job_sys \<Rightarrow> string \<Rightarrow> bool" where
  "releasing S jid \<longleftrightarrow> (\<exists>(job, outcome) \<in> set (sys_inflight S). job_id job = jid \<and> releases outcome)"

text \<open>
  An active job this process started holds resources; a job holds resources only while it
  is starting, active or being released; a job being released is no longer active.
\<close>

definition sys_inv :: "job_sys \<Rightarrow> bool" where
  "sys_inv S \<longleftrightarrow>
     lock_inv (sys_locks S) \<and> db_inv (sys_db S) \<and> distinct (pending_ids S) \<and>
     (\<forall>job \<in> set (sys_pending S). job_id job \<in> sys_used S \<and> find_job (job_id job) (sys_db S) = None \<and>
        locked S (job_id job) \<and> job_state job = ''running'') \<and>
     (\<forall>jid. active_in (sys_db S) jid \<and> jid \<in> sys_used S \<longrightarrow> locked S jid) \<and>
     (\<forall>jid. locked S jid \<longrightarrow> jid \<in> sys_used S \<and>
        (jid \<in> set (pending_ids S) \<or> active_in (sys_db S) jid \<or> releasing S jid)) \<and>
     (\<forall>jid. releasing S jid \<longrightarrow> \<not> active_in (sys_db S) jid \<and> jid \<notin> set (pending_ids S))"

lemma sys_invI:
  assumes "lock_inv (sys_locks S)" "db_inv (sys_db S)" "distinct (pending_ids S)"
    and "\<And>job. job \<in> set (sys_pending S) \<Longrightarrow> job_id job \<in> sys_used S \<and>
      find_job (job_id job) (sys_db S) = None \<and> locked S (job_id job) \<and> job_state job = ''running''"
    and "\<And>jid. active_in (sys_db S) jid \<Longrightarrow> jid \<in> sys_used S \<Longrightarrow> locked S jid"
    and "\<And>jid. locked S jid \<Longrightarrow> jid \<in> sys_used S \<and>
      (jid \<in> set (pending_ids S) \<or> active_in (sys_db S) jid \<or> releasing S jid)"
    and "\<And>jid. releasing S jid \<Longrightarrow> \<not> active_in (sys_db S) jid \<and> jid \<notin> set (pending_ids S)"
  shows "sys_inv S"
  unfolding sys_inv_def using assms by blast

lemma sys_invD:
  assumes "sys_inv S"
  shows "lock_inv (sys_locks S)" "db_inv (sys_db S)" "distinct (pending_ids S)"
    "job \<in> set (sys_pending S) \<Longrightarrow> job_id job \<in> sys_used S \<and>
      find_job (job_id job) (sys_db S) = None \<and> locked S (job_id job) \<and> job_state job = ''running''"
    "active_in (sys_db S) jid \<Longrightarrow> jid \<in> sys_used S \<Longrightarrow> locked S jid"
    "locked S jid \<Longrightarrow> jid \<in> sys_used S \<and>
      (jid \<in> set (pending_ids S) \<or> active_in (sys_db S) jid \<or> releasing S jid)"
    "releasing S jid \<Longrightarrow> \<not> active_in (sys_db S) jid \<and> jid \<notin> set (pending_ids S)"
  using assms unfolding sys_inv_def by simp_all

lemma sys_inv_initial: "db_inv db \<Longrightarrow> sys_inv (initial_sys db)"
  by (simp add: sys_inv_def initial_sys_def NewService_def lock_inv_empty locked_def releasing_def)
    (simp add: empty_locks_def)

text \<open>A step that keeps who holds resources and the activity of every row.\<close>

lemma sys_inv_frame:
  assumes "sys_inv S" "db_inv (svc_db s')" "rows_same (sys_db S) (svc_db s')" "lock_inv (svc_locks s')"
    and doms: "\<And>j. mget (resourcesByJob (svc_locks s')) j = None \<longleftrightarrow> mget (resourcesByJob (sys_locks S)) j = None"
  shows "sys_inv (S\<lparr>sys_svc := s'\<rparr>)"
proof -
  note I = sys_invD [OF assms(1)]
  have loc: "locked (S\<lparr>sys_svc := s'\<rparr>) = locked S" and rel: "releasing (S\<lparr>sys_svc := s'\<rparr>) = releasing S"
    using doms by (simp_all add: locked_def releasing_def fun_eq_iff)
  have act: "active_in (svc_db s') jid = active_in (sys_db S) jid" for jid
    using assms(3) by (simp add: rows_same_def)
  show ?thesis
    using I assms(2,4) assms(3) [unfolded rows_same_def]
    by (intro sys_invI) (simp_all add: loc rel act)
qed

lemma sys_inv_same:
  assumes "sys_inv S" "db_inv (svc_db s')" "rows_same (sys_db S) (svc_db s')"
    "svc_locks s' = sys_locks S"
  shows "sys_inv (S\<lparr>sys_svc := s'\<rparr>)"
  using assms sys_invD(1) [OF assms(1)] by (intro sys_inv_frame) simp_all

lemma locked_holds: "sys_inv S \<Longrightarrow> locked S jid \<longleftrightarrow> holds (sys_locks S) jid \<noteq> {}"
  using lock_invD(4) [of "sys_locks S" jid] sys_invD(1) [of S]
  by (auto simp: locked_def holds_def split: option.splits)

lemma start_reserve_Inr:
  assumes "start_reserve jid sid rs dr s = Inr s'"
  obtains res locks where "normalizeResources sid rs = Inr res"
    "lockMany jid res dr (svc_locks s) = Inr locks" "s' = s\<lparr>svc_locks := locks\<rparr>"
  using assms by (auto simp: start_reserve_def split: sum.splits)

lemma reserve_inv:
  assumes inv: "sys_inv S" and fresh: "fresh_id S jid"
    and ok: "start_reserve jid stackID requested draining (sys_svc S) = Inr s'"
    and job: "job_id job = jid" "job_state job = ''running''"
  shows "sys_inv (S\<lparr>sys_svc := s', sys_used := insert jid (sys_used S), sys_pending := job # sys_pending S\<rparr>)"
    (is "sys_inv ?T")
proof -
  note I = sys_invD [OF inv]
  obtain res locks where R: "normalizeResources stackID requested = Inr res"
    "lockMany jid res draining (sys_locks S) = Inr locks" "s' = (sys_svc S)\<lparr>svc_locks := locks\<rparr>"
    by (rule start_reserve_Inr [OF ok])
  have new: "\<not> locked S jid" "jid \<notin> sys_used S" "find_job jid (sys_db S) = None" "jid \<noteq> ''''"
    "\<not> releasing S jid" "jid \<notin> set (pending_ids S)"
    using fresh I(4,6) by (auto simp: fresh_id_def releasing_def image_iff)
  have loc: "locked ?T k \<longleftrightarrow> k = jid \<or> locked S k" for k
    using lockMany_Inr(5) [OF R(2)] by (simp add: locked_def R(3) mget_put)
  have rel: "releasing ?T = releasing S" by (simp add: releasing_def fun_eq_iff)
  have "lock_inv locks"
    using lockMany_inv [OF I(1) new(4) _ _ R(2)] new(1) normalizeResources_spec(1) [OF R(1)]
    by (simp add: locked_def)
  have inact: "\<not> active_in (sys_db S) jid" using new(3) by (simp add: active_in_def)
  show ?thesis
  proof (rule sys_invI, unfold rel)
    show "lock_inv (sys_locks ?T)" using \<open>lock_inv locks\<close> by (simp add: R(3))
    show "db_inv (sys_db ?T)" using I(2) by (simp add: R(3))
    show "distinct (pending_ids ?T)" using I(3) new(6) job by simp
    show "job_id k \<in> sys_used ?T \<and> find_job (job_id k) (sys_db ?T) = None \<and> locked ?T (job_id k) \<and>
        job_state k = ''running''" if "k \<in> set (sys_pending ?T)" for k
      using that I(4) [of k] new job unfolding loc by (auto simp: R(3))
    show "locked ?T k" if "active_in (sys_db ?T) k" "k \<in> sys_used ?T" for k
      using that I(5) [of k] unfolding loc by (auto simp: R(3))
    show "k \<in> sys_used ?T \<and> (k \<in> set (pending_ids ?T) \<or> active_in (sys_db ?T) k \<or> releasing S k)"
      if "locked ?T k" for k
      using that I(6) [of k] job unfolding loc by (auto simp: R(3))
    show "\<not> active_in (sys_db ?T) k \<and> k \<notin> set (pending_ids ?T)" if "releasing S k" for k
      using that I(7) [of k] new(5) job by (auto simp: R(3))
  qed
qed

lemma start_commit_db:
  assumes "start_commit io now job s = (r, s')" "db_inv (svc_db s)" "find_job (job_id job) (svc_db s) = None"
  shows "io = None \<Longrightarrow> svc_locks s' = svc_locks s \<and>
      svc_db s' = \<lparr>db_jobs = db_jobs (svc_db s) @ [\<lparr>row_job = job, row_seq = 1\<rparr>],
        db_events = db_events (svc_db s) @ [initial_event job now]\<rparr> \<and> r = Inr job"
    "io \<noteq> None \<Longrightarrow> svc_db s' = svc_db s \<and> svc_locks s' = unlockAll (job_id job) (svc_locks s) \<and> (\<exists>e. r = Inl e)"
proof -
  have ev: "ev_job (initial_event job now) = job_id job" "ev_seq (initial_event job now) = 1"
    by (simp_all add: initial_event_def)
  show "svc_locks s' = svc_locks s \<and>
      svc_db s' = \<lparr>db_jobs = db_jobs (svc_db s) @ [\<lparr>row_job = job, row_seq = 1\<rparr>],
        db_events = db_events (svc_db s) @ [initial_event job now]\<rparr> \<and> r = Inr job" if "io = None"
  proof -
    have "CreateJobWithInitialEvent io job (initial_event job now) (svc_db s) =
        Inr \<lparr>db_jobs = db_jobs (svc_db s) @ [\<lparr>row_job = job, row_seq = 1\<rparr>],
          db_events = db_events (svc_db s) @ [initial_event job now]\<rparr>"
      using assms(3) that ev by (simp add: CreateJobWithInitialEvent_Inr [OF assms(2)])
    with assms(1) show ?thesis by (auto simp: start_commit_def)
  qed
  show "svc_db s' = svc_db s \<and> svc_locks s' = unlockAll (job_id job) (svc_locks s) \<and> (\<exists>e. r = Inl e)" if io: "io \<noteq> None"
  proof -
    obtain e where "CreateJobWithInitialEvent io job (initial_event job now) (svc_db s) = Inl e"
      using io ev by (auto simp: CreateJobWithInitialEvent_def createJob_def)
    with assms(1) show ?thesis by (auto simp: start_commit_def)
  qed
qed

lemma commit_inv:
  assumes inv: "sys_inv S" and job: "job \<in> set (sys_pending S)"
    and ok: "start_commit io now job (sys_svc S) = (r, s')"
  shows "sys_inv (S\<lparr>sys_svc := s', sys_pending := removeAll job (sys_pending S)\<rparr>)" (is "sys_inv ?T")
proof -
  note I = sys_invD [OF inv]
  note J = I(4) [OF job]
  note C = start_commit_db [OF ok I(2)]
  have rel: "releasing ?T = releasing S" by (simp add: releasing_def fun_eq_iff)
  have pend: "set (pending_ids ?T) = set (pending_ids S) - {job_id job}" "distinct (pending_ids ?T)"
    using I(3) job by (auto simp: distinct_map inj_on_def distinct_removeAll)
  have pend': "k \<in> set (sys_pending ?T) \<Longrightarrow> k \<in> set (sys_pending S) \<and> job_id k \<noteq> job_id job" for k
    using I(3) job by (auto simp: distinct_map inj_on_def)
  show ?thesis
  proof (cases "io = None")
    case True
    with C(1) J have L: "svc_locks s' = sys_locks S"
      and D: "svc_db s' = \<lparr>db_jobs = db_jobs (sys_db S) @ [\<lparr>row_job = job, row_seq = 1\<rparr>],
        db_events = db_events (sys_db S) @ [initial_event job now]\<rparr>" by auto
    have inv': "db_inv (svc_db s')"
      using CreateJobWithInitialEvent_inv [OF I(2), of None job "initial_event job now" "svc_db s'"] J D
      by (simp add: CreateJobWithInitialEvent_Inr [OF I(2)] initial_event_def)
    have find: "find_job jid (svc_db s') = (if jid = job_id job then Some \<lparr>row_job = job, row_seq = 1\<rparr>
        else find_job jid (sys_db S))" for jid
      using find_job_append [of jid "sys_db S"] J unfolding D find_job_def by (auto split: option.splits)
    have act: "active_in (svc_db s') jid \<longleftrightarrow> jid = job_id job \<or> active_in (sys_db S) jid" for jid
      using J by (auto simp: active_in_def find job_active_def active_states_def)
    have loc: "locked ?T = locked S" by (simp add: locked_def L fun_eq_iff)
    have "\<not> releasing S (job_id job)" using I(7) job by force
    show ?thesis
    proof (rule sys_invI, unfold rel loc pend(1))
      show "lock_inv (sys_locks ?T)" "db_inv (sys_db ?T)" "distinct (pending_ids ?T)"
        using I(1) inv' pend(2) L by simp_all
      show "job_id k \<in> sys_used ?T \<and> find_job (job_id k) (sys_db ?T) = None \<and> locked S (job_id k) \<and>
          job_state k = ''running''" if "k \<in> set (sys_pending ?T)" for k
        using pend' [OF that] I(4) [of k] by (simp add: find)
      show "locked S k" if "active_in (sys_db ?T) k" "k \<in> sys_used ?T" for k
        using that I(5) [of k] J by (auto simp: act)
      show "k \<in> sys_used ?T \<and> (k \<in> set (pending_ids S) - {job_id job} \<or> active_in (sys_db ?T) k \<or> releasing S k)"
        if "locked S k" for k
        using that I(6) [of k] by (auto simp: act)
      show "\<not> active_in (sys_db ?T) k \<and> k \<notin> set (pending_ids S) - {job_id job}" if "releasing S k" for k
        using that I(7) [of k] \<open>\<not> releasing S (job_id job)\<close> by (auto simp: act)
    qed
  next
    case False
    with C(2) J have D: "svc_db s' = sys_db S" and L: "svc_locks s' = unlockAll (job_id job) (sys_locks S)" by auto
    have loc: "locked ?T jid \<longleftrightarrow> locked S jid \<and> jid \<noteq> job_id job" for jid
      by (simp add: locked_def L unlockAll_byJob)
    have "\<not> active_in (sys_db S) (job_id job)" using J by (simp add: active_in_def)
    then have inact: "\<not> active_in (sys_db S) (job_id job)" .
    show ?thesis
    proof (rule sys_invI, unfold rel loc pend(1))
      show "lock_inv (sys_locks ?T)" "db_inv (sys_db ?T)" "distinct (pending_ids ?T)"
        using I(1,2) pend(2) L D by (simp_all add: unlockAll_inv)
      show "job_id k \<in> sys_used ?T \<and> find_job (job_id k) (sys_db ?T) = None \<and>
          (locked S (job_id k) \<and> job_id k \<noteq> job_id job) \<and> job_state k = ''running''"
        if "k \<in> set (sys_pending ?T)" for k
        using pend' [OF that] I(4) [of k] by (simp add: D)
      show "locked S k \<and> k \<noteq> job_id job" if "active_in (sys_db ?T) k" "k \<in> sys_used ?T" for k
        using that I(5) [of k] inact by (auto simp: D)
      show "k \<in> sys_used ?T \<and> (k \<in> set (pending_ids S) - {job_id job} \<or> active_in (sys_db ?T) k \<or> releasing S k)"
        if "locked S k \<and> k \<noteq> job_id job" for k
        using that I(6) [of k] by (simp add: D)
      show "\<not> active_in (sys_db ?T) k \<and> k \<notin> set (pending_ids S) - {job_id job}" if "releasing S k" for k
        using that I(7) [of k] by (simp add: D)
    qed
  qed
qed

lemma terminal_not_active: "isTerminalJobState st \<Longrightarrow> st \<notin> set active_states"
  by (auto simp: isTerminalJobState_def active_states_def)

lemma allowed_active: "[''queued'', ''running'', ''cancel_requested''] = active_states"
  by (simp add: active_states_def)

lemma terminal_transition_cases:
  assumes "terminal_transition io1 io2 job events s = (outcome, s')"
  obtains (fin) evs db where "outcome = TransitionDone evs" "s' = s\<lparr>svc_db := db\<rparr>"
      "TransitionJobWithEvents io1 job active_states events (svc_db s) = Inr (True, evs, db)"
  | (lost) current where "outcome = TransitionLost current" "s' = s"
      "Get io2 (job_id job) s = Inr current"
  | (failed) e where "outcome = TransitionFailed e" "s' = s"
  using assms unfolding terminal_transition_def allowed_active
  by (auto split: sum.splits prod.splits if_splits)

lemma Get_Inr: "Get io jid s = Inr job \<longleftrightarrow> io = None \<and> (\<exists>r. find_job jid (svc_db s) = Some r \<and> row_job r = job)"
  by (auto simp: Get_def JobByID_def split: option.splits sum.splits)

lemma terminal_transition_rows:
  assumes inv: "db_inv (svc_db s)" and trm: "isTerminalJobState (job_state job)"
    and ok: "terminal_transition io1 io2 job events s = (outcome, s')"
  shows "db_inv (svc_db s') \<and>
    (\<forall>k. (find_job k (svc_db s) = None \<longrightarrow> find_job k (svc_db s') = None) \<and>
      (active_in (svc_db s') k \<longrightarrow> active_in (svc_db s) k) \<and>
      (active_in (svc_db s) k \<longrightarrow> active_in (svc_db s') k \<or> k = job_id job \<and> releases outcome)) \<and>
    (releases outcome \<longrightarrow> \<not> active_in (svc_db s') (job_id job) \<and> find_job (job_id job) (svc_db s) \<noteq> None)"
  using ok
proof (cases rule: terminal_transition_cases)
  case (fin evs db)
  then show ?thesis
    using Transition_terminal [OF inv fin(3) terminal_not_active [OF trm]]
      TransitionJobWithEvents_inv [OF inv fin(3)]
    by (simp add: releases_def)
next
  case (lost current)
  then show ?thesis
    using inv terminal_not_active [of "job_state current"]
    by (auto simp: releases_def Get_Inr active_in_def job_active_def)
next
  case (failed e)
  then show ?thesis using inv by (simp add: releases_def)
qed

lemma transition_inv_sys:
  assumes inv: "sys_inv S" and trm: "isTerminalJobState (job_state job)"
    and ok: "terminal_transition io1 io2 job events (sys_svc S) = (outcome, s')"
  shows "sys_inv (S\<lparr>sys_svc := s', sys_inflight := (job, outcome) # sys_inflight S\<rparr>)" (is "sys_inv ?T")
proof -
  note I = sys_invD [OF inv]
  have rel: "releasing ?T k \<longleftrightarrow> releasing S k \<or> (k = job_id job \<and> releases outcome)" for k
    by (auto simp: releasing_def)
  have L: "svc_locks s' = sys_locks S"
    by (rule terminal_transition_cases [OF ok]) auto
  then have loc: "locked ?T = locked S" by (simp add: locked_def fun_eq_iff)
  have D: "db_inv (svc_db s')" "\<And>k. find_job k (sys_db S) = None \<Longrightarrow> find_job k (svc_db s') = None"
    "\<And>k. active_in (svc_db s') k \<Longrightarrow> active_in (sys_db S) k"
    "\<And>k. active_in (sys_db S) k \<Longrightarrow> active_in (svc_db s') k \<or> k = job_id job \<and> releases outcome"
    "releases outcome \<Longrightarrow> \<not> active_in (svc_db s') (job_id job) \<and> find_job (job_id job) (sys_db S) \<noteq> None"
    using terminal_transition_rows [OF I(2) trm ok] by blast+
  show ?thesis
  proof (rule sys_invI, unfold loc rel)
    show "lock_inv (sys_locks ?T)" "db_inv (sys_db ?T)" "distinct (pending_ids ?T)"
      using I(1,3) D(1) L by simp_all
    show "job_id k \<in> sys_used ?T \<and> find_job (job_id k) (sys_db ?T) = None \<and> locked S (job_id k) \<and>
        job_state k = ''running''" if "k \<in> set (sys_pending ?T)" for k
      using that I(4) [of k] D(2) by simp
    show "locked S k" if "active_in (sys_db ?T) k" "k \<in> sys_used ?T" for k
      using that I(5) [of k] D(3) by simp
    show "k \<in> sys_used ?T \<and> (k \<in> set (pending_ids ?T) \<or> active_in (sys_db ?T) k \<or>
        releasing S k \<or> k = job_id job \<and> releases outcome)" if "locked S k" for k
      using I(6) [OF that] D(4) [of k] by auto
    show "\<not> active_in (sys_db ?T) k \<and> k \<notin> set (pending_ids ?T)"
      if "releasing S k \<or> k = job_id job \<and> releases outcome" for k
      using that I(7) [of k] D(3) [of k] D(5) I(4) by auto
  qed
qed

lemma terminal_release_frame:
  assumes "terminal_release now2 job outcome s = (r, s')"
  shows "svc_db s' = svc_db s" "svc_subs s' = svc_subs s"
    "svc_locks s' = (if releases outcome then unlockAll (job_id job) (svc_locks s) else svc_locks s)"
  using assms
  by (auto simp: terminal_release_def releases_def Let_def split: transition_outcome.splits if_splits)

lemma release_inv_sys:
  assumes inv: "sys_inv S" and fl: "(job, outcome) \<in> set (sys_inflight S)"
    and ok: "terminal_release now2 job outcome (sys_svc S) = (r, s')"
  shows "sys_inv (S\<lparr>sys_svc := s', sys_inflight := removeAll (job, outcome) (sys_inflight S)\<rparr>)" (is "sys_inv ?T")
proof -
  note I = sys_invD [OF inv] and F = terminal_release_frame [OF ok]
  have rel: "releasing ?T k \<Longrightarrow> releasing S k" for k
    by (auto simp: releasing_def)
  have rel': "releasing S k \<Longrightarrow> releasing ?T k \<or> k = job_id job \<and> releases outcome" for k
    by (auto simp: releasing_def)
  have here: "releases outcome \<Longrightarrow> releasing S (job_id job)"
    using fl by (auto simp: releasing_def)
  have loc: "locked ?T k \<longleftrightarrow> locked S k \<and> \<not> (k = job_id job \<and> releases outcome)" for k
    by (auto simp: locked_def F(3) unlockAll_byJob)
  show ?thesis
  proof (rule sys_invI, unfold loc)
    show "lock_inv (sys_locks ?T)" "db_inv (sys_db ?T)" "distinct (pending_ids ?T)"
      using I(1-3) F by (simp_all add: unlockAll_inv)
    show "job_id k \<in> sys_used ?T \<and> find_job (job_id k) (sys_db ?T) = None \<and>
        (locked S (job_id k) \<and> \<not> (job_id k = job_id job \<and> releases outcome)) \<and> job_state k = ''running''"
      if k: "k \<in> set (sys_pending ?T)" for k
      using k I(4) [of k] here I(7) [of "job_id k"] F(1) by auto
    show "locked S k \<and> \<not> (k = job_id job \<and> releases outcome)"
      if "active_in (sys_db ?T) k" "k \<in> sys_used ?T" for k
      using that I(5) [of k] here I(7) [of k] F(1) by auto
    show "k \<in> sys_used ?T \<and> (k \<in> set (pending_ids ?T) \<or> active_in (sys_db ?T) k \<or> releasing ?T k)"
      if "locked S k \<and> \<not> (k = job_id job \<and> releases outcome)" for k
      using that I(6) [of k] rel' [of k] F(1) by auto
    show "\<not> active_in (sys_db ?T) k \<and> k \<notin> set (pending_ids ?T)" if "releasing ?T k" for k
      using I(7) [OF rel [OF that]] F(1) by simp
  qed
qed

lemma cancel_requested_fields [simp]:
  "job_id (cancel_requested_job job) = job_id job"
  "job_state (cancel_requested_job job) = ''cancel_requested''"
  by (simp_all add: cancel_requested_job_def)

lemma cancel_commit_cases:
  assumes "cancel_commit io1 io2 now job f s = (r, s')"
  obtains (same) "s' = s"
  | (cancelled) evs db where
      "TransitionJobWithEvents io1 (cancel_requested_job job) [''queued'', ''running'']
         [newJobEvent (cancel_requested_job job) ''job_cancel_requested'' ''Cancellation requested.'' '''' None None now]
         (svc_db s) = Inr (True, evs, db)"
      "s' = emit (CancelCalled f) (publishCommittedEvents evs (s\<lparr>svc_db := db\<rparr>))" "r = Inr (cancel_requested_job job)"
  using assms unfolding cancel_commit_def Let_def
  by (auto split: sum.splits prod.splits if_splits)

lemma cancel_commit_same:
  assumes "db_inv (svc_db s)" "cancel_commit io1 io2 now job f s = (r, s')"
  shows "db_inv (svc_db s') \<and> rows_same (svc_db s) (svc_db s') \<and> svc_locks s' = svc_locks s"
  using assms(2)
proof (cases rule: cancel_commit_cases)
  case (cancelled evs db)
  then show ?thesis
    using TransitionJobWithEvents_inv [OF assms(1) cancelled(1)] Transition_same [OF assms(1) cancelled(1)]
    by (simp add: active_states_def)
qed (use assms(1) in simp)

lemma Publish_same:
  assumes "db_inv (svc_db s)" "PublishEventWithProgress io now job ty msg data step progress s = (e, s')"
  shows "db_inv (svc_db s') \<and> rows_same (svc_db s) (svc_db s') \<and> svc_locks s' = svc_locks s"
  using assms Append_same [OF assms(1)] AppendJobEvent_inv [OF assms(1)]
  by (auto simp: PublishEventWithProgress_def split: sum.splits prod.splits)

lemma UpdateWorkflow_same:
  assumes "db_inv (svc_db s)" "UpdateWorkflow io job steps s = (r, s')"
  shows "db_inv (svc_db s') \<and> rows_same (svc_db s) (svc_db s') \<and> svc_locks s' = svc_locks s"
  using assms Workflow_same UpdateJobWorkflow_inv [OF assms(1)]
  by (auto simp: UpdateWorkflow_def split: sum.splits)

lemma replace_inv_sys:
  assumes inv: "sys_inv S" and ok: "replace_resources jid requested (sys_svc S) = (e, s')"
  shows "sys_inv (S\<lparr>sys_svc := s'\<rparr>)"
proof (cases "ReplaceResources jid requested (sys_locks S)")
  case (Inl err)
  with ok have "s' = sys_svc S" by (simp add: replace_resources_def)
  with inv show ?thesis by simp
next
  case (Inr locks)
  with ok have s': "s' = (sys_svc S)\<lparr>svc_locks := locks\<rparr>" by (simp add: replace_resources_def)
  note I = sys_invD [OF inv]
  from Inr have "mget (resourcesByJob (sys_locks S)) jid \<noteq> None \<and>
      (\<exists>res. resourcesByJob locks = mput jid res (resourcesByJob (sys_locks S)))"
    by (elim ReplaceResources_Inr) auto
  then show ?thesis
    using ReplaceResources_inv [OF I(1) Inr] I(2)
    by (intro sys_inv_frame [OF inv]) (auto simp: s' mget_put split: if_splits)
qed

theorem job_step_inv: "job_step S T \<Longrightarrow> sys_inv S \<Longrightarrow> sys_inv T"
proof (induction rule: job_step.induct)
  case (reserve S jid stackID requested draining s' now reqID action requestedBy workflow)
  then show ?case by (intro reserve_inv) (auto simp: new_job_def)
next
  case (commit job S io r s')
  then show ?case by (intro commit_inv)
next
  case (transition S job io1 io2 events outcome s')
  then show ?case by (intro transition_inv_sys)
next
  case (release job outcome S now2 r s')
  then show ?case by (intro release_inv_sys)
next
  case (cancel S job io1 io2 now f r s')
  then show ?case using cancel_commit_same [OF sys_invD(2)] by (intro sys_inv_same) blast+
next
  case (publish S job io now ty msg data step progress e s')
  then show ?case using Publish_same [OF sys_invD(2)] by (intro sys_inv_same) blast+
next
  case (workflow io job steps S r s')
  then show ?case using UpdateWorkflow_same [OF sys_invD(2)] by (intro sys_inv_same) blast+
next
  case (replace jid requested S e s')
  then show ?case by (intro replace_inv_sys)
next
  case (prune S ec jc audited)
  then show ?case
    using prune_inv [OF sys_invD(2)] prune_same [OF sys_invD(2)] by (intro sys_inv_same) simp_all
next
  case (subscribe S ch jid)
  then show ?case using sys_invD(2) by (intro sys_inv_same) simp_all
next
  case (unsubscribe S jid ch)
  then show ?case using sys_invD(2) by (intro sys_inv_same) simp_all
next
  case (receive S ch e buf)
  then show ?case using sys_invD(2) by (intro sys_inv_same) simp_all
next
  case (register S jid f)
  then show ?case using sys_invD(2) by (intro sys_inv_same) simp_all
next
  case (unregister S jid f)
  then show ?case using sys_invD(2) by (intro sys_inv_same) simp_all
qed

theorem job_reachable_inv: "job_reachable db S \<Longrightarrow> db_inv db \<Longrightarrow> sys_inv S"
  by (induction rule: job_reachable.induct) (auto intro: sys_inv_initial job_step_inv)

end
