(* ===== verification/Job_Streams.thy ===== *)
theory Job_Streams
  imports Job_System
begin

text \<open>
  Live event streams.  Publishing drops an event when a subscriber's buffer of 64 is full, so
  a subscriber may miss events, but what is in a buffer always belongs to the job subscribed
  to and is in strictly increasing sequence order, whatever handlers run concurrently.  The
  argument needs the event locks: a terminal transition publishes after its commit.
\<close>

definition subscribed :: "job_service \<Rightarrow> string \<Rightarrow> nat \<Rightarrow> bool" where
  "subscribed s jid ch \<longleftrightarrow> (\<exists>chs. mget (svc_subs s) jid = Some chs \<and> ch \<in> set chs)"

lemma subscribed_code [code]:
  "subscribed s jid ch = (case mget (svc_subs s) jid of None \<Rightarrow> False | Some chs \<Rightarrow> ch \<in> set chs)"
  by (auto simp: subscribed_def split: option.splits)

definition buffer_of :: "job_service \<Rightarrow> nat \<Rightarrow> JobEvent list" where
  "buffer_of s ch = (case mget (svc_chan s) ch of None \<Rightarrow> [] | Some buf \<Rightarrow> buf)"

definition inflight_events :: "(Job \<times> transition_outcome) list \<Rightarrow> string \<Rightarrow> JobEvent set" where
  "inflight_events fl jid = {e. \<exists>job evs. (job, TransitionDone evs) \<in> set fl \<and> job_id job = jid \<and> e \<in> set evs}"

text \<open>A sequence number a subscriber of the job may have seen already.\<close>

definition past :: "job_sys \<Rightarrow> string \<Rightarrow> int \<Rightarrow> bool" where
  "past S jid n \<longleftrightarrow>
     (\<forall>r. find_job jid (sys_db S) = Some r \<longrightarrow> n \<le> row_seq r) \<and>
     (\<forall>e \<in> inflight_events (sys_inflight S) jid. n < ev_seq e) \<and> jid \<notin> set (pending_ids S)"

definition buffer_ok :: "job_sys \<Rightarrow> string \<Rightarrow> JobEvent list \<Rightarrow> bool" where
  "buffer_ok S jid buf \<longleftrightarrow>
     (\<forall>e \<in> set buf. ev_job e = jid \<and> past S jid (ev_seq e)) \<and> sorted_wrt (<) (map ev_seq buf)"

definition subs_ok :: "job_service \<Rightarrow> bool" where
  "subs_ok s \<longleftrightarrow>
     (\<forall>jid chs. mget (svc_subs s) jid = Some chs \<longrightarrow> distinct chs) \<and>
     (\<forall>jid ch. subscribed s jid ch \<longrightarrow> mget (svc_chan s) ch \<noteq> None) \<and>
     (\<forall>jid jid' ch. subscribed s jid ch \<longrightarrow> subscribed s jid' ch \<longrightarrow> jid = jid')"

definition inflight_ok :: "job_sys \<Rightarrow> bool" where
  "inflight_ok S \<longleftrightarrow>
     distinct (map (\<lambda>x. lockJobEvents_index (job_id (fst x))) (sys_inflight S)) \<and>
     (\<forall>job evs. (job, TransitionDone evs) \<in> set (sys_inflight S) \<longrightarrow>
        sorted_wrt (<) (map ev_seq evs) \<and>
        (\<forall>e \<in> set evs. ev_job e = job_id job \<and>
           (\<forall>r. find_job (job_id job) (sys_db S) = Some r \<longrightarrow> ev_seq e \<le> row_seq r)))"

definition stream_inv :: "job_sys \<Rightarrow> bool" where
  "stream_inv S \<longleftrightarrow>
     subs_ok (sys_svc S) \<and> inflight_ok S \<and>
     (\<forall>jid ch. subscribed (sys_svc S) jid ch \<longrightarrow> buffer_ok S jid (buffer_of (sys_svc S) ch))"

lemma stream_invD:
  assumes "stream_inv S"
  shows "subs_ok (sys_svc S)" "inflight_ok S"
    "subscribed (sys_svc S) jid ch \<Longrightarrow> buffer_ok S jid (buffer_of (sys_svc S) ch)"
  using assms by (auto simp: stream_inv_def)

section \<open>Sending\<close>

lemma try_send_get:
  "mget (try_send e ch m) c =
     (if c = ch then map_option (\<lambda>buf. if length buf < channel_capacity then buf @ [e] else buf) (mget m c)
      else mget m c)"
  by (auto simp: try_send_def mget_put split: option.splits)

lemma fold_try_send_get:
  "distinct chs \<Longrightarrow> mget (fold (try_send e) chs m) c =
     (if c \<in> set chs then map_option (\<lambda>buf. if length buf < channel_capacity then buf @ [e] else buf) (mget m c)
      else mget m c)"
  by (induction chs arbitrary: m) (auto simp: try_send_get)

lemma publishLive_buffer:
  assumes "subs_ok s"
  shows "buffer_of (publishLive e s) ch =
    (if subscribed s (ev_job e) ch \<and> length (buffer_of s ch) < channel_capacity
     then buffer_of s ch @ [e] else buffer_of s ch)"
proof (cases "mget (svc_subs s) (ev_job e)")
  case None
  then show ?thesis by (simp add: publishLive_def buffer_of_def subscribed_def)
next
  case (Some chs)
  then have d: "distinct chs" and dom: "ch \<in> set chs \<Longrightarrow> mget (svc_chan s) ch \<noteq> None"
    using assms by (simp_all add: subs_ok_def subscribed_def) metis
  show ?thesis
    using dom by (auto simp: publishLive_def Some buffer_of_def subscribed_def fold_try_send_get [OF d])
qed

lemma publishLive_dom: "mget (svc_chan (publishLive e s)) ch = None \<longleftrightarrow> mget (svc_chan s) ch = None"
proof -
  have "mget (fold (try_send e) chs m) ch = None \<longleftrightarrow> mget m ch = None" for chs m
    by (induction chs arbitrary: m) (auto simp: try_send_get)
  then show ?thesis by (simp add: publishLive_def Let_def)
qed

lemma subscribed_cong: "svc_subs s' = svc_subs s \<Longrightarrow> subscribed s' = subscribed s"
  by (simp add: subscribed_def fun_eq_iff)

lemma subs_ok_cong:
  "svc_subs s' = svc_subs s \<Longrightarrow> (\<And>ch. mget (svc_chan s') ch = None \<longleftrightarrow> mget (svc_chan s) ch = None) \<Longrightarrow>
    subs_ok s' = subs_ok s"
  by (simp add: subs_ok_def subscribed_def)

lemma publishLive_subs_ok [simp]: "subs_ok (publishLive e s) = subs_ok s"
  by (rule subs_ok_cong) (simp_all add: publishLive_dom)

lemma quiet_frame [simp]:
  "subs_ok (notifyActivity s) = subs_ok s" "buffer_of (notifyActivity s) = buffer_of s"
  "subs_ok (emit x s) = subs_ok s" "buffer_of (emit x s) = buffer_of s"
  "subs_ok (observeJobStarted t s) = subs_ok s" "buffer_of (observeJobStarted t s) = buffer_of s"
  "subs_ok (observeJobFinished t u st s) = subs_ok s" "buffer_of (observeJobFinished t u st s) = buffer_of s"
  "subs_ok (unlock_job j s) = subs_ok s" "buffer_of (unlock_job j s) = buffer_of s"
  "subs_ok (s\<lparr>svc_db := db\<rparr>) = subs_ok s" "buffer_of (s\<lparr>svc_db := db\<rparr>) = buffer_of s"
  "subs_ok (s\<lparr>svc_locks := l\<rparr>) = subs_ok s" "buffer_of (s\<lparr>svc_locks := l\<rparr>) = buffer_of s"
  "subs_ok (RegisterCancel j f s) = subs_ok s" "buffer_of (RegisterCancel j f s) = buffer_of s"
  "subs_ok (unregisterCancel j f s) = subs_ok s" "buffer_of (unregisterCancel j f s) = buffer_of s"
  by (simp_all add: subs_ok_def subscribed_def buffer_of_def fun_eq_iff)

text \<open>Publishing a batch above everything in the buffer keeps the order.\<close>

lemma publishCommitted_buffer:
  assumes "subs_ok s" "subscribed s jid ch" "\<forall>e \<in> set es. ev_job e = jid'"
    and "sorted_wrt (<) (map ev_seq (buffer_of s ch @ (if jid = jid' then es else [])))"
  shows "subs_ok (publishCommittedEvents es s) \<and>
    sorted_wrt (<) (map ev_seq (buffer_of (publishCommittedEvents es s) ch)) \<and>
    set (buffer_of (publishCommittedEvents es s) ch) \<subseteq> set (buffer_of s ch) \<union> (if jid = jid' then set es else {})"
  using assms
proof (induction es arbitrary: s)
  case Nil
  then show ?case by (simp add: publishCommittedEvents_def split: if_splits)
next
  case (Cons e es)
  let ?s = "notifyActivity (publishLive e s)"
  have sub: "subscribed ?s = subscribed s" by (rule subscribed_cong) simp
  have buf: "buffer_of (publishLive e s) ch =
      (if subscribed s (ev_job e) ch \<and> length (buffer_of s ch) < channel_capacity
       then buffer_of s ch @ [e] else buffer_of s ch)"
    using publishLive_buffer [OF Cons.prems(1)] by simp
  have iff: "subscribed s (ev_job e) ch \<longleftrightarrow> jid = jid'"
    using Cons.prems(1-3) by (auto simp: subs_ok_def)
  have "sorted_wrt (<) (map ev_seq (buffer_of ?s ch @ (if jid = jid' then es else [])))"
    using Cons.prems(4) by (auto simp: buf iff sorted_wrt_append)
  then have "subs_ok (publishCommittedEvents es ?s) \<and>
    sorted_wrt (<) (map ev_seq (buffer_of (publishCommittedEvents es ?s) ch)) \<and>
    set (buffer_of (publishCommittedEvents es ?s) ch) \<subseteq> set (buffer_of ?s ch) \<union> (if jid = jid' then set es else {})"
    using Cons.prems by (intro Cons.IH) (auto simp: sub)
  moreover have "publishCommittedEvents (e # es) s = publishCommittedEvents es ?s"
    by (simp add: publishCommittedEvents_def)
  ultimately show ?case by (auto simp: buf iff split: if_splits)
qed

section \<open>Steps\<close>

text \<open>Counters grow, and a row never appears, in every step but the insertion of a new job.\<close>

definition rows_mono :: "job_db \<Rightarrow> job_db \<Rightarrow> bool" where
  "rows_mono db db' \<longleftrightarrow>
     (\<forall>jid r'. find_job jid db' = Some r' \<longrightarrow> (\<exists>r. find_job jid db = Some r \<and> row_seq r \<le> row_seq r'))"

lemma rows_mono_refl [simp]: "rows_mono db db"
  by (auto simp: rows_mono_def)

lemma rows_mono_events [simp]: "rows_mono db (db'\<lparr>db_events := es\<rparr>) = rows_mono db db'"
  by (simp add: rows_mono_def)

lemma rows_mono_map_job:
  assumes "\<And>r. row_id (f r) = row_id r" "\<And>r. row_seq r \<le> row_seq (f r)"
  shows "rows_mono db (map_job jid f db)"
  using assms(2) by (auto simp: rows_mono_def find_job_map_job [OF assms(1)])

lemma rows_mono_prune: "db_inv db \<Longrightarrow> rows_mono db (prune_job_tables ec jc audited db)"
  by (auto simp: rows_mono_def prune_find_job split: option.splits if_splits)

lemma rows_mono_workflow: "UpdateJobWorkflow io jid w db = Inr db' \<Longrightarrow> rows_mono db db'"
  by (auto simp: UpdateJobWorkflow_Inr intro!: rows_mono_map_job)

text \<open>What a committed transition or append writes.\<close>

lemma Transition_written:
  assumes "db_inv db" "TransitionJobWithEvents io job allowed events db = Inr (True, evs, db')"
  obtains r where "find_job (job_id job) db = Some r" "evs = numbered (row_seq r + 1) events"
    "find_job (job_id job) db' = Some (transition_row job (int (length events)) r)"
    "rows_mono db db'" "\<forall>e \<in> set events. ev_job e = job_id job"
proof -
  have "rows_mono db (map_job (job_id job) (transition_row job (int (length events))) db)"
    by (rule rows_mono_map_job) simp_all
  then show thesis
    using assms(2) Transition_guard [OF assms(2)] that
    by (auto simp: TransitionJobWithEvents_eq [OF assms(1)] find_job_map_job events_match_def
        split: option.splits if_splits)
qed

lemma numbered_sorted: "sorted_wrt (<) (map ev_seq (numbered n es))"
  by (simp add: numbered_seqs sorted_wrt_map sorted_wrt_upt)

lemma numbered_bounds:
  assumes "e \<in> set (numbered (n + 1) es)" "\<forall>e \<in> set es. ev_job e = jid"
  shows "ev_job e = jid" "n < ev_seq e" "ev_seq e \<le> n + int (length es)"
  using numbered_fields [OF assms(1)] assms(2) by auto

lemma event_free_inflight: "event_free S jid \<Longrightarrow> inflight_events (sys_inflight S) jid = {}"
  by (auto simp: event_free_def inflight_events_def image_iff)

lemma inflight_events_Cons [simp]:
  "inflight_events ((job, outcome) # fl) jid = inflight_events fl jid \<union>
     (case outcome of TransitionDone evs \<Rightarrow> if jid = job_id job then set evs else {} | _ \<Rightarrow> {})"
  by (cases outcome) (auto simp: inflight_events_def)

lemma past_mono:
  assumes "past S jid n" "rows_mono (sys_db S) (sys_db T)"
    "inflight_events (sys_inflight T) jid \<subseteq> inflight_events (sys_inflight S) jid" "set (pending_ids T) \<subseteq> set (pending_ids S)"
  shows "past T jid n"
proof -
  have "n \<le> row_seq r'" if r': "find_job jid (sys_db T) = Some r'" for r'
  proof -
    obtain r where "find_job jid (sys_db S) = Some r" "row_seq r \<le> row_seq r'"
      using assms(2) r' unfolding rows_mono_def by blast
    then show ?thesis using assms(1) by (simp add: past_def)
  qed
  then show ?thesis using assms(1,3,4) unfolding past_def by blast
qed

lemma buffer_ok_mono:
  "buffer_ok S jid buf \<Longrightarrow> (\<And>n. past S jid n \<Longrightarrow> past T jid n) \<Longrightarrow> buffer_ok T jid buf"
  by (simp add: buffer_ok_def)

lemma inflight_ok_mono:
  assumes "inflight_ok S" "rows_mono (sys_db S) (sys_db T)" "sys_inflight T = sys_inflight S"
  shows "inflight_ok T"
proof -
  have "ev_seq e \<le> row_seq r'"
    if fl: "(job, TransitionDone evs) \<in> set (sys_inflight S)" "e \<in> set evs"
      and r': "find_job (job_id job) (sys_db T) = Some r'" for job evs e r'
  proof -
    obtain r where "find_job (job_id job) (sys_db S) = Some r" "row_seq r \<le> row_seq r'"
      using assms(2) r' unfolding rows_mono_def by blast
    moreover from this have "ev_seq e \<le> row_seq r" using assms(1) fl by (simp add: inflight_ok_def)
    ultimately show ?thesis by simp
  qed
  then show ?thesis using assms(1,3) unfolding inflight_ok_def by simp
qed

text \<open>A step that publishes nothing.\<close>

lemma stream_quiet:
  assumes inv: "stream_inv S" and rows: "rows_mono (sys_db S) (svc_db s')"
    and subs: "subs_ok s'" "\<And>jid ch. subscribed s' jid ch \<Longrightarrow>
      subscribed (sys_svc S) jid ch \<and> suffix (buffer_of s' ch) (buffer_of (sys_svc S) ch) \<or> buffer_of s' ch = []"
  shows "stream_inv (S\<lparr>sys_svc := s'\<rparr>)" (is "stream_inv ?T")
proof -
  have past: "past S jid n \<Longrightarrow> past ?T jid n" for jid n
    by (erule past_mono) (use rows in auto)
  have "buffer_ok ?T jid (buffer_of s' ch)" if "subscribed s' jid ch" for jid ch
  proof (cases "buffer_of s' ch = []")
    case False
    then have "subscribed (sys_svc S) jid ch" and suf: "suffix (buffer_of s' ch) (buffer_of (sys_svc S) ch)"
      using subs(2) [OF that] by auto
    then have "buffer_ok ?T jid (buffer_of (sys_svc S) ch)"
      using stream_invD(3) [OF inv] past by (blast intro: buffer_ok_mono)
    with suf show ?thesis
      by (auto simp: buffer_ok_def suffix_def sorted_wrt_append)
  qed (simp add: buffer_ok_def)
  moreover have "inflight_ok ?T"
    by (rule inflight_ok_mono [OF stream_invD(2) [OF inv]]) (use rows in auto)
  ultimately show ?thesis using subs(1) by (simp add: stream_inv_def)
qed

text \<open>A step that publishes a batch of events of one job, above all that is past.\<close>

lemma stream_publish:
  assumes inv: "stream_inv S" and subs: "svc_subs s = svc_subs (sys_svc S)" "svc_chan s = svc_chan (sys_svc S)"
    and T: "svc_subs (sys_svc T) = svc_subs s" "svc_chan (sys_svc T) = svc_chan (publishCommittedEvents es s)"
    and inflight: "inflight_ok T"
    and past: "\<And>j n ch. past S j n \<Longrightarrow> subscribed (sys_svc S) j ch \<Longrightarrow> past T j n"
    and es: "sorted_wrt (<) (map ev_seq es)" "\<forall>e \<in> set es. ev_job e = jid \<and> past T jid (ev_seq e)"
    and above: "\<And>n e. past S jid n \<Longrightarrow> e \<in> set es \<Longrightarrow> n < ev_seq e"
  shows "stream_inv T"
proof -
  have s: "subs_ok s" "subscribed s = subscribed (sys_svc S)" "buffer_of s = buffer_of (sys_svc S)"
  proof -
    show "subs_ok s"
      by (subst subs_ok_cong [OF subs(1)]) (simp_all add: subs(2) stream_invD(1) [OF inv])
    show "subscribed s = subscribed (sys_svc S)" by (rule subscribed_cong [OF subs(1)])
    show "buffer_of s = buffer_of (sys_svc S)" by (simp add: buffer_of_def fun_eq_iff subs(2))
  qed
  have subT: "subscribed (sys_svc T) = subscribed s" by (rule subscribed_cong) (rule T(1))
  have bufT: "buffer_of (sys_svc T) = buffer_of (publishCommittedEvents es s)"
    using T(2) by (simp add: buffer_of_def fun_eq_iff)
  have okT: "subs_ok (sys_svc T)"
  proof -
    have "mget (svc_chan (publishCommittedEvents es s)) ch = None \<longleftrightarrow> mget (svc_chan s) ch = None" for ch
      unfolding publishCommittedEvents_def by (induction es arbitrary: s) (simp_all add: publishLive_dom)
    with s(1) T show ?thesis by (subst subs_ok_cong [of _ s]) simp_all
  qed
  have "buffer_ok T j (buffer_of (sys_svc T) ch)" if "subscribed (sys_svc T) j ch" for j ch
  proof -
    have sub: "subscribed s j ch" using that subT by simp
    have ok: "buffer_ok S j (buffer_of s ch)" using stream_invD(3) [OF inv] sub s by simp
    have "sorted_wrt (<) (map ev_seq (buffer_of s ch @ (if j = jid then es else [])))"
      using ok es(1) above by (auto simp: buffer_ok_def sorted_wrt_append)
    with publishCommitted_buffer [OF s(1) sub, of es jid] es(2)
    have "sorted_wrt (<) (map ev_seq (buffer_of (publishCommittedEvents es s) ch))"
      "set (buffer_of (publishCommittedEvents es s) ch) \<subseteq> set (buffer_of s ch) \<union> (if j = jid then set es else {})"
      by auto
    moreover have "past T j n" if "past S j n" for n
      using past that sub s(2) by metis
    ultimately show ?thesis
      using ok es(2) by (fastforce simp: buffer_ok_def bufT split: if_splits)
  qed
  with okT inflight show ?thesis by (simp add: stream_inv_def)
qed

lemma publishCommitted_Nil [simp]: "publishCommittedEvents [] s = s"
  by (simp add: publishCommittedEvents_def)

lemma publishCommitted_one: "publishCommittedEvents [e] s = notifyActivity (publishLive e s)"
  by (simp add: publishCommittedEvents_def)

lemma stream_reserve:
  assumes inv: "stream_inv S" and fresh: "fresh_id S jid" "job_id job = jid"
    and ok: "start_reserve jid stackID requested draining (sys_svc S) = Inr s'"
  shows "stream_inv (S\<lparr>sys_svc := s', sys_used := insert jid (sys_used S), sys_pending := job # sys_pending S\<rparr>)"
    (is "stream_inv ?T")
proof (rule stream_publish [OF inv, of "sys_svc S" ?T "[]"])
  obtain locks where s': "s' = (sys_svc S)\<lparr>svc_locks := locks\<rparr>"
    by (rule start_reserve_Inr [OF ok])
  show "svc_subs (sys_svc ?T) = svc_subs (sys_svc S)"
    "svc_chan (sys_svc ?T) = svc_chan (publishCommittedEvents [] (sys_svc S))" by (simp_all add: s')
  show "inflight_ok ?T" by (rule inflight_ok_mono [OF stream_invD(2) [OF inv]]) (simp_all add: s')
  show "past ?T j n" if "past S j n" "subscribed (sys_svc S) j ch" for j n ch
    using that fresh by (auto simp: past_def s' fresh_id_def subscribed_def)
qed simp_all

lemma stream_commit:
  assumes inv: "stream_inv S" and sys: "sys_inv S" and job: "job \<in> set (sys_pending S)"
    and free: "event_free S (job_id job)"
    and ok: "start_commit io now job (sys_svc S) = (r, s')"
  shows "stream_inv (S\<lparr>sys_svc := s', sys_pending := removeAll job (sys_pending S)\<rparr>)" (is "stream_inv ?T")
proof (cases "CreateJobWithInitialEvent io job (initial_event job now) (sys_db S)")
  case (Inl e)
  with ok have s': "s' = unlock_job (job_id job) (sys_svc S)"
    by (simp add: start_commit_def unlock_job_def)
  show ?thesis
  proof (rule stream_publish [OF inv, of "sys_svc S" ?T "[]"])
    show "inflight_ok ?T" by (rule inflight_ok_mono [OF stream_invD(2) [OF inv]]) (simp_all add: s')
    show "past ?T j n" if "past S j n" for j n
      by (rule past_mono [OF that]) (auto simp: s')
  qed (simp_all add: s')
next
  case (Inr db)
  let ?e = "initial_event job now" and ?s = "(sys_svc S)\<lparr>svc_db := db\<rparr>"
  have s': "s' = observeJobStarted now (publishCommittedEvents [?e] ?s)"
    using ok Inr by (simp add: start_commit_def publishCommitted_one)
  have new: "find_job (job_id job) (sys_db S) = None" "distinct (pending_ids S)"
    using sys_invD(3,4) [OF sys] job by auto
  have find: "find_job j db = (if j = job_id job then Some \<lparr>row_job = job, row_seq = 1\<rparr> else find_job j (sys_db S))" for j
    using Inr new(1) find_job_append [of j "sys_db S" "\<lparr>row_job = job, row_seq = 1\<rparr>"]
    unfolding CreateJobWithInitialEvent_Inr [OF sys_invD(2) [OF sys]] find_job_def by (auto split: option.splits)
  have other: "job_id j \<noteq> job_id job" if "(j, oc) \<in> set (sys_inflight S)" for j oc
    using free that by (auto simp: event_free_def image_iff)
  have notpending: "\<not> past S (job_id job) n" for n using job by (auto simp: past_def)
  show ?thesis
  proof (rule stream_publish [OF inv, of ?s ?T "[?e]" "job_id job"])
    show "inflight_ok ?T"
      using stream_invD(2) [OF inv] other by (auto simp: inflight_ok_def s' find)
    show "past ?T j n" if "past S j n" for j n
    proof -
      have "j \<noteq> job_id job" using that notpending by blast
      with that show ?thesis by (auto simp: past_def s' find)
    qed
    have "job_id job \<notin> set (pending_ids ?T)"
      using new(2) job by (auto simp: distinct_map inj_on_def)
    then show "\<forall>e \<in> set [?e]. ev_job e = job_id job \<and> past ?T (job_id job) (ev_seq e)"
      using event_free_inflight [OF free]
      by (simp add: past_def s' find initial_event_def)
  qed (use notpending in \<open>simp_all add: s'\<close>)
qed

lemma stream_transition:
  assumes inv: "stream_inv S" and sys: "sys_inv S" and free: "event_free S (job_id job)"
    and ok: "terminal_transition io1 io2 job events (sys_svc S) = (outcome, s')"
  shows "stream_inv (S\<lparr>sys_svc := s', sys_inflight := (job, outcome) # sys_inflight S\<rparr>)" (is "stream_inv ?T")
  using ok
proof (cases rule: terminal_transition_cases)
  case (fin evs db)
  obtain r where r: "find_job (job_id job) (sys_db S) = Some r" "evs = numbered (row_seq r + 1) events"
    "find_job (job_id job) db = Some (transition_row job (int (length events)) r)"
    "rows_mono (sys_db S) db" "\<forall>e \<in> set events. ev_job e = job_id job"
    by (rule Transition_written [OF sys_invD(2) [OF sys] fin(3)])
  note N = numbered_bounds [OF _ r(5), of _ "row_seq r", folded r(2)]
  have mono: "inflight_ok (S\<lparr>sys_svc := s'\<rparr>)"
    by (rule inflight_ok_mono [OF stream_invD(2) [OF inv]]) (use r(4) fin in auto)
  show ?thesis
  proof (rule stream_publish [OF inv, of "sys_svc S" ?T "[]"])
    have "lockJobEvents_index (job_id job) \<notin> (\<lambda>x. lockJobEvents_index (job_id (fst x))) ` set (sys_inflight S)"
      using free by (auto simp: event_free_def)
    then show "inflight_ok ?T"
      using mono numbered_sorted [of "row_seq r + 1" events] N
      by (auto simp: inflight_ok_def fin r(2) [symmetric] r(3))
    show "past ?T j n" if p: "past S j n" for j n
    proof -
      have "past (S\<lparr>sys_svc := s'\<rparr>) j n"
        by (rule past_mono [OF p]) (use r(4) fin in auto)
      moreover have "n < ev_seq e" if "j = job_id job" "e \<in> set evs" for e
        using N(2) [OF that(2)] p that(1) r(1) by (auto simp: past_def)
      ultimately show ?thesis
        by (auto simp: past_def fin)
    qed
  qed (simp_all add: fin)
next
  case (lost current)
  show ?thesis
  proof (rule stream_publish [OF inv, of "sys_svc S" ?T "[]"])
    show "inflight_ok ?T"
      using stream_invD(2) [OF inv] free by (auto simp: inflight_ok_def event_free_def lost)
  qed (auto simp: lost past_def)
next
  case (failed e)
  show ?thesis
  proof (rule stream_publish [OF inv, of "sys_svc S" ?T "[]"])
    show "inflight_ok ?T"
      using stream_invD(2) [OF inv] free by (auto simp: inflight_ok_def event_free_def failed)
  qed (auto simp: failed past_def)
qed

lemma inflight_unique:
  assumes "inflight_ok S" "(job, oc) \<in> set (sys_inflight S)" "(job', oc') \<in> set (sys_inflight S)"
    "job_id job = job_id job'"
  shows "job' = job" "oc' = oc"
proof -
  have "(job, oc) = (job', oc')"
    using assms unfolding inflight_ok_def distinct_map inj_on_def by (metis fst_conv)
  then show "job' = job" "oc' = oc" by simp_all
qed

lemma stream_release:
  assumes inv: "stream_inv S" and sys: "sys_inv S" and fl: "(job, outcome) \<in> set (sys_inflight S)"
    and ok: "terminal_release now2 job outcome (sys_svc S) = (r, s')"
  shows "stream_inv (S\<lparr>sys_svc := s', sys_inflight := removeAll (job, outcome) (sys_inflight S)\<rparr>)"
    (is "stream_inv ?T")
proof -
  note ifl = stream_invD(2) [OF inv] and F = terminal_release_frame [OF ok]
  define es where "es = (case outcome of TransitionDone evs \<Rightarrow> evs | _ \<Rightarrow> [])"
  have chan: "svc_chan s' = svc_chan (publishCommittedEvents es (sys_svc S))"
    using ok by (auto simp: terminal_release_def es_def Let_def split: transition_outcome.splits if_splits)
  have ok': "inflight_ok ?T"
    using ifl by (auto simp: inflight_ok_def F(1) distinct_map distinct_removeAll inj_on_def)
  have es: "e \<in> set es \<Longrightarrow> ev_job e = job_id job \<and> e \<in> inflight_events (sys_inflight S) (job_id job) \<and>
      (\<forall>r. find_job (job_id job) (sys_db S) = Some r \<longrightarrow> ev_seq e \<le> row_seq r) \<and> releases outcome" for e
    using ifl fl by (auto simp: es_def inflight_ok_def inflight_events_def releases_def split: transition_outcome.splits)
  have "inflight_events (sys_inflight ?T) (job_id job) = {}"
    using inflight_unique [OF ifl fl] by (auto simp: inflight_events_def)
  moreover have "job_id job \<notin> set (pending_ids S)" if "releases outcome"
    using that fl sys_invD(7) [OF sys, of "job_id job"] by (auto simp: releasing_def)
  ultimately have past: "past ?T (job_id job) (ev_seq e)" if "e \<in> set es" for e
    using es [OF that] by (auto simp: past_def F(1))
  show ?thesis
  proof (rule stream_publish [OF inv, of "sys_svc S" ?T es "job_id job"])
    show "sorted_wrt (<) (map ev_seq es)"
      using ifl fl by (auto simp: es_def inflight_ok_def split: transition_outcome.splits)
    show "past ?T j n" if "past S j n" for j n
      by (rule past_mono [OF that]) (auto simp: inflight_events_def F(1))
    show "n < ev_seq e" if "past S (job_id job) n" "e \<in> set es" for n e
      using that es [OF that(2)] by (auto simp: past_def)
  qed (use es past ok' in \<open>auto simp: F chan\<close>)
qed

text \<open>Cancelling and appending: new events above the counter, with no transition in flight.\<close>

lemma stream_written:
  assumes inv: "stream_inv S" and free: "event_free S jid"
    and row: "find_job jid (sys_db S) = Some r" "find_job jid db = Some r'" "rows_mono (sys_db S) db"
    and es: "es = numbered (row_seq r + 1) es0" "\<forall>e \<in> set es0. ev_job e = jid"
      "row_seq r' = row_seq r + int (length es0)"
    and s': "svc_db s' = db" "svc_subs s' = svc_subs (sys_svc S)"
      "svc_chan s' = svc_chan (publishCommittedEvents es ((sys_svc S)\<lparr>svc_db := db\<rparr>))"
    and sys: "sys_inv S"
  shows "stream_inv (S\<lparr>sys_svc := s'\<rparr>)" (is "stream_inv ?T")
proof (rule stream_publish [OF inv, of "(sys_svc S)\<lparr>svc_db := db\<rparr>" ?T es jid])
  note N = numbered_bounds [OF _ es(2), of _ "row_seq r", folded es(1)]
  show "inflight_ok ?T"
    by (rule inflight_ok_mono [OF stream_invD(2) [OF inv]]) (use row(3) s' in auto)
  show "past ?T j n" if "past S j n" for j n
    by (rule past_mono [OF that]) (use row(3) s' in auto)
  show "sorted_wrt (<) (map ev_seq es)" by (simp add: es(1) numbered_sorted)
  have "jid \<notin> set (pending_ids S)" using sys_invD(4) [OF sys] row(1) by auto
  then show "\<forall>e \<in> set es. ev_job e = jid \<and> past ?T jid (ev_seq e)"
    using N event_free_inflight [OF free] row(2) es(3) s' by (auto simp: past_def)
  show "n < ev_seq e" if "past S jid n" "e \<in> set es" for n e
    using that N(2) [OF that(2)] row(1) by (auto simp: past_def)
qed (use s' in simp_all)

lemma stream_cancel:
  assumes inv: "stream_inv S" and sys: "sys_inv S" and free: "event_free S (job_id job)"
    and ok: "cancel_commit io1 io2 now job f (sys_svc S) = (r, s')"
  shows "stream_inv (S\<lparr>sys_svc := s'\<rparr>)"
  using ok
proof (cases rule: cancel_commit_cases)
  case same
  with inv show ?thesis by simp
next
  case (cancelled evs db)
  from Transition_written [OF sys_invD(2) [OF sys] cancelled(1)] obtain r where
    r: "find_job (job_id job) (sys_db S) = Some r" and evs: "evs = numbered (row_seq r + 1)
      [newJobEvent (cancel_requested_job job) ''job_cancel_requested'' ''Cancellation requested.'' '''' None None now]"
    and r': "find_job (job_id job) db = Some (transition_row (cancel_requested_job job) 1 r)"
    and mono: "rows_mono (sys_db S) db"
    by auto
  show ?thesis
    by (rule stream_written [OF inv free r r' mono evs]) (simp_all add: newJobEvent_def cancelled(2) sys)
qed

lemma stream_append:
  assumes inv: "stream_inv S" and sys: "sys_inv S" and free: "event_free S (job_id job)"
    and ok: "PublishEventWithProgress io now job ty msg data step progress (sys_svc S) = (e, s')"
  shows "stream_inv (S\<lparr>sys_svc := s'\<rparr>)"
proof (cases "AppendJobEvent io (newJobEvent job ty msg data step progress now) (sys_db S)")
  case (Inl err)
  with ok have "s' = sys_svc S" by (simp add: PublishEventWithProgress_def)
  with inv show ?thesis by simp
next
  case (Inr x)
  then obtain ev db where x: "AppendJobEvent io (newJobEvent job ty msg data step progress now) (sys_db S) = Inr (ev, db)"
    by (cases x) auto
  have s': "s' = publishCommittedEvents [ev] ((sys_svc S)\<lparr>svc_db := db\<rparr>)"
    using ok x by (simp add: PublishEventWithProgress_def publishCommitted_one)
  obtain r where r: "find_job (job_id job) (sys_db S) = Some r"
    and ev: "[ev] = numbered (row_seq r + 1)
      [(newJobEvent job ty msg data step progress now)\<lparr>ev_state := job_state (row_job r)\<rparr>]"
    and db: "db = (map_job (job_id job) appended_row (sys_db S))\<lparr>db_events := db_events (sys_db S) @ [ev]\<rparr>"
    using x by (auto simp: AppendJobEvent_eq [OF sys_invD(2) [OF sys]] Let_def newJobEvent_def split: option.splits)
  have "find_job (job_id job) db = Some (appended_row r)"
    using r by (simp add: db find_job_map_job)
  moreover have "rows_mono (sys_db S) db"
    by (simp add: db) (rule rows_mono_map_job, simp_all)
  ultimately show ?thesis
    by (rule stream_written [OF inv free r _ _ ev]) (simp_all add: newJobEvent_def s' sys)
qed

section \<open>Subscribing and receiving\<close>

lemma subscribed_Subscribe:
  "subscribed (Subscribe jid ch s) j c \<longleftrightarrow> subscribed s j c \<or> (j = jid \<and> c = ch)"
  by (cases "mget (svc_subs s) jid")
    (auto simp: subscribed_def Subscribe_def Let_def mget_put split: if_splits)

lemma subscribed_unsubscribe: "subscribed (unsubscribe jid ch s) j c \<Longrightarrow> subscribed s j c"
  by (auto simp: subscribed_def unsubscribe_def Let_def mget_put mget_del split: option.splits if_splits)

lemma buffer_Subscribe: "buffer_of (Subscribe jid ch s) c = (if c = ch then [] else buffer_of s c)"
  by (simp add: buffer_of_def Subscribe_def Let_def mget_put)

lemma subs_ok_Subscribe:
  assumes "subs_ok s" "mget (svc_chan s) ch = None"
  shows "subs_ok (Subscribe jid ch s)"
proof -
  have "\<not> subscribed s j ch" for j using assms unfolding subs_ok_def by metis
  moreover have "mget (svc_chan (Subscribe jid ch s)) c \<noteq> None" if "mget (svc_chan s) c \<noteq> None \<or> c = ch" for c
    using that by (auto simp: Subscribe_def Let_def mget_put)
  moreover have "distinct chs" if "mget (svc_subs (Subscribe jid ch s)) j = Some chs" for j chs
    using that assms(1)
    by (auto simp: Subscribe_def Let_def mget_put subs_ok_def split: if_splits option.splits)
  ultimately show ?thesis
    using assms(1) unfolding subs_ok_def subscribed_Subscribe by metis
qed

lemma subs_ok_unsubscribe:
  assumes "subs_ok s"
  shows "subs_ok (unsubscribe jid ch s)"
proof -
  have "distinct chs" if "mget (svc_subs (unsubscribe jid ch s)) j = Some chs" for j chs
    using that assms
    by (auto simp: unsubscribe_def Let_def mget_put mget_del subs_ok_def distinct_removeAll
        split: if_splits option.splits)
  then show ?thesis
    using assms subscribed_unsubscribe unfolding subs_ok_def by (metis subscription_frame(5))
qed

theorem stream_step_inv:
  "job_step S T \<Longrightarrow> sys_inv S \<Longrightarrow> stream_inv S \<Longrightarrow> stream_inv T"
proof (induction rule: job_step.induct)
  case (reserve S jid stackID requested draining s' now reqID action requestedBy workflow)
  then show ?case by (intro stream_reserve) (auto simp: new_job_def)
next
  case (commit job S io r s')
  then show ?case by (intro stream_commit)
next
  case (transition S job io1 io2 events outcome s')
  then show ?case by (intro stream_transition)
next
  case (release job outcome S now2 r s')
  then show ?case by (intro stream_release)
next
  case (cancel S job io1 io2 now f r s')
  then show ?case by (intro stream_cancel)
next
  case (publish S job io now ty msg data step progress e s')
  then show ?case by (intro stream_append)
next
  case (workflow io job steps S r s')
  have "rows_mono (sys_db S) (svc_db s')" "svc_subs s' = svc_subs (sys_svc S)" "svc_chan s' = svc_chan (sys_svc S)"
    using workflow(1) rows_mono_workflow by (auto simp: UpdateWorkflow_def split: sum.splits)
  then show ?case
    using stream_invD(1) [OF workflow(3)]
    by (intro stream_quiet [OF workflow(3)])
      (auto simp: subscribed_def buffer_of_def subs_ok_def)
next
  case (replace jid requested S e s')
  then have "svc_db s' = sys_db S" "svc_subs s' = svc_subs (sys_svc S)" "svc_chan s' = svc_chan (sys_svc S)"
    by (auto simp: replace_resources_def split: sum.splits)
  then show ?case
    using stream_invD(1) [OF replace(3)]
    by (intro stream_quiet [OF replace(3)]) (auto simp: subscribed_def buffer_of_def subs_ok_def)
next
  case (prune S ec jc audited)
  then show ?case
    using stream_invD(1) [OF prune(2)] rows_mono_prune [OF sys_invD(2) [OF prune(1)]]
    by (intro stream_quiet) (auto simp: subscribed_def)
next
  case (subscribe S ch jid)
  then show ?case
    using subs_ok_Subscribe [OF stream_invD(1)]
    by (intro stream_quiet) (auto simp: subscribed_Subscribe buffer_Subscribe)
next
  case (unsubscribe S jid ch)
  then show ?case
    using subs_ok_unsubscribe [OF stream_invD(1)]
    by (intro stream_quiet) (auto dest: subscribed_unsubscribe simp: buffer_of_def)
next
  case (receive S ch e buf)
  let ?s = "(sys_svc S)\<lparr>svc_chan := mput ch buf (svc_chan (sys_svc S))\<rparr>"
  have "subs_ok ?s"
    using stream_invD(1) [OF receive(3)] receive(1) by (auto simp: subs_ok_def subscribed_def mget_put)
  moreover have "suffix (buffer_of ?s c) (buffer_of (sys_svc S) c)" for c
    using receive(1) by (auto simp: buffer_of_def mget_put suffix_def split: option.splits)
  ultimately show ?case
    by (intro stream_quiet [OF receive(3)]) (auto simp: subscribed_def)
next
  case (register S jid f)
  then show ?case using stream_invD(1) by (intro stream_quiet) (auto simp: subscribed_def)
next
  case (unregister S jid f)
  then show ?case using stream_invD(1) by (intro stream_quiet) (auto simp: subscribed_def)
qed

lemma stream_inv_initial: "stream_inv (initial_sys db)"
  by (simp add: stream_inv_def initial_sys_def NewService_def subs_ok_def inflight_ok_def subscribed_def)

theorem stream_reachable_inv:
  assumes "job_reachable db S" "db_inv db"
  shows "stream_inv S"
  using assms
  by (induction rule: job_reachable.induct) (auto intro: stream_inv_initial stream_step_inv job_reachable_inv)

end
