(* ===== verification/Job_Properties.thy ===== *)
theory Job_Properties
  imports Job_Streams
begin

text \<open>
  What the job service guarantees, over every interleaving of its handlers
  (\<open>job_reachable\<close>) and handler by handler.
\<close>

section \<open>Exclusion\<close>

text \<open>C1: Whatever handlers run concurrently, a job whose stored row is active and that this
  process started holds at least one resource, and nothing it holds conflicts with anything
  another job holds.\<close>

theorem active_jobs_exclusive:
  assumes "job_reachable db S" "db_inv db" "active_in (sys_db S) j" "j \<in> sys_used S" "k \<noteq> j"
  shows "holds (sys_locks S) j \<noteq> {} \<and>
    (\<forall>r \<in> holds (sys_locks S) j. \<forall>r' \<in> holds (sys_locks S) k. \<not> ResourcesConflict r r')"
proof -
  have inv: "sys_inv S" using assms(1,2) by (rule job_reachable_inv)
  have "locked S j" by (rule sys_invD(5) [OF inv assms(3,4)])
  then show ?thesis
    using locked_holds [OF inv] lock_invD(5) [OF sys_invD(1) [OF inv]] assms(5) by metis
qed

text \<open>C2: No resource is leaked: a job that holds resources is about to have its row inserted,
  has an active row, or is a finished job whose release is under way; when no start or end is
  under way, exactly the active jobs of this process hold resources.\<close>

theorem resources_follow_rows:
  assumes "job_reachable db S" "db_inv db"
  shows "(holds (sys_locks S) j \<noteq> {} \<longrightarrow> j \<in> set (pending_ids S) \<or> active_in (sys_db S) j \<or> releasing S j) \<and>
    (sys_pending S = [] \<longrightarrow> sys_inflight S = [] \<longrightarrow>
       (holds (sys_locks S) j \<noteq> {} \<longleftrightarrow> active_in (sys_db S) j \<and> j \<in> sys_used S))"
proof -
  have inv: "sys_inv S" using assms by (rule job_reachable_inv)
  have "\<not> releasing S j" if "sys_inflight S = []" using that by (simp add: releasing_def)
  then show ?thesis
    unfolding locked_holds [OF inv, symmetric]
    using sys_invD(5,6) [OF inv, of j] by auto
qed

section \<open>The state machine of a job\<close>

definition may_become :: "string \<Rightarrow> string \<Rightarrow> bool" where
  "may_become a b \<longleftrightarrow>
     a = b \<or> (a \<in> {''queued'', ''running''} \<and> b = ''cancel_requested'') \<or>
     (a \<in> set active_states \<and> isTerminalJobState b)"

text \<open>What a step may do to a stored job.\<close>

definition row_evolves :: "job_row \<Rightarrow> job_row \<Rightarrow> bool" where
  "row_evolves r r' \<longleftrightarrow>
     may_become (job_state (row_job r)) (job_state (row_job r')) \<and>
     (isTerminalJobState (job_state (row_job r)) \<longrightarrow>
        job_finished_at (row_job r') = job_finished_at (row_job r) \<and>
        job_error_code (row_job r') = job_error_code (row_job r) \<and>
        job_error_message (row_job r') = job_error_message (row_job r)) \<and>
     row_seq r \<le> row_seq r'"

definition rows_evolve :: "job_db \<Rightarrow> job_db \<Rightarrow> bool" where
  "rows_evolve db db' \<longleftrightarrow>
     (\<forall>jid r r'. find_job jid db = Some r \<longrightarrow> find_job jid db' = Some r' \<longrightarrow> row_evolves r r')"

lemma row_evolves_refl [simp]: "row_evolves r r"
  by (simp add: row_evolves_def may_become_def)

lemma rows_evolve_refl [simp]: "rows_evolve db db"
  by (auto simp: rows_evolve_def)

lemma rows_evolve_events [simp]: "rows_evolve db (db'\<lparr>db_events := es\<rparr>) = rows_evolve db db'"
  by (simp add: rows_evolve_def)

lemma rows_evolve_map_job:
  assumes "\<And>r. row_id (f r) = row_id r" "\<And>r. find_job jid db = Some r \<Longrightarrow> row_evolves r (f r)"
  shows "rows_evolve db (map_job jid f db)"
  using assms(2) by (auto simp: rows_evolve_def find_job_map_job [OF assms(1)])

lemma Transition_evolve:
  assumes "db_inv db" "TransitionJobWithEvents io job allowed events db = Inr (u, evs, db')"
    "set allowed \<subseteq> set active_states" "\<And>a. a \<in> set allowed \<Longrightarrow> may_become a (job_state job)"
  shows "rows_evolve db db'"
proof -
  note match = Transition_guard [OF assms(2)]
  have "rows_evolve db (map_job (job_id job) (transition_row job (int n)) db)"
    if "find_job (job_id job) db = Some r" "job_state (row_job r) \<in> set allowed" for n r
  proof (rule rows_evolve_map_job)
    show "row_evolves r' (transition_row job (int n) r')" if "find_job (job_id job) db = Some r'" for r'
      using that \<open>find_job (job_id job) db = Some r\<close> \<open>job_state (row_job r) \<in> set allowed\<close> assms(3,4) terminal_not_active
      by (auto simp: row_evolves_def)
  qed simp
  then show ?thesis
    using assms(2) by (auto simp: TransitionJobWithEvents_eq [OF assms(1) match(1-3)] split: option.splits if_splits)
qed

lemma start_commit_evolve:
  assumes "db_inv (svc_db s)" "find_job (job_id job) (svc_db s) = None" "start_commit io now job s = (r, s')"
  shows "rows_evolve (svc_db s) (svc_db s')"
proof (cases "io = None")
  case True
  then have "db_jobs (svc_db s') = db_jobs (svc_db s) @ [\<lparr>row_job = job, row_seq = 1\<rparr>]"
    using start_commit_db(1) [OF assms(3,1,2)] by simp
  then have "find_job j (svc_db s') = find_job j ((svc_db s)\<lparr>db_jobs := db_jobs (svc_db s) @ [\<lparr>row_job = job, row_seq = 1\<rparr>]\<rparr>)" for j
    by (simp add: find_job_def)
  then show ?thesis by (simp add: rows_evolve_def find_job_append)
next
  case False
  then show ?thesis using start_commit_db(2) [OF assms(3,1,2)] by simp
qed

lemma terminal_transition_evolve:
  assumes "db_inv (svc_db s)" "isTerminalJobState (job_state job)"
    "terminal_transition io1 io2 job events s = (outcome, s')"
  shows "rows_evolve (svc_db s) (svc_db s')"
  using assms(3)
proof (cases rule: terminal_transition_cases)
  case (fin evs db)
  then show ?thesis
    using Transition_evolve [OF assms(1) fin(3)] assms(2) by (auto simp: may_become_def)
qed simp_all

lemma job_step_evolve: "job_step S T \<Longrightarrow> sys_inv S \<Longrightarrow> rows_evolve (sys_db S) (sys_db T)"
proof (induction rule: job_step.induct)
  case (reserve S jid stackID requested draining s' now reqID action requestedBy workflow)
  then show ?case by (auto elim!: start_reserve_Inr)
next
  case (commit job S io r s')
  show ?case
    using start_commit_evolve [OF sys_invD(2) [OF commit(4)] _ commit(3)] sys_invD(4) [OF commit(4,1)] by simp
next
  case (transition S job io1 io2 events outcome s')
  then show ?case using terminal_transition_evolve sys_invD(2) by auto
next
  case (release job outcome S now2 r s')
  then show ?case by (simp add: terminal_release_frame)
next
  case (cancel S job io1 io2 now f r s')
  show ?case
    using cancel(2)
  proof (cases rule: cancel_commit_cases)
    case (cancelled evs db)
    then show ?thesis
      using Transition_evolve [OF sys_invD(2) [OF cancel(3)] cancelled(1)]
      by (simp add: may_become_def active_states_def)
  qed simp
next
  case (publish S job io now ty msg data step progress e s')
  then show ?case
    by (auto simp: PublishEventWithProgress_def AppendJobEvent_eq [OF sys_invD(2)] Let_def row_evolves_def may_become_def
        split: sum.splits option.splits intro!: rows_evolve_map_job)
next
  case (workflow io job steps S r s')
  then show ?case
    by (auto simp: UpdateWorkflow_def UpdateJobWorkflow_Inr row_evolves_def may_become_def
        split: sum.splits intro!: rows_evolve_map_job)
next
  case (replace jid requested S e s')
  then show ?case by (auto simp: replace_resources_def split: sum.splits)
next
  case (prune S ec jc audited)
  then show ?case by (auto simp: rows_evolve_def prune_find_job [OF sys_invD(2)] split: option.splits if_splits)
qed (auto simp: rows_evolve_def)
section \<open>An execution\<close>

text \<open>Two jobs on different stacks, started one after the other; the client of the first has
  subscribed to its events and the first has reported progress.\<close>

definition example_start :: "time \<Rightarrow> string \<Rightarrow> string \<Rightarrow> job_service \<Rightarrow> (svc_error + Job) \<times> job_service" where
  "example_start now jid stackID =
     start None now jid ''req'' stackID ''deploy_stack'' ''local'' [] False
       [\<lparr>ws_action = ''pull'', ws_state = ''running'', ws_target_stack = stackID, ws_services = []\<rparr>]"

definition example_one :: job_service where
  "example_one = snd (example_start 1 ''job_a'' ''web'' (NewService empty_db))"

definition example_two :: job_service where
  "example_two = snd (example_start 2 ''job_b'' ''api'' example_one)"

definition example_job :: Job where
  "example_job = new_job 1 ''job_a'' ''req'' ''web'' ''deploy_stack'' ''local''
     [\<lparr>ws_action = ''pull'', ws_state = ''running'', ws_target_stack = ''web'', ws_services = []\<rparr>]"

definition example_sys :: "job_service \<Rightarrow> job_sys" where
  "example_sys s = \<lparr>sys_svc = s, sys_used = {''job_b'', ''job_a''}, sys_pending = [], sys_inflight = []\<rparr>"

definition example_live :: job_service where
  "example_live = snd (PublishEventWithProgress None 4 example_job ''job_progress'' ''half'' '''' None None
     (snd (PublishEventWithProgress None 3 example_job ''job_log'' ''pulling'' '''' None None
       (Subscribe ''job_a'' 7 example_two))))"

lemma example_start_ok:
  "example_start 1 ''job_a'' ''web'' (NewService empty_db) = (Inr example_job, example_one)"
  "fst (example_start 2 ''job_b'' ''api'' example_one) =
     Inr (new_job 2 ''job_b'' ''req'' ''api'' ''deploy_stack'' ''local''
       [\<lparr>ws_action = ''pull'', ws_state = ''running'', ws_target_stack = ''api'', ws_services = []\<rparr>])"
  by code_simp+

lemma example_fresh:
  "fresh_id (initial_sys empty_db) ''job_a''"
  "fresh_id \<lparr>sys_svc = example_one, sys_used = {''job_a''}, sys_pending = [], sys_inflight = []\<rparr> ''job_b''"
  by code_simp+

lemma example_reachable: "job_reachable empty_db (example_sys example_two)"
proof -
  let ?S1 = "\<lparr>sys_svc = example_one, sys_used = {''job_a''}, sys_pending = [], sys_inflight = []\<rparr>"
  have "example_start 1 ''job_a'' ''web'' (sys_svc (initial_sys empty_db)) = (Inr example_job, example_one)"
    using example_start_ok(1) by (simp add: initial_sys_def)
  then have "job_step\<^sup>*\<^sup>* (initial_sys empty_db)
      ((initial_sys empty_db)\<lparr>sys_svc := example_one, sys_used := insert ''job_a'' (sys_used (initial_sys empty_db))\<rparr>)"
    unfolding example_start_def
    by (rule start_steps) (use example_fresh(1) in \<open>simp_all add: initial_sys_def event_free_def\<close>)
  then have "job_step\<^sup>*\<^sup>* (initial_sys empty_db) ?S1" by (simp add: initial_sys_def)
  moreover have "example_start 2 ''job_b'' ''api'' (sys_svc ?S1) =
      (Inr (new_job 2 ''job_b'' ''req'' ''api'' ''deploy_stack'' ''local''
       [\<lparr>ws_action = ''pull'', ws_state = ''running'', ws_target_stack = ''api'', ws_services = []\<rparr>]), example_two)"
    using example_start_ok(2) by (simp add: example_two_def prod_eq_iff)
  then have "job_step\<^sup>*\<^sup>* ?S1 (?S1\<lparr>sys_svc := example_two, sys_used := insert ''job_b'' (sys_used ?S1)\<rparr>)"
    unfolding example_start_def
    by (rule start_steps) (use example_fresh(2) in \<open>simp_all add: event_free_def\<close>)
  ultimately have "job_step\<^sup>*\<^sup>* (initial_sys empty_db) (example_sys example_two)"
    by (simp add: example_sys_def)
  then show ?thesis by (rule job_reachable_steps) (rule job_reachable.init)
qed

lemma example_active: "active_in (svc_db example_two) ''job_a''" "active_in (svc_db example_two) ''job_b''"
  by code_simp+

lemma example_inv: "db_inv (svc_db example_two)" "sys_inv (example_sys example_two)"
proof -
  show inv: "sys_inv (example_sys example_two)"
    by (rule job_reachable_inv [OF example_reachable db_inv_empty])
  show "db_inv (svc_db example_two)"
    using sys_invD(2) [OF inv] by (simp add: example_sys_def)
qed

theorem active_jobs_exclusive_witness:
  "active_in (svc_db example_two) ''job_a'' \<and> holds (svc_locks example_two) ''job_a'' \<noteq> {} \<and>
    StackResource ''web'' \<in> holds (svc_locks example_two) ''job_a'' \<and>
    StackResource ''api'' \<in> holds (svc_locks example_two) ''job_b'' \<and>
    \<not> ResourcesConflict (StackResource ''web'') (StackResource ''api'')"
proof -
  have "StackResource ''web'' \<in> holds (svc_locks example_two) ''job_a''"
    "StackResource ''api'' \<in> holds (svc_locks example_two) ''job_b''"
    by code_simp+
  then show ?thesis
    using active_jobs_exclusive [OF example_reachable db_inv_empty, of "''job_a''" "''job_b''"] example_active
    by (simp add: example_sys_def)
qed

theorem resources_follow_rows_witness:
  "holds (svc_locks example_two) ''job_a'' \<noteq> {} \<and> holds (svc_locks example_two) ''job_c'' = {}"
proof -
  have "\<not> active_in (svc_db example_two) ''job_c''" by code_simp
  then show ?thesis
    using resources_follow_rows [OF example_reachable db_inv_empty, of "''job_a''"]
      resources_follow_rows [OF example_reachable db_inv_empty, of "''job_c''"] example_active
    by (simp add: example_sys_def)
qed

text \<open>C3: The stored state of a job only moves forward: from queued or running to cancel
  requested, from an active state to a terminal one, never back; the result, the error and
  the finish time of a terminal job never change, and its event counter never decreases.\<close>

theorem job_state_machine:
  assumes "job_reachable db S" "db_inv db" "job_step S T"
    "find_job j (sys_db S) = Some r" "find_job j (sys_db T) = Some r'"
  shows "may_become (job_state (row_job r)) (job_state (row_job r')) \<and>
    (isTerminalJobState (job_state (row_job r)) \<longrightarrow>
       job_state (row_job r') = job_state (row_job r) \<and>
       job_finished_at (row_job r') = job_finished_at (row_job r) \<and>
       job_error_code (row_job r') = job_error_code (row_job r) \<and>
       job_error_message (row_job r') = job_error_message (row_job r)) \<and>
    row_seq r \<le> row_seq r'"
proof -
  have "row_evolves r r'"
    using job_step_evolve [OF assms(3) job_reachable_inv [OF assms(1,2)]] assms(4,5)
    by (auto simp: rows_evolve_def)
  moreover from this have "isTerminalJobState (job_state (row_job r)) \<Longrightarrow> job_state (row_job r') = job_state (row_job r)"
    using terminal_not_active by (auto simp: row_evolves_def may_become_def active_states_def)
  ultimately show ?thesis by (simp add: row_evolves_def)
qed

definition example_cancelled :: job_service where
  "example_cancelled = snd (cancel_commit None None 5 example_job ''f'' example_two)"

lemma example_cancel_step: "job_step (example_sys example_two) (example_sys example_cancelled)"
proof -
  have "job_step (example_sys example_two) ((example_sys example_two)\<lparr>sys_svc := example_cancelled\<rparr>)"
    by (rule job_step.cancel [where job = example_job and f = "''f''" and now = 5 and ?io1.0 = None and ?io2.0 = None])
      (simp_all add: event_free_def example_sys_def example_cancelled_def prod_eq_iff)
  then show ?thesis by (simp add: example_sys_def)
qed

theorem job_state_machine_witness:
  "map_option (\<lambda>r. job_state (row_job r)) (find_job ''job_a'' (svc_db example_cancelled)) = Some ''cancel_requested'' \<and>
   may_become ''running'' ''cancel_requested''"
proof -
  have "map_option (\<lambda>r. job_state (row_job r)) (find_job ''job_a'' (svc_db example_two)) = Some ''running''"
    "map_option (\<lambda>r. job_state (row_job r)) (find_job ''job_a'' (svc_db example_cancelled)) = Some ''cancel_requested''"
    by code_simp+
  moreover from this obtain r r' where "find_job ''job_a'' (svc_db example_two) = Some r"
    "find_job ''job_a'' (svc_db example_cancelled) = Some r'" by auto
  ultimately show ?thesis
    using job_state_machine [OF example_reachable db_inv_empty example_cancel_step, of "''job_a''" r r']
    by (simp add: example_sys_def)
qed

section \<open>Event streams\<close>

text \<open>C4: A subscriber of a job only ever finds events of that job in its channel, in strictly
  increasing sequence order, even though transitions publish after their commit and other
  handlers run in between.\<close>

theorem subscriber_order:
  assumes "job_reachable db S" "db_inv db" "subscribed (sys_svc S) jid ch"
  shows "(\<forall>e \<in> set (buffer_of (sys_svc S) ch). ev_job e = jid) \<and>
    sorted_wrt (<) (map ev_seq (buffer_of (sys_svc S) ch))"
  using stream_invD(3) [OF stream_reachable_inv [OF assms(1,2)] assms(3)] by (simp add: buffer_ok_def)

lemma example_no_channel: "mget (svc_chan example_two) 7 = None"
  by code_simp

lemma example_live_reachable: "job_reachable empty_db (example_sys example_live)"
proof -
  let ?s1 = "Subscribe ''job_a'' 7 example_two"
  let ?s2 = "snd (PublishEventWithProgress None 3 example_job ''job_log'' ''pulling'' '''' None None ?s1)"
  have sub: "job_step (example_sys example_two) (example_sys ?s1)"
    using job_step.subscribe [of "example_sys example_two" 7 "''job_a''"] example_no_channel
    by (simp add: example_sys_def)
  have pub: "job_step (example_sys s) (example_sys (snd (PublishEventWithProgress None t example_job ty m d None None s)))"
    for s t ty m d
    using job_step.publish [of "example_sys s" example_job None t ty m d None None]
    by (simp add: example_sys_def event_free_def prod_eq_iff)
  show ?thesis
    unfolding example_live_def
    by (rule job_reachable.step [OF job_reachable.step [OF job_reachable.step [OF example_reachable sub] pub] pub])
qed

theorem subscriber_order_witness:
  "map ev_seq (buffer_of example_live 7) = [2, 3] \<and> sorted_wrt (<) (map ev_seq (buffer_of example_live 7)) \<and>
   subscribed example_live ''job_a'' 7"
proof -
  have "subscribed example_live ''job_a'' 7" "map ev_seq (buffer_of example_live 7) = [2, 3]"
    by code_simp+
  then show ?thesis
    using subscriber_order [OF example_live_reachable db_inv_empty, of "''job_a''" 7] by (simp add: example_sys_def)
qed

section \<open>Starting and ending a job\<close>

text \<open>C5: A start that fails, at any point, leaves the stored rows and every job's resources as
  they were; a start that succeeds has stored the running job with its first event and holds
  resources that exclude exactly what the request asked to exclude.\<close>

theorem start_all_or_nothing:
  assumes "db_inv (svc_db s)" "holds (svc_locks s) jid = {}"
    "start io now jid reqID stackID action requestedBy requested draining workflow s = (res, s')"
  shows "case res of
      Inl err \<Rightarrow> svc_db s' = svc_db s \<and> holds (svc_locks s') = holds (svc_locks s)
    | Inr job \<Rightarrow>
        job = new_job now jid reqID stackID action requestedBy workflow \<and>
        find_job jid (svc_db s) = None \<and> JobByID None jid (svc_db s') = Inr job \<and>
        ListJobEvents None jid (svc_db s') = Inr [initial_event job now] \<and>
        (\<forall>r. (\<exists>x \<in> holds (svc_locks s') jid. ResourcesConflict r x) \<longleftrightarrow>
             (\<exists>x \<in> requested_set stackID requested. ResourcesConflict r x))"
proof (cases "start_reserve jid stackID requested draining s")
  case (Inl err)
  then show ?thesis using assms(3) by (auto simp: start_def Let_def)
next
  case (Inr s1)
  let ?job = "new_job now jid reqID stackID action requestedBy workflow"
  obtain rs locks where R: "normalizeResources stackID requested = Inr rs"
    "lockMany jid rs draining (svc_locks s) = Inr locks" "s1 = s\<lparr>svc_locks := locks\<rparr>"
    by (rule start_reserve_Inr [OF Inr])
  note H = lockMany_holds [OF R(2)]
  have commit: "start_commit io now ?job s1 = (res, s')"
    using assms(3) Inr by (simp add: start_def Let_def)
  have job: "job_id ?job = jid" by (simp add: new_job_def)
  show ?thesis
  proof (cases "CreateJobWithInitialEvent io ?job (initial_event ?job now) (svc_db s)")
    case (Inl e)
    then show ?thesis
      using commit assms(2) by (auto simp: start_commit_def R(3) unlockAll_holds H job fun_upd_idem)
  next
    case (Inr db)
    have db: "find_job jid (svc_db s) = None" "io = None"
      using Inr job unfolding CreateJobWithInitialEvent_Inr [OF assms(1)] by auto
    from start_commit_db(1) [OF commit] db assms(1) job
    have s': "svc_locks s' = locks" "res = Inr ?job"
      "svc_db s' = \<lparr>db_jobs = db_jobs (svc_db s) @ [\<lparr>row_job = ?job, row_seq = 1\<rparr>],
         db_events = db_events (svc_db s) @ [initial_event ?job now]\<rparr>"
      by (auto simp: R(3))
    have "find_job jid (svc_db s') = Some \<lparr>row_job = ?job, row_seq = 1\<rparr>"
      using find_job_append [of jid "svc_db s" "\<lparr>row_job = ?job, row_seq = 1\<rparr>"] db(1) job
      by (simp add: s'(3) find_job_def)
    moreover have "filter (\<lambda>e. ev_job e = jid) (db_events (svc_db s)) = []"
      using db_inv_no_job_no_events [OF assms(1) db(1)] by (simp add: filter_empty_conv)
    ultimately show ?thesis
      using normalizeResources_conflicts [OF R(1)] db(1) job
      by (simp add: s' H JobByID_def ListJobEvents_def initial_event_def)
  qed
qed

theorem start_all_or_nothing_witness:
  "fst (example_start 1 ''job_a'' ''web'' (NewService empty_db)) = Inr example_job \<and>
   ListJobEvents None ''job_a'' (svc_db example_one) = Inr [initial_event example_job 1]"
proof -
  have "holds (svc_locks (NewService empty_db)) ''job_a'' = {}" "db_inv (svc_db (NewService empty_db))"
    by (simp_all add: NewService_def holds_def empty_locks_def)
  from start_all_or_nothing [OF this(2,1) example_start_ok(1) [unfolded example_start_def]]
  show ?thesis using example_start_ok(1) by simp
qed

text \<open>The effect of the terminal transition of an active job.\<close>

lemma commitTerminal_active:
  assumes "db_inv (svc_db s)" "find_job (job_id job) (svc_db s) = Some row" "job_active row"
    "events \<noteq> []" "events_match job events"
  shows "\<exists>s'. commitTerminalTransition None io2 now2 job events s = (Inr job, s') \<and>
    find_job (job_id job) (svc_db s') = Some (transition_row job (int (length events)) row) \<and>
    db_events (svc_db s') = db_events (svc_db s) @ numbered (row_seq row + 1) events \<and>
    holds (svc_locks s') = (holds (svc_locks s))(job_id job := {}) \<and> db_inv (svc_db s')"
proof -
  let ?db = "(map_job (job_id job) (transition_row job (int (length events))) (svc_db s))
    \<lparr>db_events := db_events (svc_db s) @ numbered (row_seq row + 1) events\<rparr>"
  have T: "TransitionJobWithEvents None job active_states events (svc_db s) =
      Inr (True, numbered (row_seq row + 1) events, ?db)"
    using assms by (simp add: TransitionJobWithEvents_eq job_active_def active_states_def)
  then have "terminal_transition None io2 job events s =
      (TransitionDone (numbered (row_seq row + 1) events), s\<lparr>svc_db := ?db\<rparr>)"
    by (simp add: terminal_transition_def allowed_active)
  moreover have "find_job (job_id job) ?db = Some (transition_row job (int (length events)) row)"
    using assms(2) by (simp add: find_job_map_job)
  ultimately show ?thesis
    using TransitionJobWithEvents_inv [OF assms(1) T]
    by (auto simp: commitTerminalTransition_def terminal_release_def Let_def unlockAll_holds)
qed

text \<open>C6: Ending an active job, with the store working, stores the result and the events that
  describe it in one step, numbered without a gap after the existing ones; it releases the
  job's resources and nobody else's.\<close>

theorem finish_active_job:
  assumes "db_inv (svc_db s)" "find_job (job_id job) (svc_db s) = Some row" "job_active row"
    "events \<noteq> []" "events_match job events"
  shows "\<exists>s'. commitTerminalTransition None io2 now2 job events s = (Inr job, s') \<and>
    find_job (job_id job) (svc_db s') = Some (transition_row job (int (length events)) row) \<and>
    db_events (svc_db s') = db_events (svc_db s) @ numbered (row_seq row + 1) events \<and>
    holds (svc_locks s') = (holds (svc_locks s))(job_id job := {}) \<and> db_inv (svc_db s')"
  using assms by (rule commitTerminal_active)

theorem finish_active_job_witness:
  "\<exists>s'. FinishSucceeded None None 9 9 example_job example_two = (Inr (succeeded_job 9 example_job), s') \<and>
     holds (svc_locks s') ''job_a'' = {} \<and> holds (svc_locks s') ''job_b'' \<noteq> {}"
proof -
  let ?job = "succeeded_job 9 example_job"
  let ?es = "[newJobEvent ?job ''job_finished'' ''Job finished successfully.'' '''' None None 9]"
  have j: "job_id ?job = ''job_a''" by (simp add: succeeded_job_def example_job_def new_job_def)
  obtain row where row: "find_job ''job_a'' (svc_db example_two) = Some row" "job_active row"
    using example_active(1) by (auto simp: active_in_def split: option.splits)
  have "holds (svc_locks example_two) ''job_b'' \<noteq> {}" by code_simp
  then show ?thesis
    using finish_active_job [OF example_inv(1), of ?job row ?es None 9] row
    by (auto simp: j FinishSucceeded_def Let_def events_match_def newJobEvent_def)
qed

text \<open>Ending a job that already has a terminal state writes nothing: the stored result wins,
  the same result is reported as success and a different one as a conflict, and the job's
  resources are released either way.\<close>

theorem finish_terminal_job:
  assumes "db_inv (svc_db s)" "find_job (job_id job) (svc_db s) = Some row"
    "isTerminalJobState (job_state (row_job row))" "events \<noteq> []" "events_match job events"
  shows "commitTerminalTransition None None now2 job events s =
    (if job_state (row_job row) = job_state job then Inr (row_job row)
     else Inl (ErrTransitionConflict (row_job row)), unlock_job (job_id job) s)"
proof -
  have "job_state (row_job row) \<notin> set active_states" using assms(3) by (rule terminal_not_active)
  then have "TransitionJobWithEvents None job active_states events (svc_db s) = Inr (False, [], svc_db s)"
    using assms by (simp add: TransitionJobWithEvents_eq active_states_def)
  then show ?thesis
    using assms(2,3)
    by (simp add: commitTerminalTransition_def terminal_transition_def allowed_active terminal_release_def
        Get_def JobByID_def)
qed

definition example_done :: job_service where
  "example_done = snd (FinishSucceeded None None 9 9 example_job example_two)"

lemma example_done_inv: "db_inv (svc_db example_done)"
proof -
  let ?job = "succeeded_job 9 example_job"
  have "job_step\<^sup>*\<^sup>* (example_sys example_two) ((example_sys example_two)\<lparr>sys_svc := example_done\<rparr>)"
    by (rule commitTerminal_steps [where job = ?job and ?io1.0 = None and ?io2.0 = None and ?now2.0 = 9
          and events = "[newJobEvent ?job ''job_finished'' ''Job finished successfully.'' '''' None None 9]"])
      (auto simp: example_done_def FinishSucceeded_def Let_def example_sys_def event_free_def prod_eq_iff
        succeeded_job_def isTerminalJobState_def)
  then show ?thesis
    using sys_invD(2) [OF job_reachable_inv [OF job_reachable_steps [OF _ example_reachable] db_inv_empty]] by fastforce
qed

theorem finish_terminal_job_witness:
  "\<exists>current. fst (FinishFailed None None 10 10 example_job ''boom'' ''late'' example_done) =
     Inl (ErrTransitionConflict current) \<and> job_state current = ''succeeded''"
proof -
  let ?job = "example_job\<lparr>job_state := ''failed'', job_finished_at := Some 10,
    job_error_code := ''boom'', job_error_message := ''late''\<rparr>"
  let ?es = "[newJobEvent ?job ''job_error'' ''late'' '''' None None 10,
    newJobEvent ?job ''job_finished'' ''Job finished with errors.'' '''' None None 10]"
  have "map_option (\<lambda>r. job_state (row_job r)) (find_job ''job_a'' (svc_db example_done)) = Some ''succeeded''"
    by code_simp
  then obtain row where row: "find_job ''job_a'' (svc_db example_done) = Some row" "job_state (row_job row) = ''succeeded''"
    by auto
  from finish_terminal_job [OF example_done_inv, of ?job row ?es 10] row
  show ?thesis
    by (simp add: FinishFailed_def finishTerminal_def Let_def events_match_def newJobEvent_def
        isTerminalJobState_def example_job_def new_job_def)
qed

text \<open>An event a worker publishes gets the next sequence number of its job and the state
  that is stored at that moment, whatever state the worker's stale copy of the job has: after
  a cancellation no event claims that the job is running.\<close>

theorem published_event_is_current:
  assumes "db_inv (svc_db s)" "find_job (job_id job) (svc_db s) = Some row"
    "PublishEventWithProgress None now job ty msg data step progress s = (err, s')"
  shows "err = None \<and>
    db_events (svc_db s') = db_events (svc_db s) @
      [(newJobEvent job ty msg data step progress now)
         \<lparr>ev_seq := row_seq row + 1, ev_state := job_state (row_job row)\<rparr>] \<and>
    find_job (job_id job) (svc_db s') = Some (row\<lparr>row_seq := row_seq row + 1\<rparr>)"
  using assms
  by (auto simp: PublishEventWithProgress_def AppendJobEvent_eq Let_def newJobEvent_def
      find_job_map_job appended_row_def)

theorem published_event_is_current_witness:
  "\<exists>s'. PublishEventWithProgress None 6 example_job ''job_log'' ''x'' '''' None None example_cancelled = (None, s') \<and>
     ev_state (last (db_events (svc_db s'))) = ''cancel_requested'' \<and> job_state example_job = ''running''"
proof -
  have inv: "db_inv (svc_db example_cancelled)"
    using sys_invD(2) [OF job_step_inv [OF example_cancel_step example_inv(2)]] by (simp add: example_sys_def)
  have "map_option (\<lambda>r. job_state (row_job r)) (find_job ''job_a'' (svc_db example_cancelled)) = Some ''cancel_requested''"
    by code_simp
  then obtain row where "find_job ''job_a'' (svc_db example_cancelled) = Some row"
    "job_state (row_job row) = ''cancel_requested''" by auto
  moreover have "job_id example_job = ''job_a''" "job_state example_job = ''running''"
    by (simp_all add: example_job_def new_job_def)
  ultimately show ?thesis
    using published_event_is_current [OF inv, of example_job row 6 "''job_log''" "''x''" "''''" None None]
    by (cases "PublishEventWithProgress None 6 example_job ''job_log'' ''x'' '''' None None example_cancelled") auto
qed

text \<open>The log of a job reads back in strictly increasing order and a client sees every
  stored event of the job exactly once.\<close>

theorem event_log_order:
  assumes "db_inv (svc_db s)" "Events None None jid s = Inr resp"
  shows "sorted_wrt (<) (map ev_seq (er_items resp)) \<and>
    set (er_items resp) = {e \<in> set (db_events (svc_db s)). ev_job e = jid} \<and>
    (er_retained resp \<longleftrightarrow> (\<exists>e \<in> set (db_events (svc_db s)). ev_job e = jid))"
proof -
  obtain es where es: "ListJobEvents None jid (svc_db s) = Inr es" "er_items resp = es" "er_retained resp = (es \<noteq> [])"
    using assms(2) by (auto simp: Events_def split: sum.splits)
  then have "es = sort_key ev_seq (filter (\<lambda>e. ev_job e = jid) (db_events (svc_db s)))"
    by (simp add: ListJobEvents_def)
  then have "set es = {e \<in> set (db_events (svc_db s)). ev_job e = jid}" by simp
  moreover from this have "es \<noteq> [] \<longleftrightarrow> (\<exists>e \<in> set (db_events (svc_db s)). ev_job e = jid)"
    by (auto simp flip: set_empty)
  ultimately show ?thesis
    using ListJobEvents_strict [OF assms(1) es(1)] es by simp
qed

theorem event_log_order_witness:
  "\<exists>resp. Events None None ''job_a'' example_live = Inr resp \<and> map ev_seq (er_items resp) = [1, 2, 3] \<and>
     sorted_wrt (<) (map ev_seq (er_items resp))"
proof -
  have inv: "db_inv (svc_db example_live)"
    using sys_invD(2) [OF job_reachable_inv [OF example_live_reachable db_inv_empty]] by (simp add: example_sys_def)
  have "map_sum id (\<lambda>resp. map ev_seq (er_items resp)) (Events None None ''job_a'' example_live) = Inr [1, 2, 3]"
    by code_simp
  then obtain resp where "Events None None ''job_a'' example_live = Inr resp" "map ev_seq (er_items resp) = [1, 2, 3]"
    by (cases "Events None None ''job_a'' example_live") auto
  with event_log_order [OF inv this(1)] show ?thesis by auto
qed

section \<open>After a restart\<close>

lemma interrupted_job_fields:
  assumes "interrupted_job now job0 = (job, events)"
  shows "job_id job = job_id job0" "job_state job = ''failed''" "events \<noteq> []" "events_match job events"
    "job_error_code job = ''job_interrupted''" "job_finished_at job = Some now"
  using assms
  by (auto simp: interrupted_job_def Let_def events_match_def newJobEvent_def split: prod.splits option.splits if_splits)

text \<open>From \<open>s\<close> to \<open>s'\<close>, exactly the jobs of \<open>ids\<close> have been marked interrupted.\<close>

definition interrupted_in :: "job_db \<Rightarrow> string \<Rightarrow> bool" where
  "interrupted_in db k \<longleftrightarrow>
     (case find_job k db of None \<Rightarrow> False
      | Some row \<Rightarrow> job_state (row_job row) = ''failed'' \<and> job_error_code (row_job row) = ''job_interrupted'')"

definition reconciles :: "job_service \<Rightarrow> string set \<Rightarrow> job_service \<Rightarrow> bool" where
  "reconciles s ids s' \<longleftrightarrow>
     db_inv (svc_db s') \<and>
     (\<forall>k. active_in (svc_db s') k \<longleftrightarrow> active_in (svc_db s) k \<and> k \<notin> ids) \<and>
     (\<forall>k \<in> ids. interrupted_in (svc_db s') k) \<and>
     (\<forall>k. k \<notin> ids \<longrightarrow> find_job k (svc_db s') = find_job k (svc_db s))"

lemma reconciles_refl: "db_inv (svc_db s) \<Longrightarrow> reconciles s {} s"
  by (simp add: reconciles_def)

lemma reconciles_trans:
  assumes "reconciles s {j} s1" "reconciles s1 ids s'" "j \<notin> ids"
  shows "reconciles s (insert j ids) s'"
  using assms by (auto simp: reconciles_def interrupted_in_def)

lemma reconcile_one:
  assumes "db_inv (svc_db s)" "active_in (svc_db s) (job_id job0)"
  shows "\<exists>job s'. reconcileInterruptedJob None None now now2 job0 s = (Inr job, s') \<and>
    job_id job = job_id job0 \<and> reconciles s {job_id job0} s'"
proof -
  obtain job events where J: "interrupted_job now job0 = (job, events)" by fastforce
  note F = interrupted_job_fields [OF J]
  obtain row where row: "find_job (job_id job) (svc_db s) = Some row" "job_active row"
    using assms(2) F(1) by (auto simp: active_in_def split: option.splits)
  obtain s' where C: "commitTerminalTransition None None now2 job events s = (Inr job, s')"
    "find_job (job_id job) (svc_db s') = Some (transition_row job (int (length events)) row)" "db_inv (svc_db s')"
    using commitTerminal_active [OF assms(1) row F(3,4)] by blast
  have other: "find_job k (svc_db s') = find_job k (svc_db s)" if "k \<noteq> job_id job" for k
  proof -
    have "svc_db s' = (map_job (job_id job) (transition_row job (int (length events))) (svc_db s))
        \<lparr>db_events := db_events (svc_db s) @ numbered (row_seq row + 1) events\<rparr>"
      using C(1) assms(1) row F(3,4)
      by (auto simp: commitTerminalTransition_def terminal_transition_def TransitionJobWithEvents_eq job_active_def
          active_states_def terminal_release_def Let_def)
    then show ?thesis using that by (simp add: find_job_map_job option.map_ident)
  qed
  have act: "active_in (svc_db s') k \<longleftrightarrow> active_in (svc_db s) k \<and> k \<noteq> job_id job0" for k
    using C(2) other [of k] F(1,2) by (cases "k = job_id job") (auto simp: active_in_def job_active_def active_states_def)
  have "interrupted_in (svc_db s') (job_id job0)"
    using C(2) F(1,2,5) by (simp add: interrupted_in_def update_columns_def)
  then have "reconciles s {job_id job0} s'"
    using C(3) act other F(1) by (simp add: reconciles_def)
  then show ?thesis
    using C(1) F(1) by (auto simp: reconcileInterruptedJob_def J)
qed

lemma reconcile_loop_ok:
  assumes "db_inv (svc_db s)" "distinct (map job_id jobs)" "\<forall>job \<in> set jobs. active_in (svc_db s) (job_id job)"
  shows "\<exists>rs s'. reconcile_loop (\<lambda>_. (None, None)) clock jobs s = (Inr rs, s') \<and>
    map job_id rs = map job_id (filter (\<lambda>job. \<not> shouldSkipReconcile (clock (job_id job)) job) jobs) \<and>
    reconciles s (set (map job_id rs)) s'"
  using assms
proof (induction jobs arbitrary: s)
  case Nil
  then show ?case by (simp add: reconciles_refl)
next
  case (Cons job jobs)
  show ?case
  proof (cases "shouldSkipReconcile (clock (job_id job)) job")
    case True
    then show ?thesis using Cons.IH [of s] Cons.prems by simp
  next
    case False
    obtain job' s1 where R: "reconcileInterruptedJob None None (clock (job_id job)) (clock (job_id job)) job s = (Inr job', s1)"
      "job_id job' = job_id job" "reconciles s {job_id job} s1"
      using reconcile_one [OF Cons.prems(1)] Cons.prems(3) by (meson list.set_intros(1))
    have inv: "db_inv (svc_db s1)" and act: "\<forall>j \<in> set jobs. active_in (svc_db s1) (job_id j)"
      using Cons.prems(2,3) R(3) by (auto simp: reconciles_def image_iff)
    obtain rs s' where L: "reconcile_loop (\<lambda>_. (None, None)) clock jobs s1 = (Inr rs, s')"
      "map job_id rs = map job_id (filter (\<lambda>job. \<not> shouldSkipReconcile (clock (job_id job)) job) jobs)"
      "reconciles s1 (set (map job_id rs)) s'"
    proof -
      have d: "distinct (map job_id jobs)" using Cons.prems(2) by simp
      show thesis using Cons.IH [OF inv d act] that by blast
    qed
    have "job_id job \<notin> set (map job_id rs)" using Cons.prems(2) unfolding L(2) by auto
    from reconciles_trans [OF R(3) L(3) this] have "reconciles s (set (map job_id (job' # rs))) s'"
      using R(2) by simp
    then show ?thesis
      using False R(1,2) L(1,2) by (intro exI [of _ "job' # rs"] exI [of _ s']) (simp del: set_map)
  qed
qed

lemma ListActiveJobs_set:
  "ListActiveJobs None db = Inr jobs \<Longrightarrow> set jobs = row_job ` {r \<in> set (db_jobs db). job_active r}"
  by (auto simp: ListActiveJobs_def job_active_def)

lemma ListActiveJobs_distinct:
  assumes "db_inv db" "ListActiveJobs None db = Inr jobs"
  shows "distinct (map job_id jobs)"
proof -
  let ?f = "filter (\<lambda>job. job_state job \<in> set active_states) (map row_job (db_jobs db))"
  have "distinct (map job_id ?f)"
    by (rule distinct_map_filter) (use db_invD(1) [OF assms(1)] in \<open>simp add: comp_def\<close>)
  moreover have "jobs = rev (sort_key job_order_key ?f)" using assms(2) by (simp add: ListActiveJobs_def)
  ultimately show ?thesis by (simp add: distinct_map rev_map [symmetric])
qed

text \<open>C7: After a restart, with the store working, reconciliation succeeds and fails exactly
  the active jobs of the previous process, with the error that they were interrupted, except
  a self update that started less than two hours ago; nothing else changes.\<close>

theorem reconcile_interrupted:
  assumes "db_inv (svc_db s)"
  shows "\<exists>rs s'. ReconcileInterrupted None (\<lambda>_. (None, None)) clock s = (Inr rs, s') \<and>
    set (map job_id rs) = {row_id r | r. r \<in> set (db_jobs (svc_db s)) \<and> job_active r \<and>
      \<not> shouldSkipReconcile (clock (row_id r)) (row_job r)} \<and>
    (\<forall>k. active_in (svc_db s') k \<longleftrightarrow> active_in (svc_db s) k \<and> k \<notin> set (map job_id rs)) \<and>
    (\<forall>k \<in> set (map job_id rs). interrupted_in (svc_db s') k) \<and>
    (\<forall>k. k \<notin> set (map job_id rs) \<longrightarrow> find_job k (svc_db s') = find_job k (svc_db s))"
proof -
  obtain jobs where jobs: "ListActiveJobs None (svc_db s) = Inr jobs" by (simp add: ListActiveJobs_def)
  note set_jobs = ListActiveJobs_set [OF jobs]
  have "\<forall>job \<in> set jobs. active_in (svc_db s) (job_id job)"
    using set_jobs find_job_unique [OF db_invD(1) [OF assms]] by (auto simp: active_in_def)
  from reconcile_loop_ok [OF assms ListActiveJobs_distinct [OF assms jobs] this, of clock]
  obtain rs s' where L: "reconcile_loop (\<lambda>_. (None, None)) clock jobs s = (Inr rs, s')"
    "map job_id rs = map job_id (filter (\<lambda>job. \<not> shouldSkipReconcile (clock (job_id job)) job) jobs)"
    "reconciles s (set (map job_id rs)) s'"
    by blast
  have "set (map job_id rs) = {row_id r | r. r \<in> set (db_jobs (svc_db s)) \<and> job_active r \<and>
      \<not> shouldSkipReconcile (clock (row_id r)) (row_job r)}"
    unfolding L(2) using set_jobs by auto
  then show ?thesis
    using L(1,3) jobs unfolding reconciles_def by (intro exI [of _ rs] exI [of _ s']) (simp add: ReconcileInterrupted_def)
qed

theorem reconcile_interrupted_witness:
  "\<exists>rs s'. ReconcileInterrupted None (\<lambda>_. (None, None)) (\<lambda>_. 100) example_two = (Inr rs, s') \<and>
     (\<forall>k \<in> set (map job_id rs). interrupted_in (svc_db s') k) \<and> db_inv (svc_db example_two)"
  using reconcile_interrupted [OF example_inv(1), of "\<lambda>_. 100"] example_inv(1) by blast

section \<open>Listing active jobs\<close>

lemma LatestJobEvent_total: "\<exists>latest. LatestJobEvent None jid db = Inr latest"
  by (auto simp: LatestJobEvent_def split: list.splits)

lemma list_active_loop_counts:
  assumes "\<forall>job \<in> set jobs. job_state job \<in> set active_states"
    "length items = ac_running c + ac_queued c + ac_cancel_requested c"
  shows "\<exists>items' c'. list_active_loop (\<lambda>_. None) db jobs (items, c) = Inr (items', c') \<and>
    map ai_id items' = map ai_id items @ map job_id jobs \<and> ac_active c' = length items' \<and>
    length items' = ac_running c' + ac_queued c' + ac_cancel_requested c'"
  using assms
proof (induction jobs arbitrary: items c)
  case (Cons job jobs)
  obtain latest where L: "LatestJobEvent None (job_id job) db = Inr latest" using LatestJobEvent_total by blast
  let ?c = "count_state (job_state job) c" and ?items = "items @ [active_item job latest]"
  have "length ?items = ac_running ?c + ac_queued ?c + ac_cancel_requested ?c"
    using Cons.prems by (auto simp: count_state_def active_states_def)
  from Cons.IH [OF _ this] Cons.prems(1) L show ?case by (auto simp: active_item_def)
qed simp

text \<open>The list of active jobs names every active job exactly once, and its summary adds up:
  the running, queued and cancel-requested counts sum to the number of items.\<close>

theorem list_active_complete:
  assumes "db_inv (svc_db s)"
  shows "\<exists>items c. ListActive None (\<lambda>_. None) s = Inr (items, c) \<and> distinct (map ai_id items) \<and>
    set (map ai_id items) = {jid. active_in (svc_db s) jid} \<and> ac_active c = length items \<and>
    ac_active c = ac_running c + ac_queued c + ac_cancel_requested c"
proof -
  obtain jobs where jobs: "ListActiveJobs None (svc_db s) = Inr jobs" by (simp add: ListActiveJobs_def)
  have "\<forall>job \<in> set jobs. job_state job \<in> set active_states"
    using ListActiveJobs_set [OF jobs] by (auto simp: job_active_def)
  from list_active_loop_counts [OF this, of "[]" "\<lparr>ac_active = 0, ac_running = 0, ac_queued = 0, ac_cancel_requested = 0\<rparr>" "svc_db s"]
  obtain items c where L: "list_active_loop (\<lambda>_. None) (svc_db s) jobs
      ([], \<lparr>ac_active = 0, ac_running = 0, ac_queued = 0, ac_cancel_requested = 0\<rparr>) = Inr (items, c)"
    "map ai_id items = map job_id jobs" "ac_active c = length items"
    "length items = ac_running c + ac_queued c + ac_cancel_requested c"
    by auto
  have "set (map ai_id items) = {jid. active_in (svc_db s) jid}"
    unfolding L(2) using ListActiveJobs_set [OF jobs] find_job_unique [OF db_invD(1) [OF assms]]
    by (force simp: active_in_def split: option.splits dest: find_job_SomeD)
  moreover have "distinct (map ai_id items)" using ListActiveJobs_distinct [OF assms jobs] L(2) by simp
  ultimately show ?thesis
    using L(1,3,4) jobs unfolding ListActive_def by (intro exI [of _ items] exI [of _ c]) (simp del: set_map)
qed

theorem list_active_complete_witness:
  "db_inv (svc_db example_two) \<and> (\<exists>items c. ListActive None (\<lambda>_. None) example_two = Inr (items, c) \<and>
     ac_active c = length items \<and> ''job_b'' \<in> set (map ai_id items))"
  using list_active_complete [OF example_inv(1)] example_inv(1) example_active by auto

end
