(* ===== verification/Auth_Store.thy ===== *)
theory Auth_Store
  imports Job_Store
begin

text \<open>
  The \<open>auth_password\<close>, \<open>auth_sessions\<close> and \<open>app_settings\<close> tables of
  internal/store/store.go.  The password table has at most the row with id 1.  As in
  \<open>Job_Store\<close>, a failing statement is a \<open>fault\<close> and leaves the tables unchanged.
\<close>

record Session =
  ses_id :: string
  ses_user :: string
  ses_created :: "time"
  ses_last_seen :: "time"
  ses_expires :: "time"
  ses_agent :: string
  ses_ip :: string
  ses_revoked :: "time option"
  ses_version :: int

record PasswordCredentials =
  pc_hash :: string
  pc_version :: int

record auth_db =
  adb_password :: "PasswordCredentials option"
  adb_sessions :: "Session list"
  adb_settings :: "(string, string) gomap"

definition empty_auth_db :: auth_db where
  "empty_auth_db = \<lparr>adb_password = None, adb_sessions = [], adb_settings = []\<rparr>"

definition find_session :: "string \<Rightarrow> auth_db \<Rightarrow> Session option" where
  "find_session sid db = find (\<lambda>s. ses_id s = sid) (adb_sessions db)"

definition map_sessions :: "(Session \<Rightarrow> bool) \<Rightarrow> (Session \<Rightarrow> Session) \<Rightarrow> auth_db \<Rightarrow> auth_db" where
  "map_sessions p f db = db\<lparr>adb_sessions := map (\<lambda>s. if p s then f s else s) (adb_sessions db)\<rparr>"

section \<open>Operations\<close>

definition PasswordCredentialsOf :: "fault \<Rightarrow> auth_db \<Rightarrow> store_error + PasswordCredentials option" where
  "PasswordCredentialsOf io db = (case io of Some e \<Rightarrow> Inl (ErrStore e) | None \<Rightarrow> Inr (adb_password db))"

definition PasswordHash :: "fault \<Rightarrow> auth_db \<Rightarrow> store_error + string option" where
  "PasswordHash io db = (case PasswordCredentialsOf io db of Inl e \<Rightarrow> Inl e | Inr c \<Rightarrow> Inr (map_option pc_hash c))"

definition SetPasswordHash :: "fault \<Rightarrow> string \<Rightarrow> auth_db \<Rightarrow> store_error + auth_db" where
  "SetPasswordHash io passwordHash db =
     (case io of
        Some e \<Rightarrow> Inl (ErrStore e)
      | None \<Rightarrow>
          Inr (db\<lparr>adb_password := Some (case adb_password db of
                     None \<Rightarrow> \<lparr>pc_hash = passwordHash, pc_version = 1\<rparr>
                   | Some c \<Rightarrow> c\<lparr>pc_hash := passwordHash\<rparr>)\<rparr>))"

definition UpdatePasswordAndRevokeSessions ::
  "fault \<Rightarrow> int \<Rightarrow> string \<Rightarrow> time \<Rightarrow> auth_db \<Rightarrow> store_error + auth_db" where
  "UpdatePasswordAndRevokeSessions io expectedVersion passwordHash updatedAt db =
     (case io of
        Some e \<Rightarrow> Inl (ErrStore e)
      | None \<Rightarrow>
          (case adb_password db of
             None \<Rightarrow> Inl ErrPasswordVersionChanged
           | Some c \<Rightarrow>
               if pc_version c \<noteq> expectedVersion then Inl ErrPasswordVersionChanged
               else Inr (map_sessions (\<lambda>s. ses_revoked s = None) (\<lambda>s. s\<lparr>ses_revoked := Some updatedAt\<rparr>)
                     (db\<lparr>adb_password := Some \<lparr>pc_hash = passwordHash, pc_version = pc_version c + 1\<rparr>\<rparr>))))"

definition AppSetting :: "fault \<Rightarrow> string \<Rightarrow> auth_db \<Rightarrow> store_error + string option" where
  "AppSetting io key db = (case io of Some e \<Rightarrow> Inl (ErrStore e) | None \<Rightarrow> Inr (mget (adb_settings db) key))"

definition SetAppSetting :: "fault \<Rightarrow> string \<Rightarrow> string \<Rightarrow> auth_db \<Rightarrow> store_error + auth_db" where
  "SetAppSetting io key valueJSON db =
     (case io of Some e \<Rightarrow> Inl (ErrStore e) | None \<Rightarrow> Inr (db\<lparr>adb_settings := mput key valueJSON (adb_settings db)\<rparr>))"

definition CreateSession :: "fault \<Rightarrow> Session \<Rightarrow> auth_db \<Rightarrow> store_error + auth_db" where
  "CreateSession io session db =
     (let passwordVersion = (if ses_version session \<le> 0 then 1 else ses_version session)
      in case io of
           Some e \<Rightarrow> Inl (ErrStore e)
         | None \<Rightarrow>
             if find_session (ses_id session) db \<noteq> None
             then Inl (ErrStore ''UNIQUE constraint failed: auth_sessions.id'')
             else Inr (db\<lparr>adb_sessions := adb_sessions db @
                     [session\<lparr>ses_revoked := None, ses_version := passwordVersion\<rparr>]\<rparr>))"

definition CreateSessionAtPasswordVersion :: "fault \<Rightarrow> Session \<Rightarrow> int \<Rightarrow> auth_db \<Rightarrow> store_error + auth_db" where
  "CreateSessionAtPasswordVersion io session passwordVersion db =
     (case io of
        Some e \<Rightarrow> Inl (ErrStore e)
      | None \<Rightarrow>
          (case adb_password db of
             None \<Rightarrow> Inl ErrPasswordVersionChanged
           | Some c \<Rightarrow>
               if pc_version c \<noteq> passwordVersion then Inl ErrPasswordVersionChanged
               else if find_session (ses_id session) db \<noteq> None
               then Inl (ErrStore ''UNIQUE constraint failed: auth_sessions.id'')
               else Inr (db\<lparr>adb_sessions := adb_sessions db @
                     [session\<lparr>ses_revoked := None, ses_version := passwordVersion\<rparr>]\<rparr>)))"

definition SessionByID :: "fault \<Rightarrow> string \<Rightarrow> auth_db \<Rightarrow> store_error + Session" where
  "SessionByID io sid db =
     (case io of
        Some e \<Rightarrow> Inl (ErrStore e)
      | None \<Rightarrow> (case find_session sid db of None \<Rightarrow> Inl ErrStoreNotFound | Some s \<Rightarrow> Inr s))"

definition SessionAtCurrentPasswordVersion :: "fault \<Rightarrow> string \<Rightarrow> auth_db \<Rightarrow> store_error + Session" where
  "SessionAtCurrentPasswordVersion io sid db =
     (case io of
        Some e \<Rightarrow> Inl (ErrStore e)
      | None \<Rightarrow>
          (case (find_session sid db, adb_password db) of
             (Some s, Some c) \<Rightarrow> if pc_version c = ses_version s then Inr s else Inl ErrStoreNotFound
           | _ \<Rightarrow> Inl ErrStoreNotFound))"

definition TouchSession :: "fault \<Rightarrow> string \<Rightarrow> time \<Rightarrow> time \<Rightarrow> time \<Rightarrow> auth_db \<Rightarrow> store_error + auth_db" where
  "TouchSession io sid expectedLastSeenAt lastSeenAt expiresAt db =
     (case io of
        Some e \<Rightarrow> Inl (ErrStore e)
      | None \<Rightarrow>
          (case (find_session sid db, adb_password db) of
             (Some s, Some c) \<Rightarrow>
               if ses_revoked s = None \<and> ts_eq (ses_last_seen s) expectedLastSeenAt \<and> ses_version s = pc_version c
               then Inr (map_sessions (\<lambda>s. ses_id s = sid)
                           (\<lambda>s. s\<lparr>ses_last_seen := lastSeenAt, ses_expires := expiresAt\<rparr>) db)
               else Inl ErrSessionChanged
           | _ \<Rightarrow> Inl ErrSessionChanged))"

definition RevokeSession :: "fault \<Rightarrow> string \<Rightarrow> time \<Rightarrow> auth_db \<Rightarrow> store_error + auth_db" where
  "RevokeSession io sid revokedAt db =
     (case io of
        Some e \<Rightarrow> Inl (ErrStore e)
      | None \<Rightarrow>
          (case find_session sid db of
             None \<Rightarrow> Inl ErrStoreNotFound
           | Some s \<Rightarrow>
               if ses_revoked s \<noteq> None then Inl ErrStoreNotFound
               else Inr (map_sessions (\<lambda>s. ses_id s = sid) (\<lambda>s. s\<lparr>ses_revoked := Some revokedAt\<rparr>) db)))"

definition prune_sessions :: "time \<Rightarrow> auth_db \<Rightarrow> auth_db" where
  "prune_sessions cutoff db =
     db\<lparr>adb_sessions := filter (\<lambda>s. \<not> (ts_less (ses_expires s) cutoff \<or>
          (case ses_revoked s of None \<Rightarrow> False | Some t \<Rightarrow> ts_less t cutoff))) (adb_sessions db)\<rparr>"

section \<open>Row access\<close>

lemma find_session_SomeD: "find_session sid db = Some s \<Longrightarrow> s \<in> set (adb_sessions db) \<and> ses_id s = sid"
  by (auto simp: find_session_def dest: find_Some_iff2)

lemma find_session_None_iff: "find_session sid db = None \<longleftrightarrow> sid \<notin> ses_id ` set (adb_sessions db)"
  by (auto simp: find_session_def find_None_iff)

lemma find_session_password [simp]: "find_session sid (db\<lparr>adb_password := p\<rparr>) = find_session sid db"
  by (simp add: find_session_def)

lemma find_session_map:
  assumes "\<And>s. ses_id (f s) = ses_id s"
  shows "find_session sid (map_sessions p f db) = map_option (\<lambda>s. if p s then f s else s) (find_session sid db)"
proof -
  have "find (\<lambda>s. ses_id s = sid) (map (\<lambda>s. if p s then f s else s) xs) =
      map_option (\<lambda>s. if p s then f s else s) (find (\<lambda>s. ses_id s = sid) xs)" for xs
    by (induction xs) (auto simp: assms)
  then show ?thesis by (simp add: find_session_def map_sessions_def)
qed

lemma find_session_append:
  "find_session sid (db\<lparr>adb_sessions := adb_sessions db @ [s]\<rparr>) =
     (case find_session sid db of None \<Rightarrow> if ses_id s = sid then Some s else None | Some s' \<Rightarrow> Some s')"
proof -
  have "find P (xs @ [y]) = (case find P xs of None \<Rightarrow> if P y then Some y else None | Some z \<Rightarrow> Some z)"
    for P :: "Session \<Rightarrow> bool" and xs y
    by (induction xs) auto
  then show ?thesis by (simp add: find_session_def)
qed

lemma map_sessions_password [simp]: "adb_password (map_sessions p f db) = adb_password db"
  by (simp add: map_sessions_def)

lemma find_session_prune:
  assumes "distinct (map ses_id (adb_sessions db))" "find_session sid (prune_sessions c db) = Some s"
  shows "find_session sid db = Some s"
proof -
  have "s \<in> set (adb_sessions db)" "ses_id s = sid"
    using find_session_SomeD [OF assms(2)] by (auto simp: prune_sessions_def)
  moreover obtain s' where "find_session sid db = Some s'"
    using calculation find_session_None_iff [of sid db] by (cases "find_session sid db") auto
  moreover from this have "s' \<in> set (adb_sessions db)" "ses_id s' = sid" by (auto dest: find_session_SomeD)
  ultimately show ?thesis using assms(1) by (auto simp: distinct_map inj_on_def)
qed

section \<open>The table invariant\<close>

text \<open>
  Session ids are unique and no session is of a password generation that has not existed.
\<close>

definition auth_db_inv :: "auth_db \<Rightarrow> bool" where
  "auth_db_inv db \<longleftrightarrow>
     distinct (map ses_id (adb_sessions db)) \<and>
     (\<forall>s \<in> set (adb_sessions db). case adb_password db of None \<Rightarrow> False | Some c \<Rightarrow> ses_version s \<le> pc_version c)"

lemma auth_db_inv_map:
  assumes "auth_db_inv db" "\<And>s. ses_id (f s) = ses_id s" "\<And>s. ses_version (f s) = ses_version s"
  shows "auth_db_inv (map_sessions p f db)"
proof -
  have "map ses_id (adb_sessions (map_sessions p f db)) = map ses_id (adb_sessions db)"
    by (simp add: map_sessions_def assms(2))
  moreover have "ses_version s \<in> ses_version ` set (adb_sessions db)" if "s \<in> set (adb_sessions (map_sessions p f db))" for s
    using that assms(3) by (auto simp: map_sessions_def image_iff split: if_splits)
  ultimately show ?thesis
    using assms(1) unfolding auth_db_inv_def by (force split: option.splits)
qed

lemma SetPasswordHash_inv: "auth_db_inv db \<Longrightarrow> SetPasswordHash io h db = Inr db' \<Longrightarrow> auth_db_inv db'"
  by (auto simp: SetPasswordHash_def auth_db_inv_def split: option.splits)

lemma UpdatePassword_inv:
  assumes "auth_db_inv db" "UpdatePasswordAndRevokeSessions io v h t db = Inr db'"
  shows "auth_db_inv db'"
proof -
  obtain c where c: "adb_password db = Some c"
    and db': "db' = map_sessions (\<lambda>s. ses_revoked s = None) (\<lambda>s. s\<lparr>ses_revoked := Some t\<rparr>)
      (db\<lparr>adb_password := Some \<lparr>pc_hash = h, pc_version = pc_version c + 1\<rparr>\<rparr>)"
    using assms(2) by (auto simp: UpdatePasswordAndRevokeSessions_def split: option.splits if_splits)
  have "auth_db_inv (db\<lparr>adb_password := Some \<lparr>pc_hash = h, pc_version = pc_version c + 1\<rparr>\<rparr>)"
    using assms(1) c by (force simp: auth_db_inv_def)
  then show ?thesis unfolding db' by (rule auth_db_inv_map) simp_all
qed

lemma CreateSessionAt_inv:
  assumes "auth_db_inv db" "CreateSessionAtPasswordVersion io s v db = Inr db'"
  shows "auth_db_inv db'"
  using assms
  by (auto simp: CreateSessionAtPasswordVersion_def auth_db_inv_def find_session_None_iff
      split: option.splits if_splits)

lemma TouchSession_inv: "auth_db_inv db \<Longrightarrow> TouchSession io sid e l x db = Inr db' \<Longrightarrow> auth_db_inv db'"
  by (auto simp: TouchSession_def split: option.splits if_splits intro!: auth_db_inv_map)

lemma RevokeSession_inv: "auth_db_inv db \<Longrightarrow> RevokeSession io sid t db = Inr db' \<Longrightarrow> auth_db_inv db'"
  by (auto simp: RevokeSession_def split: option.splits if_splits intro!: auth_db_inv_map)

lemma prune_sessions_inv: "auth_db_inv db \<Longrightarrow> auth_db_inv (prune_sessions c db)"
  by (auto simp: auth_db_inv_def prune_sessions_def distinct_map_filter)

end
