(* ===== verification/Login_Throttle.thy ===== *)
theory Login_Throttle
  imports Go_Time "HOL-Library.Product_Lexorder"
begin

text \<open>
  The login throttle of internal/auth/service.go: failed attempts per client address with a
  lockout, a bounded table of clients, and the slots that bound concurrent password
  verifications.  All of it is guarded by \<open>loginMu\<close> except the slot channel, which is
  taken before and given back after the table is updated.
\<close>

record login_config =
  LoginMaxFailures :: int
  LoginFailureWindow :: duration
  LoginLockoutDuration :: duration
  maxTrackedLoginClients :: int

record loginAttemptState =
  FirstFailedAt :: "time"
  FailedCount :: int
  LockedUntil :: "time"
  UpdatedAt :: "time"

text \<open>The zero value of the struct; the zero \<open>time.Time\<close> is instant 0.\<close>

definition zero_attempt :: loginAttemptState where
  "zero_attempt = \<lparr>FirstFailedAt = 0, FailedCount = 0, LockedUntil = 0, UpdatedAt = 0\<rparr>"

type_synonym attempts = "(string, loginAttemptState) gomap"

definition loginAttemptKey :: "string \<Rightarrow> string" where
  "loginAttemptKey ipAddress =
     (let trimmed = go_trim_space ipAddress in if trimmed = '''' then ''unknown'' else trimmed)"

definition loginMaxFailures :: "login_config \<Rightarrow> int" where
  "loginMaxFailures cfg = (if LoginMaxFailures cfg \<le> 0 then 5 else LoginMaxFailures cfg)"

definition loginFailureWindow :: "login_config \<Rightarrow> duration" where
  "loginFailureWindow cfg = (if LoginFailureWindow cfg \<le> 0 then 5 * Minute else LoginFailureWindow cfg)"

definition loginLockoutDuration :: "login_config \<Rightarrow> duration" where
  "loginLockoutDuration cfg = (if LoginLockoutDuration cfg \<le> 0 then 5 * Minute else LoginLockoutDuration cfg)"

definition defaultMaxTrackedLoginClients :: int where
  "defaultMaxTrackedLoginClients = 4096"

definition maxTrackedClients :: "login_config \<Rightarrow> int" where
  "maxTrackedClients cfg =
     (if maxTrackedLoginClients cfg \<le> 0 then defaultMaxTrackedLoginClients else maxTrackedLoginClients cfg)"

definition loginAttemptExpired :: "loginAttemptState \<Rightarrow> time \<Rightarrow> duration \<Rightarrow> bool" where
  "loginAttemptExpired attempt now failureWindow =
     (if \<not> time_is_zero (LockedUntil attempt) then \<not> LockedUntil attempt > now
      else FailedCount attempt > 0 \<and> time_sub now (FirstFailedAt attempt) > failureWindow)"

definition loginLocked :: "login_config \<Rightarrow> string \<Rightarrow> time \<Rightarrow> attempts \<Rightarrow> bool \<times> attempts" where
  "loginLocked cfg ipAddress now m =
     (let key = loginAttemptKey ipAddress
      in case mget m key of
           None \<Rightarrow> (False, m)
         | Some attempt \<Rightarrow>
             if loginAttemptExpired attempt now (loginFailureWindow cfg) then (False, mdel key m)
             else (LockedUntil attempt > now, m))"

definition pruneLoginAttemptsLocked :: "login_config \<Rightarrow> time \<Rightarrow> attempts \<Rightarrow> attempts" where
  "pruneLoginAttemptsLocked cfg now m =
     mdrop_if (\<lambda>_ attempt. loginAttemptExpired attempt now (loginFailureWindow cfg)) m"

text \<open>One turn of the loop that looks for the oldest entry; the accumulator starts empty.\<close>

definition pick_oldest :: "string \<times> time \<Rightarrow> string \<times> loginAttemptState \<Rightarrow> string \<times> time" where
  "pick_oldest best entry =
     (let (oldestKey, oldestUpdatedAt) = best; (key, attempt) = entry
      in if oldestKey = '''' \<or> UpdatedAt attempt < oldestUpdatedAt \<or>
            (UpdatedAt attempt = oldestUpdatedAt \<and> key < oldestKey)
         then (key, UpdatedAt attempt) else best)"

definition evictOldestLoginAttemptLocked :: "attempts \<Rightarrow> attempts" where
  "evictOldestLoginAttemptLocked m =
     (let (oldestKey, _) = foldl pick_oldest ('''', 0) m
      in if oldestKey \<noteq> '''' then mdel oldestKey m else m)"

text \<open>What a failure makes of the entry of its client.\<close>

definition failed_attempt :: "login_config \<Rightarrow> time \<Rightarrow> loginAttemptState option \<Rightarrow> loginAttemptState" where
  "failed_attempt cfg now old =
     (let attempt0 = (case old of None \<Rightarrow> zero_attempt | Some a \<Rightarrow> a);
          attempt1 = (if FailedCount attempt0 = 0 \<or> time_sub now (FirstFailedAt attempt0) > loginFailureWindow cfg
                      then zero_attempt\<lparr>FirstFailedAt := now\<rparr> else attempt0);
          attempt2 = attempt1\<lparr>FailedCount := FailedCount attempt1 + 1, UpdatedAt := now\<rparr>
      in if FailedCount attempt2 \<ge> loginMaxFailures cfg
         then attempt2\<lparr>LockedUntil := now + loginLockoutDuration cfg\<rparr> else attempt2)"

definition recordLoginFailure :: "login_config \<Rightarrow> string \<Rightarrow> time \<Rightarrow> attempts \<Rightarrow> attempts" where
  "recordLoginFailure cfg ipAddress now m =
     (let key = loginAttemptKey ipAddress;
          m1 = pruneLoginAttemptsLocked cfg now m;
          old = mget m1 key;
          m2 = (if old = None \<and> int (length m1) \<ge> maxTrackedClients cfg
                then evictOldestLoginAttemptLocked m1 else m1)
      in mput key (failed_attempt cfg now old) m2)"

definition clearLoginFailures :: "string \<Rightarrow> attempts \<Rightarrow> attempts" where
  "clearLoginFailures ipAddress m = mdel (loginAttemptKey ipAddress) m"

section \<open>The table stays bounded\<close>

lemma loginAttemptKey_nonempty [simp]: "loginAttemptKey ip \<noteq> ''''"
  by (simp add: loginAttemptKey_def Let_def)

definition keys_proper :: "attempts \<Rightarrow> bool" where
  "keys_proper m \<longleftrightarrow> map_ok m \<and> '''' \<notin> set (mkeys m)"

definition attempts_inv :: "login_config \<Rightarrow> attempts \<Rightarrow> bool" where
  "attempts_inv cfg m \<longleftrightarrow> keys_proper m \<and> int (length m) \<le> maxTrackedClients cfg"

lemma maxTrackedClients_pos: "1 \<le> maxTrackedClients cfg"
  by (simp add: maxTrackedClients_def defaultMaxTrackedLoginClients_def)

text \<open>The loop ends at the entry that is least by last update and key.\<close>

abbreviation age :: "string \<times> loginAttemptState \<Rightarrow> time \<times> string" where
  "age e \<equiv> (UpdatedAt (snd e), fst e)"

lemma pick_oldest_eq:
  assumes "fst b \<noteq> ''''"
  shows "pick_oldest b e = (if age e < (snd b, fst b) then (fst e, UpdatedAt (snd e)) else b)"
  using assms by (cases b; cases e) (simp add: pick_oldest_def)

lemma pick_oldest_fold:
  assumes "fst b \<noteq> ''''" "\<forall>e \<in> set m. fst e \<noteq> ''''" "r = foldl pick_oldest b m"
  shows "fst r \<noteq> '''' \<and> (r = b \<or> (\<exists>e \<in> set m. r = (fst e, UpdatedAt (snd e)))) \<and>
    (\<forall>e \<in> set m. (snd r, fst r) \<le> age e) \<and> (snd r, fst r) \<le> (snd b, fst b)"
  using assms
proof (induction m arbitrary: b)
  case (Cons e m)
  define c where "c = pick_oldest b e"
  have c: "c = (if age e < (snd b, fst b) then (fst e, UpdatedAt (snd e)) else b)"
    unfolding c_def by (rule pick_oldest_eq) (rule Cons.prems)
  have "fst c \<noteq> ''''" using Cons.prems by (simp add: c)
  then have IH: "fst r \<noteq> ''''" "r = c \<or> (\<exists>e \<in> set m. r = (fst e, UpdatedAt (snd e)))"
    "\<forall>e \<in> set m. (snd r, fst r) \<le> age e" "(snd r, fst r) \<le> (snd c, fst c)"
    using Cons.IH [of c] Cons.prems by (simp_all add: c_def)
  have "(snd c, fst c) \<le> (snd b, fst b) \<and> (snd c, fst c) \<le> age e"
  proof (cases "age e < (snd b, fst b)")
    case True
    then have "(snd c, fst c) = age e" by (simp add: c)
    with True show ?thesis by (metis order.strict_implies_order order_refl)
  next
    case False
    then have "c = b" by (simp only: c if_False)
    with False show ?thesis by (metis leI order_refl)
  qed

  then have "(snd r, fst r) \<le> (snd b, fst b)" and "(snd r, fst r) \<le> age e"
    by (rule conjunct1 [THEN order_trans [OF IH(4)]], rule conjunct2 [THEN order_trans [OF IH(4)]])
  moreover have "r = b \<or> (\<exists>e' \<in> set (e # m). r = (fst e', UpdatedAt (snd e')))"
    using IH(2) unfolding c by (cases "age e < (snd b, fst b)") auto
  ultimately show ?case using IH(1,3) by simp
qed auto

lemma evict_spec:
  assumes "keys_proper m" "m \<noteq> []"
  obtains k a where "mget m k = Some a" "evictOldestLoginAttemptLocked m = mdel k m"
    "\<forall>k' a'. mget m k' = Some a' \<longrightarrow> UpdatedAt a \<le> UpdatedAt a'"
proof -
  obtain k0 a0 m' where m: "m = (k0, a0) # m'" using assms(2) by (metis neq_Nil_conv surj_pair)
  have ok: "map_ok m" and ne: "\<forall>e \<in> set m. fst e \<noteq> ''''"
    using assms(1) by (auto simp: keys_proper_def) force
  define r where "r = foldl pick_oldest (k0, UpdatedAt a0) m'"
  have fold: "foldl pick_oldest ('''', 0) m = r"
    by (simp add: m r_def pick_oldest_def)
  have R: "fst r \<noteq> ''''" "r = (k0, UpdatedAt a0) \<or> (\<exists>e \<in> set m'. r = (fst e, UpdatedAt (snd e)))"
    "\<forall>e \<in> set m'. (snd r, fst r) \<le> age e" "(snd r, fst r) \<le> (UpdatedAt a0, k0)"
    using pick_oldest_fold [of "(k0, UpdatedAt a0)" m' r] ne by (simp_all add: r_def m)
  then obtain e where e: "e \<in> set m" "r = (fst e, UpdatedAt (snd e))"
    unfolding m by (metis fst_conv list.set_intros(1,2) snd_conv)
  show thesis
  proof (rule that [of "fst e" "snd e"])
    show "mget m (fst e) = Some (snd e)" using e(1) map_ok_entry [OF ok] by (metis prod.collapse)
    show "evictOldestLoginAttemptLocked m = mdel (fst e) m"
      using R(1) e(2) by (simp add: evictOldestLoginAttemptLocked_def fold)
    have "UpdatedAt (snd e) \<le> UpdatedAt (snd e')" if "e' \<in> set m" for e'
    proof -
      have "(snd r, fst r) \<le> age e'" using that R(3,4) by (auto simp: m)
      then show ?thesis using e(2) by (auto simp: less_eq_prod_def)
    qed
    then show "\<forall>k' a'. mget m k' = Some a' \<longrightarrow> UpdatedAt (snd e) \<le> UpdatedAt a'"
      using map_ok_entry [OF ok] by (metis snd_conv)
  qed
qed

lemma length_mdel:
  assumes "map_ok m" "mget m k = Some a"
  shows "length (mdel k m) = length m - 1"
proof -
  have k: "k \<in> set (mkeys m)" using assms(2) by (metis domI dom_map_of_conv_image_fst image_set)
  have "length (mdel k m) = length (removeAll k (mkeys m))" by (metis delete_keys length_map)
  also have "\<dots> = length (remove1 k (mkeys m))"
    using assms(1) by (simp add: map_ok_def distinct_remove1_removeAll)
  also have "\<dots> = length m - 1" using k by (simp add: length_remove1)
  finally show ?thesis .
qed

lemma length_mput: "length (mput k v m) = (if mget m k = None then length m + 1 else length m)"
  by (induction m) auto

lemma keys_proper_intros:
  "keys_proper m \<Longrightarrow> k \<noteq> '''' \<Longrightarrow> keys_proper (mput k v m)"
  "keys_proper m \<Longrightarrow> keys_proper (mdel k m)"
  "keys_proper m \<Longrightarrow> keys_proper (mdrop_if p m)"
proof -
  show "keys_proper m \<Longrightarrow> k \<noteq> '''' \<Longrightarrow> keys_proper (mput k v m)"
    by (simp add: keys_proper_def dom_update map_ok_intros)
  show "keys_proper m \<Longrightarrow> keys_proper (mdel k m)"
    using dom_delete_subset [of k m] by (auto simp: keys_proper_def intro: map_ok_intros)

  show "keys_proper m \<Longrightarrow> keys_proper (mdrop_if p m)"
    by (auto simp: keys_proper_def mdrop_if_def intro: map_ok_intros [unfolded mdrop_if_def])
qed

lemma length_mdrop_if: "length (mdrop_if p m) \<le> length m"
  by (simp add: mdrop_if_def)

lemma attempts_inv_failure:
  assumes "attempts_inv cfg m"
  shows "attempts_inv cfg (recordLoginFailure cfg ip now m)"
proof -
  let ?k = "loginAttemptKey ip"
  let ?m1 = "pruneLoginAttemptsLocked cfg now m"
  let ?new = "failed_attempt cfg now (mget ?m1 ?k)"
  have m1: "keys_proper ?m1" "int (length ?m1) \<le> maxTrackedClients cfg"
    using assms length_mdrop_if [of "\<lambda>_ a. loginAttemptExpired a now (loginFailureWindow cfg)" m]
    by (auto simp: attempts_inv_def pruneLoginAttemptsLocked_def keys_proper_intros)
  show ?thesis
  proof (cases "mget ?m1 ?k = None \<and> int (length ?m1) \<ge> maxTrackedClients cfg")
    case True
    then have "?m1 \<noteq> []" using maxTrackedClients_pos [of cfg] by auto
    then obtain k a where k: "mget ?m1 k = Some a" "evictOldestLoginAttemptLocked ?m1 = mdel k ?m1"
      using evict_spec [OF m1(1)] by metis
    have len: "length (mdel k ?m1) = length ?m1 - 1"
      by (rule length_mdel [OF _ k(1)]) (use m1(1) in \<open>simp add: keys_proper_def\<close>)
    have "recordLoginFailure cfg ip now m = mput ?k ?new (mdel k ?m1)"
      using True k(2) by (simp add: recordLoginFailure_def Let_def)
    moreover have "length (mput ?k ?new (mdel k ?m1)) \<le> length ?m1"
      using len \<open>?m1 \<noteq> []\<close> by (simp add: length_mput)
    ultimately show ?thesis
      using m1 by (simp add: attempts_inv_def keys_proper_intros)
  next
    case False
    then have "recordLoginFailure cfg ip now m = mput ?k ?new ?m1"
      by (auto simp: recordLoginFailure_def Let_def)
    moreover have "int (length (mput ?k ?new ?m1)) \<le> maxTrackedClients cfg"
      using False m1(2) by (auto simp: length_mput)
    ultimately show ?thesis using m1(1) by (simp add: attempts_inv_def keys_proper_intros)
  qed
qed

lemma attempts_inv_del: "attempts_inv cfg m \<Longrightarrow> attempts_inv cfg (mdel k m)"
  using length_delete_le [of k m] by (auto simp: attempts_inv_def keys_proper_intros)

lemma attempts_inv_locked: "attempts_inv cfg m \<Longrightarrow> attempts_inv cfg (snd (loginLocked cfg ip now m))"
  by (auto simp: loginLocked_def Let_def attempts_inv_del split: option.splits)

section \<open>Sequences of calls\<close>

text \<open>The three entry points, in any order, from any clients and with any clock.\<close>

datatype throttle_call = CallLocked string "time" | CallFailure string "time" | CallClear string

fun throttle_run :: "login_config \<Rightarrow> throttle_call list \<Rightarrow> attempts \<Rightarrow> attempts" where
  "throttle_run cfg [] m = m"
| "throttle_run cfg (CallLocked ip now # cs) m = throttle_run cfg cs (snd (loginLocked cfg ip now m))"
| "throttle_run cfg (CallFailure ip now # cs) m = throttle_run cfg cs (recordLoginFailure cfg ip now m)"
| "throttle_run cfg (CallClear ip # cs) m = throttle_run cfg cs (clearLoginFailures ip m)"

lemma throttle_run_inv: "attempts_inv cfg m \<Longrightarrow> attempts_inv cfg (throttle_run cfg cs m)"
  by (induction cfg cs m rule: throttle_run.induct)
     (simp_all add: attempts_inv_locked attempts_inv_failure attempts_inv_del clearLoginFailures_def)

section \<open>The lockout\<close>

text \<open>
  While failures fall in one window that starts at \<open>t0\<close> and the clients seen fit the table,
  the entry of a client counts its failures.
\<close>

definition counted :: "login_config \<Rightarrow> string \<Rightarrow> string set \<Rightarrow> time \<Rightarrow> nat \<Rightarrow> attempts \<Rightarrow> bool" where
  "counted cfg key K t0 n m \<longleftrightarrow>
     keys_proper m \<and> set (mkeys m) \<subseteq> K \<and>
     (if n = 0 then mget m key = None
      else \<exists>a. mget m key = Some a \<and> FailedCount a = int n \<and> LockedUntil a = 0 \<and> t0 \<le> FirstFailedAt a)"

lemma loginFailureWindow_pos: "0 < loginFailureWindow cfg"
  by (simp add: loginFailureWindow_def duration_defs)

lemma window_not_passed:
  assumes "t - u \<le> loginFailureWindow cfg"
  shows "\<not> time_sub t u > loginFailureWindow cfg"
  using assms loginFailureWindow_pos [of cfg] by (auto simp: time_sub_def min_duration_def max_duration_def)

lemma keys_fit:
  assumes "keys_proper m" "set (mkeys m) \<subseteq> K" "finite K" "int (card K) \<le> maxTrackedClients cfg"
    "k \<in> K" "mget m k = None"
  shows "\<not> int (length m) \<ge> maxTrackedClients cfg"
proof -
  have "k \<notin> set (mkeys m)" using assms(6) by (simp add: map_of_eq_None_iff)
  then have "set (mkeys m) \<subset> K" using assms(2,5) by blast
  then have "card (set (mkeys m)) < card K" using assms(3) by (rule psubset_card_mono [rotated])
  moreover have "card (set (mkeys m)) = length m"
    using assms(1) distinct_card [of "mkeys m"] by (simp add: keys_proper_def map_ok_def)
  ultimately show ?thesis using assms(4) by linarith
qed

lemma prune_counted:
  assumes "counted cfg key K t0 n m" "now \<le> t0 + loginFailureWindow cfg"
  shows "counted cfg key K t0 n (pruneLoginAttemptsLocked cfg now m)"
proof -
  let ?p = "\<lambda>_ attempt. loginAttemptExpired attempt now (loginFailureWindow cfg)"
  have ok: "map_ok m" and kp: "keys_proper m" "set (mkeys m) \<subseteq> K"
    using assms(1) by (simp_all add: counted_def keys_proper_def)
  have get: "mget (mdrop_if ?p m) key = (case mget m key of None \<Rightarrow> None | Some v \<Rightarrow> if ?p key v then None else Some v)"
    using mget_mdrop_if [OF ok] by (simp split: option.splits)
  have keep: "\<not> ?p key a" if "LockedUntil a = 0" "t0 \<le> FirstFailedAt a" for a
    using that assms(2) window_not_passed [of now "FirstFailedAt a" cfg]
    by (simp add: loginAttemptExpired_def time_is_zero_def)
  have "set (mkeys (mdrop_if ?p m)) \<subseteq> K" using kp(2) by (auto simp: mdrop_if_def)
  then show ?thesis
    using assms(1) kp(1) keep unfolding pruneLoginAttemptsLocked_def counted_def get
    by (auto simp: keys_proper_intros)
qed

text \<open>A failure of any client, in the window: the table keeps counting.\<close>

lemma record_unfold:
  assumes "counted cfg key K t0 n m" "finite K" "int (card K) \<le> maxTrackedClients cfg"
    "loginAttemptKey ip \<in> K" "now \<le> t0 + loginFailureWindow cfg"
  shows "recordLoginFailure cfg ip now m =
      mput (loginAttemptKey ip) (failed_attempt cfg now (mget (pruneLoginAttemptsLocked cfg now m) (loginAttemptKey ip)))
        (pruneLoginAttemptsLocked cfg now m)"
proof -
  have "counted cfg key K t0 n (pruneLoginAttemptsLocked cfg now m)" by (rule prune_counted) fact+
  then have "keys_proper (pruneLoginAttemptsLocked cfg now m)" "set (mkeys (pruneLoginAttemptsLocked cfg now m)) \<subseteq> K"
    by (simp_all add: counted_def)
  then have "\<not> (mget (pruneLoginAttemptsLocked cfg now m) (loginAttemptKey ip) = None \<and>
      int (length (pruneLoginAttemptsLocked cfg now m)) \<ge> maxTrackedClients cfg)"
    using keys_fit assms(2-4) by metis
  then show ?thesis by (simp only: recordLoginFailure_def Let_def if_False)
qed

lemma failed_attempt_counts:
  assumes "old = None \<and> n = 0 \<or> (\<exists>a. old = Some a \<and> n \<noteq> 0 \<and> FailedCount a = int n \<and> LockedUntil a = 0 \<and> t0 \<le> FirstFailedAt a)"
    "t0 \<le> now" "now \<le> t0 + loginFailureWindow cfg" "b = failed_attempt cfg now old"
  shows "FailedCount b = int (Suc n)" "t0 \<le> FirstFailedAt b"
    "LockedUntil b = (if int (Suc n) \<ge> loginMaxFailures cfg then now + loginLockoutDuration cfg else 0)"
  using assms window_not_passed
  by (auto simp: failed_attempt_def zero_attempt_def Let_def)

lemma counted_cases:
  "counted cfg key K t0 n m \<Longrightarrow>
    mget m key = None \<and> n = 0 \<or>
    (\<exists>a. mget m key = Some a \<and> n \<noteq> 0 \<and> FailedCount a = int n \<and> LockedUntil a = 0 \<and> t0 \<le> FirstFailedAt a)"
  by (auto simp: counted_def split: if_splits)

lemma counted_step:
  assumes "counted cfg key K t0 n m" "finite K" "int (card K) \<le> maxTrackedClients cfg"
    "loginAttemptKey ip \<in> K" "t0 \<le> now" "now \<le> t0 + loginFailureWindow cfg"
    "int (n + (if loginAttemptKey ip = key then 1 else 0)) < loginMaxFailures cfg"
  shows "counted cfg key K t0 (n + (if loginAttemptKey ip = key then 1 else 0)) (recordLoginFailure cfg ip now m)"
proof -
  let ?m1 = "pruneLoginAttemptsLocked cfg now m"
  have c: "counted cfg key K t0 n ?m1" by (rule prune_counted) fact+
  then have kp: "keys_proper ?m1" "set (mkeys ?m1) \<subseteq> K" by (simp_all add: counted_def)
  have upd: "keys_proper (mput (loginAttemptKey ip) b ?m1)" "set (mkeys (mput (loginAttemptKey ip) b ?m1)) \<subseteq> K" for b
    using kp assms(4) by (simp_all add: keys_proper_intros dom_update)
  show ?thesis
  proof (cases "loginAttemptKey ip = key")
    case True
    define b where "b = failed_attempt cfg now (mget ?m1 key)"
    have "FailedCount b = int (Suc n)" "t0 \<le> FirstFailedAt b" "LockedUntil b = 0"
      using failed_attempt_counts [OF counted_cases [OF c] assms(5,6) b_def] assms(7) True by auto
    then show ?thesis
      using upd [of b] True record_unfold [OF assms(1-4,6)] by (simp add: counted_def b_def mget_put)
  next
    case False
    then show ?thesis
      using upd c record_unfold [OF assms(1-4,6)] by (simp add: counted_def mget_put)
  qed
qed

fun failures_run :: "login_config \<Rightarrow> (string \<times> time) list \<Rightarrow> attempts \<Rightarrow> attempts" where
  "failures_run cfg [] m = m"
| "failures_run cfg ((ip, now) # es) m = failures_run cfg es (recordLoginFailure cfg ip now m)"

definition failures_of :: "string \<Rightarrow> (string \<times> time) list \<Rightarrow> nat" where
  "failures_of key es = length (filter (\<lambda>(ip, _). loginAttemptKey ip = key) es)"

lemma failures_run_counted:
  assumes "counted cfg key K t0 n m" "finite K" "int (card K) \<le> maxTrackedClients cfg"
    "\<forall>(ip, now) \<in> set es. loginAttemptKey ip \<in> K \<and> t0 \<le> now \<and> now \<le> t0 + loginFailureWindow cfg"
    "int (n + failures_of key es) < loginMaxFailures cfg"
  shows "counted cfg key K t0 (n + failures_of key es) (failures_run cfg es m)"
  using assms(1,4,5)
proof (induction es arbitrary: n m)
  case (Cons e es)
  obtain ip now where e: "e = (ip, now)" by (cases e)
  let ?d = "if loginAttemptKey ip = key then 1 else 0 :: nat"
  have f: "n + failures_of key (e # es) = n + ?d + failures_of key es" by (simp add: failures_of_def e)
  have "counted cfg key K t0 (n + ?d) (recordLoginFailure cfg ip now m)"
    using Cons.prems f by (intro counted_step assms(2,3)) (auto simp: e)
  then have "counted cfg key K t0 (n + ?d + failures_of key es) (failures_run cfg es (recordLoginFailure cfg ip now m))"
    by (rule Cons.IH) (use Cons.prems f in auto)
  then show ?case unfolding f by (simp only: e failures_run.simps)
qed (simp add: failures_of_def)

lemma loginLockoutDuration_pos: "0 < loginLockoutDuration cfg"
  by (simp add: loginLockoutDuration_def duration_defs)

lemma lockout_step:
  assumes "counted cfg key K t0 n m" "finite K" "int (card K) \<le> maxTrackedClients cfg"
    "key \<in> K" "key = loginAttemptKey ip" "t0 \<le> t" "t \<le> t0 + loginFailureWindow cfg" "0 \<le> t"
    "int (Suc n) = loginMaxFailures cfg" "t \<le> now" "now < t + loginLockoutDuration cfg"
  shows "loginLocked cfg ip now (recordLoginFailure cfg ip t m) = (True, recordLoginFailure cfg ip t m)"
proof -
  define b where "b = failed_attempt cfg t (mget (pruneLoginAttemptsLocked cfg t m) key)"
  have "LockedUntil b = t + loginLockoutDuration cfg"
    using failed_attempt_counts [OF counted_cases [OF prune_counted [OF assms(1,7)]] assms(6,7) b_def] assms(9) by auto
  moreover have "mget (recordLoginFailure cfg ip t m) (loginAttemptKey ip) = Some b"
    using record_unfold [OF assms(1-3) _ assms(7), of ip] assms(4,5) by (simp add: b_def mget_put)
  ultimately show ?thesis
    using assms(8,10,11) loginLockoutDuration_pos [of cfg]
    by (simp add: loginLocked_def loginAttemptExpired_def time_is_zero_def)
qed

section \<open>Verification slots\<close>

text \<open>
  \<open>acquireLoginVerification\<close> sends to the buffered channel \<open>loginVerificationSlots\<close> and then,
  under \<open>loginMu\<close>, claims the client's key; the closure it returns frees the key and then
  receives from the channel.  The channel is the number of tokens it buffers.  Other requests
  may run between the two halves of either function, so the halves are separate steps.
\<close>

definition defaultLoginVerificationConcurrency :: nat where
  "defaultLoginVerificationConcurrency = 2"

record login_gate =
  loginVerificationSlots :: nat
  loginInFlight :: "string list"

definition new_gate :: login_gate where
  "new_gate = \<lparr>loginVerificationSlots = 0, loginInFlight = []\<rparr>"

datatype auth_error = ErrUnauthorized | ErrInvalidCredentials | ErrInvalidPassword | ErrNotConfigured
  | ErrTooManyAttempts | ErrContext string | ErrAuthStore string | ErrRandom string | ErrConcurrentTouches

definition take_slot :: "login_gate \<Rightarrow> login_gate option" where
  "take_slot g =
     (if loginVerificationSlots g < defaultLoginVerificationConcurrency
      then Some (g\<lparr>loginVerificationSlots := loginVerificationSlots g + 1\<rparr>) else None)"

definition claim_key :: "string \<Rightarrow> login_gate \<Rightarrow> login_gate option" where
  "claim_key key g =
     (if key \<in> set (loginInFlight g) then None
      else Some (g\<lparr>loginInFlight := set_add key (loginInFlight g)\<rparr>))"

definition free_key :: "string \<Rightarrow> login_gate \<Rightarrow> login_gate" where
  "free_key key g = g\<lparr>loginInFlight := removeAll key (loginInFlight g)\<rparr>"

text \<open>A receive from an empty channel blocks: there is no successor state.\<close>

definition give_slot :: "login_gate \<Rightarrow> login_gate option" where
  "give_slot g = (if loginVerificationSlots g = 0 then None
                  else Some (g\<lparr>loginVerificationSlots := loginVerificationSlots g - 1\<rparr>))"

text \<open>The whole call when nothing runs in between, with the release it returns.\<close>

definition acquireLoginVerification :: "string option \<Rightarrow> string \<Rightarrow> login_gate \<Rightarrow> (auth_error + string) \<times> login_gate" where
  "acquireLoginVerification ctxErr ipAddress g =
     (case ctxErr of
        Some e \<Rightarrow> (Inl (ErrContext e), g)
      | None \<Rightarrow>
          (case take_slot g of
             None \<Rightarrow> (Inl ErrTooManyAttempts, g)
           | Some g1 \<Rightarrow>
               (let key = loginAttemptKey ipAddress
                in case claim_key key g1 of
                     None \<Rightarrow> (Inl ErrTooManyAttempts, (case give_slot g1 of Some g2 \<Rightarrow> g2 | None \<Rightarrow> g1))
                   | Some g2 \<Rightarrow> (Inr key, g2))))"

definition releaseLoginVerification :: "string \<Rightarrow> login_gate \<Rightarrow> login_gate" where
  "releaseLoginVerification key g = (case give_slot (free_key key g) of Some g' \<Rightarrow> g' | None \<Rightarrow> free_key key g)"

lemma acquire_release:
  assumes "acquireLoginVerification ctxErr ip g = (Inr key, g')"
  shows "releaseLoginVerification key g' = g"
proof -
  have "key \<notin> set (loginInFlight g)"
    and g': "g' = g\<lparr>loginVerificationSlots := loginVerificationSlots g + 1, loginInFlight := set_add key (loginInFlight g)\<rparr>"
    using assms by (auto simp: acquireLoginVerification_def take_slot_def claim_key_def Let_def
        split: option.splits if_splits)
  then show ?thesis
    by (simp add: releaseLoginVerification_def free_key_def give_slot_def set_add_def)
qed

text \<open>What a request that holds a slot token is doing.\<close>

datatype login_phase = Slotted string | Verifying string | Refused | Freed

type_synonym gate_state = "login_gate \<times> (nat, login_phase) gomap"

inductive gate_step :: "gate_state \<Rightarrow> gate_state \<Rightarrow> bool" where
  slot: "mget ps r = None \<Longrightarrow> take_slot g = Some g' \<Longrightarrow>
    gate_step (g, ps) (g', mput r (Slotted (loginAttemptKey ip)) ps)"
| claim: "mget ps r = Some (Slotted key) \<Longrightarrow> claim_key key g = Some g' \<Longrightarrow>
    gate_step (g, ps) (g', mput r (Verifying key) ps)"
| refuse: "mget ps r = Some (Slotted key) \<Longrightarrow> claim_key key g = None \<Longrightarrow>
    gate_step (g, ps) (g, mput r Refused ps)"
| free: "mget ps r = Some (Verifying key) \<Longrightarrow>
    gate_step (g, ps) (free_key key g, mput r Freed ps)"
| give: "mget ps r = Some Refused \<or> mget ps r = Some Freed \<Longrightarrow> give_slot g = Some g' \<Longrightarrow>
    gate_step (g, ps) (g', mdel r ps)"

inductive gate_reachable :: "gate_state \<Rightarrow> bool" where
  start: "gate_reachable (new_gate, [])"
| step: "gate_reachable s \<Longrightarrow> gate_step s s' \<Longrightarrow> gate_reachable s'"

definition gate_inv :: "gate_state \<Rightarrow> bool" where
  "gate_inv s \<longleftrightarrow> (case s of (g, ps) \<Rightarrow>
     map_ok ps \<and> distinct (loginInFlight g) \<and>
     loginVerificationSlots g = length ps \<and> length ps \<le> defaultLoginVerificationConcurrency \<and>
     (\<forall>key. key \<in> set (loginInFlight g) \<longleftrightarrow> (\<exists>r. mget ps r = Some (Verifying key))) \<and>
     (\<forall>r r' key. mget ps r = Some (Verifying key) \<longrightarrow> mget ps r' = Some (Verifying key) \<longrightarrow> r = r'))"

lemma gate_invI:
  assumes "map_ok ps" "distinct (loginInFlight g)" "loginVerificationSlots g = length ps"
    "length ps \<le> defaultLoginVerificationConcurrency"
    "\<And>key. key \<in> set (loginInFlight g) \<longleftrightarrow> (\<exists>r. mget ps r = Some (Verifying key))"
    "\<And>r r' key. mget ps r = Some (Verifying key) \<Longrightarrow> mget ps r' = Some (Verifying key) \<Longrightarrow> r = r'"
  shows "gate_inv (g, ps)"
  using assms by (simp add: gate_inv_def)

lemma gate_invD:
  assumes "gate_inv (g, ps)"
  shows "map_ok ps" "distinct (loginInFlight g)" "loginVerificationSlots g = length ps"
    "length ps \<le> defaultLoginVerificationConcurrency"
    "key \<in> set (loginInFlight g) \<longleftrightarrow> (\<exists>r. mget ps r = Some (Verifying key))"
    "mget ps r = Some (Verifying key) \<Longrightarrow> mget ps r' = Some (Verifying key) \<Longrightarrow> r = r'"
  using assms unfolding gate_inv_def by auto

lemma gate_inv_step:
  assumes "gate_step s s'" "gate_inv s"
  shows "gate_inv s'"
  using assms
proof (induction rule: gate_step.induct)
  case (slot ps r g g' ip)
  note I = gate_invD [OF slot.prems]
  have g': "loginVerificationSlots g < defaultLoginVerificationConcurrency" "g' = g\<lparr>loginVerificationSlots := Suc (length ps)\<rparr>"
    using slot(2) I(3) by (auto simp: take_slot_def split: if_splits)
  show ?case
  proof (rule gate_invI)
    show "key \<in> set (loginInFlight g') \<longleftrightarrow> (\<exists>r'. mget (mput r (Slotted (loginAttemptKey ip)) ps) r' = Some (Verifying key))" for key
      using I(5) [of key] slot(1) unfolding g' mget_put by (simp, metis option.distinct(1))
    fix a b key
    show "mget (mput r (Slotted (loginAttemptKey ip)) ps) a = Some (Verifying key) \<Longrightarrow>
      mget (mput r (Slotted (loginAttemptKey ip)) ps) b = Some (Verifying key) \<Longrightarrow> a = b"
      using I(6) [of a key b] by (simp add: mget_put split: if_splits)
  qed (use I(1-4) g' slot(1) in \<open>simp_all add: length_mput map_ok_intros\<close>)
next
  case (claim ps r key g g')
  note I = gate_invD [OF claim.prems]
  have g': "key \<notin> set (loginInFlight g)" "g' = g\<lparr>loginInFlight := set_add key (loginInFlight g)\<rparr>"
    using claim(2) by (auto simp: claim_key_def split: if_splits)
  show ?case
  proof (rule gate_invI)
    show "k \<in> set (loginInFlight g') \<longleftrightarrow> (\<exists>r'. mget (mput r (Verifying key) ps) r' = Some (Verifying k))" for k
      using I(5) [of k] claim(1) unfolding g' mget_put by (simp, metis login_phase.distinct(1) option.inject)
    fix a b k
    show "mget (mput r (Verifying key) ps) a = Some (Verifying k) \<Longrightarrow>
      mget (mput r (Verifying key) ps) b = Some (Verifying k) \<Longrightarrow> a = b"
      using I(6) [of a k b] I(5) [of key] g'(1) by (auto simp: mget_put split: if_splits)
  qed (use I(1-4) g' claim(1) in \<open>simp_all add: length_mput map_ok_intros\<close>)
next
  case (refuse ps r key g)
  note I = gate_invD [OF refuse.prems]
  show ?case
  proof (rule gate_invI)
    show "k \<in> set (loginInFlight g) \<longleftrightarrow> (\<exists>r'. mget (mput r Refused ps) r' = Some (Verifying k))" for k
      using I(5) [of k] refuse(1) unfolding mget_put by (simp, metis login_phase.distinct(1) option.inject)
    fix a b k
    show "mget (mput r Refused ps) a = Some (Verifying k) \<Longrightarrow> mget (mput r Refused ps) b = Some (Verifying k) \<Longrightarrow> a = b"
      using I(6) [of a k b] by (simp add: mget_put split: if_splits)
  qed (use I(1-4) refuse(1) in \<open>simp_all add: length_mput map_ok_intros\<close>)
next
  case (free ps r key g)
  note I = gate_invD [OF free.prems]
  show ?case
  proof (rule gate_invI)
    show "k \<in> set (loginInFlight (free_key key g)) \<longleftrightarrow> (\<exists>r'. mget (mput r Freed ps) r' = Some (Verifying k))" for k
    proof -
      have "k = key \<Longrightarrow> mget ps a = Some (Verifying k) \<Longrightarrow> a = r" for a using I(6) free(1) by blast
      moreover have "a = r \<Longrightarrow> mget ps a = Some (Verifying k) \<Longrightarrow> k = key" for a using free(1) by simp
      ultimately have "(\<exists>a. a \<noteq> r \<and> mget ps a = Some (Verifying k)) \<longleftrightarrow> k \<noteq> key \<and> (\<exists>a. mget ps a = Some (Verifying k))"
        by blast
      then show ?thesis using I(5) [of k] by (auto simp: mget_put free_key_def)
    qed
    fix a b k
    show "mget (mput r Freed ps) a = Some (Verifying k) \<Longrightarrow> mget (mput r Freed ps) b = Some (Verifying k) \<Longrightarrow> a = b"
      using I(6) [of a k b] by (simp add: mget_put split: if_splits)
  qed (use I(1-4) free(1) in \<open>simp_all add: length_mput map_ok_intros free_key_def distinct_removeAll\<close>)
next
  case (give ps r g g')
  note I = gate_invD [OF give.prems]
  obtain p where p: "mget ps r = Some p" using give(1) by auto
  have g': "loginVerificationSlots g \<noteq> 0" "g' = g\<lparr>loginVerificationSlots := length ps - 1\<rparr>"
    using give(2) I(3) by (auto simp: give_slot_def split: if_splits)
  show ?case
  proof (rule gate_invI)
    show "k \<in> set (loginInFlight g') \<longleftrightarrow> (\<exists>r'. mget (mdel r ps) r' = Some (Verifying k))" for k
      using I(5) [of k] give(1) unfolding g' mget_del
      by (simp, metis login_phase.distinct(7,9) option.inject)
    fix a b k
    show "mget (mdel r ps) a = Some (Verifying k) \<Longrightarrow> mget (mdel r ps) b = Some (Verifying k) \<Longrightarrow> a = b"
      using I(6) [of a k b] by (simp add: mget_del split: if_splits)
  qed (use I(1-4) g' length_mdel [OF I(1) p] in \<open>simp_all add: map_ok_intros\<close>)
qed

lemma gate_reachable_inv: "gate_reachable s \<Longrightarrow> gate_inv s"
proof (induction rule: gate_reachable.induct)
  case start
  show ?case by (simp add: gate_inv_def new_gate_def)
next
  case (step s s')
  then show ?case by (blast intro: gate_inv_step)
qed

section \<open>Properties\<close>

lemma failures_run_append: "failures_run cfg (es @ fs) m = failures_run cfg fs (failures_run cfg es m)"
  by (induction cfg es m rule: failures_run.induct) simp_all

lemma not_yet_locked:
  assumes "counted cfg (loginAttemptKey ip) K t0 n m" "0 \<le> now"
  shows "\<not> fst (loginLocked cfg ip now m)"
  using counted_cases [OF assms(1)] assms(2) by (auto simp: loginLocked_def Let_def split: if_splits)

text \<open>However the three entry points of the login throttle are interleaved, from whatever
  addresses and with whatever clock readings, the table of failed attempts never holds more
  clients than \<open>maxTrackedClients\<close> allows, and holds one entry per client.\<close>

theorem login_table_bounded:
  "int (length (throttle_run cfg cs [])) \<le> maxTrackedClients cfg \<and> map_ok (throttle_run cfg cs [])"
proof -
  have "attempts_inv cfg []"
    using maxTrackedClients_pos [of cfg] by (simp add: attempts_inv_def keys_proper_def)
  then have "attempts_inv cfg (throttle_run cfg cs [])" by (rule throttle_run_inv)
  then show ?thesis by (simp add: attempts_inv_def keys_proper_def)
qed


definition example_login_config :: login_config where
  "example_login_config = \<lparr>LoginMaxFailures = 3, LoginFailureWindow = 0, LoginLockoutDuration = 0, maxTrackedLoginClients = 2\<rparr>"

lemma example_trims: "loginAttemptKey ''a'' = ''a''" "loginAttemptKey ''b'' = ''b''"
  by code_simp+

lemma example_numbers:
  "maxTrackedClients example_login_config = 2" "loginMaxFailures example_login_config = 3"
  "loginFailureWindow example_login_config = 300000000000"
  "loginLockoutDuration example_login_config = 300000000000"
  by (simp_all add: example_login_config_def maxTrackedClients_def loginFailureWindow_def
      loginLockoutDuration_def loginMaxFailures_def duration_defs)



definition example_gate :: login_gate where
  "example_gate = \<lparr>loginVerificationSlots = 1, loginInFlight = [''a'']\<rparr>"

lemma example_gate_reachable: "gate_reachable (example_gate, [(7, Verifying ''a'')])"
proof -
  have "gate_reachable (new_gate\<lparr>loginVerificationSlots := 1\<rparr>, [(7, Slotted ''a'')])"
    using gate_step.slot [of "[]" 7 new_gate "new_gate\<lparr>loginVerificationSlots := 1\<rparr>" "''a''"]
    by (intro gate_reachable.step [OF gate_reachable.start])
       (simp add: take_slot_def new_gate_def defaultLoginVerificationConcurrency_def example_trims)
  then show ?thesis
    by (rule gate_reachable.step)
       (use gate_step.claim [of "[(7, Slotted ''a'')]" 7 "''a''" "new_gate\<lparr>loginVerificationSlots := 1\<rparr>" example_gate]
        in \<open>simp add: claim_key_def new_gate_def example_gate_def set_add_def\<close>)
qed


end
