(* ===== verification/Go_Codec.thy ===== *)
theory Go_Codec
  imports Go_Time
begin

text \<open>
  The text codecs of the Go library that several components call: base64 without padding in
  the standard and the URL alphabet, the UTF-8 rune count, and decimal numbers, each with its
  round trip.
\<close>

section \<open>Base64, standard alphabet, no padding\<close>

definition b64_alphabet :: string where
  "b64_alphabet = ''ABCDEFGHIJKLMNOPQRSTUVWXYZabcdefghijklmnopqrstuvwxyz0123456789+/''"

definition b64_char :: "nat \<Rightarrow> char" where
  "b64_char n = b64_alphabet ! n"

abbreviation byte :: "char \<Rightarrow> nat" where
  "byte c \<equiv> of_char c"

fun b64_encode :: "string \<Rightarrow> string" where
  "b64_encode [] = []"
| "b64_encode [a] = [b64_char (byte a div 4), b64_char (byte a mod 4 * 16)]"
| "b64_encode [a, b] =
     [b64_char (byte a div 4), b64_char (byte a mod 4 * 16 + byte b div 16), b64_char (byte b mod 16 * 4)]"
| "b64_encode (a # b # c # rest) =
     b64_char (byte a div 4) # b64_char (byte a mod 4 * 16 + byte b div 16) #
     b64_char (byte b mod 16 * 4 + byte c div 64) # b64_char (byte c mod 64) # b64_encode rest"

definition b64_index :: "char \<Rightarrow> nat option" where
  "b64_index c = (let n = length (takeWhile (\<lambda>x. x \<noteq> c) b64_alphabet) in if n < 64 then Some n else None)"

fun b64_indices :: "string \<Rightarrow> nat list option" where
  "b64_indices [] = Some []"
| "b64_indices (c # cs) =
     (if c = CHR 0x0A \<or> c = CHR 0x0D then b64_indices cs
      else case (b64_index c, b64_indices cs) of (Some n, Some ns) \<Rightarrow> Some (n # ns) | _ \<Rightarrow> None)"

text \<open>Strict decoding: the bits that no byte uses must be zero.\<close>

fun b64_quanta :: "nat list \<Rightarrow> string option" where
  "b64_quanta [] = Some []"
| "b64_quanta [a] = None"
| "b64_quanta [a, b] = (if b mod 16 = 0 then Some [char_of (a * 4 + b div 16)] else None)"
| "b64_quanta [a, b, c] =
     (if c mod 4 = 0 then Some [char_of (a * 4 + b div 16), char_of (b mod 16 * 16 + c div 4)] else None)"
| "b64_quanta (a # b # c # d # rest) =
     map_option (\<lambda>s. char_of (a * 4 + b div 16) # char_of (b mod 16 * 16 + c div 4) # char_of (c mod 4 * 64 + d) # s)
       (b64_quanta rest)"

definition b64_decode :: "string \<Rightarrow> string option" where
  "b64_decode s = (case b64_indices s of None \<Rightarrow> None | Some ns \<Rightarrow> b64_quanta ns)"

definition EncodedLen :: "nat \<Rightarrow> nat" where
  "EncodedLen n = n div 3 * 4 + (n mod 3 * 8 + 5) div 6"

section \<open>UTF-8\<close>

definition in_range :: "nat \<Rightarrow> nat \<Rightarrow> char \<Rightarrow> bool" where
  "in_range lo hi c \<longleftrightarrow> lo \<le> byte c \<and> byte c \<le> hi"

text \<open>The encodings the library accepts, by first byte.\<close>

fun utf8_runes :: "string \<Rightarrow> nat option" where
  "utf8_runes [] = Some 0"
| "utf8_runes (a # s) =
     (if in_range 0x00 0x7F a then map_option Suc (utf8_runes s)
      else
        (case s of
           b # s1 \<Rightarrow>
             if in_range 0xC2 0xDF a \<and> in_range 0x80 0xBF b then map_option Suc (utf8_runes s1)
             else
               (case s1 of
                  c # s2 \<Rightarrow>
                    if in_range 0xE0 0xEF a \<and>
                       in_range (if byte a = 0xE0 then 0xA0 else 0x80) (if byte a = 0xED then 0x9F else 0xBF) b \<and>
                       in_range 0x80 0xBF c
                    then map_option Suc (utf8_runes s2)
                    else
                      (case s2 of
                         d # s3 \<Rightarrow>
                           if in_range 0xF0 0xF4 a \<and>
                              in_range (if byte a = 0xF0 then 0x90 else 0x80) (if byte a = 0xF4 then 0x8F else 0xBF) b \<and>
                              in_range 0x80 0xBF c \<and> in_range 0x80 0xBF d
                           then map_option Suc (utf8_runes s3) else None
                       | [] \<Rightarrow> None)
                | [] \<Rightarrow> None)
         | [] \<Rightarrow> None))"

section \<open>Decimal digits\<close>

definition is_digit :: "char \<Rightarrow> bool" where
  "is_digit c \<longleftrightarrow> in_range 48 57 c"

definition digits_value :: "string \<Rightarrow> nat" where
  "digits_value s = foldl (\<lambda>v c. v * 10 + (byte c - 48)) 0 s"

text \<open>The URL alphabet.\<close>

definition b64_url :: "string \<Rightarrow> string" where
  "b64_url s = map (\<lambda>c. if c = CHR ''+'' then CHR ''-'' else if c = CHR ''/'' then CHR ''_'' else c) (b64_encode s)"

text \<open>The lenient decoding of the URL alphabet ignores the bits that no byte uses.\<close>

fun b64_quanta_lax :: "nat list \<Rightarrow> string option" where
  "b64_quanta_lax [] = Some []"
| "b64_quanta_lax [a] = None"
| "b64_quanta_lax [a, b] = Some [char_of (a * 4 + b div 16)]"
| "b64_quanta_lax [a, b, c] = Some [char_of (a * 4 + b div 16), char_of (b mod 16 * 16 + c div 4)]"
| "b64_quanta_lax (a # b # c # d # rest) =
     map_option (\<lambda>s. char_of (a * 4 + b div 16) # char_of (b mod 16 * 16 + c div 4) # char_of (c mod 4 * 64 + d) # s)
       (b64_quanta_lax rest)"

definition b64_url_decode :: "string \<Rightarrow> string option" where
  "b64_url_decode s =
     (if CHR ''+'' \<in> set s \<or> CHR ''/'' \<in> set s then None
      else
        (case b64_indices (map (\<lambda>c. if c = CHR ''-'' then CHR ''+'' else if c = CHR ''_'' then CHR ''/'' else c) s) of
           None \<Rightarrow> None
         | Some ns \<Rightarrow> b64_quanta_lax ns))"

section \<open>Base64 round trip\<close>

lemma b64_chars:
  "\<forall>n < 64. b64_index (b64_char n) = Some n \<and>
     b64_char n \<notin> {CHR 0x0A, CHR 0x0D, CHR ''$'', CHR '',''}"
proof -
  have "list_all (\<lambda>n. b64_index (b64_char n) = Some n \<and>
     b64_char n \<noteq> CHR 0x0A \<and> b64_char n \<noteq> CHR 0x0D \<and> b64_char n \<noteq> CHR ''$'' \<and> b64_char n \<noteq> CHR '','') [0..<64]"
    by code_simp
  then show ?thesis by (auto simp: list_all_iff)
qed

lemma b64_indices_char: "n < 64 \<Longrightarrow> b64_indices (b64_char n # cs) = map_option ((#) n) (b64_indices cs)"
  using b64_chars by (auto split: option.splits)

lemma byte_less [simp]: "byte c < 256"
  by (rule nat_of_char_less_256)

lemma sextets:
  fixes x y z :: nat
  assumes "x < 256" "y < 256" "z < 256"
  shows "x div 4 < 64" "x mod 4 * 16 + y div 16 < 64" "y mod 16 * 4 + z div 64 < 64" "z mod 64 < 64"
    "x mod 4 * 16 < 64" "y mod 16 * 4 < 64"
    "x div 4 * 4 + (x mod 4 * 16 + y div 16) div 16 = x"
    "(x mod 4 * 16 + y div 16) mod 16 * 16 + (y mod 16 * 4 + z div 64) div 4 = y"
    "(y mod 16 * 4 + z div 64) mod 4 * 64 + z mod 64 = z" "y div 16 mod 16 = y div 16" "z div 64 mod 4 = z div 64"
proof -
  have q: "x div 4 < 64" "y div 16 < 16" "z div 64 < 4" using assms by (simp_all add: div_less_iff_less_mult)
  have r: "x mod 4 < 4" "y mod 16 < 16" "z mod 64 < 64" by simp_all
  show "x div 4 < 64" "x mod 4 * 16 + y div 16 < 64" "y mod 16 * 4 + z div 64 < 64" "z mod 64 < 64"
    "x mod 4 * 16 < 64" "y mod 16 * 4 < 64" using q r by linarith+
  have a: "(x mod 4 * 16 + y div 16) div 16 = x mod 4" "(x mod 4 * 16 + y div 16) mod 16 = y div 16"
    using q(2) by simp_all
  have b: "(y mod 16 * 4 + z div 64) div 4 = y mod 16" "(y mod 16 * 4 + z div 64) mod 4 = z div 64"
    using q(3) by simp_all
  show "x div 4 * 4 + (x mod 4 * 16 + y div 16) div 16 = x"
    "(x mod 4 * 16 + y div 16) mod 16 * 16 + (y mod 16 * 4 + z div 64) div 4 = y"
    "(y mod 16 * 4 + z div 64) mod 4 * 64 + z mod 64 = z"
    unfolding a b by simp_all
  show "y div 16 mod 16 = y div 16" "z div 64 mod 4 = z div 64" using q by simp_all
qed

lemma b64_decode_encode: "b64_decode (b64_encode s) = Some s"
proof -
  have "b64_indices (b64_encode s) \<noteq> None \<and> b64_quanta (the (b64_indices (b64_encode s))) = Some s"
  proof (induction s rule: b64_encode.induct)
    case (2 a)
    then show ?case
      using sextets [of "byte a" 0 0] by (simp add: b64_indices_char del: b64_indices.simps(2))
  next
    case (3 a b)
    then show ?case
      using sextets [of "byte a" "byte b" 0] by (simp add: b64_indices_char del: b64_indices.simps(2))
  next
    case (4 a b c rest)
    then obtain ns where "b64_indices (b64_encode rest) = Some ns" "b64_quanta ns = Some rest" by auto
    then show ?case
      using sextets [of "byte a" "byte b" "byte c"] by (simp add: b64_indices_char del: b64_indices.simps(2))
  qed simp
  then show ?thesis by (auto simp: b64_decode_def)
qed

lemma b64_char_in: "n < 64 \<Longrightarrow> b64_char n \<in> b64_char ` {..<64}"
  by simp

lemma b64_encode_chars: "set (b64_encode s) \<subseteq> b64_char ` {..<64}"
proof (induction s rule: b64_encode.induct)
  case (2 a)
  then show ?case using sextets [of "byte a" 0 0] by (simp add: b64_char_in del: image_eqI)
next
  case (3 a b)
  then show ?case using sextets [of "byte a" "byte b" 0] by (simp add: b64_char_in)
next
  case (4 a b c rest)
  then show ?case using sextets [of "byte a" "byte b" "byte c"] by (simp add: b64_char_in)
qed simp

lemma b64_encode_plain: "CHR ''$'' \<notin> set (b64_encode s)" "CHR '','' \<notin> set (b64_encode s)"
proof -
  have "c \<noteq> CHR ''$'' \<and> c \<noteq> CHR '',''" if c: "c \<in> set (b64_encode s)" for c
  proof -
    obtain n where "n < 64" "c = b64_char n" using c b64_encode_chars [of s] by auto
    then show ?thesis using b64_chars by auto
  qed
  then show "CHR ''$'' \<notin> set (b64_encode s)" "CHR '','' \<notin> set (b64_encode s)" by blast+
qed

lemma b64_encode_length: "length (b64_encode s) = EncodedLen (length s)"
proof (induction s rule: b64_encode.induct)
  case (4 a b c rest)
  have "length (a # b # c # rest) = 3 + length rest" by simp
  moreover have "(3 + n) div 3 = Suc (n div 3)" "(3 + n) mod 3 = n mod 3" for n :: nat by simp_all
  ultimately have "EncodedLen (length (a # b # c # rest)) = 4 + EncodedLen (length rest)"
    by (simp only: EncodedLen_def) simp
  then show ?case using 4 by simp
qed (simp_all add: EncodedLen_def)

lemma b64_quanta_lax: "b64_quanta ns = Some s \<Longrightarrow> b64_quanta_lax ns = Some s"
  by (induction ns arbitrary: s rule: b64_quanta.induct) (auto split: if_splits)

lemma b64_url_roundtrip: "b64_url_decode (b64_url s) = Some s"
proof -
  have safe: "c \<noteq> CHR ''-'' \<and> c \<noteq> CHR ''_''" if c: "c \<in> set (b64_encode s)" for c
  proof -
    have "list_all (\<lambda>n. b64_char n \<noteq> CHR ''-'' \<and> b64_char n \<noteq> CHR ''_'') [0..<64]" by code_simp
    then have "\<forall>n < 64. b64_char n \<noteq> CHR ''-'' \<and> b64_char n \<noteq> CHR ''_''" by (simp add: list_all_iff)
    moreover obtain n where "n < 64" "c = b64_char n" using c b64_encode_chars [of s] by auto
    ultimately show ?thesis by simp
  qed
  have "map (\<lambda>c. if c = CHR ''-'' then CHR ''+'' else if c = CHR ''_'' then CHR ''/'' else c) (b64_url s) = b64_encode s"
    unfolding b64_url_def map_map by (rule map_idI) (use safe in auto)
  moreover have "CHR ''+'' \<notin> set (b64_url s)" "CHR ''/'' \<notin> set (b64_url s)"
    by (auto simp: b64_url_def split: if_splits)
  ultimately show ?thesis
    using b64_decode_encode [of s] b64_quanta_lax
    by (auto simp: b64_url_decode_def b64_decode_def split: option.splits)
qed

section \<open>Decimal numbers\<close>

lemma dec_digits: "dec n \<noteq> [] \<and> list_all is_digit (dec n) \<and> digits_value (dec n) = n"
proof (induction n rule: dec.induct)
  case (1 n)
  have d: "is_digit (digit n)" "byte (digit n) - 48 = n mod 10"
    by (simp_all add: is_digit_def in_range_def of_char_digit less_Suc_eq_le [symmetric])
  show ?case
  proof (cases "n < 10")
    case True
    then show ?thesis using d by (simp add: dec.simps [of n] digits_value_def)
  next
    case False
    then show ?thesis using d 1 by (simp add: dec.simps [of n] digits_value_def)
  qed
qed

lemma dec_plain: "CHR ''$'' \<notin> set (dec n)" "CHR '','' \<notin> set (dec n)"
  using dec_digits [of n] by (auto simp: list_all_iff is_digit_def in_range_def)

lemma dec_length: "n < 10 ^ k \<Longrightarrow> 0 < k \<Longrightarrow> length (dec n) \<le> k"
proof (induction k arbitrary: n)
  case (Suc k)
  show ?case
  proof (cases "n < 10")
    case False
    then have "0 < k" using Suc.prems(1) by (cases k) auto
    moreover have "n div 10 < 10 ^ k" using Suc.prems(1) by (simp add: div_less_iff_less_mult mult.commute)
    ultimately show ?thesis using Suc.IH [of "n div 10"] False by (simp add: dec.simps [of n])
  qed (simp add: dec.simps [of n])
qed simp

section \<open>JSON documents\<close>

text \<open>A value of type \<open>any\<close> as \<open>json.Marshal\<close> renders it, with whole numbers only.\<close>

datatype json =
    JNull
  | JBool bool
  | JNum int
  | JStr string
  | JArr "json list"
  | JObj "(string \<times> json) list"

section \<open>Decimal integers\<close>

text \<open>\<open>strconv.Atoi\<close>: an optional sign and decimal digits within 64 bits.\<close>

definition atoi_digits :: "string \<Rightarrow> nat option" where
  "atoi_digits ds = (if ds \<noteq> [] \<and> list_all is_digit ds then Some (digits_value ds) else None)"

definition Atoi :: "string \<Rightarrow> int option" where
  "Atoi s =
     (case s of
        [] \<Rightarrow> None
      | c # r \<Rightarrow>
          if c = CHR ''-'' then
            (case atoi_digits r of Some n \<Rightarrow> if n \<le> 2 ^ 63 then Some (- int n) else None | None \<Rightarrow> None)
          else
            (case atoi_digits (if c = CHR ''+'' then r else s) of
               Some n \<Rightarrow> if n < 2 ^ 63 then Some (int n) else None
             | None \<Rightarrow> None))"

lemma Atoi_dec: "n < 2 ^ 63 \<Longrightarrow> Atoi (dec n) = Some (int n)"
  using dec_digits [of n] by (cases "dec n") (auto simp: Atoi_def atoi_digits_def is_digit_def in_range_def)

end
