(* ===== verification/Password_Hash.thy ===== *)
theory Password_Hash
  imports Login_Throttle Go_Codec "HOL-Library.Word"
begin

text \<open>
  The stored form of the password in internal/auth/service.go: validation of a new password,
  the encoded argon2id hash, its parser and its verification.  The argon2id function belongs
  to another module and is a parameter; \<open>None\<close> stands for its panic.
\<close>

section \<open>Passwords\<close>

definition PasswordMinimumLength :: nat where "PasswordMinimumLength = 12"
definition PasswordMaximumLength :: nat where "PasswordMaximumLength = 256"

text \<open>An invalid string has no rune count; a valid one has the count the library returns.\<close>

definition validateNewPassword :: "string \<Rightarrow> auth_error option" where
  "validateNewPassword password =
     (case utf8_runes password of
        None \<Rightarrow> Some ErrInvalidPassword
      | Some len \<Rightarrow>
          if len < PasswordMinimumLength \<or> len > PasswordMaximumLength then Some ErrInvalidPassword else None)"

record passwordHashParameters =
  ph_memory :: "32 word"
  ph_iterations :: "32 word"
  ph_parallelism :: "8 word"

record parsedPasswordHash =
  ph_parameters :: passwordHashParameters
  ph_salt :: string
  ph_hash :: string

definition argon2Memory :: "32 word" where "argon2Memory = 64 * 1024"
definition argon2Iterations :: "32 word" where "argon2Iterations = 3"
definition argon2Parallelism :: "8 word" where "argon2Parallelism = 2"
definition argon2SaltLength :: nat where "argon2SaltLength = 16"
definition argon2KeyLength :: "32 word" where "argon2KeyLength = 32"
definition argon2MinimumMemory :: "32 word" where "argon2MinimumMemory = 8 * 1024"
definition argon2MaximumMemory :: "32 word" where "argon2MaximumMemory = 128 * 1024"
definition argon2MinimumIterations :: "32 word" where "argon2MinimumIterations = 1"
definition argon2MaximumIterations :: "32 word" where "argon2MaximumIterations = 10"
definition argon2MinimumParallelism :: "8 word" where "argon2MinimumParallelism = 1"
definition argon2MaximumParallelism :: "8 word" where "argon2MaximumParallelism = 8"
definition argon2MinimumSaltLength :: nat where "argon2MinimumSaltLength = 16"
definition argon2MaximumSaltLength :: nat where "argon2MaximumSaltLength = 64"
definition argon2MinimumHashLength :: nat where "argon2MinimumHashLength = 16"
definition argon2MaximumHashLength :: nat where "argon2MaximumHashLength = 64"
definition maximumEncodedPasswordHashLength :: nat where "maximumEncodedPasswordHashLength = 256"

lemmas argon2_consts = argon2Memory_def argon2Iterations_def argon2Parallelism_def argon2SaltLength_def
  argon2KeyLength_def argon2MinimumMemory_def argon2MaximumMemory_def argon2MinimumIterations_def
  argon2MaximumIterations_def argon2MinimumParallelism_def argon2MaximumParallelism_def
  argon2MinimumSaltLength_def argon2MaximumSaltLength_def argon2MinimumHashLength_def
  argon2MaximumHashLength_def maximumEncodedPasswordHashLength_def

type_synonym argon2 = "string \<Rightarrow> string \<Rightarrow> 32 word \<Rightarrow> 32 word \<Rightarrow> 8 word \<Rightarrow> 32 word \<Rightarrow> string option"

text \<open>
  \<open>IDKey\<close> does not panic for the constants of the code, so a \<open>None\<close> here is the panic that
  leaves \<open>hashPassword\<close> without a result; the salt is what the random source returned.
\<close>

definition encode_hash :: "passwordHashParameters \<Rightarrow> string \<Rightarrow> string \<Rightarrow> string" where
  "encode_hash p salt hash =
     ''$stacklab$argon2id$v=19$m='' @ dec (unat (ph_memory p)) @ '',t='' @ dec (unat (ph_iterations p)) @
     '',p='' @ dec (unat (ph_parallelism p)) @ ''$'' @ b64_encode salt @ ''$'' @ b64_encode hash"

definition hashPassword :: "argon2 \<Rightarrow> string + string \<Rightarrow> string \<Rightarrow> (auth_error + string) option" where
  "hashPassword IDKey random password =
     (case validateNewPassword password of
        Some e \<Rightarrow> Some (Inl e)
      | None \<Rightarrow>
          (case random of
             Inl e \<Rightarrow> Some (Inl (ErrRandom e))
           | Inr salt \<Rightarrow>
               (case IDKey password salt argon2Iterations argon2Memory argon2Parallelism argon2KeyLength of
                  None \<Rightarrow> None
                | Some hash \<Rightarrow>
                    Some (Inr (encode_hash \<lparr>ph_memory = argon2Memory, ph_iterations = argon2Iterations,
                      ph_parallelism = argon2Parallelism\<rparr> salt hash)))))"

text \<open>\<open>strconv.ParseUint(digits, 10, bitSize)\<close> on a non-empty string of digits.\<close>

definition ParseUint :: "string \<Rightarrow> nat \<Rightarrow> nat option" where
  "ParseUint digits bitSize = (if digits_value digits < 2 ^ bitSize then Some (digits_value digits) else None)"

definition parsePasswordHashParameter :: "string \<Rightarrow> string \<Rightarrow> nat \<Rightarrow> nat option" where
  "parsePasswordHashParameter v pre bitSize =
     (if \<not> prefix pre v \<or> length v = length pre then None
      else
        (let digits = drop (length pre) v
         in if \<not> list_all is_digit digits then None else ParseUint digits bitSize))"

definition decodePasswordHashComponent :: "string \<Rightarrow> nat \<Rightarrow> nat \<Rightarrow> string option" where
  "decodePasswordHashComponent encoded minimumLength maximumLength =
     (if length encoded = 0 \<or> length encoded > EncodedLen maximumLength then None
      else
        (case b64_decode encoded of
           None \<Rightarrow> None
         | Some decoded \<Rightarrow>
             if length decoded < minimumLength \<or> length decoded > maximumLength \<or> b64_encode decoded \<noteq> encoded
             then None else Some decoded))"

definition parameters_ok :: "passwordHashParameters \<Rightarrow> bool" where
  "parameters_ok p \<longleftrightarrow>
     \<not> (ph_memory p < argon2MinimumMemory \<or> ph_memory p > argon2MaximumMemory \<or>
        ph_iterations p < argon2MinimumIterations \<or> ph_iterations p > argon2MaximumIterations \<or>
        ph_parallelism p < argon2MinimumParallelism \<or> ph_parallelism p > argon2MaximumParallelism)"

definition parsePasswordHash :: "string \<Rightarrow> parsedPasswordHash option" where
  "parsePasswordHash encodedHash =
     (if length encodedHash = 0 \<or> length encodedHash > maximumEncodedPasswordHashLength then None
      else
        (case go_split (CHR ''$'') encodedHash of
           [p0, p1, p2, p3, p4, p5, p6] \<Rightarrow>
             if p0 \<noteq> '''' \<or> p1 \<noteq> ''stacklab'' \<or> p2 \<noteq> ''argon2id'' \<or> p3 \<noteq> ''v=19'' then None
             else
               (case go_split (CHR '','') p4 of
                  [q0, q1, q2] \<Rightarrow>
                    (case (parsePasswordHashParameter q0 ''m='' 32, parsePasswordHashParameter q1 ''t='' 32,
                           parsePasswordHashParameter q2 ''p='' 8) of
                       (Some memory, Some iterations, Some parallelism) \<Rightarrow>
                         (let parameters = \<lparr>ph_memory = of_nat memory, ph_iterations = of_nat iterations,
                                            ph_parallelism = of_nat parallelism\<rparr>
                          in if \<not> parameters_ok parameters then None
                             else
                               (case (decodePasswordHashComponent p5 argon2MinimumSaltLength argon2MaximumSaltLength,
                                      decodePasswordHashComponent p6 argon2MinimumHashLength argon2MaximumHashLength) of
                                  (Some salt, Some expectedHash) \<Rightarrow>
                                    Some \<lparr>ph_parameters = parameters, ph_salt = salt, ph_hash = expectedHash\<rparr>
                                | _ \<Rightarrow> None))
                     | _ \<Rightarrow> None)
                | _ \<Rightarrow> None)
         | _ \<Rightarrow> None))"

text \<open>The recovered panic is an error like any other.\<close>

definition derivePasswordHash ::
  "argon2 \<Rightarrow> string \<Rightarrow> string \<Rightarrow> passwordHashParameters \<Rightarrow> 32 word \<Rightarrow> auth_error + string" where
  "derivePasswordHash IDKey password salt p keyLength =
     (case IDKey password salt (ph_iterations p) (ph_memory p) (ph_parallelism p) keyLength of
        None \<Rightarrow> Inl ErrInvalidCredentials
      | Some hash \<Rightarrow> Inr hash)"

definition verifyPassword :: "argon2 \<Rightarrow> string \<Rightarrow> string \<Rightarrow> auth_error option" where
  "verifyPassword IDKey encodedHash password =
     (case parsePasswordHash encodedHash of
        None \<Rightarrow> Some ErrInvalidCredentials
      | Some parsed \<Rightarrow>
          (case derivePasswordHash IDKey password (ph_salt parsed) (ph_parameters parsed) (of_nat (length (ph_hash parsed))) of
             Inl _ \<Rightarrow> Some ErrInvalidCredentials
           | Inr computed \<Rightarrow> if ph_hash parsed \<noteq> computed then Some ErrInvalidCredentials else None))"

text \<open>The session token: 32 random bytes in the URL alphabet.\<close>

definition randomToken :: "string + string \<Rightarrow> auth_error + string" where
  "randomToken random = (case random of Inl e \<Rightarrow> Inl (ErrRandom e) | Inr bs \<Rightarrow> Inr (b64_url bs))"

lemma parse_parameter:
  assumes "n < 2 ^ w"
  shows "parsePasswordHashParameter (pre @ dec n) pre w = Some n"
  using assms dec_digits [of n] by (simp add: parsePasswordHashParameter_def ParseUint_def)

section \<open>Parsing what was encoded\<close>

lemma decode_component:
  assumes "lo \<le> length s" "length s \<le> hi" "0 < lo" "hi \<le> 64"
  shows "decodePasswordHashComponent (b64_encode s) lo hi = Some s"
proof -
  have "length (b64_encode s) \<le> EncodedLen hi"
  proof -
    have mono: "EncodedLen m \<le> EncodedLen (Suc m)" for m
    proof (cases "m mod 3 = 2")
      case True
      then show ?thesis by (simp add: EncodedLen_def mod_Suc div_Suc)
    next
      case False
      then show ?thesis by (auto simp: EncodedLen_def mod_Suc div_Suc intro!: div_le_mono)
    qed
    show ?thesis unfolding b64_encode_length
      by (rule lift_Suc_mono_le [of EncodedLen, OF mono assms(2)])
  qed
  moreover have "b64_encode s \<noteq> []" using assms(1,3) by (cases s rule: b64_encode.cases) auto
  ultimately show ?thesis
    using assms(1,2) by (simp add: decodePasswordHashComponent_def b64_decode_encode)
qed

lemma encode_hash_split:
  "go_split (CHR ''$'') (encode_hash p salt hash) =
    ['''', ''stacklab'', ''argon2id'', ''v=19'',
     ''m='' @ dec (unat (ph_memory p)) @ '',t='' @ dec (unat (ph_iterations p)) @ '',p='' @ dec (unat (ph_parallelism p)),
     b64_encode salt, b64_encode hash]" (is "_ = [_, _, _, _, ?params, _, _]")
proof -
  have e: "encode_hash p salt hash = '''' @ CHR ''$'' # ''stacklab'' @ CHR ''$'' # ''argon2id'' @ CHR ''$'' #
      ''v=19'' @ CHR ''$'' # ?params @ CHR ''$'' # b64_encode salt @ CHR ''$'' # b64_encode hash"
    by (simp add: encode_hash_def)
  show ?thesis unfolding e
    by (subst go_split_append, simp add: dec_plain b64_encode_plain)+
       (simp add: go_split_plain b64_encode_plain)
qed

lemma params_split:
  "go_split (CHR '','') (''m='' @ dec a @ '',t='' @ dec b @ '',p='' @ dec c) = [''m='' @ dec a, ''t='' @ dec b, ''p='' @ dec c]"
proof -
  have e: "''m='' @ dec a @ '',t='' @ dec b @ '',p='' @ dec c =
      (''m='' @ dec a) @ CHR '','' # (''t='' @ dec b) @ CHR '','' # (''p='' @ dec c)"
    by simp
  show ?thesis unfolding e
    by (subst go_split_append, simp add: dec_plain)+ (subst go_split_plain, simp_all add: dec_plain)
qed


lemma parameters_bounds:
  assumes "parameters_ok p"
  shows "8192 \<le> unat (ph_memory p)" "unat (ph_memory p) \<le> 131072" "1 \<le> unat (ph_iterations p)"
    "unat (ph_iterations p) \<le> 10" "1 \<le> unat (ph_parallelism p)" "unat (ph_parallelism p) \<le> 8"
  using assms by (auto simp: parameters_ok_def argon2_consts word_less_nat_alt word_le_nat_alt not_less)

lemma encode_hash_length:
  assumes "parameters_ok p" "length salt \<le> 64" "length hash \<le> 64"
  shows "length (encode_hash p salt hash) \<le> maximumEncodedPasswordHashLength"
proof -
  note B = parameters_bounds [OF assms(1)]
  have d: "length (dec (unat (ph_memory p))) \<le> 6" "length (dec (unat (ph_iterations p))) \<le> 2"
    "length (dec (unat (ph_parallelism p))) \<le> 1"
    by (rule dec_length; use B in simp)+
  have e: "EncodedLen n \<le> 87" if "n \<le> 64" for n
  proof -
    have "n div 3 \<le> 21" using that by (simp add: div_le_mono [of n 64 3, simplified])
    moreover have "(n mod 3 * 8 + 5) div 6 \<le> 3" using mod_less_divisor [of 3 n] div_le_mono [of "n mod 3 * 8 + 5" 21 6] by simp
    ultimately show ?thesis by (simp add: EncodedLen_def)
  qed
  show ?thesis
    using d e [OF assms(2)] e [OF assms(3)]
    by (simp add: encode_hash_def b64_encode_length maximumEncodedPasswordHashLength_def)
qed

lemma parse_encode_hash:
  assumes "parameters_ok p" "16 \<le> length salt" "length salt \<le> 64" "16 \<le> length hash" "length hash \<le> 64"
  shows "parsePasswordHash (encode_hash p salt hash) = Some \<lparr>ph_parameters = p, ph_salt = salt, ph_hash = hash\<rparr>"
proof -
  have "encode_hash p salt hash \<noteq> []" by (simp add: encode_hash_def)
  moreover have len: "length (encode_hash p salt hash) \<le> maximumEncodedPasswordHashLength"
    by (rule encode_hash_length) (use assms in simp_all)
  moreover have q: "parsePasswordHashParameter (''m='' @ dec (unat (ph_memory p))) ''m='' 32 = Some (unat (ph_memory p))"
    "parsePasswordHashParameter (''t='' @ dec (unat (ph_iterations p))) ''t='' 32 = Some (unat (ph_iterations p))"
    "parsePasswordHashParameter (''p='' @ dec (unat (ph_parallelism p))) ''p='' 8 = Some (unat (ph_parallelism p))"
    using parameters_bounds [OF assms(1)] by (intro parse_parameter; simp)+
  moreover have "decodePasswordHashComponent (b64_encode salt) argon2MinimumSaltLength argon2MaximumSaltLength = Some salt"
    "decodePasswordHashComponent (b64_encode hash) argon2MinimumHashLength argon2MaximumHashLength = Some hash"
    using assms by (intro decode_component; simp add: argon2_consts)+
  ultimately show ?thesis
    using assms(1) by (simp add: parsePasswordHash_def encode_hash_split params_split Let_def parameters_ok_def del: append.simps)
qed

section \<open>Properties\<close>

text \<open>C13: A password hash written by \<open>hashPassword\<close> is accepted again: verification of a password
  against it succeeds exactly when argon2id derives the same key from it, so in particular for
  the password that was hashed.  The hypothesis on argon2id is its documented contract: the
  derived key has the requested length.\<close>

theorem password_hash_roundtrip:
  assumes "\<And>pw salt t m p k key. IDKey pw salt t m p k = Some key \<Longrightarrow> length key = unat k"
    and "length salt = argon2SaltLength"
    and "hashPassword IDKey (Inr salt) password = Some (Inr encoded)"
  shows "verifyPassword IDKey encoded password = None \<and>
    (verifyPassword IDKey encoded other = None \<longleftrightarrow>
      IDKey other salt argon2Iterations argon2Memory argon2Parallelism argon2KeyLength =
      IDKey password salt argon2Iterations argon2Memory argon2Parallelism argon2KeyLength)"
proof -
  let ?p = "\<lparr>ph_memory = argon2Memory, ph_iterations = argon2Iterations, ph_parallelism = argon2Parallelism\<rparr>"
  obtain hash where h: "IDKey password salt argon2Iterations argon2Memory argon2Parallelism argon2KeyLength = Some hash"
    "encoded = encode_hash ?p salt hash"
    using assms(3) by (auto simp: hashPassword_def split: option.splits)
  have len: "length hash = 32" using assms(1) [OF h(1)] by (simp add: argon2KeyLength_def)
  have "parameters_ok ?p" by (simp add: parameters_ok_def argon2_consts)
  then have parse: "parsePasswordHash encoded = Some \<lparr>ph_parameters = ?p, ph_salt = salt, ph_hash = hash\<rparr>"
    unfolding h(2) by (rule parse_encode_hash) (use len assms(2) in \<open>simp_all add: argon2SaltLength_def\<close>)
  have key: "of_nat (length hash) = argon2KeyLength" by (simp add: len argon2KeyLength_def)
  have "verifyPassword IDKey encoded pw = None \<longleftrightarrow>
      IDKey pw salt argon2Iterations argon2Memory argon2Parallelism argon2KeyLength = Some hash" for pw
    by (auto simp: verifyPassword_def parse derivePasswordHash_def key split: option.splits)
  then show ?thesis using h(1) by simp
qed

text \<open>A toy derivation with the length contract, for the concrete instance.\<close>

definition toy_argon2 :: argon2 where
  "toy_argon2 pw salt t m p k = Some (take (unat k) (pw @ replicate (unat k) CHR ''x''))"

lemma toy_argon2_length: "toy_argon2 pw salt t m p k = Some key \<Longrightarrow> length key = unat k"
  by (auto simp: toy_argon2_def)

definition example_password :: string where
  "example_password = ''correct horse battery''"

lemma example_hash:
  "\<exists>encoded. hashPassword toy_argon2 (Inr (replicate 16 CHR ''s'')) example_password = Some (Inr encoded)"
proof -
  have "utf8_runes example_password = Some 21" by code_simp
  then have "validateNewPassword example_password = None"
    by (simp add: validateNewPassword_def PasswordMinimumLength_def PasswordMaximumLength_def)
  then show ?thesis by (simp add: hashPassword_def toy_argon2_def)
qed

theorem password_hash_roundtrip_witness:
  "\<exists>encoded. hashPassword toy_argon2 (Inr (replicate 16 CHR ''s'')) example_password = Some (Inr encoded) \<and>
     verifyPassword toy_argon2 encoded example_password = None"
proof -
  obtain encoded where e: "hashPassword toy_argon2 (Inr (replicate 16 CHR ''s'')) example_password = Some (Inr encoded)"
    using example_hash by blast
  then show ?thesis
    using password_hash_roundtrip [where IDKey = toy_argon2, OF toy_argon2_length _ e]
    by (auto simp: argon2SaltLength_def)
qed



end
