(* ===== verification/Session_Hub.thy ===== *)
theory Session_Hub
  imports Go_Time "HOL-Library.Word"
begin

text \<open>
  The session lifecycle hub of internal/auth/session_lifecycle.go: the in-memory lease of every
  session that has a live transport, its expiry timer and the fan-out of terminations.

  Each subscriber holds a channel of capacity one.  A send to a full channel would block with
  the hub's mutex held, and a send to or a close of a closed channel panics; both are the
  value \<open>None\<close> here, so that a result \<open>Some\<close> says that neither happened.  Channels are
  addresses in a heap, because the hub and the transport share them.  A pending timer is
  \<open>Armed\<close> with the instant it is due; one that has fired has started a goroutine.
\<close>

section \<open>Data\<close>

datatype SessionTerminationReason = Term_Logout | Term_PasswordChanged | Term_Revoked
  | Term_IdleExpired | Term_AbsoluteExpired

record SessionTermination =
  term_session :: string
  term_all :: bool
  term_reason :: SessionTerminationReason

record AuthSession =
  as_id :: string
  as_user :: string
  as_created :: "time"
  as_last_seen :: "time"
  as_expires :: "time"

record chan =
  ch_buf :: "SessionTermination list"
  ch_closed :: bool
  ch_got :: "SessionTermination list"

datatype timer = NoTimer | Armed "time" | Fired

record trackedSession =
  idleDeadline :: "time"
  absoluteDeadline :: "time"
  lastPersistedAt :: "time"
  ts_timer :: timer
  subscribers :: "(64 word, nat) gomap"

record sessionActivityTouch =
  activityAt :: "time"
  expiresAt :: "time"
  expectedLastSeenAt :: "time"
  shouldPersist :: bool
  active :: bool

record hub =
  idleTimeout :: duration
  absoluteLifetime :: duration
  persistInterval :: duration
  nextSubscriberID :: "64 word"
  sessions :: "(string, trackedSession) gomap"
  closing :: bool
  expirationWG :: nat
  chans :: "nat \<Rightarrow> chan option"
  next_chan :: nat

definition minTime :: "time \<Rightarrow> time \<Rightarrow> time" where
  "minTime left right = (if left < right then left else right)"

lemma minTime_min [simp]: "minTime a b = min a b"
  by (simp add: minTime_def min_def)

definition sessionTouchInterval :: "duration \<Rightarrow> duration" where
  "sessionTouchInterval idle =
     (let interval = (if idle < 0 then - (- idle div 2) else idle div 2)
      in if interval \<le> 0 \<or> interval > Minute then Minute else interval)"

definition newSessionLifecycleHub :: "duration \<Rightarrow> duration \<Rightarrow> hub" where
  "newSessionLifecycleHub idle absolute =
     \<lparr>idleTimeout = idle, absoluteLifetime = absolute, persistInterval = sessionTouchInterval idle,
      nextSubscriberID = 0, sessions = [], closing = False, expirationWG = 0, chans = Map.empty, next_chan = 0\<rparr>"

section \<open>Channels\<close>

definition make_chan :: "chan \<Rightarrow> hub \<Rightarrow> nat \<times> hub" where
  "make_chan c h = (next_chan h, h\<lparr>chans := (chans h)(next_chan h \<mapsto> c), next_chan := next_chan h + 1\<rparr>)"

definition empty_chan :: chan where
  "empty_chan = \<lparr>ch_buf = [], ch_closed = False, ch_got = []\<rparr>"

definition send_close :: "SessionTermination \<Rightarrow> nat \<Rightarrow> (nat \<Rightarrow> chan option) \<Rightarrow> (nat \<Rightarrow> chan option) option" where
  "send_close t c cs =
     (case cs c of
        None \<Rightarrow> None
      | Some ch \<Rightarrow>
          if ch_closed ch \<or> ch_buf ch \<noteq> [] then None
          else Some (cs(c \<mapsto> ch\<lparr>ch_buf := [t], ch_closed := True\<rparr>)))"

definition only_close :: "nat \<Rightarrow> (nat \<Rightarrow> chan option) \<Rightarrow> (nat \<Rightarrow> chan option) option" where
  "only_close c cs =
     (case cs c of
        None \<Rightarrow> None
      | Some ch \<Rightarrow> if ch_closed ch then None else Some (cs(c \<mapsto> ch\<lparr>ch_closed := True\<rparr>)))"

fun each_chan :: "(nat \<Rightarrow> (nat \<Rightarrow> chan option) \<Rightarrow> (nat \<Rightarrow> chan option) option) \<Rightarrow> nat list \<Rightarrow>
    (nat \<Rightarrow> chan option) \<Rightarrow> (nat \<Rightarrow> chan option) option" where
  "each_chan f [] cs = Some cs"
| "each_chan f (c # rest) cs = (case f c cs of None \<Rightarrow> None | Some cs' \<Rightarrow> each_chan f rest cs')"

text \<open>The transport's receive.\<close>

definition receive :: "nat \<Rightarrow> hub \<Rightarrow> hub" where
  "receive c h =
     (case chans h c of
        Some ch \<Rightarrow>
          (case ch_buf ch of
             [] \<Rightarrow> h
           | t # rest \<Rightarrow> h\<lparr>chans := (chans h)(c \<mapsto> ch\<lparr>ch_buf := rest, ch_got := ch_got ch @ [t]\<rparr>)\<rparr>)
      | None \<Rightarrow> h)"

section \<open>Operations\<close>

definition expirationReason :: "trackedSession \<Rightarrow> time \<Rightarrow> SessionTerminationReason option" where
  "expirationReason s now =
     (if \<not> absoluteDeadline s > now then Some Term_AbsoluteExpired
      else if \<not> idleDeadline s > now then Some Term_IdleExpired
      else None)"

definition scheduled :: "trackedSession \<Rightarrow> time \<Rightarrow> trackedSession" where
  "scheduled tracked now =
     (let deadline = minTime (idleDeadline tracked) (absoluteDeadline tracked);
          delay = time_sub deadline now;
          delay' = (if delay < 0 then 0 else delay)
      in tracked\<lparr>ts_timer := Armed (now + delay')\<rparr>)"

definition scheduleLocked :: "string \<Rightarrow> trackedSession \<Rightarrow> time \<Rightarrow> hub \<Rightarrow> hub" where
  "scheduleLocked sessionID tracked now h =
     h\<lparr>sessions := mput sessionID (if closing h then tracked else scheduled tracked now) (sessions h)\<rparr>"

definition terminateLocked :: "string \<Rightarrow> SessionTerminationReason \<Rightarrow> hub \<Rightarrow> hub option" where
  "terminateLocked sessionID reason h =
     (case mget (sessions h) sessionID of
        None \<Rightarrow> Some h
      | Some tracked \<Rightarrow>
          (case each_chan (send_close \<lparr>term_session = sessionID, term_all = False, term_reason = reason\<rparr>)
                  (map snd (subscribers tracked)) (chans h) of
             None \<Rightarrow> None
           | Some cs \<Rightarrow> Some (h\<lparr>sessions := mdel sessionID (sessions h), chans := cs\<rparr>)))"

definition Subscribe :: "AuthSession \<Rightarrow> time \<Rightarrow> hub \<Rightarrow> (nat \<times> 64 word option) \<times> hub" where
  "Subscribe session now h =
     (if closing h then
        (let (c, h1) = make_chan (empty_chan\<lparr>ch_closed := True\<rparr>) h in ((c, None), h1))
      else
        (let absoluteDl = as_created session + absoluteLifetime h;
             idleDl = minTime (as_expires session) absoluteDl;
             persisted = (if time_is_zero (as_last_seen session) then now else as_last_seen session)
         in if \<not> idleDl > now then
              (let reason = (if \<not> absoluteDl > now then Term_AbsoluteExpired else Term_IdleExpired);
                   t = \<lparr>term_session = as_id session, term_all = False, term_reason = reason\<rparr>;
                   (c, h1) = make_chan (empty_chan\<lparr>ch_buf := [t], ch_closed := True\<rparr>) h
               in ((c, None), h1))
            else
              (let tracked = (case mget (sessions h) (as_id session) of
                     None \<Rightarrow> \<lparr>idleDeadline = idleDl, absoluteDeadline = absoluteDl, lastPersistedAt = persisted,
                              ts_timer = NoTimer, subscribers = []\<rparr>
                   | Some tr \<Rightarrow>
                       tr\<lparr>idleDeadline := (if idleDl > idleDeadline tr then idleDl else idleDeadline tr),
                          lastPersistedAt := (if persisted > lastPersistedAt tr then persisted else lastPersistedAt tr)\<rparr>);
                   subscriberID = nextSubscriberID h + 1;
                   (c, h1) = make_chan empty_chan (h\<lparr>nextSubscriberID := subscriberID\<rparr>);
                   tracked' = tracked\<lparr>subscribers := mput subscriberID c (subscribers tracked)\<rparr>
               in ((c, Some subscriberID), scheduleLocked (as_id session) tracked' now h1))))"

definition no_touch :: sessionActivityTouch where
  "no_touch = \<lparr>activityAt = 0, expiresAt = 0, expectedLastSeenAt = 0, shouldPersist = False, active = False\<rparr>"

text \<open>The second component is the reason passed to \<open>onExpired\<close> when the lease had run out.\<close>

definition Touch :: "string \<Rightarrow> time \<Rightarrow> hub \<Rightarrow> (sessionActivityTouch \<times> SessionTerminationReason option \<times> hub) option" where
  "Touch sessionID now h =
     (case mget (sessions h) sessionID of
        None \<Rightarrow> Some (no_touch, None, h)
      | Some tracked \<Rightarrow>
          if closing h then Some (no_touch, None, h)
          else
            (case expirationReason tracked now of
               Some reason \<Rightarrow>
                 (case terminateLocked sessionID reason h of
                    None \<Rightarrow> None
                  | Some h1 \<Rightarrow> Some (no_touch, Some reason, h1))
             | None \<Rightarrow>
                 (let tracked1 = tracked\<lparr>idleDeadline := minTime (now + idleTimeout h) (absoluteDeadline tracked)\<rparr>;
                      persist = time_sub now (lastPersistedAt tracked1) \<ge> persistInterval h
                  in Some (\<lparr>activityAt = now, expiresAt = idleDeadline tracked1,
                            expectedLastSeenAt = lastPersistedAt tracked1, shouldPersist = persist, active = True\<rparr>,
                           None, scheduleLocked sessionID tracked1 now h))))"

definition TouchLease :: "string \<Rightarrow> time \<Rightarrow> time \<Rightarrow> hub \<Rightarrow> hub" where
  "TouchLease sessionID expires now h =
     (case mget (sessions h) sessionID of
        None \<Rightarrow> h
      | Some tracked \<Rightarrow>
          if closing h then h
          else
            (let deadline = minTime expires (absoluteDeadline tracked);
                 tracked1 = (if deadline > idleDeadline tracked then tracked\<lparr>idleDeadline := deadline\<rparr> else tracked)
             in scheduleLocked sessionID tracked1 now h))"

definition TouchPersisted :: "string \<Rightarrow> time \<Rightarrow> time \<Rightarrow> time \<Rightarrow> hub \<Rightarrow> hub" where
  "TouchPersisted sessionID lastSeen expires now h =
     (case mget (sessions h) sessionID of
        None \<Rightarrow> h
      | Some tracked \<Rightarrow>
          if closing h then h
          else
            (let deadline = minTime expires (absoluteDeadline tracked);
                 tracked1 = (if deadline > idleDeadline tracked then tracked\<lparr>idleDeadline := deadline\<rparr> else tracked);
                 tracked2 = (if lastSeen > lastPersistedAt tracked1 then tracked1\<lparr>lastPersistedAt := lastSeen\<rparr> else tracked1)
             in scheduleLocked sessionID tracked2 now h))"

definition Terminate :: "string \<Rightarrow> SessionTerminationReason \<Rightarrow> hub \<Rightarrow> hub option" where
  "Terminate sessionID reason h = terminateLocked sessionID reason h"

fun terminate_each :: "SessionTerminationReason \<Rightarrow> string list \<Rightarrow> hub \<Rightarrow> hub option" where
  "terminate_each reason [] h = Some h"
| "terminate_each reason (sid # sids) h =
     (case terminateLocked sid reason h of None \<Rightarrow> None | Some h1 \<Rightarrow> terminate_each reason sids h1)"

definition TerminateAll :: "SessionTerminationReason \<Rightarrow> hub \<Rightarrow> hub option" where
  "TerminateAll reason h = terminate_each reason (mkeys (sessions h)) h"

definition unsubscribe :: "string \<Rightarrow> 64 word \<Rightarrow> hub \<Rightarrow> hub" where
  "unsubscribe sessionID subscriberID h =
     (case mget (sessions h) sessionID of
        None \<Rightarrow> h
      | Some tracked \<Rightarrow>
          (let subs = mdel subscriberID (subscribers tracked)
           in if subs = [] then h\<lparr>sessions := mdel sessionID (sessions h)\<rparr>
              else h\<lparr>sessions := mput sessionID (tracked\<lparr>subscribers := subs\<rparr>) (sessions h)\<rparr>))"

text \<open>The first half of \<open>runExpiration\<close>: whether the callback goes on, counted in the wait group.\<close>

definition runExpiration_enter :: "hub \<Rightarrow> bool \<times> hub" where
  "runExpiration_enter h = (if closing h then (False, h) else (True, h\<lparr>expirationWG := expirationWG h + 1\<rparr>))"

definition runExpiration_leave :: "hub \<Rightarrow> hub" where
  "runExpiration_leave h = h\<lparr>expirationWG := expirationWG h - 1\<rparr>"

definition expire :: "string \<Rightarrow> time \<Rightarrow> hub \<Rightarrow> (SessionTerminationReason option \<times> hub) option" where
  "expire sessionID now h =
     (case mget (sessions h) sessionID of
        None \<Rightarrow> Some (None, h)
      | Some tracked \<Rightarrow>
          (case expirationReason tracked now of
             None \<Rightarrow> Some (None, scheduleLocked sessionID tracked now h)
           | Some reason \<Rightarrow>
               (case terminateLocked sessionID reason h of
                  None \<Rightarrow> None
                | Some h1 \<Rightarrow> Some (Some reason, h1))))"

text \<open>The part of \<open>Shutdown\<close> under the mutex; afterwards it waits for the wait group or its context.\<close>

definition Shutdown_close :: "hub \<Rightarrow> hub option" where
  "Shutdown_close h =
     (if closing h then Some h
      else (case each_chan only_close (concat (map (\<lambda>(_, tracked). map snd (subscribers tracked)) (sessions h))) (chans h) of
              None \<Rightarrow> None
            | Some cs \<Rightarrow> Some (h\<lparr>closing := True, sessions := [], chans := cs\<rparr>)))"

datatype shutdown_result = Shutdown_ok | Shutdown_ctx string

text \<open>The ready cases of the final \<open>select\<close>; none is ready while an expiry still runs and the
  context is alive, and either may be chosen when both are.\<close>

definition Shutdown_results :: "string option \<Rightarrow> hub \<Rightarrow> shutdown_result list" where
  "Shutdown_results ctxErr h =
     (if expirationWG h = 0 then [Shutdown_ok] else []) @
     (case ctxErr of Some e \<Rightarrow> [Shutdown_ctx e] | None \<Rightarrow> [])"

section \<open>The invariant\<close>

definition refers :: "hub \<Rightarrow> string \<Rightarrow> 64 word \<Rightarrow> nat \<Rightarrow> bool" where
  "refers h sid sub c \<longleftrightarrow> (\<exists>t. mget (sessions h) sid = Some t \<and> mget (subscribers t) sub = Some c)"

definition tracked_ok :: "trackedSession \<Rightarrow> bool" where
  "tracked_ok t \<longleftrightarrow> map_ok (subscribers t) \<and> subscribers t \<noteq> [] \<and> ts_timer t \<noteq> NoTimer"

text \<open>A channel carries at most one termination in its life, and only once closed.\<close>

definition chan_ok :: "chan \<Rightarrow> bool" where
  "chan_ok ch \<longleftrightarrow> length (ch_got ch @ ch_buf ch) \<le> 1 \<and> (\<not> ch_closed ch \<longrightarrow> ch_got ch = [] \<and> ch_buf ch = [])"

definition hub_inv :: "hub \<Rightarrow> bool" where
  "hub_inv h \<longleftrightarrow>
     map_ok (sessions h) \<and>
     (\<forall>sid t. mget (sessions h) sid = Some t \<longrightarrow> tracked_ok t) \<and>
     (\<forall>sid sub c. refers h sid sub c \<longrightarrow> (\<exists>ch. chans h c = Some ch \<and> \<not> ch_closed ch)) \<and>
     (\<forall>sid sub sid' sub' c. refers h sid sub c \<longrightarrow> refers h sid' sub' c \<longrightarrow> sid = sid' \<and> sub = sub') \<and>
     (\<forall>c ch. chans h c = Some ch \<longrightarrow> chan_ok ch \<and> c < next_chan h) \<and>
     (closing h \<longrightarrow> sessions h = [])"

lemma hub_invI:
  assumes "map_ok (sessions h)" "\<And>sid t. mget (sessions h) sid = Some t \<Longrightarrow> tracked_ok t"
    "\<And>sid sub c. refers h sid sub c \<Longrightarrow> \<exists>ch. chans h c = Some ch \<and> \<not> ch_closed ch"
    "\<And>sid sub sid' sub' c. refers h sid sub c \<Longrightarrow> refers h sid' sub' c \<Longrightarrow> sid = sid' \<and> sub = sub'"
    "\<And>c ch. chans h c = Some ch \<Longrightarrow> chan_ok ch \<and> c < next_chan h" "closing h \<Longrightarrow> sessions h = []"
  shows "hub_inv h"
  using assms unfolding hub_inv_def by blast

lemma hub_invD:
  assumes "hub_inv h"
  shows "map_ok (sessions h)" "mget (sessions h) sid = Some t \<Longrightarrow> tracked_ok t"
    "refers h sid sub c \<Longrightarrow> \<exists>ch. chans h c = Some ch \<and> \<not> ch_closed ch"
    "refers h sid sub c \<Longrightarrow> refers h sid' sub' c \<Longrightarrow> sid = sid' \<and> sub = sub'"
    "chans h c = Some ch \<Longrightarrow> chan_ok ch \<and> c < next_chan h" "closing h \<Longrightarrow> sessions h = []"
  using assms unfolding hub_inv_def by blast+

lemma refers_put:
  "refers (h\<lparr>sessions := mput sid t (sessions h)\<rparr>) s sub c \<longleftrightarrow>
     (if s = sid then mget (subscribers t) sub = Some c else refers h s sub c)"
  by (auto simp: refers_def mget_put)

lemma refers_del:
  "refers (h\<lparr>sessions := mdel sid (sessions h)\<rparr>) s sub c \<longleftrightarrow> s \<noteq> sid \<and> refers h s sub c"
  by (auto simp: refers_def mget_del)

text \<open>Sharing of the update patterns: shrink a session's subscribers, or drop a session.\<close>

lemma hub_inv_replace:
  assumes I: "hub_inv h" and t: "mget (sessions h) sid = Some t" and ok: "tracked_ok t'"
    and sub: "\<And>s c. mget (subscribers t') s = Some c \<Longrightarrow> mget (subscribers t) s = Some c"
  shows "hub_inv (h\<lparr>sessions := mput sid t' (sessions h)\<rparr>)"
proof (rule hub_invI)
  have old: "refers h s sub c" if "refers (h\<lparr>sessions := mput sid t' (sessions h)\<rparr>) s sub c" for s sub c
    using that t sub unfolding refers_put by (auto simp: refers_def split: if_splits)
  show "map_ok (sessions (h\<lparr>sessions := mput sid t' (sessions h)\<rparr>))" using hub_invD(1) [OF I] by (simp add: map_ok_put)
  show "\<And>s u. mget (sessions (h\<lparr>sessions := mput sid t' (sessions h)\<rparr>)) s = Some u \<Longrightarrow> tracked_ok u"
    using hub_invD(2) [OF I] ok by (auto simp: mget_put split: if_splits)
  show "\<And>s sub c. refers (h\<lparr>sessions := mput sid t' (sessions h)\<rparr>) s sub c \<Longrightarrow>
      \<exists>ch. chans (h\<lparr>sessions := mput sid t' (sessions h)\<rparr>) c = Some ch \<and> \<not> ch_closed ch"
    using hub_invD(3) [OF I] old by (metis hub.select_convs(8) hub.surjective hub.update_convs(5))
  show "\<And>s sub s' sub' c. refers (h\<lparr>sessions := mput sid t' (sessions h)\<rparr>) s sub c \<Longrightarrow>
      refers (h\<lparr>sessions := mput sid t' (sessions h)\<rparr>) s' sub' c \<Longrightarrow> s = s' \<and> sub = sub'"
    using hub_invD(4) [OF I] old by blast
  show "\<And>c ch. chans (h\<lparr>sessions := mput sid t' (sessions h)\<rparr>) c = Some ch \<Longrightarrow>
      chan_ok ch \<and> c < next_chan (h\<lparr>sessions := mput sid t' (sessions h)\<rparr>)"
    using hub_invD(5) [OF I] by simp
  show "closing (h\<lparr>sessions := mput sid t' (sessions h)\<rparr>) \<Longrightarrow> sessions (h\<lparr>sessions := mput sid t' (sessions h)\<rparr>) = []"
    using hub_invD(6) [OF I] t by auto
qed

lemma hub_inv_shrink:
  assumes I: "hub_inv h" and dead: "\<And>s sub c. refers h' s sub c \<Longrightarrow> refers h s sub c \<and> chans h' c = chans h c"
    and ok: "map_ok (sessions h')" "\<And>s u. mget (sessions h') s = Some u \<Longrightarrow> mget (sessions h) s = Some u"
    and cs: "\<And>c ch. chans h' c = Some ch \<Longrightarrow> chan_ok ch \<and> c < next_chan h'"
    and cl: "closing h' \<Longrightarrow> sessions h' = []"
  shows "hub_inv h'"
proof (rule hub_invI)
  show "\<And>sid t. mget (sessions h') sid = Some t \<Longrightarrow> tracked_ok t" using hub_invD(2) [OF I] ok(2) by blast
  show "\<And>s sub c. refers h' s sub c \<Longrightarrow> \<exists>ch. chans h' c = Some ch \<and> \<not> ch_closed ch"
    using hub_invD(3) [OF I] dead by metis
  show "\<And>s sub s' sub' c. refers h' s sub c \<Longrightarrow> refers h' s' sub' c \<Longrightarrow> s = s' \<and> sub = sub'"
    using hub_invD(4) [OF I] dead by blast
qed (use ok(1) cs cl in blast)+

section \<open>Fan-out over channels\<close>

lemma each_chan_spec:
  assumes f: "\<And>c m ch. m c = Some ch \<Longrightarrow> P ch \<Longrightarrow> f c m = Some (m(c \<mapsto> g ch))"
  shows "distinct cs \<Longrightarrow> (\<And>c. c \<in> set cs \<Longrightarrow> \<exists>ch. m c = Some ch \<and> P ch) \<Longrightarrow>
    each_chan f cs m = Some (\<lambda>c. if c \<in> set cs then map_option g (m c) else m c)"
proof (induction cs arbitrary: m)
  case (Cons c cs)
  obtain ch where ch: "m c = Some ch" "P ch" using Cons.prems(2) [of c] by auto
  have "each_chan f cs (m(c \<mapsto> g ch)) = Some (\<lambda>d. if d \<in> set cs then map_option g ((m(c \<mapsto> g ch)) d) else (m(c \<mapsto> g ch)) d)"
    using Cons.prems by (intro Cons.IH) auto
  moreover have "(\<lambda>d. if d \<in> set cs then map_option g ((m(c \<mapsto> g ch)) d) else (m(c \<mapsto> g ch)) d) =
      (\<lambda>d. if d \<in> set (c # cs) then map_option g (m d) else m d)"
    using Cons.prems(1) ch(1) by (auto simp: fun_eq_iff)
  ultimately show ?case using f [of m c ch] ch by simp
qed simp

lemma send_close_ok:
  "m c = Some ch \<Longrightarrow> \<not> ch_closed ch \<and> ch_buf ch = [] \<Longrightarrow>
    send_close t c m = Some (m(c \<mapsto> ch\<lparr>ch_buf := [t], ch_closed := True\<rparr>))"
  by (simp add: send_close_def)

lemma only_close_ok:
  "m c = Some ch \<Longrightarrow> \<not> ch_closed ch \<Longrightarrow> only_close c m = Some (m(c \<mapsto> ch\<lparr>ch_closed := True\<rparr>))"
  by (simp add: only_close_def)

text \<open>The channels of one session are distinct, open and empty.\<close>

lemma subscriber_chans:
  assumes I: "hub_inv h" and t: "mget (sessions h) sid = Some t"
  shows "distinct (map snd (subscribers t))"
    "c \<in> set (map snd (subscribers t)) \<longleftrightarrow> (\<exists>sub. refers h sid sub c)"
    "c \<in> set (map snd (subscribers t)) \<Longrightarrow> \<exists>ch. chans h c = Some ch \<and> \<not> ch_closed ch \<and> ch_buf ch = [] \<and> ch_got ch = []"
proof -
  have ok: "map_ok (subscribers t)" using hub_invD(2) [OF I t] by (simp add: tracked_ok_def)
  show ref: "c \<in> set (map snd (subscribers t)) \<longleftrightarrow> (\<exists>sub. refers h sid sub c)" for c
    using t map_ok_entry [OF ok] by (force simp: refers_def)
  have "inj_on snd (set (subscribers t))"
  proof (rule inj_onI)
    fix x y assume xy: "x \<in> set (subscribers t)" "y \<in> set (subscribers t)" "snd x = snd y"
    have "refers h sid (fst x) (snd x)" "refers h sid (fst y) (snd y)"
      using xy t map_ok_entry [OF ok] unfolding refers_def by (metis prod.collapse)+
    then show "x = y" using hub_invD(4) [OF I] xy(3) by (metis prod_eqI)
  qed
  moreover have "distinct (subscribers t)" using ok by (simp add: map_ok_def distinct_map)
  ultimately show "distinct (map snd (subscribers t))" by (simp add: distinct_map)
  show "\<exists>ch. chans h c = Some ch \<and> \<not> ch_closed ch \<and> ch_buf ch = [] \<and> ch_got ch = []"
    if "c \<in> set (map snd (subscribers t))"
    using that hub_invD(3,5) [OF I] unfolding ref chan_ok_def by blast
qed

text \<open>Termination neither blocks nor panics; it removes the session and delivers once.\<close>

lemma terminateLocked_spec:
  assumes I: "hub_inv h" and t: "mget (sessions h) sid = Some t"
  shows "terminateLocked sid reason h = Some (h\<lparr>sessions := mdel sid (sessions h),
      chans := (\<lambda>c. if c \<in> set (map snd (subscribers t))
                    then Some \<lparr>ch_buf = [\<lparr>term_session = sid, term_all = False, term_reason = reason\<rparr>], ch_closed = True, ch_got = []\<rparr>
                    else chans h c)\<rparr>)"
proof -
  let ?t = "\<lparr>term_session = sid, term_all = False, term_reason = reason\<rparr>"
  note S = subscriber_chans [OF I t]
  have "each_chan (send_close ?t) (map snd (subscribers t)) (chans h) =
      Some (\<lambda>c. if c \<in> set (map snd (subscribers t)) then map_option (\<lambda>ch. ch\<lparr>ch_buf := [?t], ch_closed := True\<rparr>) (chans h c) else chans h c)"
    by (rule each_chan_spec [where P = "\<lambda>ch. \<not> ch_closed ch \<and> ch_buf ch = []", OF send_close_ok S(1)]) (use S(3) in blast)+
  moreover have "(\<lambda>c. if c \<in> set (map snd (subscribers t)) then map_option (\<lambda>ch. ch\<lparr>ch_buf := [?t], ch_closed := True\<rparr>) (chans h c) else chans h c) =
      (\<lambda>c. if c \<in> set (map snd (subscribers t)) then Some \<lparr>ch_buf = [?t], ch_closed = True, ch_got = []\<rparr> else chans h c)"
  proof
    fix c
    show "(if c \<in> set (map snd (subscribers t)) then map_option (\<lambda>ch. ch\<lparr>ch_buf := [?t], ch_closed := True\<rparr>) (chans h c) else chans h c) =
      (if c \<in> set (map snd (subscribers t)) then Some \<lparr>ch_buf = [?t], ch_closed = True, ch_got = []\<rparr> else chans h c)"
      using S(3) [of c] by (cases "c \<in> set (map snd (subscribers t))") auto
  qed
  ultimately show ?thesis by (simp add: terminateLocked_def t)
qed

section \<open>Every operation keeps the invariant\<close>

lemma terminateLocked_inv:
  assumes I: "hub_inv h"
  obtains h' where "terminateLocked sid reason h = Some h'" "hub_inv h'" "mget (sessions h') sid = None"
    "sessions h' = mdel sid (sessions h)" "expirationWG h' = expirationWG h" "closing h' = closing h"
proof (cases "mget (sessions h) sid")
  case None
  then have "mdel sid (sessions h) = sessions h" by (simp add: delete_id map_of_eq_None_iff)
  then show ?thesis using that [of h] I None by (simp add: terminateLocked_def)
next
  case (Some t)
  let ?cs = "\<lambda>c. if c \<in> set (map snd (subscribers t))
     then Some \<lparr>ch_buf = [\<lparr>term_session = sid, term_all = False, term_reason = reason\<rparr>], ch_closed = True, ch_got = []\<rparr>
     else chans h c"
  let ?h = "h\<lparr>sessions := mdel sid (sessions h), chans := ?cs\<rparr>"
  have ref: "refers ?h s sub c \<Longrightarrow> refers h s sub c \<and> s \<noteq> sid" for s sub c
    by (auto simp: refers_def mget_del split: if_splits)
  have "hub_inv ?h"
  proof (rule hub_inv_shrink [OF I])
    show "refers h s sub c \<and> chans ?h c = chans h c" if "refers ?h s sub c" for s sub c
    proof -
      have "c \<notin> set (map snd (subscribers t))"
        using ref [OF that] hub_invD(4) [OF I] subscriber_chans(2) [OF I Some] by metis
      then show ?thesis using ref [OF that] by auto
    qed
    show "mget (sessions ?h) s = Some u \<Longrightarrow> mget (sessions h) s = Some u" for s u
      by (simp add: mget_del split: if_splits)
    show "chan_ok ch \<and> c < next_chan ?h" if "chans ?h c = Some ch" for c ch
    proof (cases "c \<in> set (map snd (subscribers t))")
      case True
      then show ?thesis using that hub_invD(5) [OF I] subscriber_chans(3) [OF I Some]
        by (fastforce simp: chan_ok_def)
    next
      case False
      then show ?thesis using that hub_invD(5) [OF I] by simp
    qed
  qed (use hub_invD(1,6) [OF I] in \<open>auto simp: map_ok_del\<close>)
  then show ?thesis
    using that [of ?h] terminateLocked_spec [OF I Some] by (simp add: mget_del)
qed

lemma scheduled_simps [simp]:
  "subscribers (scheduled t now) = subscribers t" "idleDeadline (scheduled t now) = idleDeadline t"
  "absoluteDeadline (scheduled t now) = absoluteDeadline t" "ts_timer (scheduled t now) \<noteq> NoTimer"
  "lastPersistedAt (scheduled t now) = lastPersistedAt t"
  by (simp_all add: scheduled_def Let_def)

lemma scheduleLocked_inv:
  assumes "hub_inv h" "mget (sessions h) sid = Some t" "subscribers t' = subscribers t" "\<not> closing h"
  shows "hub_inv (scheduleLocked sid t' now h)"
  unfolding scheduleLocked_def
  by (rule hub_inv_replace [OF assms(1,2)])
     (use assms(3,4) hub_invD(2) [OF assms(1,2)] in \<open>simp_all add: tracked_ok_def\<close>)

lemma closing_no_session: "hub_inv h \<Longrightarrow> mget (sessions h) sid = Some t \<Longrightarrow> \<not> closing h"
  using hub_invD(6) [of h] by auto

lemma Touch_inv:
  assumes I: "hub_inv h"
  obtains r e h' where "Touch sid now h = Some (r, e, h')" "hub_inv h'"
proof (cases "mget (sessions h) sid")
  case None
  then show ?thesis using that I by (simp add: Touch_def)
next
  case (Some t)
  have nc: "\<not> closing h" by (rule closing_no_session [OF I Some])
  show ?thesis
  proof (cases "expirationReason t now")
    case None
    have "hub_inv (scheduleLocked sid (t\<lparr>idleDeadline := min (now + idleTimeout h) (absoluteDeadline t)\<rparr>) now h)"
      by (rule scheduleLocked_inv [OF I Some _ nc]) simp
    then show ?thesis using that Some None nc by (simp add: Touch_def Let_def)
  next
    case (Some reason)
    obtain h' where "terminateLocked sid reason h = Some h'" "hub_inv h'" using terminateLocked_inv [OF I] .
    then show ?thesis using that \<open>mget (sessions h) sid = Some t\<close> Some nc by (simp add: Touch_def)
  qed
qed

lemma TouchLease_inv: "hub_inv h \<Longrightarrow> hub_inv (TouchLease sid expires now h)"
  by (auto simp: TouchLease_def Let_def split: option.splits intro!: scheduleLocked_inv)

lemma TouchPersisted_inv: "hub_inv h \<Longrightarrow> hub_inv (TouchPersisted sid lastSeen expires now h)"
  by (auto simp: TouchPersisted_def Let_def split: option.splits intro!: scheduleLocked_inv)

lemma unsubscribe_inv:
  assumes I: "hub_inv h"
  shows "hub_inv (unsubscribe sid sub h)"
proof (cases "mget (sessions h) sid")
  case (Some t)
  note T = hub_invD(2) [OF I Some]
  show ?thesis
  proof (cases "mdel sub (subscribers t) = []")
    case True
    have "hub_inv (h\<lparr>sessions := mdel sid (sessions h)\<rparr>)"
      by (rule hub_inv_shrink [OF I])
         (use hub_invD(1,5,6) [OF I] in \<open>auto simp: refers_del map_ok_del mget_del split: if_splits\<close>)
    then show ?thesis using Some True by (simp add: unsubscribe_def)
  next
    case False
    have "hub_inv (h\<lparr>sessions := mput sid (t\<lparr>subscribers := mdel sub (subscribers t)\<rparr>) (sessions h)\<rparr>)"
      by (rule hub_inv_replace [OF I Some])
         (use T False in \<open>auto simp: tracked_ok_def map_ok_del mget_del split: if_splits\<close>)
    then show ?thesis using Some False by (simp add: unsubscribe_def)
  qed
qed (simp add: unsubscribe_def I)

lemma expire_inv:
  assumes I: "hub_inv h"
  obtains e h' where "expire sid now h = Some (e, h')" "hub_inv h'" "expirationWG h' = expirationWG h"
proof (cases "mget (sessions h) sid")
  case None
  then show ?thesis using that I by (simp add: expire_def)
next
  case (Some t)
  have nc: "\<not> closing h" by (rule closing_no_session [OF I Some])
  show ?thesis
  proof (cases "expirationReason t now")
    case None
    have "hub_inv (scheduleLocked sid t now h)"
      by (rule scheduleLocked_inv [OF I Some refl nc])
    then show ?thesis using that Some None by (simp add: expire_def scheduleLocked_def)
  next
    case (Some reason)
    obtain h' where "terminateLocked sid reason h = Some h'" "hub_inv h'" "expirationWG h' = expirationWG h"
      using terminateLocked_inv [OF I] .
    then show ?thesis using that \<open>mget (sessions h) sid = Some t\<close> Some by (simp add: expire_def)
  qed
qed

lemma terminate_each_inv:
  assumes "hub_inv h"
  shows "\<exists>h'. terminate_each reason sids h = Some h' \<and> hub_inv h' \<and>
    sessions h' = fold mdel sids (sessions h)"
  using assms
proof (induction sids arbitrary: h)
  case (Cons sid sids)
  obtain h1 where h1: "terminateLocked sid reason h = Some h1" "hub_inv h1" "sessions h1 = mdel sid (sessions h)"
    using terminateLocked_inv [OF Cons.prems] by metis
  then show ?case using Cons.IH [OF h1(2)] by simp
qed simp

lemma fold_mdel_keys: "fold mdel ks m = filter (\<lambda>(k, _). k \<notin> set ks) m"
  by (induction ks arbitrary: m) (auto simp: AList.delete_eq filter_filter intro!: filter_cong)

lemma TerminateAll_inv:
  assumes "hub_inv h"
  obtains h' where "TerminateAll reason h = Some h'" "hub_inv h'" "sessions h' = []"
proof -
  have "fold mdel (mkeys (sessions h)) (sessions h) = []"
    by (simp add: fold_mdel_keys filter_empty_conv case_prod_unfold)
  then show ?thesis using that terminate_each_inv [OF assms, of reason "mkeys (sessions h)"] unfolding TerminateAll_def by metis
qed

lemma hub_inv_make:
  assumes I: "hub_inv h" and "chan_ok c"
  shows "hub_inv (snd (make_chan c h))"
proof -
  have "c < next_chan h" if "refers h s sub c" for s sub c
    using hub_invD(3,5) [OF I] that by blast
  then show ?thesis
    by (intro hub_inv_shrink [OF I])
       (use hub_invD(1,5,6) [OF I] assms(2) in \<open>fastforce simp: make_chan_def refers_def split: if_splits\<close>)+
qed

lemma hub_inv_attach:
  assumes I: "hub_inv h" and nc: "\<not> closing h" and ch: "chans h c = Some ch" "\<not> ch_closed ch"
    and free: "\<And>s sub. \<not> refers h s sub c" and ok: "tracked_ok t'"
    and sub: "\<And>s d. mget (subscribers t') s = Some d \<Longrightarrow> s = sid' \<and> d = c \<or> refers h sid s d"
  shows "hub_inv (h\<lparr>sessions := mput sid t' (sessions h)\<rparr>)"
proof (rule hub_invI)
  let ?h = "h\<lparr>sessions := mput sid t' (sessions h)\<rparr>"
  have ref: "s = sid \<and> sub = sid' \<and> d = c \<or> refers h s sub d" if "refers ?h s sub d" for s sub d
    using that sub unfolding refers_put by (auto split: if_splits)
  show "\<exists>ch. chans ?h d = Some ch \<and> \<not> ch_closed ch" if "refers ?h s sub d" for s sub d
    using ref [OF that] ch hub_invD(3) [OF I] by auto
  show "s = s' \<and> sub = sub'" if "refers ?h s sub d" "refers ?h s' sub' d" for s sub s' sub' d
    using ref [OF that(1)] ref [OF that(2)] free hub_invD(4) [OF I] by blast
  show "tracked_ok u" if "mget (sessions ?h) s = Some u" for s u
    using that hub_invD(2) [OF I] ok by (auto simp: mget_put split: if_splits)
qed (use hub_invD(1,5) [OF I] nc in \<open>simp_all add: map_ok_put\<close>)

lemma Subscribe_inv:
  assumes I: "hub_inv h"
  shows "hub_inv (snd (Subscribe s now h))"
proof -
  let ?abs = "as_created s + absoluteLifetime h"
  let ?idle = "min (as_expires s) ?abs"
  let ?p = "if time_is_zero (as_last_seen s) then now else as_last_seen s"
  let ?sid = "as_id s" and ?c = "next_chan h" and ?sub = "nextSubscriberID h + 1"
  have early: "hub_inv (snd (let (c, h1) = make_chan ch h in ((c, None :: 64 word option), h1)))" if "chan_ok ch" for ch
    using hub_inv_make [OF I that] by (simp add: case_prod_unfold Let_def)
  consider "closing h" | "\<not> closing h" "\<not> ?idle > now" | "\<not> closing h" "?idle > now" by blast
  then show ?thesis
  proof cases
    case 1
    then show ?thesis using early by (simp add: Subscribe_def chan_ok_def empty_chan_def make_chan_def)
  next
    case 2
    have "chan_ok (empty_chan\<lparr>ch_buf := [t], ch_closed := True\<rparr>)" for t by (simp add: chan_ok_def empty_chan_def)
    from early [OF this] 2 show ?thesis by (simp add: Subscribe_def make_chan_def)
  next
    case 3
    define t where "t = (case mget (sessions h) ?sid of
        None \<Rightarrow> \<lparr>idleDeadline = ?idle, absoluteDeadline = ?abs, lastPersistedAt = ?p, ts_timer = NoTimer, subscribers = []\<rparr>
      | Some tr \<Rightarrow> tr\<lparr>idleDeadline := (if ?idle > idleDeadline tr then ?idle else idleDeadline tr),
            lastPersistedAt := (if ?p > lastPersistedAt tr then ?p else lastPersistedAt tr)\<rparr>)"
    define h0 where "h0 = h\<lparr>nextSubscriberID := ?sub\<rparr>"
    define h1 where "h1 = snd (make_chan empty_chan h0)"
    define t' where "t' = scheduled (t\<lparr>subscribers := mput ?sub ?c (subscribers t)\<rparr>) now"
    have I0: "hub_inv h0" unfolding h0_def
      by (rule hub_inv_shrink [OF I]) (use hub_invD(1,5,6) [OF I] in \<open>auto simp: refers_def\<close>)
    have I1: "hub_inv h1" unfolding h1_def by (rule hub_inv_make [OF I0]) (simp add: chan_ok_def empty_chan_def)
    have h1: "chans h1 ?c = Some empty_chan" "\<not> closing h1" "sessions h1 = sessions h"
      using 3 by (simp_all add: h1_def h0_def make_chan_def)
    have fresh: "\<not> refers h1 a b ?c" for a b
      using hub_invD(3) [OF I, of a b ?c] hub_invD(5) [OF I, of ?c] h1(3) by (auto simp: refers_def)
    have t: "map_ok (subscribers t)"
      "\<And>a d. mget (subscribers t) a = Some d \<Longrightarrow> refers h1 ?sid a d"
      using hub_invD(2) [OF I, of ?sid] h1(3)
      by (auto simp: t_def tracked_ok_def refers_def split: option.splits)
    have "hub_inv (h1\<lparr>sessions := mput ?sid t' (sessions h1)\<rparr>)"
    proof (rule hub_inv_attach [OF I1 h1(2,1) _ fresh])
      show "tracked_ok t'" using t(1) by (simp add: tracked_ok_def t'_def map_ok_put update_nonempty)
      show "a = ?sub \<and> d = ?c \<or> refers h1 ?sid a d" if "mget (subscribers t') a = Some d" for a d
        using that t(2) by (auto simp: t'_def mget_put split: if_splits)
    qed (simp add: empty_chan_def)
    moreover have "snd (Subscribe s now h) = h1\<lparr>sessions := mput ?sid t' (sessions h1)\<rparr>"
      using 3 by (simp add: Subscribe_def Let_def case_prod_unfold make_chan_def scheduleLocked_def
          h1_def h0_def t'_def t_def)
    ultimately show ?thesis by simp
  qed
qed

lemma receive_inv:
  assumes I: "hub_inv h"
  shows "hub_inv (receive c h)"
proof (cases "chans h c")
  case (Some ch)
  show ?thesis
  proof (cases "ch_buf ch")
    case (Cons x xs)
    have cl: "ch_closed ch" "xs = []" "ch_got ch = []" using hub_invD(5) [OF I Some] Cons by (auto simp: chan_ok_def)
    have un: "\<not> refers h s sub c" for s sub using hub_invD(3) [OF I] Some cl(1) by fastforce
    have "hub_inv (h\<lparr>chans := (chans h)(c \<mapsto> ch\<lparr>ch_buf := xs, ch_got := ch_got ch @ [x]\<rparr>)\<rparr>)"
    proof (rule hub_inv_shrink [OF I])
      fix s sub d assume "refers (h\<lparr>chans := (chans h)(c \<mapsto> ch\<lparr>ch_buf := xs, ch_got := ch_got ch @ [x]\<rparr>)\<rparr>) s sub d"
      then have "refers h s sub d" by (simp add: refers_def)
      then show "refers h s sub d \<and> chans (h\<lparr>chans := (chans h)(c \<mapsto> ch\<lparr>ch_buf := xs, ch_got := ch_got ch @ [x]\<rparr>)\<rparr>) d = chans h d"
        using un by auto
    next
      fix d ch' assume "chans (h\<lparr>chans := (chans h)(c \<mapsto> ch\<lparr>ch_buf := xs, ch_got := ch_got ch @ [x]\<rparr>)\<rparr>) d = Some ch'"
      then show "chan_ok ch' \<and> d < next_chan (h\<lparr>chans := (chans h)(c \<mapsto> ch\<lparr>ch_buf := xs, ch_got := ch_got ch @ [x]\<rparr>)\<rparr>)"
        using hub_invD(5) [OF I] Some cl by (auto simp: chan_ok_def split: if_splits)
    qed (use hub_invD(1,6) [OF I] in auto)
    then show ?thesis using Some Cons by (simp add: receive_def)
  qed (simp add: receive_def Some I)
qed (simp add: receive_def I)

text \<open>On shutdown every channel that is still referenced is closed exactly once.\<close>

definition all_refs :: "hub \<Rightarrow> nat list" where
  "all_refs h = concat (map (\<lambda>(_, tracked). map snd (subscribers tracked)) (sessions h))"

lemma all_refs_set:
  assumes I: "hub_inv h"
  shows "c \<in> set (all_refs h) \<longleftrightarrow> (\<exists>sid sub. refers h sid sub c)"
proof -
  have "c \<in> set (all_refs h) \<longleftrightarrow> (\<exists>sid t. (sid, t) \<in> set (sessions h) \<and> c \<in> set (map snd (subscribers t)))"
    by (auto simp: all_refs_def)
  also have "\<dots> \<longleftrightarrow> (\<exists>sid t. mget (sessions h) sid = Some t \<and> c \<in> set (map snd (subscribers t)))"
    by (simp only: map_ok_entry [OF hub_invD(1) [OF I]])
  also have "\<dots> \<longleftrightarrow> (\<exists>sid sub. refers h sid sub c)"
    using subscriber_chans(2) [OF I] unfolding refers_def by metis
  finally show ?thesis .
qed

lemma distinct_concat_map:
  assumes "distinct xs" "\<And>x. x \<in> set xs \<Longrightarrow> distinct (f x)"
    "\<And>x y c. x \<in> set xs \<Longrightarrow> y \<in> set xs \<Longrightarrow> c \<in> set (f x) \<Longrightarrow> c \<in> set (f y) \<Longrightarrow> x = y"
  shows "distinct (concat (map f xs))"
  using assms
proof (induction xs)
  case (Cons x xs)
  have "set (f x) \<inter> (\<Union>y \<in> set xs. set (f y)) = {}" using Cons.prems(1,3) by fastforce
  moreover have "distinct (concat (map f xs))" using Cons.prems by (intro Cons.IH) auto
  ultimately show ?case using Cons.prems(2) by simp
qed simp

lemma all_refs_distinct:
  assumes I: "hub_inv h"
  shows "distinct (all_refs h)"
  unfolding all_refs_def
proof (rule distinct_concat_map)
  note ent = map_ok_entry [OF hub_invD(1) [OF I]]
  show "distinct (sessions h)" using hub_invD(1) [OF I] by (simp add: map_ok_def distinct_map)
  show "distinct (case x of (_, t) \<Rightarrow> map snd (subscribers t))" if "x \<in> set (sessions h)" for x
    using that subscriber_chans(1) [OF I] ent by (metis case_prod_conv surj_pair)
  show "x = y" if "x \<in> set (sessions h)" "y \<in> set (sessions h)"
      "c \<in> set (case x of (_, t) \<Rightarrow> map snd (subscribers t))"
      "c \<in> set (case y of (_, t) \<Rightarrow> map snd (subscribers t))" for x y c
  proof -
    obtain a t b u where xy: "x = (a, t)" "y = (b, u)" by (cases x, cases y)
    have tu: "mget (sessions h) a = Some t" "mget (sessions h) b = Some u" using that(1,2) ent xy by simp_all
    have "\<exists>s1. refers h a s1 c" "\<exists>s2. refers h b s2 c"
      using that(3,4) subscriber_chans(2) [OF I tu(1)] subscriber_chans(2) [OF I tu(2)] unfolding xy by auto
    then have "a = b" using hub_invD(4) [OF I] by blast
    then show ?thesis using tu xy by simp
  qed
qed

lemma Shutdown_close_spec:
  assumes I: "hub_inv h" and nc: "\<not> closing h"
  shows "Shutdown_close h = Some (h\<lparr>closing := True, sessions := [],
    chans := (\<lambda>c. if c \<in> set (all_refs h) then map_option (\<lambda>ch. ch\<lparr>ch_closed := True\<rparr>) (chans h c) else chans h c)\<rparr>)"
proof -
  have "each_chan only_close (all_refs h) (chans h) =
      Some (\<lambda>c. if c \<in> set (all_refs h) then map_option (\<lambda>ch. ch\<lparr>ch_closed := True\<rparr>) (chans h c) else chans h c)"
    by (rule each_chan_spec [where P = "\<lambda>ch. \<not> ch_closed ch", OF only_close_ok all_refs_distinct [OF I]])
       (use all_refs_set [OF I] hub_invD(3) [OF I] in blast)+
  then show ?thesis using nc by (simp add: Shutdown_close_def all_refs_def)
qed

lemma Shutdown_close_inv:
  assumes I: "hub_inv h"
  obtains h' where "Shutdown_close h = Some h'" "hub_inv h'" "sessions h' = []" "closing h'"
proof (cases "closing h")
  case True
  then show ?thesis using that [of h] I hub_invD(6) [OF I] by (simp add: Shutdown_close_def)
next
  case False
  note S = Shutdown_close_spec [OF I False]
  show ?thesis
  proof (rule that [OF S])
    show "hub_inv (h\<lparr>closing := True, sessions := [],
      chans := (\<lambda>c. if c \<in> set (all_refs h) then map_option (\<lambda>ch. ch\<lparr>ch_closed := True\<rparr>) (chans h c) else chans h c)\<rparr>)"
      by (rule hub_inv_shrink [OF I])
         (use hub_invD(5) [OF I] in \<open>auto simp: refers_def chan_ok_def split: if_splits\<close>)
  qed simp_all
qed

section \<open>Interleavings\<close>

text \<open>
  Calls from transports and handlers, the consumer's receives, timers that fire and the two
  halves of the expiry callback, in any order and with any clock reading.  The started
  callbacks have not yet entered the mutex; the running ones are counted in the wait group.
\<close>

record hub_world =
  w_hub :: hub
  w_started :: "string list"
  w_running :: "string list"

inductive hub_step :: "hub_world \<Rightarrow> hub_world \<Rightarrow> bool" where
  subscribe: "hub_step w (w\<lparr>w_hub := snd (Subscribe s now (w_hub w))\<rparr>)"
| touch: "Touch sid now (w_hub w) = Some (r, e, h) \<Longrightarrow> hub_step w (w\<lparr>w_hub := h\<rparr>)"
| lease: "hub_step w (w\<lparr>w_hub := TouchLease sid expires now (w_hub w)\<rparr>)"
| persisted: "hub_step w (w\<lparr>w_hub := TouchPersisted sid lastSeen expires now (w_hub w)\<rparr>)"
| terminate: "Terminate sid reason (w_hub w) = Some h \<Longrightarrow> hub_step w (w\<lparr>w_hub := h\<rparr>)"
| terminate_all: "TerminateAll reason (w_hub w) = Some h \<Longrightarrow> hub_step w (w\<lparr>w_hub := h\<rparr>)"
| unsubscribe: "hub_step w (w\<lparr>w_hub := unsubscribe sid sub (w_hub w)\<rparr>)"
| receive: "hub_step w (w\<lparr>w_hub := receive c (w_hub w)\<rparr>)"
| shutdown: "Shutdown_close (w_hub w) = Some h \<Longrightarrow> hub_step w (w\<lparr>w_hub := h\<rparr>)"
| fire: "mget (sessions (w_hub w)) sid = Some t \<Longrightarrow> ts_timer t = Armed due \<Longrightarrow>
    hub_step w (w\<lparr>w_hub := (w_hub w)\<lparr>sessions := mput sid (t\<lparr>ts_timer := Fired\<rparr>) (sessions (w_hub w))\<rparr>,
                   w_started := sid # w_started w\<rparr>)"
| enter: "sid \<in> set (w_started w) \<Longrightarrow> runExpiration_enter (w_hub w) = (True, h) \<Longrightarrow>
    hub_step w (w\<lparr>w_hub := h, w_started := remove1 sid (w_started w), w_running := sid # w_running w\<rparr>)"
| skip: "sid \<in> set (w_started w) \<Longrightarrow> runExpiration_enter (w_hub w) = (False, h) \<Longrightarrow>
    hub_step w (w\<lparr>w_hub := h, w_started := remove1 sid (w_started w)\<rparr>)"
| run: "sid \<in> set (w_running w) \<Longrightarrow> expire sid now (w_hub w) = Some (e, h) \<Longrightarrow>
    hub_step w (w\<lparr>w_hub := runExpiration_leave h, w_running := remove1 sid (w_running w)\<rparr>)"

definition new_world :: "duration \<Rightarrow> duration \<Rightarrow> hub_world" where
  "new_world idle absolute = \<lparr>w_hub = newSessionLifecycleHub idle absolute, w_started = [], w_running = []\<rparr>"

inductive hub_reachable :: "hub_world \<Rightarrow> bool" where
  init: "hub_reachable (new_world idle absolute)"
| step: "hub_reachable w \<Longrightarrow> hub_step w w' \<Longrightarrow> hub_reachable w'"

text \<open>Only sessions change, and those that remain keep their timer or have it armed anew.\<close>

definition timers_kept :: "hub \<Rightarrow> hub \<Rightarrow> bool" where
  "timers_kept h h' \<longleftrightarrow> expirationWG h' = expirationWG h \<and>
     (\<forall>sid t'. mget (sessions h') sid = Some t' \<longrightarrow> ts_timer t' = Fired \<longrightarrow>
        (\<exists>t. mget (sessions h) sid = Some t \<and> ts_timer t = Fired))"

lemma scheduled_armed: "ts_timer (scheduled t now) \<noteq> Fired"
  by (simp add: scheduled_def Let_def)

lemma timers_kept_refl [simp]: "timers_kept h h"
  by (simp add: timers_kept_def)

lemma timers_kept_schedule: "\<not> closing h \<Longrightarrow> timers_kept h (scheduleLocked sid t now h)"
  by (auto simp: timers_kept_def scheduleLocked_def mget_put scheduled_armed split: if_splits)

lemma timers_kept_terminate: "terminateLocked sid reason h = Some h' \<Longrightarrow> timers_kept h h'"
  by (auto simp: terminateLocked_def timers_kept_def mget_del split: option.splits if_splits)

lemma timers_kept_each: "terminate_each reason sids h = Some h' \<Longrightarrow> timers_kept h h'"
proof (induction sids arbitrary: h)
  case (Cons sid sids)
  then obtain h1 where "terminateLocked sid reason h = Some h1" "terminate_each reason sids h1 = Some h'"
    by (auto split: option.splits)
  then have "timers_kept h h1" "timers_kept h1 h'" using Cons.IH timers_kept_terminate by blast+
  then show ?case by (simp add: timers_kept_def) blast
qed simp

lemma timers_kept_Subscribe: "timers_kept h (snd (Subscribe s now h))"
  by (auto simp: Subscribe_def Let_def make_chan_def timers_kept_def scheduleLocked_def mget_put scheduled_armed
      split: if_splits)

definition world_inv :: "hub_world \<Rightarrow> bool" where
  "world_inv w \<longleftrightarrow> hub_inv (w_hub w) \<and> expirationWG (w_hub w) = length (w_running w) \<and>
     (\<forall>sid t. mget (sessions (w_hub w)) sid = Some t \<longrightarrow> ts_timer t = Fired \<longrightarrow>
        sid \<in> set (w_started w) \<union> set (w_running w))"

lemma world_inv_kept:
  assumes "world_inv w" "timers_kept (w_hub w) h" "hub_inv h"
  shows "world_inv (w\<lparr>w_hub := h\<rparr>)"
  using assms unfolding world_inv_def timers_kept_def by (simp, metis)

lemma world_inv_step:
  assumes "hub_step w w'" "world_inv w"
  shows "world_inv w'"
  using assms
proof (induction rule: hub_step.induct)
  case (subscribe w s now)
  then show ?case
    by (intro world_inv_kept timers_kept_Subscribe Subscribe_inv) (simp_all add: world_inv_def)
next
  case (touch sid now w r e h)
  have I: "hub_inv (w_hub w)" using touch(2) by (simp add: world_inv_def)
  have "hub_inv h" using Touch_inv [OF I, of sid now] touch(1) by (metis option.inject prod.inject)
  moreover have "timers_kept (w_hub w) h"
    using touch(1) by (auto simp: Touch_def Let_def timers_kept_terminate timers_kept_schedule split: option.splits if_splits)
  ultimately show ?case using touch(2) by (intro world_inv_kept)
next
  case (lease w sid expires now)
  then show ?case
    by (intro world_inv_kept TouchLease_inv)
       (auto simp: world_inv_def TouchLease_def Let_def timers_kept_schedule split: option.splits)
next
  case (persisted w sid lastSeen expires now)
  then show ?case
    by (intro world_inv_kept TouchPersisted_inv)
       (auto simp: world_inv_def TouchPersisted_def Let_def timers_kept_schedule split: option.splits)
next
  case (terminate sid reason w h)
  have I: "hub_inv (w_hub w)" using terminate(2) by (simp add: world_inv_def)
  have "hub_inv h" using terminateLocked_inv [OF I, of sid reason] terminate(1) unfolding Terminate_def by (metis option.inject)
  then show ?case using terminate timers_kept_terminate by (intro world_inv_kept) (auto simp: Terminate_def)
next
  case (terminate_all reason w h)
  have I: "hub_inv (w_hub w)" using terminate_all(2) by (simp add: world_inv_def)
  have "hub_inv h" using TerminateAll_inv [OF I, of reason] terminate_all(1) by (metis option.inject)
  then show ?case using terminate_all timers_kept_each by (intro world_inv_kept) (auto simp: TerminateAll_def)
next
  case (unsubscribe w sid sub)
  then show ?case
    by (intro world_inv_kept unsubscribe_inv)
       (auto simp: world_inv_def unsubscribe_def Let_def timers_kept_def mget_put mget_del split: option.splits if_splits)
next
  case (receive w c)
  then show ?case
    by (intro world_inv_kept receive_inv)
       (auto simp: world_inv_def receive_def timers_kept_def split: option.splits list.splits)
next
  case (shutdown w h)
  have I: "hub_inv (w_hub w)" using shutdown(2) by (simp add: world_inv_def)
  have "hub_inv h" using Shutdown_close_inv [OF I] shutdown(1) by (metis option.inject)
  moreover have "timers_kept (w_hub w) h"
    using shutdown(1) by (auto simp: Shutdown_close_def timers_kept_def split: option.splits if_splits)
  ultimately show ?case using shutdown(2) by (intro world_inv_kept)
next
  case (fire w sid t due)
  have I: "hub_inv (w_hub w)" using fire(3) by (simp add: world_inv_def)
  have "hub_inv ((w_hub w)\<lparr>sessions := mput sid (t\<lparr>ts_timer := Fired\<rparr>) (sessions (w_hub w))\<rparr>)"
    by (rule hub_inv_replace [OF I fire(1)]) (use hub_invD(2) [OF I fire(1)] in \<open>simp_all add: tracked_ok_def\<close>)
  then show ?case using fire(3) by (auto simp: world_inv_def mget_put split: if_splits)
next
  case (enter sid w h)
  have h: "h = (w_hub w)\<lparr>expirationWG := expirationWG (w_hub w) + 1\<rparr>"
    using enter(2) by (auto simp: runExpiration_enter_def split: if_splits)
  have "hub_inv h" unfolding h
    by (rule hub_inv_shrink [of "w_hub w"]) (use enter(3) in \<open>auto simp: world_inv_def hub_inv_def refers_def\<close>)
  then show ?case using enter(3) unfolding world_inv_def h by (simp, metis in_set_remove1)
next
  case (skip sid w h)
  then have "closing (w_hub w)" "h = w_hub w" by (auto simp: runExpiration_enter_def split: if_splits)
  then show ?case using skip(3) hub_invD(6) [of "w_hub w"] by (simp add: world_inv_def)
next
  case (run sid w now e h)
  have I: "hub_inv (w_hub w)" using run(3) by (simp add: world_inv_def)
  obtain Ih: "hub_inv h" and WG: "expirationWG h = expirationWG (w_hub w)"
    using expire_inv [OF I, of sid now] run(2) by (metis option.inject prod.inject)
  have self: "ts_timer t \<noteq> Fired" if "mget (sessions h) sid = Some t" for t
    using run(2) that closing_no_session [OF I, of sid]
    by (auto simp: expire_def terminateLocked_def scheduleLocked_def mget_put mget_del scheduled_armed
        split: option.splits if_splits)
  have kept: "timers_kept (w_hub w) h"
    using run(2) closing_no_session [OF I, of sid]
    by (auto simp: expire_def timers_kept_terminate timers_kept_schedule split: option.splits)
  have "hub_inv (runExpiration_leave h)" unfolding runExpiration_leave_def
    by (rule hub_inv_shrink [OF Ih]) (use hub_invD(1,5,6) [OF Ih] in \<open>auto simp: refers_def\<close>)
  moreover have "s \<in> set (w_started w) \<union> set (remove1 sid (w_running w))"
    if "mget (sessions h) s = Some t" "ts_timer t = Fired" for s t
  proof -
    have "s \<noteq> sid" using self that by blast
    moreover have "s \<in> set (w_started w) \<union> set (w_running w)"
      using kept that run(3) unfolding timers_kept_def world_inv_def by blast
    ultimately show ?thesis by simp
  qed
  ultimately show ?case
    using run(1,3) WG by (simp add: world_inv_def runExpiration_leave_def length_remove1)
qed

lemma hub_reachable_inv: "hub_reachable w \<Longrightarrow> world_inv w"
proof (induction rule: hub_reachable.induct)
  case (init idle absolute)
  show ?case
    by (simp add: world_inv_def hub_inv_def refers_def new_world_def newSessionLifecycleHub_def)
qed (blast intro: world_inv_step)

section \<open>What a termination delivers\<close>

lemma terminateLocked_delivers:
  assumes I: "hub_inv h" and r: "refers h s sub c" and e: "terminateLocked sid reason h = Some h'"
  shows "if s = sid
    then chans h' c = Some \<lparr>ch_buf = [\<lparr>term_session = sid, term_all = False, term_reason = reason\<rparr>], ch_closed = True, ch_got = []\<rparr>
    else refers h' s sub c \<and> chans h' c = chans h c"
proof (cases "mget (sessions h) sid")
  case None
  then show ?thesis using r e by (auto simp: terminateLocked_def refers_def)
next
  case (Some t)
  note h' = terminateLocked_spec [OF I Some, of reason, unfolded e, THEN option.inject [THEN iffD1]]
  show ?thesis
  proof (cases "s = sid")
    case True
    then have "c \<in> set (map snd (subscribers t))" using r subscriber_chans(2) [OF I Some] by blast
    then show ?thesis using True by (simp add: h')
  next
    case False
    then have "c \<notin> set (map snd (subscribers t))"
      using r subscriber_chans(2) [OF I Some] hub_invD(4) [OF I] by blast
    then show ?thesis using False r by (auto simp: h' refers_def mget_del)
  qed
qed

text \<open>Channels that no session refers to are left alone.\<close>

lemma terminateLocked_others:
  assumes I: "hub_inv h" and e: "terminateLocked sid reason h = Some h'" and n: "\<And>s sub. \<not> refers h s sub c"
  shows "chans h' c = chans h c \<and> (\<forall>s sub. \<not> refers h' s sub c)"
proof (cases "mget (sessions h) sid")
  case None
  then show ?thesis using e n by (simp add: terminateLocked_def)
next
  case (Some t)
  note h' = terminateLocked_spec [OF I Some, of reason, unfolded e, THEN option.inject [THEN iffD1]]
  have "c \<notin> set (map snd (subscribers t))" using n subscriber_chans(2) [OF I Some] by blast
  moreover have "refers h' s sub c \<Longrightarrow> refers h s sub c" for s sub
    by (auto simp: h' refers_def mget_del split: if_splits)
  ultimately show ?thesis using n by (auto simp: h')
qed

lemma terminate_each_others:
  assumes "hub_inv h" "terminate_each reason sids h = Some h'" "\<And>s sub. \<not> refers h s sub c"
  shows "chans h' c = chans h c"
  using assms
proof (induction sids arbitrary: h)
  case (Cons sid sids)
  obtain h1 where h1: "terminateLocked sid reason h = Some h1" "hub_inv h1" using terminateLocked_inv [OF Cons.prems(1)] by metis
  have "chans h1 c = chans h c \<and> (\<forall>s sub. \<not> refers h1 s sub c)"
    by (rule terminateLocked_others [OF Cons.prems(1) h1(1) Cons.prems(3)])
  moreover from this have "chans h' c = chans h1 c"
    using Cons.IH [OF h1(2)] Cons.prems(2) h1(1) by simp
  ultimately show ?case by simp
qed simp

lemma terminate_each_delivers:
  assumes "hub_inv h" "terminate_each reason sids h = Some h'" "refers h s sub c" "s \<in> set sids"
  shows "chans h' c = Some \<lparr>ch_buf = [\<lparr>term_session = s, term_all = False, term_reason = reason\<rparr>], ch_closed = True, ch_got = []\<rparr>"
  using assms
proof (induction sids arbitrary: h)
  case (Cons sid sids)
  obtain h1 where h1: "terminateLocked sid reason h = Some h1" "hub_inv h1" "mget (sessions h1) sid = None"
    using terminateLocked_inv [OF Cons.prems(1)] by metis
  have rest: "terminate_each reason sids h1 = Some h'" using Cons.prems(2) h1(1) by simp
  note D = terminateLocked_delivers [OF Cons.prems(1,3) h1(1)]
  show ?case
  proof (cases "s = sid")
    case True
    then have c1: "chans h1 c = Some \<lparr>ch_buf = [\<lparr>term_session = s, term_all = False, term_reason = reason\<rparr>], ch_closed = True, ch_got = []\<rparr>"
      using D by simp
    then have "\<not> refers h1 a b c" for a b using hub_invD(3) [OF h1(2), of a b c] by auto
    then show ?thesis using terminate_each_others [OF h1(2) rest] c1 by simp
  next
    case False
    then show ?thesis using Cons.IH [OF h1(2) rest] D Cons.prems(4) by simp
  qed
qed simp

section \<open>Properties\<close>

text \<open>C10: In every reachable state of the session hub, whatever calls, timers and receives were
  interleaved, the fan-out of a termination can neither block on a full channel nor send to
  or close a closed one: every operation returns.\<close>

theorem hub_never_blocks:
  assumes "hub_reachable w"
  shows "Touch sid now (w_hub w) \<noteq> None \<and> Terminate sid reason (w_hub w) \<noteq> None \<and>
    TerminateAll reason (w_hub w) \<noteq> None \<and> expire sid now (w_hub w) \<noteq> None \<and> Shutdown_close (w_hub w) \<noteq> None"
proof -
  have I: "hub_inv (w_hub w)" using hub_reachable_inv [OF assms] by (simp add: world_inv_def)
  show ?thesis
    using Touch_inv [OF I, of sid now] terminateLocked_inv [OF I, of sid reason] TerminateAll_inv [OF I, of reason]
      expire_inv [OF I, of sid now] Shutdown_close_inv [OF I]
    unfolding Terminate_def by (metis option.distinct(1))
qed

definition example_session :: AuthSession where
  "example_session = \<lparr>as_id = ''s1'', as_user = ''local'', as_created = 100, as_last_seen = 100, as_expires = 130\<rparr>"

definition example_world :: hub_world where
  "example_world = (new_world 30 1000)\<lparr>w_hub := snd (Subscribe example_session 110 (newSessionLifecycleHub 30 1000))\<rparr>"

lemma example_world_reachable: "hub_reachable example_world"
  using hub_reachable.step [OF hub_reachable.init [of 30 1000] hub_step.subscribe [of _ example_session 110]]
  by (simp add: example_world_def new_world_def)

theorem hub_never_blocks_witness:
  "Touch ''s1'' 140 (w_hub example_world) \<noteq> None \<and> TerminateAll Term_Logout (w_hub example_world) \<noteq> None"
  using hub_never_blocks [OF example_world_reachable, of "''s1''" 140 Term_Logout] by blast

text \<open>C11: In every reachable state of the session hub each subscriber channel has carried at most
  one termination, and none before it was closed; every tracked session has a subscriber, and
  a timer that is armed or whose expiry callback is on its way; after shutdown nothing is tracked.\<close>

theorem hub_delivery_invariant:
  assumes "hub_reachable w"
  shows "(\<forall>c ch. chans (w_hub w) c = Some ch \<longrightarrow>
      length (ch_got ch @ ch_buf ch) \<le> 1 \<and> (\<not> ch_closed ch \<longrightarrow> ch_got ch @ ch_buf ch = [])) \<and>
    (\<forall>sid t. mget (sessions (w_hub w)) sid = Some t \<longrightarrow> subscribers t \<noteq> [] \<and>
      ((\<exists>due. ts_timer t = Armed due) \<or> sid \<in> set (w_started w) \<union> set (w_running w))) \<and>
    (closing (w_hub w) \<longrightarrow> sessions (w_hub w) = []) \<and>
    expirationWG (w_hub w) = length (w_running w)"
proof -
  have W: "world_inv w" by (rule hub_reachable_inv [OF assms])
  then have I: "hub_inv (w_hub w)" by (simp add: world_inv_def)
  have "(\<exists>due. ts_timer t = Armed due) \<or> sid \<in> set (w_started w) \<union> set (w_running w)"
    if "mget (sessions (w_hub w)) sid = Some t" for sid t
    using that hub_invD(2) [OF I that] W unfolding world_inv_def tracked_ok_def by (cases "ts_timer t") blast+
  then show ?thesis
    using hub_invD(2,5,6) [OF I] W unfolding world_inv_def tracked_ok_def chan_ok_def by simp
qed

theorem hub_delivery_invariant_witness:
  "expirationWG (w_hub example_world) = length (w_running example_world) \<and>
   (\<exists>t. mget (sessions (w_hub example_world)) ''s1'' = Some t \<and> subscribers t \<noteq> [])"
proof -
  obtain t where t: "mget (sessions (w_hub example_world)) ''s1'' = Some t"
    by (simp add: example_world_def Subscribe_def newSessionLifecycleHub_def example_session_def Let_def make_chan_def
        scheduleLocked_def)
  show ?thesis using t hub_delivery_invariant [OF example_world_reachable] by blast
qed

text \<open>A password change ends every live session: \<open>TerminateAll\<close> leaves no session tracked, and
  every transport subscribed to any session finds in its channel exactly one termination, with
  its own session and the given reason, after which the channel is closed.\<close>

theorem terminate_all_delivers:
  assumes "hub_reachable w" "TerminateAll reason (w_hub w) = Some h"
  shows "sessions h = [] \<and> (\<forall>sid sub c. refers (w_hub w) sid sub c \<longrightarrow>
    chans h c = Some \<lparr>ch_buf = [\<lparr>term_session = sid, term_all = False, term_reason = reason\<rparr>], ch_closed = True, ch_got = []\<rparr>)"
proof -
  have I: "hub_inv (w_hub w)" using hub_reachable_inv [OF assms(1)] by (simp add: world_inv_def)
  have "sid \<in> set (mkeys (sessions (w_hub w)))" if "refers (w_hub w) sid sub c" for sid sub c
    using that unfolding refers_def by (metis map_of_eq_None_iff option.distinct(1) set_map)
  then show ?thesis
    using TerminateAll_inv [OF I, of reason] terminate_each_delivers [OF I assms(2) [unfolded TerminateAll_def]] assms(2)
    by (metis option.inject)
qed

theorem terminate_all_delivers_witness:
  "\<exists>h. TerminateAll Term_PasswordChanged (w_hub example_world) = Some h \<and> sessions h = [] \<and>
     chans h 0 = Some \<lparr>ch_buf = [\<lparr>term_session = ''s1'', term_all = False, term_reason = Term_PasswordChanged\<rparr>],
       ch_closed = True, ch_got = []\<rparr>"
proof -
  have I: "hub_inv (w_hub example_world)" using hub_reachable_inv [OF example_world_reachable] by (simp add: world_inv_def)
  obtain h where h: "TerminateAll Term_PasswordChanged (w_hub example_world) = Some h" by (rule TerminateAll_inv [OF I])
  have "refers (w_hub example_world) ''s1'' 1 0"
    by (simp add: refers_def example_world_def Subscribe_def newSessionLifecycleHub_def example_session_def Let_def
        make_chan_def scheduleLocked_def)
  then show ?thesis using h terminate_all_delivers [OF example_world_reachable h] by blast
qed

end
