(* ===== verification/Auth_Service.thy ===== *)
theory Auth_Service
  imports Auth_Store Password_Hash Session_Hub
begin

text \<open>
  The authentication service of internal/auth/service.go: bootstrap, login, logout, password
  change, request and WebSocket authentication, activity and expiry, over the session store,
  the login throttle and the session hub.

  A hub operation that would block or panic is \<open>None\<close>, and so is the call that ran it.  The
  clock readings, the random bytes and the faults of the store are arguments.  The sections
  guarded by \<open>sessionTransitionMu\<close> are single functions; the argument \<open>ae_between\<close> of an
  authentication attempt is what transactions outside that mutex (a login, the pruning of
  old rows) do to the tables between its two statements.
\<close>

record auth_config =
  ac_login :: login_config
  SessionIdleTimeout :: duration
  SessionAbsoluteLifetime :: duration
  BootstrapPassword :: string
  SessionCookieName :: string
  CookieSecure :: bool

record auth_service =
  sv_db :: auth_db
  sv_hub :: hub
  sv_attempts :: attempts
  sv_gate :: login_gate
  sv_hook :: bool
  sv_notified :: "SessionTermination list"

definition NewService :: "auth_config \<Rightarrow> auth_db \<Rightarrow> auth_service" where
  "NewService cfg db =
     \<lparr>sv_db = db, sv_hub = newSessionLifecycleHub (SessionIdleTimeout cfg) (SessionAbsoluteLifetime cfg),
      sv_attempts = [], sv_gate = new_gate, sv_hook = False, sv_notified = []\<rparr>"

fun store_failure :: "store_error \<Rightarrow> auth_error" where
  "store_failure ErrStoreNotFound = ErrAuthStore ''not found''"
| "store_failure ErrPasswordVersionChanged = ErrAuthStore ''password version changed''"
| "store_failure ErrSessionChanged = ErrAuthStore ''session changed''"
| "store_failure (ErrStore e) = ErrAuthStore e"

section \<open>Terminations\<close>

text \<open>The hook is called with the termination; \<open>sv_notified\<close> is the sequence of its calls.\<close>

definition SetSessionTerminationHook :: "bool \<Rightarrow> auth_service \<Rightarrow> auth_service" where
  "SetSessionTerminationHook hook sv = sv\<lparr>sv_hook := hook\<rparr>"

definition notifySessionTermination :: "SessionTermination \<Rightarrow> auth_service \<Rightarrow> auth_service" where
  "notifySessionTermination t sv = (if sv_hook sv then sv\<lparr>sv_notified := sv_notified sv @ [t]\<rparr> else sv)"

definition terminateSession :: "string \<Rightarrow> SessionTerminationReason \<Rightarrow> auth_service \<Rightarrow> auth_service option" where
  "terminateSession sessionID reason sv =
     (case Terminate sessionID reason (sv_hub sv) of
        None \<Rightarrow> None
      | Some h \<Rightarrow> Some (notifySessionTermination \<lparr>term_session = sessionID, term_all = False, term_reason = reason\<rparr>
                  (sv\<lparr>sv_hub := h\<rparr>)))"

definition terminateAllSessions :: "SessionTerminationReason \<Rightarrow> auth_service \<Rightarrow> auth_service option" where
  "terminateAllSessions reason sv =
     (case TerminateAll reason (sv_hub sv) of
        None \<Rightarrow> None
      | Some h \<Rightarrow> Some (notifySessionTermination \<lparr>term_session = '''', term_all = True, term_reason = reason\<rparr>
                  (sv\<lparr>sv_hub := h\<rparr>)))"

section \<open>Bootstrap and login\<close>

text \<open>The outer \<open>None\<close> is the panic of the key derivation.\<close>

definition Bootstrap :: "argon2 \<Rightarrow> auth_config \<Rightarrow> fault \<Rightarrow> fault \<Rightarrow> string + string \<Rightarrow> auth_db \<Rightarrow>
    (auth_error option \<times> auth_db) option" where
  "Bootstrap IDKey cfg io1 io2 random db =
     (case PasswordHash io1 db of
        Inl e \<Rightarrow> Some (Some (store_failure e), db)
      | Inr stored \<Rightarrow>
          if stored \<noteq> None \<and> stored \<noteq> Some '''' then Some (None, db)
          else if BootstrapPassword cfg = '''' then Some (Some ErrNotConfigured, db)
          else
            (case hashPassword IDKey random (BootstrapPassword cfg) of
               None \<Rightarrow> None
             | Some (Inl e) \<Rightarrow> Some (Some e, db)
             | Some (Inr hash) \<Rightarrow>
                 (case SetPasswordHash io2 hash db of
                    Inl e \<Rightarrow> Some (Some (store_failure e), db)
                  | Inr db' \<Rightarrow> Some (None, db'))))"

text \<open>\<open>Login\<close> up to the point where the verification slot is held.\<close>

definition login_begin :: "auth_config \<Rightarrow> string option \<Rightarrow> string \<Rightarrow> time \<Rightarrow> auth_service \<Rightarrow>
    (auth_error + string) \<times> auth_service" where
  "login_begin cfg ctxErr ipAddress now sv =
     (case loginLocked (ac_login cfg) ipAddress now (sv_attempts sv) of
        (locked, m) \<Rightarrow>
          if locked then (Inl ErrTooManyAttempts, sv\<lparr>sv_attempts := m\<rparr>)
          else
            (case acquireLoginVerification ctxErr ipAddress (sv_gate sv) of
               (r, g) \<Rightarrow> (r, sv\<lparr>sv_attempts := m, sv_gate := g\<rparr>)))"

text \<open>The password check, which counts a failure or forgets the earlier ones.\<close>

definition login_verify :: "argon2 \<Rightarrow> auth_config \<Rightarrow> fault \<Rightarrow> string \<Rightarrow> string \<Rightarrow> time \<Rightarrow> auth_service \<Rightarrow>
    (auth_error + PasswordCredentials) \<times> auth_service" where
  "login_verify IDKey cfg io password ipAddress now sv =
     (case PasswordCredentialsOf io (sv_db sv) of
        Inl e \<Rightarrow> (Inl (store_failure e), sv)
      | Inr None \<Rightarrow> (Inl ErrNotConfigured, sv)
      | Inr (Some credentials) \<Rightarrow>
          if pc_hash credentials = '''' then (Inl ErrNotConfigured, sv)
          else if verifyPassword IDKey (pc_hash credentials) password \<noteq> None
          then (Inl ErrInvalidCredentials, sv\<lparr>sv_attempts := recordLoginFailure (ac_login cfg) ipAddress now (sv_attempts sv)\<rparr>)
          else (Inr credentials, sv\<lparr>sv_attempts := clearLoginFailures ipAddress (sv_attempts sv)\<rparr>))"

definition localUserID :: string where "localUserID = ''local''"

text \<open>The session row, written only if the password is still the one that was verified.\<close>

definition login_create :: "auth_config \<Rightarrow> fault \<Rightarrow> auth_error + string \<Rightarrow> string \<Rightarrow> string \<Rightarrow> time \<Rightarrow> PasswordCredentials \<Rightarrow>
    auth_service \<Rightarrow> (auth_error + AuthSession) \<times> auth_service" where
  "login_create cfg io newSessionID userAgent ipAddress now credentials sv =
     (let absoluteDl = now + SessionAbsoluteLifetime cfg;
          idleDl = now + SessionIdleTimeout cfg;
          expires = minTime idleDl absoluteDl
      in case newSessionID of
           Inl e \<Rightarrow> (Inl e, sv)
         | Inr sessionID \<Rightarrow>
             (case CreateSessionAtPasswordVersion io
                     \<lparr>ses_id = sessionID, ses_user = localUserID, ses_created = now, ses_last_seen = now,
                      ses_expires = expires, ses_agent = userAgent, ses_ip = ipAddress, ses_revoked = None,
                      ses_version = pc_version credentials\<rparr> (pc_version credentials) (sv_db sv) of
                Inl e \<Rightarrow> (Inl (if e = ErrPasswordVersionChanged then ErrInvalidCredentials else store_failure e), sv)
              | Inr db \<Rightarrow>
                  (Inr \<lparr>as_id = sessionID, as_user = localUserID, as_created = now, as_last_seen = now, as_expires = expires\<rparr>,
                   sv\<lparr>sv_db := db\<rparr>)))"

text \<open>The whole call, with what happens elsewhere between the check and the insert.\<close>

definition Login :: "argon2 \<Rightarrow> auth_config \<Rightarrow> string option \<Rightarrow> fault \<Rightarrow> fault \<Rightarrow> auth_error + string \<Rightarrow>
    (auth_service \<Rightarrow> auth_service) \<Rightarrow> string \<Rightarrow> string \<Rightarrow> string \<Rightarrow> time \<Rightarrow> auth_service \<Rightarrow>
    (auth_error + AuthSession) \<times> auth_service" where
  "Login IDKey cfg ctxErr io1 io2 newSessionID meanwhile password userAgent ipAddress now sv =
     (case login_begin cfg ctxErr ipAddress now sv of
        (Inl e, sv1) \<Rightarrow> (Inl e, sv1)
      | (Inr key, sv1) \<Rightarrow>
          (let (r, sv2) =
             (case login_verify IDKey cfg io1 password ipAddress now sv1 of
                (Inl e, sv2) \<Rightarrow> (Inl e, sv2)
              | (Inr credentials, sv2) \<Rightarrow> login_create cfg io2 newSessionID userAgent ipAddress now credentials (meanwhile sv2))
           in (r, sv2\<lparr>sv_gate := releaseLoginVerification key (sv_gate sv2)\<rparr>)))"

section \<open>Logout and password change\<close>

definition Logout :: "fault \<Rightarrow> string \<Rightarrow> time \<Rightarrow> auth_service \<Rightarrow> (auth_error option \<times> auth_service) option" where
  "Logout io sessionID now sv =
     (if sessionID = '''' then Some (Some ErrUnauthorized, sv)
      else
        (case RevokeSession io sessionID now (sv_db sv) of
           Inl e \<Rightarrow> Some (Some (if e = ErrStoreNotFound then ErrUnauthorized else store_failure e), sv)
         | Inr db \<Rightarrow>
             (case terminateSession sessionID Term_Logout (sv\<lparr>sv_db := db\<rparr>) of
                None \<Rightarrow> None
              | Some sv' \<Rightarrow> Some (None, sv'))))"

text \<open>The checks of \<open>UpdatePassword\<close>: the version that was verified and the new hash.\<close>

definition update_check :: "argon2 \<Rightarrow> fault \<Rightarrow> string + string \<Rightarrow> string \<Rightarrow> string \<Rightarrow> auth_db \<Rightarrow>
    (auth_error + int \<times> string) option" where
  "update_check IDKey io random currentPassword newPassword db =
     (case PasswordCredentialsOf io db of
        Inl e \<Rightarrow> Some (Inl (store_failure e))
      | Inr None \<Rightarrow> Some (Inl ErrNotConfigured)
      | Inr (Some credentials) \<Rightarrow>
          if pc_hash credentials = '''' then Some (Inl ErrNotConfigured)
          else if verifyPassword IDKey (pc_hash credentials) currentPassword \<noteq> None then Some (Inl ErrInvalidCredentials)
          else
            (case hashPassword IDKey random newPassword of
               None \<Rightarrow> None
             | Some (Inl e) \<Rightarrow> Some (Inl e)
             | Some (Inr hash) \<Rightarrow> Some (Inr (pc_version credentials, hash))))"

definition update_commit :: "fault \<Rightarrow> int \<Rightarrow> string \<Rightarrow> time \<Rightarrow> auth_service \<Rightarrow> (auth_error option \<times> auth_service) option" where
  "update_commit io version updatedHash now sv =
     (case UpdatePasswordAndRevokeSessions io version updatedHash now (sv_db sv) of
        Inl e \<Rightarrow> Some (Some (if e = ErrPasswordVersionChanged then ErrInvalidCredentials else store_failure e), sv)
      | Inr db \<Rightarrow>
          (case terminateAllSessions Term_PasswordChanged (sv\<lparr>sv_db := db\<rparr>) of
             None \<Rightarrow> None
           | Some sv' \<Rightarrow> Some (None, sv')))"

definition UpdatePassword :: "argon2 \<Rightarrow> fault \<Rightarrow> fault \<Rightarrow> string + string \<Rightarrow> (auth_service \<Rightarrow> auth_service) \<Rightarrow> string \<Rightarrow> string \<Rightarrow>
    time \<Rightarrow> auth_service \<Rightarrow> (auth_error option \<times> auth_service) option" where
  "UpdatePassword IDKey io1 io2 random meanwhile currentPassword newPassword now sv =
     (case update_check IDKey io1 random currentPassword newPassword (sv_db sv) of
        None \<Rightarrow> None
      | Some (Inl e) \<Rightarrow> Some (Some e, sv)
      | Some (Inr (version, hash)) \<Rightarrow> update_commit io2 version hash now (meanwhile sv))"

section \<open>Requests\<close>

definition invalidSessionReason :: "auth_config \<Rightarrow> Session \<Rightarrow> time \<Rightarrow> SessionTerminationReason option" where
  "invalidSessionReason cfg row now =
     (if ses_revoked row \<noteq> None then Some Term_Revoked
      else if \<not> now < ses_created row + SessionAbsoluteLifetime cfg then Some Term_AbsoluteExpired
      else if \<not> now < ses_expires row then Some Term_IdleExpired
      else None)"

record attempt_env =
  ae_now :: "time"
  ae_hub_now :: "time"
  ae_read :: fault
  ae_revoke :: fault
  ae_touch :: fault
  ae_between :: "auth_db \<Rightarrow> auth_db"

fun authenticate_loop :: "auth_config \<Rightarrow> string \<Rightarrow> attempt_env list \<Rightarrow> auth_service \<Rightarrow>
    ((auth_error + AuthSession) \<times> auth_service) option" where
  "authenticate_loop cfg cookie [] sv = Some (Inl ErrConcurrentTouches, sv)"
| "authenticate_loop cfg cookie (e # es) sv =
     (case SessionAtCurrentPasswordVersion (ae_read e) cookie (sv_db sv) of
        Inl err \<Rightarrow>
          if err = ErrStoreNotFound
          then (case terminateSession cookie Term_Revoked sv of None \<Rightarrow> None | Some sv' \<Rightarrow> Some (Inl ErrUnauthorized, sv'))
          else Some (Inl (store_failure err), sv)
      | Inr row \<Rightarrow>
          (let sv1 = sv\<lparr>sv_db := ae_between e (sv_db sv)\<rparr>; now = ae_now e
           in case invalidSessionReason cfg row now of
                Some reason \<Rightarrow>
                  (let sv2 = (case RevokeSession (ae_revoke e) (ses_id row) now (sv_db sv1) of
                                Inl _ \<Rightarrow> sv1 | Inr db \<Rightarrow> sv1\<lparr>sv_db := db\<rparr>)
                   in case terminateSession (ses_id row) reason sv2 of
                        None \<Rightarrow> None | Some sv3 \<Rightarrow> Some (Inl ErrUnauthorized, sv3))
              | None \<Rightarrow>
                  (let nextExpiresAt = minTime (now + SessionIdleTimeout cfg) (ses_created row + SessionAbsoluteLifetime cfg);
                       session = \<lparr>as_id = ses_id row, as_user = ses_user row, as_created = ses_created row,
                                  as_last_seen = ses_last_seen row, as_expires = nextExpiresAt\<rparr>
                   in if time_sub now (ses_last_seen row) \<ge> sessionTouchInterval (SessionIdleTimeout cfg)
                      then
                        (case TouchSession (ae_touch e) (ses_id row) (ses_last_seen row) now nextExpiresAt (sv_db sv1) of
                           Inl err \<Rightarrow> if err = ErrSessionChanged then authenticate_loop cfg cookie es sv1
                                     else Some (Inl (store_failure err), sv1)
                         | Inr db \<Rightarrow>
                             Some (Inr (session\<lparr>as_last_seen := now\<rparr>),
                                   sv1\<lparr>sv_db := db, sv_hub := TouchPersisted (ses_id row) now nextExpiresAt (ae_hub_now e) (sv_hub sv1)\<rparr>))
                      else Some (Inr session,
                                 sv1\<lparr>sv_hub := TouchLease (ses_id row) nextExpiresAt (ae_hub_now e) (sv_hub sv1)\<rparr>))))"

text \<open>\<open>cookie\<close> is the value of the session cookie, absent when the request has none.\<close>

definition AuthenticateRequest :: "auth_config \<Rightarrow> string option \<Rightarrow> attempt_env \<Rightarrow> attempt_env \<Rightarrow> auth_service \<Rightarrow>
    ((auth_error + AuthSession) \<times> auth_service) option" where
  "AuthenticateRequest cfg cookie e1 e2 sv =
     (case cookie of
        None \<Rightarrow> Some (Inl ErrUnauthorized, sv)
      | Some v \<Rightarrow> if v = '''' then Some (Inl ErrUnauthorized, sv) else authenticate_loop cfg v [e1, e2] sv)"

definition AuthenticateWebSocket :: "auth_config \<Rightarrow> string option \<Rightarrow> attempt_env \<Rightarrow> attempt_env \<Rightarrow> time \<Rightarrow> auth_service \<Rightarrow>
    ((auth_error + AuthSession \<times> nat \<times> 64 word option) \<times> auth_service) option" where
  "AuthenticateWebSocket cfg cookie e1 e2 now sv =
     (case AuthenticateRequest cfg cookie e1 e2 sv of
        None \<Rightarrow> None
      | Some (Inl e, sv1) \<Rightarrow> Some (Inl e, sv1)
      | Some (Inr session, sv1) \<Rightarrow>
          (case Subscribe session now (sv_hub sv1) of
             ((c, sub), h) \<Rightarrow> Some (Inr (session, c, sub), sv1\<lparr>sv_hub := h\<rparr>)))"

section \<open>Activity and expiry\<close>

text \<open>The part of \<open>TouchSessionActivity\<close> under the transition mutex, for a touch to persist.\<close>

definition touch_persist :: "auth_config \<Rightarrow> fault \<Rightarrow> fault \<Rightarrow> string \<Rightarrow> sessionActivityTouch \<Rightarrow> time \<Rightarrow> time \<Rightarrow> auth_service \<Rightarrow>
    (auth_error option \<times> auth_service) option" where
  "touch_persist cfg io1 io2 sessionID touch now hubNow sv =
     (case TouchSession io1 sessionID (expectedLastSeenAt touch) (activityAt touch) (expiresAt touch) (sv_db sv) of
        Inr db \<Rightarrow> Some (None, sv\<lparr>sv_db := db,
                   sv_hub := TouchPersisted sessionID (activityAt touch) (expiresAt touch) hubNow (sv_hub sv)\<rparr>)
      | Inl err \<Rightarrow>
          if err = ErrSessionChanged then
            (case SessionAtCurrentPasswordVersion io2 sessionID (sv_db sv) of
               Inl loadErr \<Rightarrow>
                 if loadErr = ErrStoreNotFound
                 then (case terminateSession sessionID Term_Revoked sv of
                         None \<Rightarrow> None | Some sv' \<Rightarrow> Some (Some ErrUnauthorized, sv'))
                 else Some (Some (store_failure loadErr), sv)
             | Inr row \<Rightarrow>
                 (case invalidSessionReason cfg row now of
                    Some reason \<Rightarrow>
                      (case terminateSession sessionID reason sv of
                         None \<Rightarrow> None | Some sv' \<Rightarrow> Some (Some ErrUnauthorized, sv'))
                  | None \<Rightarrow> Some (None, sv\<lparr>sv_hub := TouchPersisted sessionID (ses_last_seen row) (ses_expires row) hubNow (sv_hub sv)\<rparr>)))
          else if err = ErrStoreNotFound then
            (case terminateSession sessionID Term_Revoked sv of
               None \<Rightarrow> None | Some sv' \<Rightarrow> Some (Some ErrUnauthorized, sv'))
          else Some (Some (store_failure err), sv))"

definition expireSession :: "fault \<Rightarrow> string \<Rightarrow> SessionTerminationReason \<Rightarrow> time \<Rightarrow> auth_service \<Rightarrow> auth_service option" where
  "expireSession io sessionID reason now sv =
     (let sv1 = (case RevokeSession io sessionID now (sv_db sv) of Inl _ \<Rightarrow> sv | Inr db \<Rightarrow> sv\<lparr>sv_db := db\<rparr>)
      in terminateSession sessionID reason sv1)"

text \<open>The whole call; an expired lease runs \<open>onExpired\<close>, which is \<open>expireSession\<close>.\<close>

definition TouchSessionActivity :: "auth_config \<Rightarrow> fault \<Rightarrow> fault \<Rightarrow> string \<Rightarrow> time \<Rightarrow> time \<Rightarrow> time \<Rightarrow>
    (auth_service \<Rightarrow> auth_service) \<Rightarrow> auth_service \<Rightarrow> (auth_error option \<times> auth_service) option" where
  "TouchSessionActivity cfg io1 io2 sessionID touchNow now hubNow meanwhile sv =
     (case Touch sessionID touchNow (sv_hub sv) of
        None \<Rightarrow> None
      | Some (touch, Some reason, h) \<Rightarrow>
          (case expireSession io1 sessionID reason now (meanwhile (sv\<lparr>sv_hub := h\<rparr>)) of
             None \<Rightarrow> None | Some sv' \<Rightarrow> Some (Some ErrUnauthorized, sv'))
      | Some (touch, None, h) \<Rightarrow>
          if \<not> active touch then Some (Some ErrUnauthorized, sv\<lparr>sv_hub := h\<rparr>)
          else if \<not> shouldPersist touch then Some (None, sv\<lparr>sv_hub := h\<rparr>)
          else touch_persist cfg io1 io2 sessionID touch now hubNow (meanwhile (sv\<lparr>sv_hub := h\<rparr>)))"

section \<open>Cookies\<close>

record cookie =
  ck_name :: string
  ck_value :: string
  ck_path :: string
  ck_http_only :: bool
  ck_strict :: bool
  ck_secure :: bool
  ck_max_age :: int
  ck_expires :: "time"

definition SessionCookie :: "auth_config \<Rightarrow> AuthSession \<Rightarrow> cookie" where
  "SessionCookie cfg session =
     (let expires = (if \<not> time_is_zero (as_created session) \<and> SessionAbsoluteLifetime cfg > 0
                     then as_created session + SessionAbsoluteLifetime cfg else as_expires session)
      in \<lparr>ck_name = SessionCookieName cfg, ck_value = as_id session, ck_path = ''/'', ck_http_only = True,
          ck_strict = True, ck_secure = CookieSecure cfg, ck_max_age = 0, ck_expires = expires\<rparr>)"

text \<open>\<open>time.Unix(0, 0)\<close>, counted from the zero time.\<close>

definition unix_epoch :: "time" where
  "unix_epoch = 62135596800 * Second"

definition ClearSessionCookie :: "auth_config \<Rightarrow> cookie" where
  "ClearSessionCookie cfg =
     \<lparr>ck_name = SessionCookieName cfg, ck_value = '''', ck_path = ''/'', ck_http_only = True,
      ck_strict = True, ck_secure = CookieSecure cfg, ck_max_age = -1, ck_expires = unix_epoch\<rparr>"

end
