(* ===== verification/Auth_System.thy ===== *)
theory Auth_System
  imports Auth_Service
begin

text \<open>
  The authentication service under concurrency: logins split at their transactions, the
  sections of the transition mutex, hub calls outside it and the pruning of rows, in any
  order.  Session ids come from 32 random bytes; an id that was issued is not issued again,
  which the set \<open>sy_ids\<close> of issued ids records.
\<close>

section \<open>Live sessions\<close>

definition live :: "auth_db \<Rightarrow> string \<Rightarrow> bool" where
  "live db sid \<longleftrightarrow> (case (find_session sid db, adb_password db) of
     (Some s, Some c) \<Rightarrow> ses_revoked s = None \<and> ses_version s = pc_version c | _ \<Rightarrow> False)"

text \<open>What a transaction may do to the sessions issued so far: never revive one, and, when it
  is not a revocation, never leave a live one in the table dead.\<close>

definition evolves :: "string set \<Rightarrow> auth_db \<Rightarrow> auth_db \<Rightarrow> bool" where
  "evolves ids db db' \<longleftrightarrow> (\<forall>sid \<in> ids. \<not> live db sid \<longrightarrow> \<not> live db' sid)"

definition keeps :: "string set \<Rightarrow> auth_db \<Rightarrow> auth_db \<Rightarrow> bool" where
  "keeps ids db db' \<longleftrightarrow> (\<forall>sid \<in> ids. find_session sid db = None \<or> live db sid \<longrightarrow>
      find_session sid db' = None \<or> live db' sid)"

definition rows_in :: "string set \<Rightarrow> auth_db \<Rightarrow> bool" where
  "rows_in ids db \<longleftrightarrow> ses_id ` set (adb_sessions db) \<subseteq> ids"

definition gentle :: "string set \<Rightarrow> string set \<Rightarrow> auth_db \<Rightarrow> auth_db \<Rightarrow> bool" where
  "gentle ids ids' db db' \<longleftrightarrow> auth_db_inv db' \<and> rows_in ids' db' \<and> evolves ids db db' \<and> keeps ids db db'"

definition coherent :: "string set \<Rightarrow> auth_db \<Rightarrow> hub \<Rightarrow> bool" where
  "coherent ids db h \<longleftrightarrow> auth_db_inv db \<and> hub_inv h \<and> rows_in ids db \<and>
     (\<forall>sid t. mget (sessions h) sid = Some t \<longrightarrow> sid \<in> ids \<and> (find_session sid db = None \<or> live db sid))"

lemma evolves_refl [simp]: "evolves ids db db"
  by (simp add: evolves_def)

lemma evolves_trans: "evolves ids a b \<Longrightarrow> evolves ids b c \<Longrightarrow> evolves ids a c"
  by (simp add: evolves_def)

lemma gentle_refl: "auth_db_inv db \<Longrightarrow> rows_in ids db \<Longrightarrow> ids \<subseteq> ids' \<Longrightarrow> gentle ids ids' db db"
  by (auto simp: gentle_def keeps_def rows_in_def)

text \<open>Each transaction.\<close>

lemma live_map_same:
  assumes "\<And>s. ses_id (f s) = ses_id s \<and> ses_version (f s) = ses_version s \<and> ses_revoked (f s) = ses_revoked s"
  shows "live (map_sessions p f db) sid = live db sid"
  using find_session_map [of f sid p db] assms by (auto simp: live_def split: option.splits)

lemma rows_in_map:
  assumes "\<And>s. ses_id (f s) = ses_id s"
  shows "rows_in ids (map_sessions p f db) = rows_in ids db"
proof -
  have "ses_id ` set (adb_sessions (map_sessions p f db)) = ses_id ` set (adb_sessions db)"
  proof -
    have "map ses_id (adb_sessions (map_sessions p f db)) = map ses_id (adb_sessions db)"
      by (simp add: map_sessions_def assms)
    then show ?thesis by (metis set_map)
  qed
  then show ?thesis by (simp add: rows_in_def)
qed

lemma TouchSession_gentle:
  assumes "auth_db_inv db" "rows_in ids db" "TouchSession io sid e l x db = Inr db'" "ids \<subseteq> ids'"
  shows "gentle ids ids' db db'"
proof -
  have db': "db' = map_sessions (\<lambda>s. ses_id s = sid) (\<lambda>s. s\<lparr>ses_last_seen := l, ses_expires := x\<rparr>) db"
    using assms(3) by (auto simp: TouchSession_def split: option.splits if_splits)
  have "live db' s = live db s" "(find_session s db' = None) = (find_session s db = None)" for s
    unfolding db' by (rule live_map_same, simp) (subst find_session_map, simp_all)
  moreover have "rows_in ids' db'" unfolding db' using assms(2,4) by (subst rows_in_map) (auto simp: rows_in_def)
  ultimately show ?thesis
    using TouchSession_inv [OF assms(1,3)] by (simp add: gentle_def evolves_def keeps_def)
qed

lemma prune_gentle:
  assumes "auth_db_inv db" "rows_in ids db" "ids \<subseteq> ids'"
  shows "gentle ids ids' db (prune_sessions c db)"
proof -
  have d: "distinct (map ses_id (adb_sessions db))" using assms(1) by (simp add: auth_db_inv_def)
  have p: "adb_password (prune_sessions c db) = adb_password db" by (simp add: prune_sessions_def)
  have f: "find_session s (prune_sessions c db) = None \<or> find_session s (prune_sessions c db) = find_session s db" for s
    using find_session_prune [OF d] by (cases "find_session s (prune_sessions c db)") auto
  have "evolves ids db (prune_sessions c db)" "keeps ids db (prune_sessions c db)"
    unfolding evolves_def keeps_def live_def p using f by (metis (no_types, lifting) case_prod_conv option.simps(4))+
  moreover have "rows_in ids' (prune_sessions c db)" using assms(2,3) by (auto simp: rows_in_def prune_sessions_def)
  ultimately show ?thesis using prune_sessions_inv [OF assms(1)] by (simp add: gentle_def)
qed

lemma Create_gentle:
  assumes "auth_db_inv db" "rows_in ids db" "CreateSessionAtPasswordVersion io s v db = Inr db'"
    "ses_id s \<notin> ids" "ses_id s \<in> ids'" "ids \<subseteq> ids'"
  shows "gentle ids ids' db db'"
proof -
  have db': "db' = db\<lparr>adb_sessions := adb_sessions db @ [s\<lparr>ses_revoked := None, ses_version := v\<rparr>]\<rparr>"
    using assms(3) by (auto simp: CreateSessionAtPasswordVersion_def split: option.splits if_splits)
  have "find_session sid db' = find_session sid db" if "sid \<in> ids" for sid
    using that assms(4) unfolding db' find_session_append by (auto split: option.splits)
  moreover have "adb_password db' = adb_password db" by (simp add: db')
  ultimately have "evolves ids db db'" "keeps ids db db'" by (simp_all add: evolves_def keeps_def live_def)
  moreover have "rows_in ids' db'" using assms(2,5,6) by (auto simp: rows_in_def db')
  ultimately show ?thesis using CreateSessionAt_inv [OF assms(1,3)] by (simp add: gentle_def)
qed

lemma SetPasswordHash_gentle:
  assumes "auth_db_inv db" "rows_in ids db" "SetPasswordHash io h db = Inr db'" "ids \<subseteq> ids'"
  shows "gentle ids ids' db db'"
proof -
  have s: "adb_sessions db' = adb_sessions db" using assms(3) by (auto simp: SetPasswordHash_def split: option.splits)
  then have f: "find_session sid db' = find_session sid db" for sid by (simp add: find_session_def)
  have "live db' sid = live db sid" for sid
  proof (cases "adb_password db")
    case None
    then have "find_session sid db = None" using assms(1) find_session_SomeD [of sid db]
      by (cases "find_session sid db") (auto simp: auth_db_inv_def)
    then show ?thesis by (simp add: live_def f)
  next
    case (Some c)
    then have "adb_password db' = Some (c\<lparr>pc_hash := h\<rparr>)" using assms(3) by (auto simp: SetPasswordHash_def split: option.splits)
    then show ?thesis using Some by (simp add: live_def f split: option.splits)
  qed
  then show ?thesis
    using SetPasswordHash_inv [OF assms(1,3)] assms(2,4) s f by (auto simp: gentle_def evolves_def keeps_def rows_in_def)
qed

text \<open>A revocation kills its session and leaves the others as they are.\<close>

lemma Revoke_effect:
  assumes "auth_db_inv db" "rows_in ids db" "RevokeSession io sid t db = Inr db'"
  shows "auth_db_inv db'" "rows_in ids db'" "evolves ids db db'" "\<not> live db' sid" "keeps (ids - {sid}) db db'"
proof -
  have db': "db' = map_sessions (\<lambda>s. ses_id s = sid) (\<lambda>s. s\<lparr>ses_revoked := Some t\<rparr>) db"
    using assms(3) by (auto simp: RevokeSession_def split: option.splits if_splits)
  have f: "find_session s db' = map_option (\<lambda>r. if ses_id r = sid then r\<lparr>ses_revoked := Some t\<rparr> else r) (find_session s db)" for s
    unfolding db' by (rule find_session_map) simp
  have p: "adb_password db' = adb_password db" by (simp add: db')
  have other: "find_session s db' = find_session s db" if "s \<noteq> sid" for s
    using f [of s] that find_session_SomeD [of s db] by (cases "find_session s db") auto
  show dead: "\<not> live db' sid"
    using f [of sid] find_session_SomeD [of sid db] by (cases "find_session sid db") (auto simp: live_def split: option.splits)
  show "keeps (ids - {sid}) db db'" using other by (simp add: keeps_def live_def p)
  show "evolves ids db db'" unfolding evolves_def
  proof clarify
    fix s assume "\<not> live db s" "live db' s"
    then show False using dead other [of s] by (cases "s = sid") (auto simp: live_def p)
  qed
  show "auth_db_inv db'" by (rule RevokeSession_inv [OF assms(1,3)])
  show "rows_in ids db'" unfolding db' using assms(2) by (subst rows_in_map) simp_all
qed

text \<open>A password change leaves no session live.\<close>

lemma Update_effect:
  assumes "auth_db_inv db" "rows_in ids db" "UpdatePasswordAndRevokeSessions io v h t db = Inr db'"
  shows "auth_db_inv db'" "rows_in ids db'" "\<not> live db' sid"
proof -
  obtain c where c: "adb_password db = Some c"
    and db': "db' = map_sessions (\<lambda>s. ses_revoked s = None) (\<lambda>s. s\<lparr>ses_revoked := Some t\<rparr>)
      (db\<lparr>adb_password := Some \<lparr>pc_hash = h, pc_version = pc_version c + 1\<rparr>\<rparr>)"
    using assms(3) by (auto simp: UpdatePasswordAndRevokeSessions_def split: option.splits if_splits)
  show "auth_db_inv db'" by (rule UpdatePassword_inv [OF assms(1,3)])
  show "rows_in ids db'" unfolding db' using assms(2) by (subst rows_in_map) (simp_all add: rows_in_def)
  have "find_session sid db' = map_option (\<lambda>r. if ses_revoked r = None then r\<lparr>ses_revoked := Some t\<rparr> else r) (find_session sid db)"
    unfolding db' by (subst find_session_map) simp_all
  then show "\<not> live db' sid" by (cases "find_session sid db") (auto simp: live_def split: option.splits)
qed

section \<open>Coherence of the hub and the tables\<close>

lemma coherentD:
  assumes "coherent ids db h"
  shows "auth_db_inv db" "hub_inv h" "rows_in ids db"
    "mget (sessions h) sid = Some t \<Longrightarrow> sid \<in> ids" "mget (sessions h) sid = Some t \<Longrightarrow> find_session sid db = None \<or> live db sid"
  using assms unfolding coherent_def by blast+

lemma coherent_gentle:
  assumes C: "coherent ids db h" and g: "gentle ids ids' db db'" and ids: "ids \<subseteq> ids'"
  shows "coherent ids' db' h"
  using coherentD(2,4,5) [OF C] g ids unfolding coherent_def gentle_def keeps_def by blast

text \<open>A hub whose tracked sessions were all tracked before stays coherent.\<close>

lemma coherent_hub:
  assumes C: "coherent ids db h" and "hub_inv h'"
    and "\<And>sid t. mget (sessions h') sid = Some t \<Longrightarrow> mget (sessions h) sid \<noteq> None"
  shows "coherent ids db h'"
  using coherentD [OF C] assms(2,3) unfolding coherent_def by (metis option.exhaust)

lemma coherent_terminate:
  assumes C: "coherent ids db h"
  obtains h' where "Terminate sid reason h = Some h'" "coherent ids db h'" "mget (sessions h') sid = None"
    "\<And>s t. mget (sessions h') s = Some t \<Longrightarrow> mget (sessions h) s = Some t"
proof -
  obtain h' where h': "terminateLocked sid reason h = Some h'" "hub_inv h'" "mget (sessions h') sid = None"
    "sessions h' = mdel sid (sessions h)"
    by (rule terminateLocked_inv [OF coherentD(2) [OF C]])
  have sub: "mget (sessions h) s = Some t" if "mget (sessions h') s = Some t" for s t
    using that by (simp add: h'(4) mget_del split: if_splits)
  show ?thesis
  proof (rule that [of h'])
    show "coherent ids db h'" by (rule coherent_hub [OF C h'(2)]) (use sub in fastforce)
  qed (use h' sub in \<open>simp_all add: Terminate_def\<close>)
qed

lemma notify_simps [simp]:
  "sv_db (notifySessionTermination t sv) = sv_db sv" "sv_hub (notifySessionTermination t sv) = sv_hub sv"
  by (simp_all add: notifySessionTermination_def)

lemma terminateSession_coherent:
  assumes "coherent ids (sv_db sv) (sv_hub sv)"
  obtains sv' where "terminateSession sid reason sv = Some sv'" "coherent ids (sv_db sv') (sv_hub sv')"
    "sv_db sv' = sv_db sv" "mget (sessions (sv_hub sv')) sid = None"
    "\<And>s t. mget (sessions (sv_hub sv')) s = Some t \<Longrightarrow> mget (sessions (sv_hub sv)) s = Some t"
proof (rule coherent_terminate [OF assms, of sid reason])
  fix h'
  assume "Terminate sid reason (sv_hub sv) = Some h'" "coherent ids (sv_db sv) h'" "mget (sessions h') sid = None"
    "\<And>s t. mget (sessions h') s = Some t \<Longrightarrow> mget (sessions (sv_hub sv)) s = Some t"
  then show ?thesis
    by (intro that [of "notifySessionTermination \<lparr>term_session = sid, term_all = False, term_reason = reason\<rparr> (sv\<lparr>sv_hub := h'\<rparr>)"])
       (simp_all add: terminateSession_def)
qed

text \<open>Revoke, then terminate: the pattern of logout, expiry and rejected requests.\<close>

lemma revoke_terminate:
  assumes C: "coherent ids (sv_db sv) (sv_hub sv)"
    and db: "db = (case RevokeSession io sid t (sv_db sv) of Inl _ \<Rightarrow> sv_db sv | Inr db \<Rightarrow> db)"
  obtains sv' where "terminateSession sid reason (sv\<lparr>sv_db := db\<rparr>) = Some sv'" "coherent ids (sv_db sv') (sv_hub sv')"
    "sv_db sv' = db" "evolves ids (sv_db sv) db"
proof (cases "RevokeSession io sid t (sv_db sv)")
  case (Inl e)
  then have "db = sv_db sv" using db by simp
  then show ?thesis using terminateSession_coherent [OF C, of sid reason] that by (metis auth_service.surjective auth_service.update_convs(1) evolves_refl)
next
  case (Inr db1)
  then have d: "db = db1" using db by simp
  note R = Revoke_effect [OF coherentD(1,3) [OF C] Inr]
  obtain h' where h': "Terminate sid reason (sv_hub sv) = Some h'" "coherent ids (sv_db sv) h'" "mget (sessions h') sid = None"
    by (rule coherent_terminate [OF C])
  have "coherent ids db1 h'"
    unfolding coherent_def
  proof (intro conjI allI impI)
    fix s u assume s: "mget (sessions h') s = Some u"
    then show "s \<in> ids" by (rule coherentD(4) [OF h'(2)])
    have "s \<noteq> sid" using s h'(3) by auto
    then show "find_session s db1 = None \<or> live db1 s"
      using R(5) coherentD(4,5) [OF h'(2) s] unfolding keeps_def by blast
  qed (use R(1,2) coherentD(2) [OF h'(2)] in simp_all)
  then show ?thesis
    using h'(1) R(3) d
    by (intro that [of "notifySessionTermination \<lparr>term_session = sid, term_all = False, term_reason = reason\<rparr> (sv\<lparr>sv_db := db, sv_hub := h'\<rparr>)"])
       (simp_all add: terminateSession_def)
qed

lemma touch_hub_sessions:
  "mget (sessions (TouchPersisted sid l x now h)) s = Some t \<Longrightarrow> mget (sessions h) s \<noteq> None"
  "mget (sessions (TouchLease sid x now h)) s = Some t \<Longrightarrow> mget (sessions h) s \<noteq> None"
  by (auto simp: TouchPersisted_def TouchLease_def Let_def scheduleLocked_def mget_put split: option.splits if_splits)

lemma coherent_touch:
  assumes "coherent ids db h"
  shows "coherent ids db (TouchPersisted sid l x now h)" "coherent ids db (TouchLease sid x now h)"
  by (rule coherent_hub [OF assms TouchPersisted_inv [OF coherentD(2) [OF assms]] touch_hub_sessions(1)], assumption)
     (rule coherent_hub [OF assms TouchLease_inv [OF coherentD(2) [OF assms]] touch_hub_sessions(2)], assumption)

section \<open>Authentication\<close>

text \<open>What may happen to the tables between two statements of an authentication.\<close>

definition background :: "string set \<Rightarrow> auth_db \<Rightarrow> auth_db \<Rightarrow> bool" where
  "background fresh db db' \<longleftrightarrow> db' = db \<or> (\<exists>c. db' = prune_sessions c db) \<or>
     (\<exists>io s v. CreateSessionAtPasswordVersion io s v db = Inr db' \<and> ses_id s \<in> fresh)"

text \<open>\<open>ids\<close> were issued before, \<open>ids'\<close> are issued afterwards.\<close>

fun calm :: "string set \<Rightarrow> string set \<Rightarrow> attempt_env list \<Rightarrow> bool" where
  "calm ids ids' [] \<longleftrightarrow> ids \<subseteq> ids'"
| "calm ids ids' (e # es) \<longleftrightarrow> (\<exists>fresh. ids \<inter> fresh = {} \<and>
     (\<forall>db. background fresh db (ae_between e db)) \<and> calm (ids \<union> fresh) ids' es)"

lemma calm_subset: "calm ids ids' es \<Longrightarrow> ids \<subseteq> ids'"
  by (induction ids ids' es rule: calm.induct) auto

lemma background_gentle:
  assumes "auth_db_inv db" "rows_in ids db" "background fresh db db'" "ids \<inter> fresh = {}"
  shows "gentle ids (ids \<union> fresh) db db'"
  using assms unfolding background_def
  by (auto intro: gentle_refl prune_gentle Create_gentle)

lemma backgroundE:
  assumes "background fresh db db'"
  obtains "db' = db" | c where "db' = prune_sessions c db"
    | r where "db' = db\<lparr>adb_sessions := adb_sessions db @ [r]\<rparr>"
proof -
  have "\<exists>r. db' = db\<lparr>adb_sessions := adb_sessions db @ [r]\<rparr>"
    if "CreateSessionAtPasswordVersion io r v db = Inr db'" for io r v
    using that by (auto simp: CreateSessionAtPasswordVersion_def split: option.splits if_splits)
  then show ?thesis using assms that unfolding background_def by blast
qed

lemma background_rows:
  assumes "background fresh db db'" "auth_db_inv db"
  shows "find_session sid db = Some s \<Longrightarrow> find_session sid db' = None \<or> find_session sid db' = Some s"
    "adb_password db' = adb_password db"
proof -
  have d: "distinct (map ses_id (adb_sessions db))" using assms(2) by (simp add: auth_db_inv_def)
  show "adb_password db' = adb_password db"
    using assms(1) by (cases rule: backgroundE) (simp_all add: prune_sessions_def)
  show "find_session sid db' = None \<or> find_session sid db' = Some s" if s: "find_session sid db = Some s"
    using assms(1)
  proof (cases rule: backgroundE)
    case (2 c)
    then show ?thesis using find_session_prune [OF d, of sid c] s by (cases "find_session sid db'") auto
  qed (use s in \<open>simp_all add: find_session_append\<close>)
qed

text \<open>The row an authentication starts from.\<close>

lemma current_row:
  assumes "SessionAtCurrentPasswordVersion io sid db = Inr row" "auth_db_inv db"
  shows "find_session sid db = Some row" "ses_id row = sid" "ses_revoked row = None \<Longrightarrow> live db sid"
  using assms find_session_SomeD [of sid db row]
  by (auto simp: SessionAtCurrentPasswordVersion_def live_def split: option.splits if_splits)

lemma not_invalid:
  "invalidSessionReason cfg row now = None \<longleftrightarrow>
     ses_revoked row = None \<and> now < ses_created row + SessionAbsoluteLifetime cfg \<and> now < ses_expires row"
  by (simp add: invalidSessionReason_def)

definition auth_ok :: "string set \<Rightarrow> string set \<Rightarrow> string \<Rightarrow> auth_service \<Rightarrow> (auth_error + AuthSession) \<Rightarrow> auth_service \<Rightarrow> bool" where
  "auth_ok ids ids' cookie sv r sv' \<longleftrightarrow> coherent ids' (sv_db sv') (sv_hub sv') \<and> evolves ids (sv_db sv) (sv_db sv') \<and>
     (\<forall>s. r = Inr s \<longrightarrow> as_id s = cookie \<and> (find_session cookie (sv_db sv') = None \<or> live (sv_db sv') cookie) \<and>
        cookie \<in> ids' \<and> (cookie \<in> ids \<longrightarrow> live (sv_db sv) cookie))"

lemma authenticate_step:
  assumes C: "coherent ids (sv_db sv) (sv_hub sv)" and B: "background fresh (sv_db sv) db1" and dis: "ids \<inter> fresh = {}"
    and row: "SessionAtCurrentPasswordVersion io cookie (sv_db sv) = Inr row"
  shows "coherent (ids \<union> fresh) db1 (sv_hub sv)" "evolves ids (sv_db sv) db1" "ses_id row = cookie" "cookie \<in> ids"
    "ses_revoked row = None \<Longrightarrow> live (sv_db sv) cookie \<and> (find_session cookie db1 = None \<or> live db1 cookie)"
proof -
  note I = coherentD(1,3) [OF C] and R = current_row [OF row coherentD(1) [OF C]]
  have g: "gentle ids (ids \<union> fresh) (sv_db sv) db1" by (rule background_gentle [OF I B dis])
  show "coherent (ids \<union> fresh) db1 (sv_hub sv)" by (rule coherent_gentle [OF C g]) simp
  show "evolves ids (sv_db sv) db1" using g by (simp add: gentle_def)
  show "ses_id row = cookie" by (rule R(2))
  show "cookie \<in> ids" using I(2) find_session_SomeD [OF R(1)] by (auto simp: rows_in_def)
  show "live (sv_db sv) cookie \<and> (find_session cookie db1 = None \<or> live db1 cookie)" if "ses_revoked row = None"
  proof -
    have "live (sv_db sv) cookie" by (rule R(3) [OF that])
    then show ?thesis
      using background_rows(1) [OF B I(1) R(1)] background_rows(2) [OF B I(1)] R(1) unfolding live_def by auto
  qed
qed

lemma coherent_mono: "coherent ids db h \<Longrightarrow> ids \<subseteq> ids' \<Longrightarrow> coherent ids' db h"
  unfolding coherent_def rows_in_def by blast

lemma evolves_subset: "evolves ids' db db' \<Longrightarrow> ids \<subseteq> ids' \<Longrightarrow> evolves ids db db'"
  unfolding evolves_def by blast

lemma auth_ok_fail:
  "coherent ids' (sv_db sv') (sv_hub sv') \<Longrightarrow> evolves ids (sv_db sv) (sv_db sv') \<Longrightarrow> auth_ok ids ids' cookie sv (Inl e) sv'"
  by (simp add: auth_ok_def)

lemma authenticate_rejected:
  assumes C: "coherent ids (sv_db sv) (sv_hub sv)"
  shows "\<exists>sv3. terminateSession sid reason
      (case RevokeSession io sid t (sv_db sv) of Inl _ \<Rightarrow> sv | Inr db \<Rightarrow> sv\<lparr>sv_db := db\<rparr>) = Some sv3 \<and>
    coherent ids (sv_db sv3) (sv_hub sv3) \<and> evolves ids (sv_db sv) (sv_db sv3)"
proof -
  have eq: "(case RevokeSession io sid t (sv_db sv) of Inl _ \<Rightarrow> sv | Inr db \<Rightarrow> sv\<lparr>sv_db := db\<rparr>) =
      sv\<lparr>sv_db := (case RevokeSession io sid t (sv_db sv) of Inl _ \<Rightarrow> sv_db sv | Inr db \<Rightarrow> db)\<rparr>"
    by (cases "RevokeSession io sid t (sv_db sv)") simp_all
  show ?thesis unfolding eq by (rule revoke_terminate [OF C refl, where io = io and sid = sid and t = t and reason = reason]) metis
qed

lemma authenticate_loop_ok:
  assumes "coherent ids (sv_db sv) (sv_hub sv)" "calm ids ids' es"
  shows "\<exists>r sv'. authenticate_loop cfg cookie es sv = Some (r, sv') \<and> auth_ok ids ids' cookie sv r sv'"
  using assms
proof (induction es arbitrary: ids sv)
  case Nil
  then show ?case using coherent_mono by (auto intro!: auth_ok_fail)
next
  case (Cons e es)
  note C = Cons.prems(1)
  obtain fresh where f: "ids \<inter> fresh = {}" "background fresh (sv_db sv) (ae_between e (sv_db sv))" "calm (ids \<union> fresh) ids' es"
    using Cons.prems(2) by auto
  have sub: "ids \<union> fresh \<subseteq> ids'" "ids \<subseteq> ids'" using calm_subset [OF f(3)] by auto
  define sv1 where "sv1 = sv\<lparr>sv_db := ae_between e (sv_db sv)\<rparr>"
  show ?case
  proof (cases "SessionAtCurrentPasswordVersion (ae_read e) cookie (sv_db sv)")
    case (Inl err)
    have "\<exists>sv'. terminateSession cookie Term_Revoked sv = Some sv' \<and> auth_ok ids ids' cookie sv (Inl ErrUnauthorized) sv'"
      by (rule terminateSession_coherent [OF C, of cookie Term_Revoked])
         (metis auth_ok_fail coherent_mono evolves_refl sub(2))
    moreover have "auth_ok ids ids' cookie sv (Inl (store_failure err)) sv"
      by (rule auth_ok_fail [OF coherent_mono [OF C sub(2)]]) simp
    ultimately show ?thesis using Inl by (auto split: option.splits)
  next
    case (Inr row)
    note S = authenticate_step [OF C f(2,1) Inr]
    have C1: "coherent (ids \<union> fresh) (sv_db sv1) (sv_hub sv1)" and E1: "evolves ids (sv_db sv) (sv_db sv1)"
      using S(1,2) by (simp_all add: sv1_def)
    show ?thesis
    proof (cases "invalidSessionReason cfg row (ae_now e)")
      case (Some reason)
      obtain sv3 where sv3: "terminateSession cookie reason
          (case RevokeSession (ae_revoke e) cookie (ae_now e) (sv_db sv1) of Inl _ \<Rightarrow> sv1 | Inr db \<Rightarrow> sv1\<lparr>sv_db := db\<rparr>) = Some sv3"
        "coherent (ids \<union> fresh) (sv_db sv3) (sv_hub sv3)" "evolves (ids \<union> fresh) (sv_db sv1) (sv_db sv3)"
        using authenticate_rejected [OF C1] by blast
      have "auth_ok ids ids' cookie sv (Inl ErrUnauthorized) sv3"
        by (rule auth_ok_fail [OF coherent_mono [OF sv3(2) sub(1)] evolves_trans [OF E1 evolves_subset [OF sv3(3)]]]) simp
      then show ?thesis using Inr Some sv3(1) S(3) by (auto simp: Let_def sv1_def [symmetric])
    next
      case None
      then have L: "live (sv_db sv) cookie" "find_session cookie (sv_db sv1) = None \<or> live (sv_db sv1) cookie"
        using S(5) by (simp_all add: not_invalid sv1_def)
      define nx where "nx = min (ae_now e + SessionIdleTimeout cfg) (ses_created row + SessionAbsoluteLifetime cfg)"
      define s where "s = \<lparr>as_id = ses_id row, as_user = ses_user row, as_created = ses_created row,
          as_last_seen = ses_last_seen row, as_expires = nx\<rparr>"
      show ?thesis
      proof (cases "time_sub (ae_now e) (ses_last_seen row) \<ge> sessionTouchInterval (SessionIdleTimeout cfg)")
        case False
        have "auth_ok ids ids' cookie sv (Inr s) (sv1\<lparr>sv_hub := TouchLease cookie nx (ae_hub_now e) (sv_hub sv1)\<rparr>)"
          unfolding auth_ok_def using coherent_mono [OF coherent_touch(2) [OF C1] sub(1)] E1 L S(3,4) sub
          by (auto simp: s_def)
        then show ?thesis using Inr None False S(3)
          by (simp add: Let_def sv1_def [symmetric] nx_def [symmetric] s_def)
      next
        case True
        note go = Inr None True S(3)
        show ?thesis
        proof (cases "TouchSession (ae_touch e) cookie (ses_last_seen row) (ae_now e) nx (sv_db sv1)")
          case (Inl err)
          show ?thesis
          proof (cases "err = ErrSessionChanged")
            case True
            obtain r sv' where IH: "authenticate_loop cfg cookie es sv1 = Some (r, sv')" "auth_ok (ids \<union> fresh) ids' cookie sv1 r sv'"
              using Cons.IH [OF C1 f(3)] by blast
            have "auth_ok ids ids' cookie sv r sv'"
              using IH(2) E1 L(1) evolves_trans [OF E1] evolves_subset unfolding auth_ok_def by blast
            then show ?thesis using go Inl True IH(1) by (simp add: Let_def sv1_def [symmetric] nx_def [symmetric])
          next
            case False
            have "auth_ok ids ids' cookie sv (Inl (store_failure err)) sv1"
              by (rule auth_ok_fail [OF coherent_mono [OF C1 sub(1)] E1])
            then show ?thesis using go Inl False by (simp add: Let_def sv1_def [symmetric] nx_def [symmetric])
          qed
        next
          case (Inr db)
          have g: "gentle (ids \<union> fresh) (ids \<union> fresh) (sv_db sv1) db"
            by (rule TouchSession_gentle [OF coherentD(1,3) [OF C1] Inr]) simp
          have C2: "coherent (ids \<union> fresh) db (sv_hub sv1)" by (rule coherent_gentle [OF C1 g]) simp
          have "find_session cookie db = None \<or> live db cookie" "evolves ids (sv_db sv) db"
            using g L(2) S(4) evolves_trans [OF E1] evolves_subset unfolding gentle_def keeps_def by blast+
          then have "auth_ok ids ids' cookie sv (Inr (s\<lparr>as_last_seen := ae_now e\<rparr>))
              (sv1\<lparr>sv_db := db, sv_hub := TouchPersisted cookie (ae_now e) nx (ae_hub_now e) (sv_hub sv1)\<rparr>)"
            unfolding auth_ok_def using coherent_mono [OF coherent_touch(1) [OF C2] sub(1)] L(1) S(3,4) sub
            by (auto simp: s_def)
          then show ?thesis using go Inr
            by (simp add: Let_def sv1_def [symmetric] nx_def [symmetric] s_def)
        qed
      qed
    qed
  qed
qed

section \<open>The system\<close>

record auth_sys =
  sy_sv :: auth_service
  sy_pending :: "(string \<times> time \<times> PasswordCredentials) list"
  sy_ids :: "string set"

inductive auth_step :: "argon2 \<Rightarrow> auth_config \<Rightarrow> auth_sys \<Rightarrow> auth_sys \<Rightarrow> bool"
  for IDKey :: argon2 and cfg :: auth_config where
  bootstrap: "Bootstrap IDKey cfg io1 io2 random (sv_db (sy_sv y)) = Some (r, db) \<Longrightarrow>
    auth_step IDKey cfg y (y\<lparr>sy_sv := (sy_sv y)\<lparr>sv_db := db\<rparr>\<rparr>)"
| begin_login: "login_begin cfg ctxErr ip now (sy_sv y) = (r, sv) \<Longrightarrow> auth_step IDKey cfg y (y\<lparr>sy_sv := sv\<rparr>)"
| verify: "login_verify IDKey cfg io password ip now (sy_sv y) = (r, sv) \<Longrightarrow>
    auth_step IDKey cfg y (y\<lparr>sy_sv := sv,
      sy_pending := (case r of Inr c \<Rightarrow> (ip, now, c) # sy_pending y | Inl _ \<Rightarrow> sy_pending y)\<rparr>)"
| create: "(ip, now, c) \<in> set (sy_pending y) \<Longrightarrow> sid \<notin> sy_ids y \<Longrightarrow>
    login_create cfg io (Inr sid) agent ip now c (sy_sv y) = (r, sv) \<Longrightarrow>
    auth_step IDKey cfg y (y\<lparr>sy_sv := sv, sy_pending := remove1 (ip, now, c) (sy_pending y), sy_ids := insert sid (sy_ids y)\<rparr>)"
| release: "auth_step IDKey cfg y (y\<lparr>sy_sv := (sy_sv y)\<lparr>sv_gate := releaseLoginVerification key (sv_gate (sy_sv y))\<rparr>\<rparr>)"
| logout: "Logout io sid now (sy_sv y) = Some (r, sv) \<Longrightarrow> auth_step IDKey cfg y (y\<lparr>sy_sv := sv\<rparr>)"
| update: "update_commit io v h now (sy_sv y) = Some (r, sv) \<Longrightarrow> auth_step IDKey cfg y (y\<lparr>sy_sv := sv\<rparr>)"
| request: "calm (sy_ids y) ids' [e1, e2] \<Longrightarrow> AuthenticateRequest cfg cookie e1 e2 (sy_sv y) = Some (r, sv) \<Longrightarrow>
    auth_step IDKey cfg y (y\<lparr>sy_sv := sv, sy_ids := ids'\<rparr>)"
| websocket: "calm (sy_ids y) ids' [e1, e2] \<Longrightarrow> AuthenticateWebSocket cfg cookie e1 e2 now (sy_sv y) = Some (w, sv) \<Longrightarrow>
    auth_step IDKey cfg y (y\<lparr>sy_sv := sv, sy_ids := ids'\<rparr>)"
| touch: "Touch sid now (sv_hub (sy_sv y)) = Some (t, e, h) \<Longrightarrow> auth_step IDKey cfg y (y\<lparr>sy_sv := (sy_sv y)\<lparr>sv_hub := h\<rparr>\<rparr>)"
| persist: "touch_persist cfg io1 io2 sid t now hubNow (sy_sv y) = Some (r, sv) \<Longrightarrow> auth_step IDKey cfg y (y\<lparr>sy_sv := sv\<rparr>)"
| timer: "expire sid now (sv_hub (sy_sv y)) = Some (e, h) \<Longrightarrow> auth_step IDKey cfg y (y\<lparr>sy_sv := (sy_sv y)\<lparr>sv_hub := h\<rparr>\<rparr>)"
| expired: "expireSession io sid reason now (sy_sv y) = Some sv \<Longrightarrow> auth_step IDKey cfg y (y\<lparr>sy_sv := sv\<rparr>)"
| unsubscribe: "auth_step IDKey cfg y (y\<lparr>sy_sv := (sy_sv y)\<lparr>sv_hub := unsubscribe sid sub (sv_hub (sy_sv y))\<rparr>\<rparr>)"
| prune: "auth_step IDKey cfg y (y\<lparr>sy_sv := (sy_sv y)\<lparr>sv_db := prune_sessions c (sv_db (sy_sv y))\<rparr>\<rparr>)"

inductive auth_reachable :: "argon2 \<Rightarrow> auth_config \<Rightarrow> auth_sys \<Rightarrow> bool" for IDKey :: argon2 and cfg :: auth_config where
  init: "auth_reachable IDKey cfg \<lparr>sy_sv = NewService cfg empty_auth_db, sy_pending = [], sy_ids = {}\<rparr>"
| step: "auth_reachable IDKey cfg y \<Longrightarrow> auth_step IDKey cfg y y' \<Longrightarrow> auth_reachable IDKey cfg y'"

definition sys_coherent :: "auth_sys \<Rightarrow> bool" where
  "sys_coherent y \<longleftrightarrow> coherent (sy_ids y) (sv_db (sy_sv y)) (sv_hub (sy_sv y))"

definition sys_next :: "auth_sys \<Rightarrow> auth_sys \<Rightarrow> bool" where
  "sys_next y y' \<longleftrightarrow> sys_coherent y' \<and> sy_ids y \<subseteq> sy_ids y' \<and> evolves (sy_ids y) (sv_db (sy_sv y)) (sv_db (sy_sv y'))"

lemma sys_next_db:
  assumes "sys_coherent y" "gentle (sy_ids y) (sy_ids y') (sv_db (sy_sv y)) (sv_db (sy_sv y'))" "sy_ids y \<subseteq> sy_ids y'"
    "sv_hub (sy_sv y') = sv_hub (sy_sv y)"
  shows "sys_next y y'"
  using coherent_gentle [OF assms(1) [unfolded sys_coherent_def] assms(2,3)] assms(2-4)
  by (simp add: sys_next_def sys_coherent_def gentle_def)

lemma sys_next_hub:
  assumes "sys_coherent y" "sv_db (sy_sv y') = sv_db (sy_sv y)" "sy_ids y' = sy_ids y" "hub_inv (sv_hub (sy_sv y'))"
    "\<And>s t. mget (sessions (sv_hub (sy_sv y'))) s = Some t \<Longrightarrow> mget (sessions (sv_hub (sy_sv y))) s \<noteq> None"
  shows "sys_next y y'"
  using coherent_hub [OF assms(1) [unfolded sys_coherent_def] assms(4,5)] assms(2,3)
  by (simp add: sys_next_def sys_coherent_def)

lemma sys_next_same:
  assumes "sys_coherent y" "sv_db (sy_sv y') = sv_db (sy_sv y)" "sv_hub (sy_sv y') = sv_hub (sy_sv y)" "sy_ids y \<subseteq> sy_ids y'"
  shows "sys_next y y'"
  using assms coherent_mono by (auto simp: sys_next_def sys_coherent_def)

lemma hub_shrinks:
  "Touch sid now h = Some (r, e, h') \<Longrightarrow> mget (sessions h') s = Some t \<Longrightarrow> mget (sessions h) s \<noteq> None"
  "expire sid now h = Some (e', h') \<Longrightarrow> mget (sessions h') s = Some t \<Longrightarrow> mget (sessions h) s \<noteq> None"
  "mget (sessions (unsubscribe sid sub h)) s = Some t \<Longrightarrow> mget (sessions h) s \<noteq> None"
  by (auto simp: Touch_def expire_def unsubscribe_def terminateLocked_def scheduleLocked_def Let_def mget_put mget_del
      split: option.splits if_splits)

lemma AuthenticateRequest_ok:
  assumes "coherent ids (sv_db sv) (sv_hub sv)" "calm ids ids' [e1, e2]"
  shows "\<exists>r sv'. AuthenticateRequest cfg cookie e1 e2 sv = Some (r, sv') \<and> auth_ok ids ids' (case cookie of Some v \<Rightarrow> v | None \<Rightarrow> '''') sv r sv'"
  using authenticate_loop_ok [OF assms, of cfg] auth_ok_fail [OF coherent_mono [OF assms(1) calm_subset [OF assms(2)]]]
  by (auto simp: AuthenticateRequest_def split: option.splits simp del: calm.simps)

lemma Subscribe_sessions:
  "mget (sessions (snd (Subscribe s now h))) sid = Some t \<Longrightarrow> sid = as_id s \<or> mget (sessions h) sid \<noteq> None"
  by (auto simp: Subscribe_def Let_def make_chan_def scheduleLocked_def mget_put split: if_splits)

lemma websocket_ok:
  assumes C: "coherent ids (sv_db sv) (sv_hub sv)" and c: "calm ids ids' [e1, e2]"
  shows "\<exists>w sv'. AuthenticateWebSocket cfg cookie e1 e2 now sv = Some (w, sv') \<and>
    coherent ids' (sv_db sv') (sv_hub sv') \<and> evolves ids (sv_db sv) (sv_db sv')"
proof -
  obtain r sv1 where r: "AuthenticateRequest cfg cookie e1 e2 sv = Some (r, sv1)"
    "auth_ok ids ids' (case cookie of Some v \<Rightarrow> v | None \<Rightarrow> '''') sv r sv1"
    using AuthenticateRequest_ok [OF assms] by blast
  have C1: "coherent ids' (sv_db sv1) (sv_hub sv1)" and E1: "evolves ids (sv_db sv) (sv_db sv1)" using r(2) by (simp_all add: auth_ok_def)
  show ?thesis
  proof (cases r)
    case (Inl e)
    then show ?thesis using r C1 E1 by (simp add: AuthenticateWebSocket_def)
  next
    case (Inr s)
    obtain c sub h where S: "Subscribe s now (sv_hub sv1) = ((c, sub), h)" by (metis surj_pair)
    have "as_id s \<in> ids'" "find_session (as_id s) (sv_db sv1) = None \<or> live (sv_db sv1) (as_id s)"
      using r(2) Inr by (auto simp: auth_ok_def)
    then have "coherent ids' (sv_db sv1) h"
      using C1 Subscribe_inv [OF coherentD(2) [OF C1], of s now] Subscribe_sessions [of s now "sv_hub sv1"] S
      unfolding coherent_def by (metis not_Some_eq snd_conv)
    then show ?thesis using r(1) Inr S E1 by (simp add: AuthenticateWebSocket_def)
  qed
qed

lemma Logout_next:
  assumes C: "coherent ids (sv_db sv) (sv_hub sv)" and L: "Logout io sid now sv = Some (r, sv')"
  shows "coherent ids (sv_db sv') (sv_hub sv') \<and> evolves ids (sv_db sv) (sv_db sv')"
proof (cases "RevokeSession io sid now (sv_db sv)")
  case (Inl e)
  then show ?thesis using assms by (auto simp: Logout_def split: if_splits)
next
  case (Inr db)
  obtain sv1 where "terminateSession sid Term_Logout (sv\<lparr>sv_db := db\<rparr>) = Some sv1"
    "coherent ids (sv_db sv1) (sv_hub sv1)" "sv_db sv1 = db" "evolves ids (sv_db sv) db"
    by (rule revoke_terminate [OF C, where io = io and sid = sid and t = now and reason = Term_Logout and db = db])
       (simp_all add: Inr)
  then show ?thesis using L Inr C by (auto simp: Logout_def split: if_splits)
qed

lemma update_next:
  assumes C: "coherent ids (sv_db sv) (sv_hub sv)" and U: "update_commit io v h now sv = Some (r, sv')"
  shows "coherent ids (sv_db sv') (sv_hub sv') \<and> evolves ids (sv_db sv) (sv_db sv')"
    "r = None \<Longrightarrow> \<not> live (sv_db sv') sid \<and> sessions (sv_hub sv') = []"
proof -
  have "(coherent ids (sv_db sv') (sv_hub sv') \<and> evolves ids (sv_db sv) (sv_db sv')) \<and>
    (r = None \<longrightarrow> \<not> live (sv_db sv') sid \<and> sessions (sv_hub sv') = [])"
  proof (cases "UpdatePasswordAndRevokeSessions io v h now (sv_db sv)")
    case (Inl e)
    then show ?thesis using assms by (auto simp: update_commit_def)
  next
    case (Inr db)
    note E = Update_effect [OF coherentD(1,3) [OF C] Inr]
    obtain h' where h': "TerminateAll Term_PasswordChanged (sv_hub sv) = Some h'" "hub_inv h'" "sessions h' = []"
      by (rule TerminateAll_inv [OF coherentD(2) [OF C]])
    then have "sv_db sv' = db" "sv_hub sv' = h'" using U Inr by (auto simp: update_commit_def terminateAllSessions_def)
    then show ?thesis using E h' by (simp add: coherent_def evolves_def)
  qed
  then show "coherent ids (sv_db sv') (sv_hub sv') \<and> evolves ids (sv_db sv) (sv_db sv')"
    "r = None \<Longrightarrow> \<not> live (sv_db sv') sid \<and> sessions (sv_hub sv') = []" by blast+
qed

lemma persist_next:
  assumes C: "coherent ids (sv_db sv) (sv_hub sv)" and P: "touch_persist cfg io1 io2 sid t now hubNow sv = Some (r, sv')"
  shows "coherent ids (sv_db sv') (sv_hub sv') \<and> evolves ids (sv_db sv) (sv_db sv')"
proof (cases "TouchSession io1 sid (expectedLastSeenAt t) (activityAt t) (expiresAt t) (sv_db sv)")
  case (Inr db)
  have g: "gentle ids ids (sv_db sv) db" by (rule TouchSession_gentle [OF coherentD(1,3) [OF C] Inr]) simp
  have "coherent ids db (sv_hub sv)" by (rule coherent_gentle [OF C g]) simp
  then show ?thesis using P Inr g coherent_touch(1) by (auto simp: touch_persist_def gentle_def)
next
  case (Inl err)
  have ended: "coherent ids (sv_db sv1) (sv_hub sv1) \<and> evolves ids (sv_db sv) (sv_db sv1)"
    if "terminateSession sid reason sv = Some sv1" for reason sv1
    by (rule terminateSession_coherent [OF C, of sid reason]) (use that in auto)
  show ?thesis
    using P Inl C coherent_touch(1) [OF C] ended
    by (auto simp: touch_persist_def split: if_splits sum.splits option.splits)
qed

lemma expireSession_next:
  assumes C: "coherent ids (sv_db sv) (sv_hub sv)" and X: "expireSession io sid reason now sv = Some sv'"
  shows "coherent ids (sv_db sv') (sv_hub sv') \<and> evolves ids (sv_db sv) (sv_db sv')"
  using authenticate_rejected [OF C, of sid reason io now] X unfolding expireSession_def Let_def by (metis option.inject)

lemma auth_step_next:
  assumes "auth_step IDKey cfg y y'" "sys_coherent y"
  shows "sys_next y y'"
  using assms
proof (induction rule: auth_step.induct)
  case (bootstrap io1 io2 random y r db)
  have I: "auth_db_inv (sv_db (sy_sv y))" "rows_in (sy_ids y) (sv_db (sy_sv y))"
    using bootstrap(2) by (auto simp: sys_coherent_def coherent_def)
  have "gentle (sy_ids y) (sy_ids y) (sv_db (sy_sv y)) db"
    using bootstrap(1) gentle_refl [OF I order_refl] SetPasswordHash_gentle [OF I _ order_refl, of io2]
    by (auto simp: Bootstrap_def split: sum.splits if_splits option.splits)
  then show ?case by (intro sys_next_db [OF bootstrap(2)]) simp_all
next
  case (begin_login ctxErr ip now y r sv)
  have "sv_db sv = sv_db (sy_sv y)" "sv_hub sv = sv_hub (sy_sv y)"
    using begin_login(1) by (auto simp: login_begin_def split: prod.splits if_splits)
  then show ?case by (intro sys_next_same [OF begin_login(2)]) simp_all
next
  case (verify io password ip now y r sv)
  have "sv_db sv = sv_db (sy_sv y)" "sv_hub sv = sv_hub (sy_sv y)"
    using verify(1) by (auto simp: login_verify_def split: sum.splits option.splits if_splits)
  then show ?case by (intro sys_next_same [OF verify(2)]) simp_all
next
  case (create ip now c y sid io agent r sv)
  have I: "auth_db_inv (sv_db (sy_sv y))" "rows_in (sy_ids y) (sv_db (sy_sv y))"
    using create(4) by (auto simp: sys_coherent_def coherent_def)
  have "gentle (sy_ids y) (insert sid (sy_ids y)) (sv_db (sy_sv y)) (sv_db sv) \<and> sv_hub sv = sv_hub (sy_sv y)"
    using create(2,3) gentle_refl [OF I, of "insert sid (sy_ids y)"]
    by (auto simp: login_create_def Let_def intro: Create_gentle [OF I] split: sum.splits)
  then show ?case by (intro sys_next_db [OF create(4)]) auto
next
  case (release y key)
  then show ?case by (intro sys_next_same) simp_all
next
  case (logout io sid now y r sv)
  then show ?case using Logout_next [of "sy_ids y" "sy_sv y" io sid now r sv] by (simp add: sys_next_def sys_coherent_def)
next
  case (update io v h now y r sv)
  then show ?case using update_next(1) [of "sy_ids y" "sy_sv y" io v h now r sv] by (simp add: sys_next_def sys_coherent_def)
next
  case (request y ids' e1 e2 cookie r sv)
  have "coherent (sy_ids y) (sv_db (sy_sv y)) (sv_hub (sy_sv y))" using request(3) by (simp add: sys_coherent_def)
  from AuthenticateRequest_ok [OF this request(1), of cfg cookie] request(2) calm_subset [OF request(1)]
  show ?case by (auto simp: sys_next_def sys_coherent_def auth_ok_def)
next
  case (websocket y ids' e1 e2 cookie now w sv)
  have "coherent (sy_ids y) (sv_db (sy_sv y)) (sv_hub (sy_sv y))" using websocket(3) by (simp add: sys_coherent_def)
  from websocket_ok [OF this websocket(1), of cfg cookie now] websocket(2) calm_subset [OF websocket(1)]
  show ?case by (auto simp: sys_next_def sys_coherent_def)
next
  case (touch sid now y t e h)
  have I: "hub_inv (sv_hub (sy_sv y))" using touch(2) by (simp add: sys_coherent_def coherent_def)
  have "hub_inv h" using Touch_inv [OF I, of sid now] touch(1) by (metis option.inject prod.inject)
  then show ?case using hub_shrinks(1) [OF touch(1)] by (intro sys_next_hub [OF touch(2)]) simp_all
next
  case (persist io1 io2 sid t now hubNow y r sv)
  then show ?case using persist_next [of "sy_ids y" "sy_sv y"] by (simp add: sys_next_def sys_coherent_def)
next
  case (timer sid now y e h)
  have I: "hub_inv (sv_hub (sy_sv y))" using timer(2) by (simp add: sys_coherent_def coherent_def)
  have "hub_inv h" using expire_inv [OF I, of sid now] timer(1) by (metis option.inject prod.inject)
  then show ?case using hub_shrinks(2) [OF timer(1)] by (intro sys_next_hub [OF timer(2)]) simp_all
next
  case (expired io sid reason now y sv)
  then show ?case using expireSession_next [of "sy_ids y" "sy_sv y"] by (simp add: sys_next_def sys_coherent_def)
next
  case (unsubscribe y sid sub)
  have I: "hub_inv (sv_hub (sy_sv y))" using unsubscribe by (simp add: sys_coherent_def coherent_def)
  show ?case using hub_shrinks(3) unsubscribe_inv [OF I] by (intro sys_next_hub [OF unsubscribe]) simp_all
next
  case (prune y c)
  have "gentle (sy_ids y) (sy_ids y) (sv_db (sy_sv y)) (prune_sessions c (sv_db (sy_sv y)))"
    by (rule prune_gentle) (use prune in \<open>simp_all add: sys_coherent_def coherent_def\<close>)
  then show ?case by (intro sys_next_db [OF prune]) simp_all
qed

lemma auth_reachable_coherent: "auth_reachable IDKey cfg y \<Longrightarrow> sys_coherent y"
proof (induction rule: auth_reachable.induct)
  case init
  show ?case
    by (simp add: sys_coherent_def coherent_def NewService_def newSessionLifecycleHub_def hub_inv_def refers_def
        auth_db_inv_def rows_in_def empty_auth_db_def)
next
  case (step y y')
  then show ?case using auth_step_next by (simp add: sys_next_def)
qed

lemma auth_steps_dead:
  assumes "(auth_step IDKey cfg)\<^sup>*\<^sup>* y y'" "sys_coherent y" "sid \<in> sy_ids y" "\<not> live (sv_db (sy_sv y)) sid"
  shows "sys_coherent y' \<and> sid \<in> sy_ids y' \<and> \<not> live (sv_db (sy_sv y')) sid"
  using assms(1)
proof (induction rule: rtranclp_induct)
  case base
  show ?case using assms(2-4) by simp
next
  case (step y1 y2)
  then have "sys_next y1 y2" using auth_step_next by blast
  then show ?case using step(3) by (auto simp: sys_next_def evolves_def)
qed

section \<open>Properties\<close>

text \<open>C8: Once a session that was issued is revoked, or belongs to an earlier password, no request and
  no WebSocket is ever authenticated with it again, whatever logins, logouts, password changes,
  expiries and prunings are interleaved, including transactions between the statements of the
  authentication itself.\<close>

theorem dead_session_stays_dead:
  assumes "auth_reachable IDKey cfg y" "sid \<in> sy_ids y" "\<not> live (sv_db (sy_sv y)) sid"
    and "(auth_step IDKey cfg)\<^sup>*\<^sup>* y y'" "calm (sy_ids y') ids' [e1, e2]"
  shows "(\<exists>e sv. AuthenticateRequest cfg (Some sid) e1 e2 (sy_sv y') = Some (Inl e, sv)) \<and>
    (\<exists>e sv. AuthenticateWebSocket cfg (Some sid) e1 e2 now (sy_sv y') = Some (Inl e, sv))"
proof -
  have D: "sys_coherent y'" "sid \<in> sy_ids y'" "\<not> live (sv_db (sy_sv y')) sid"
    using auth_steps_dead [OF assms(4) auth_reachable_coherent [OF assms(1)] assms(2,3)] by simp_all
  obtain r sv where r: "AuthenticateRequest cfg (Some sid) e1 e2 (sy_sv y') = Some (r, sv)"
    "auth_ok (sy_ids y') ids' sid (sy_sv y') r sv"
    using AuthenticateRequest_ok [OF D(1) [unfolded sys_coherent_def] assms(5), of cfg "Some sid"] by auto
  obtain e where "r = Inl e" using r(2) D(2,3) by (cases r) (auto simp: auth_ok_def)
  then show ?thesis using r(1) by (simp add: AuthenticateWebSocket_def)
qed

text \<open>C9: In every reachable state, a session with an attached transport is one the tables still
  hold as valid: its row, unless pruned, is not revoked and belongs to the current password.\<close>

theorem tracked_sessions_valid:
  assumes "auth_reachable IDKey cfg y" "mget (sessions (sv_hub (sy_sv y))) sid = Some t"
    "find_session sid (sv_db (sy_sv y)) = Some row"
  shows "ses_revoked row = None \<and> (\<exists>c. adb_password (sv_db (sy_sv y)) = Some c \<and> ses_version row = pc_version c)"
proof -
  have "live (sv_db (sy_sv y)) sid"
    using coherentD(5) [OF auth_reachable_coherent [OF assms(1), unfolded sys_coherent_def] assms(2)] assms(3) by simp
  then show ?thesis using assms(3) by (auto simp: live_def split: option.splits)
qed

text \<open>C12: A completed password change leaves no session valid and no transport attached, and the
  termination hook, when set, is called once for all sessions.\<close>

theorem password_change_ends_sessions:
  assumes "auth_reachable IDKey cfg y" "update_commit io version hash now (sy_sv y) = Some (None, sv)"
  shows "(\<forall>sid. \<not> live (sv_db sv) sid) \<and> sessions (sv_hub sv) = [] \<and>
    (\<exists>c. adb_password (sv_db (sy_sv y)) = Some c \<and> pc_version c = version \<and>
       adb_password (sv_db sv) = Some \<lparr>pc_hash = hash, pc_version = version + 1\<rparr>) \<and>
    sv_notified sv = sv_notified (sy_sv y) @ (if sv_hook (sy_sv y)
       then [\<lparr>term_session = '''', term_all = True, term_reason = Term_PasswordChanged\<rparr>] else [])"
proof -
  note C = auth_reachable_coherent [OF assms(1), unfolded sys_coherent_def]
  have "\<exists>c. adb_password (sv_db (sy_sv y)) = Some c \<and> pc_version c = version \<and>
       adb_password (sv_db sv) = Some \<lparr>pc_hash = hash, pc_version = version + 1\<rparr>"
    using assms(2)
    by (auto simp: update_commit_def terminateAllSessions_def UpdatePasswordAndRevokeSessions_def
        split: option.splits if_splits)
  moreover have "sv_notified sv = sv_notified (sy_sv y) @ (if sv_hook (sy_sv y)
       then [\<lparr>term_session = '''', term_all = True, term_reason = Term_PasswordChanged\<rparr>] else [])"
    using assms(2)
    by (auto simp: update_commit_def terminateAllSessions_def notifySessionTermination_def split: sum.splits option.splits)
  ultimately show ?thesis using update_next(2) [OF C assms(2)] by simp
qed

text \<open>A login whose password check succeeded before a password change committed creates no
  session: it fails with invalid credentials and writes nothing.\<close>

theorem login_race_rejected:
  assumes "PasswordCredentialsOf None (sv_db sv) = Inr (Some current)" "pc_version current \<noteq> pc_version verified"
  shows "login_create cfg None (Inr sid) agent ip now verified sv = (Inl ErrInvalidCredentials, sv)"
  using assms by (simp add: login_create_def Let_def CreateSessionAtPasswordVersion_def PasswordCredentialsOf_def)

text \<open>A session that is valid is accepted: the request is authenticated, its lease is extended to
  the idle timeout but never past the absolute lifetime, and the row is rewritten exactly when
  the touch interval has passed since it was last written.\<close>

theorem valid_session_authenticated:
  assumes "auth_reachable IDKey cfg y" "db = sv_db (sy_sv y)" "find_session sid db = Some row" "sid \<noteq> ''''"
    "adb_password db = Some c" "ses_version row = pc_version c" "ses_revoked row = None"
    "ae_now e < ses_created row + SessionAbsoluteLifetime cfg" "ae_now e < ses_expires row"
    "ae_read e = None" "ae_touch e = None" "ae_between e = (\<lambda>d. d)"
    "expires = min (ae_now e + SessionIdleTimeout cfg) (ses_created row + SessionAbsoluteLifetime cfg)"
    "due \<longleftrightarrow> time_sub (ae_now e) (ses_last_seen row) \<ge> sessionTouchInterval (SessionIdleTimeout cfg)"
  shows "\<exists>sv. AuthenticateRequest cfg (Some sid) e e2 (sy_sv y) =
      Some (Inr \<lparr>as_id = sid, as_user = ses_user row, as_created = ses_created row,
        as_last_seen = (if due then ae_now e else ses_last_seen row), as_expires = expires\<rparr>, sv) \<and>
    find_session sid (sv_db sv) =
      Some (if due then row\<lparr>ses_last_seen := ae_now e, ses_expires := expires\<rparr> else row)"
proof -
  have id: "ses_id row = sid" using find_session_SomeD [OF assms(3)] by simp
  have read: "SessionAtCurrentPasswordVersion None sid db = Inr row"
    using assms(3,5,6) by (simp add: SessionAtCurrentPasswordVersion_def)
  have valid: "invalidSessionReason cfg row (ae_now e) = None" using assms(7-9) by (simp add: not_invalid)
  show ?thesis
  proof (cases due)
    case False
    then show ?thesis
      using assms read valid id by (simp add: AuthenticateRequest_def Let_def)
  next
    case True
    define db' where "db' = map_sessions (\<lambda>s. ses_id s = sid)
        (\<lambda>s. s\<lparr>ses_last_seen := ae_now e, ses_expires := expires\<rparr>) db"
    have t: "TouchSession None sid (ses_last_seen row) (ae_now e) expires db = Inr db'"
      using assms(3,5-7) by (simp add: TouchSession_def ts_eq_def db'_def)
    have f: "find_session sid db' = Some (row\<lparr>ses_last_seen := ae_now e, ses_expires := expires\<rparr>)"
      unfolding db'_def by (subst find_session_map) (simp_all add: assms(3) id)
    show ?thesis
      using assms(2,4,10-14) read valid id True t f by (simp add: AuthenticateRequest_def Let_def)
  qed
qed

section \<open>A concrete run\<close>

definition example_cfg :: auth_config where
  "example_cfg = \<lparr>ac_login = example_login_config, SessionIdleTimeout = 1800 * Second,
     SessionAbsoluteLifetime = 43200 * Second, BootstrapPassword = example_password,
     SessionCookieName = ''stacklab_session'', CookieSecure = True\<rparr>"

definition example_salt :: string where
  "example_salt = replicate 16 CHR ''s''"

definition example_key :: string where
  "example_key = take 32 (example_password @ replicate 32 CHR ''x'')"

lemma example_key_derived: "toy_argon2 example_password salt t m p 32 = Some example_key" "length example_key = 32"
  by (simp_all add: toy_argon2_def example_key_def)

definition example_encoded :: string where
  "example_encoded = encode_hash \<lparr>ph_memory = argon2Memory, ph_iterations = argon2Iterations, ph_parallelism = argon2Parallelism\<rparr>
     example_salt example_key"

definition example_credentials :: PasswordCredentials where
  "example_credentials = \<lparr>pc_hash = example_encoded, pc_version = 1\<rparr>"

definition example_row :: Session where
  "example_row = \<lparr>ses_id = ''s1'', ses_user = ''local'', ses_created = 100, ses_last_seen = 100,
     ses_expires = 100 + 1800 * Second, ses_agent = ''curl'', ses_ip = ''a'', ses_revoked = None, ses_version = 1\<rparr>"

definition example_sv :: "auth_db \<Rightarrow> auth_service" where
  "example_sv db = (NewService example_cfg empty_auth_db)\<lparr>sv_db := db\<rparr>"

definition example_db0 :: auth_db where
  "example_db0 = \<lparr>adb_password = Some example_credentials, adb_sessions = [], adb_settings = []\<rparr>"

definition example_db1 :: auth_db where
  "example_db1 = example_db0\<lparr>adb_sessions := [example_row]\<rparr>"

definition example_sys :: "auth_db \<Rightarrow> string set \<Rightarrow> auth_sys" where
  "example_sys db ids = \<lparr>sy_sv = example_sv db, sy_pending = [], sy_ids = ids\<rparr>"

lemma example_password_ok: "validateNewPassword example_password = None"
proof -
  have "utf8_runes example_password = Some 21" by code_simp
  then show ?thesis by (simp add: validateNewPassword_def PasswordMinimumLength_def PasswordMaximumLength_def)
qed

lemma example_verify: "verifyPassword toy_argon2 example_encoded example_password = None"
proof -
  let ?p = "\<lparr>ph_memory = argon2Memory, ph_iterations = argon2Iterations, ph_parallelism = argon2Parallelism\<rparr>"
  have "parsePasswordHash example_encoded = Some \<lparr>ph_parameters = ?p, ph_salt = example_salt, ph_hash = example_key\<rparr>"
    unfolding example_encoded_def
    by (rule parse_encode_hash) (simp_all add: parameters_ok_def argon2_consts example_salt_def example_key_derived)
  then show ?thesis by (simp add: verifyPassword_def derivePasswordHash_def example_key_derived)
qed

lemma example_encoded_nonempty: "example_encoded \<noteq> ''''"
  by (simp add: example_encoded_def encode_hash_def)

lemma example_password_nonempty: "example_password \<noteq> ''''"
  by (simp add: example_password_def)

lemma example_boot: "auth_reachable toy_argon2 example_cfg (example_sys example_db0 {})"
proof -
  have "Bootstrap toy_argon2 example_cfg None None (Inr example_salt) empty_auth_db = Some (None, example_db0)"
    using example_password_nonempty
    by (simp add: Bootstrap_def PasswordHash_def PasswordCredentialsOf_def empty_auth_db_def example_cfg_def
        hashPassword_def example_password_ok SetPasswordHash_def example_db0_def example_credentials_def
        example_encoded_def argon2KeyLength_def example_key_derived)
  then show ?thesis
    using auth_reachable.step [OF auth_reachable.init auth_step.bootstrap, of toy_argon2 example_cfg None None "Inr example_salt" None example_db0]
    by (simp add: NewService_def example_sys_def example_sv_def)
qed

lemma example_login: "auth_reachable toy_argon2 example_cfg (example_sys example_db1 {''s1''})"
proof -
  have v: "login_verify toy_argon2 example_cfg None example_password ''a'' 100 (example_sv example_db0) =
      (Inr example_credentials, example_sv example_db0)"
    by (simp add: login_verify_def PasswordCredentialsOf_def example_sv_def example_db0_def example_credentials_def
        example_encoded_nonempty example_verify NewService_def clearLoginFailures_def)
  have c: "login_create example_cfg None (Inr ''s1'') ''curl'' ''a'' 100 example_credentials (example_sv example_db0) =
      (Inr \<lparr>as_id = ''s1'', as_user = ''local'', as_created = 100, as_last_seen = 100, as_expires = 100 + 1800 * Second\<rparr>,
       example_sv example_db1)"
    by (simp add: login_create_def Let_def CreateSessionAtPasswordVersion_def example_sv_def example_db0_def example_db1_def
        example_credentials_def example_cfg_def find_session_def localUserID_def example_row_def NewService_def duration_defs)
  have "auth_reachable toy_argon2 example_cfg ((example_sys example_db0 {})\<lparr>sy_pending := [(''a'', 100, example_credentials)]\<rparr>)"
    using auth_reachable.step [OF example_boot auth_step.verify, of None example_password "''a''" 100 "Inr example_credentials" "example_sv example_db0"] v
    by (simp add: example_sys_def)
  from auth_reachable.step [OF this auth_step.create, of "''a''" 100 example_credentials "''s1''" None "''curl''"] c
  show ?thesis by (simp add: example_sys_def)
qed

definition example_env :: attempt_env where
  "example_env = \<lparr>ae_now = 200, ae_hub_now = 200, ae_read = None, ae_revoke = None, ae_touch = None, ae_between = (\<lambda>db. db)\<rparr>"

lemma example_calm: "calm ids ids [example_env, example_env]"
  by (auto simp: example_env_def background_def intro!: exI [of _ "{}"])

lemma example_find: "find_session ''s1'' example_db1 = Some example_row"
  by (simp add: find_session_def example_db1_def example_row_def)

lemma example_live: "live example_db1 ''s1''"
  by (simp add: live_def example_find) (simp add: example_db1_def example_db0_def example_row_def example_credentials_def)

theorem valid_session_authenticated_witness:
  "\<exists>sv. AuthenticateRequest example_cfg (Some ''s1'') example_env example_env (example_sv example_db1) =
      Some (Inr \<lparr>as_id = ''s1'', as_user = ''local'', as_created = 100, as_last_seen = 100, as_expires = 200 + 1800 * Second\<rparr>, sv) \<and>
    find_session ''s1'' (sv_db sv) = Some example_row"
proof -
  have "\<exists>sv. AuthenticateRequest example_cfg (Some ''s1'') example_env example_env (sy_sv (example_sys example_db1 {''s1''})) =
      Some (Inr \<lparr>as_id = ''s1'', as_user = ses_user example_row, as_created = ses_created example_row,
        as_last_seen = (if False then ae_now example_env else ses_last_seen example_row), as_expires = 200 + 1800 * Second\<rparr>, sv) \<and>
    find_session ''s1'' (sv_db sv) =
      Some (if False then example_row\<lparr>ses_last_seen := ae_now example_env, ses_expires := 200 + 1800 * Second\<rparr> else example_row)"
  proof (rule valid_session_authenticated [OF example_login _ example_find, where c = example_credentials])
    show "example_db1 = sv_db (sy_sv (example_sys example_db1 {''s1''}))" by (simp add: example_sys_def example_sv_def)
    show "adb_password example_db1 = Some example_credentials" by (simp add: example_db1_def example_db0_def)
  qed (simp_all add: example_env_def example_cfg_def example_row_def example_credentials_def duration_defs
        time_sub_def min_duration_def max_duration_def sessionTouchInterval_def Let_def)
  then show ?thesis by (simp add: example_sys_def example_row_def)
qed

definition example_db2 :: auth_db where
  "example_db2 = example_db0\<lparr>adb_sessions := [example_row\<lparr>ses_revoked := Some 300\<rparr>]\<rparr>"

lemma example_logout: "auth_reachable toy_argon2 example_cfg (example_sys example_db2 {''s1''})"
proof -
  have "Logout None ''s1'' 300 (example_sv example_db1) = Some (None, example_sv example_db2)"
    by (simp add: Logout_def RevokeSession_def example_sv_def NewService_def example_find)
       (simp add: example_row_def example_db1_def example_db0_def example_db2_def map_sessions_def terminateSession_def
        Terminate_def terminateLocked_def newSessionLifecycleHub_def notifySessionTermination_def)
  from auth_reachable.step [OF example_login auth_step.logout, of None "''s1''" 300 None "example_sv example_db2"] this
  show ?thesis by (simp add: example_sys_def)
qed

theorem dead_session_stays_dead_witness:
  "\<not> live example_db2 ''s1'' \<and>
   (\<exists>e sv. AuthenticateRequest example_cfg (Some ''s1'') example_env example_env (example_sv example_db2) = Some (Inl e, sv))"
proof
  show d: "\<not> live example_db2 ''s1''" by (simp add: live_def find_session_def example_db2_def example_row_def split: option.splits)
  show "\<exists>e sv. AuthenticateRequest example_cfg (Some ''s1'') example_env example_env (example_sv example_db2) = Some (Inl e, sv)"
    using dead_session_stays_dead [OF example_logout _ _ rtranclp.rtrancl_refl example_calm, of "''s1''"] d
    by (simp add: example_sys_def example_sv_def)
qed

definition example_ws :: auth_service where
  "example_ws = snd (the (AuthenticateWebSocket example_cfg (Some ''s1'') example_env example_env 200 (example_sv example_db1)))"

lemma example_ws_reachable:
  "auth_reachable toy_argon2 example_cfg \<lparr>sy_sv = example_ws, sy_pending = [], sy_ids = {''s1''}\<rparr>"
proof -
  have "coherent {''s1''} (sv_db (example_sv example_db1)) (sv_hub (example_sv example_db1))"
    using auth_reachable_coherent [OF example_login] by (simp add: sys_coherent_def example_sys_def)
  from websocket_ok [OF this example_calm, of example_cfg "Some ''s1''" 200]
  obtain w sv where w: "AuthenticateWebSocket example_cfg (Some ''s1'') example_env example_env 200 (example_sv example_db1) = Some (w, sv)"
    by blast
  have "auth_step toy_argon2 example_cfg (example_sys example_db1 {''s1''}) ((example_sys example_db1 {''s1''})\<lparr>sy_sv := sv, sy_ids := {''s1''}\<rparr>)"
    by (rule auth_step.websocket [where ?e1.0 = example_env and ?e2.0 = example_env and cookie = "Some ''s1''" and now = 200 and w = w])
       (use w example_calm in \<open>simp_all add: example_sys_def del: calm.simps\<close>)
  from auth_reachable.step [OF example_login this] show ?thesis by (simp add: example_sys_def example_ws_def w)
qed

lemma example_ws_state:
  "\<exists>t. mget (sessions (sv_hub example_ws)) ''s1'' = Some t" "find_session ''s1'' (sv_db example_ws) = Some example_row"
proof -
  have r: "SessionAtCurrentPasswordVersion None ''s1'' example_db1 = Inr example_row"
    by (simp add: SessionAtCurrentPasswordVersion_def example_find)
       (simp add: example_db1_def example_db0_def example_credentials_def example_row_def)
  have "AuthenticateWebSocket example_cfg (Some ''s1'') example_env example_env 200 (example_sv example_db1) =
    Some (Inr (\<lparr>as_id = ''s1'', as_user = ''local'', as_created = 100, as_last_seen = 100, as_expires = 200 + 1800 * Second\<rparr>, 0, Some 1),
      (example_sv example_db1)\<lparr>sv_hub := snd (Subscribe \<lparr>as_id = ''s1'', as_user = ''local'', as_created = 100, as_last_seen = 100,
         as_expires = 200 + 1800 * Second\<rparr> 200 (sv_hub (example_sv example_db1)))\<rparr>)"
    using r by (simp add: AuthenticateWebSocket_def AuthenticateRequest_def example_env_def example_sv_def Let_def NewService_def
        invalidSessionReason_def example_cfg_def example_row_def duration_defs time_sub_def min_duration_def max_duration_def
        sessionTouchInterval_def TouchLease_def newSessionLifecycleHub_def Subscribe_def make_chan_def)
  then show "\<exists>t. mget (sessions (sv_hub example_ws)) ''s1'' = Some t" "find_session ''s1'' (sv_db example_ws) = Some example_row"
    by (simp_all add: example_ws_def example_sv_def example_find)
       (simp add: Subscribe_def NewService_def newSessionLifecycleHub_def example_cfg_def make_chan_def scheduleLocked_def Let_def duration_defs)
qed

theorem tracked_sessions_valid_witness:
  "\<exists>t. mget (sessions (sv_hub example_ws)) ''s1'' = Some t \<and> find_session ''s1'' (sv_db example_ws) = Some example_row \<and>
     ses_revoked example_row = None"
  using tracked_sessions_valid [OF example_ws_reachable, of "''s1''" _ example_row] example_ws_state by auto

theorem password_change_ends_sessions_witness:
  "\<exists>sv. update_commit None 1 ''h2'' 400 example_ws = Some (None, sv) \<and> sessions (sv_hub sv) = [] \<and> \<not> live (sv_db sv) ''s1''"
proof -
  have I: "hub_inv (sv_hub example_ws)"
    using auth_reachable_coherent [OF example_ws_reachable] by (simp add: sys_coherent_def coherent_def)
  obtain c where "adb_password (sv_db example_ws) = Some c" "pc_version c = 1"
    using tracked_sessions_valid [OF example_ws_reachable, of "''s1''" _ example_row] example_ws_state
    by (auto simp: example_row_def)
  moreover obtain h where "TerminateAll Term_PasswordChanged (sv_hub example_ws) = Some h" by (rule TerminateAll_inv [OF I])
  ultimately have "\<exists>sv. update_commit None 1 ''h2'' 400 example_ws = Some (None, sv)"
    by (simp add: update_commit_def UpdatePasswordAndRevokeSessions_def terminateAllSessions_def)
  then obtain sv where u: "update_commit None 1 ''h2'' 400 example_ws = Some (None, sv)" ..
  then show ?thesis using password_change_ends_sessions [OF example_ws_reachable, of None 1 "''h2''" 400 sv] by auto
qed

theorem login_race_rejected_witness:
  "login_create example_cfg None (Inr ''s2'') ''curl'' ''a'' 500 (example_credentials\<lparr>pc_version := 0\<rparr>) (example_sv example_db1) =
     (Inl ErrInvalidCredentials, example_sv example_db1)"
  by (rule login_race_rejected [of _ example_credentials])
     (simp_all add: PasswordCredentialsOf_def example_sv_def example_db1_def example_db0_def example_credentials_def)

end
