(* ===== verification/Go_Timestamp.thy ===== *)
theory Go_Timestamp
  imports Go_Codec
begin

text \<open>
  Reading timestamps back: \<open>time.Parse(time.RFC3339Nano, s)\<close> for the strict RFC 3339 form, with
  \<open>Z\<close> or a numeric offset, and the proof that it inverts the formatting of the store.
\<close>

definition num :: "string \<Rightarrow> nat option" where
  "num s = (if s \<noteq> [] \<and> list_all is_digit s then Some (digits_value s) else None)"

definition days_of_civil :: "nat \<Rightarrow> nat \<Rightarrow> nat \<Rightarrow> nat" where
  "days_of_civil y m d = days_before (y - 1) + sum_list (take (m - 1) (month_lengths (is_leap y))) + (d - 1)"

definition frac_ns :: "string \<Rightarrow> nat" where
  "frac_ns ds = digits_value (take 9 (ds @ replicate 9 (CHR ''0'')))"

definition parse_frac :: "string \<Rightarrow> (nat \<times> string) option" where
  "parse_frac s =
     (case s of
        c # r \<Rightarrow>
          if c = CHR ''.'' then
            (let ds = takeWhile is_digit r in if ds = [] then None else Some (frac_ns ds, dropWhile is_digit r))
          else Some (0, s)
      | [] \<Rightarrow> Some (0, s))"

text \<open>The offset in seconds.\<close>

definition parse_zone :: "string \<Rightarrow> int option" where
  "parse_zone s =
     (if s = ''Z'' then Some 0
      else
        (case s of
           [sg, a, b, c, d, e] \<Rightarrow>
             (case (num [a, b], num [d, e]) of
                (Some hh, Some mm) \<Rightarrow>
                  if c = CHR '':'' \<and> hh \<le> 24 \<and> mm \<le> 60 \<and> (sg = CHR ''+'' \<or> sg = CHR ''-'')
                  then Some ((if sg = CHR ''-'' then -1 else 1) * int (hh * 3600 + mm * 60)) else None
              | _ \<Rightarrow> None)
         | _ \<Rightarrow> None))"

definition valid_civil :: "nat \<Rightarrow> nat \<Rightarrow> nat \<Rightarrow> bool" where
  "valid_civil y m d \<longleftrightarrow> 1 \<le> m \<and> m \<le> 12 \<and> 1 \<le> d \<and> d \<le> month_lengths (is_leap y) ! (m - 1)"

definition parse_ts :: "string \<Rightarrow> time option" where
  "parse_ts s =
     (case (num (take 4 s), num (take 2 (drop 5 s)), num (take 2 (drop 8 s)),
            num (take 2 (drop 11 s)), num (take 2 (drop 14 s)), num (take 2 (drop 17 s)), parse_frac (drop 19 s)) of
        (Some y, Some mo, Some d, Some h, Some mi, Some sec, Some (ns, z)) \<Rightarrow>
          if take 1 (drop 4 s) = ''-'' \<and> take 1 (drop 7 s) = ''-'' \<and> take 1 (drop 10 s) = ''T'' \<and>
             take 1 (drop 13 s) = '':'' \<and> take 1 (drop 16 s) = '':'' \<and>
             1 \<le> y \<and> valid_civil y mo d \<and> h < 24 \<and> mi < 60 \<and> sec < 60
          then map_option (\<lambda>off. (int (days_of_civil y mo d * 86400 + h * 3600 + mi * 60 + sec) - off) * Second + int ns)
                 (parse_zone z)
          else None
      | _ \<Rightarrow> None)"

section \<open>Round trip\<close>

lemma month_search_sum:
  assumes "d < sum_list ls"
  shows "\<exists>i < length ls. month_search ls m d = (m + i, Suc (d - sum_list (take i ls))) \<and>
    sum_list (take i ls) \<le> d \<and> d - sum_list (take i ls) < ls ! i"
  using assms
proof (induction ls m d rule: month_search.induct)
  case (2 l ls m d)
  show ?case
  proof (cases "d < l")
    case True
    then show ?thesis by (intro exI [of _ 0]) simp
  next
    case False
    then obtain i where "i < length ls" "month_search ls (Suc m) (d - l) = (Suc m + i, Suc (d - l - sum_list (take i ls)))"
      "sum_list (take i ls) \<le> d - l" "d - l - sum_list (take i ls) < ls ! i"
      using 2 by force
    with False show ?thesis by (intro exI [of _ "Suc i"]) simp
  qed
qed simp

lemma civil_roundtrip:
  assumes "c = civil_of_day d"
  shows "days_of_civil (cyear c) (cmonth c) (cday c) = d" "valid_civil (cyear c) (cmonth c) (cday c)" "1 \<le> cyear c"
proof -
  let ?y = "year0_of_day d"
  let ?ls = "month_lengths (is_leap (Suc ?y))"
  note S = year0_of_day_spec [of d]
  have "d - days_before ?y < sum_list ?ls"
    using S by (auto simp: days_before_Suc month_lengths_def)
  then obtain i where i: "i < length ?ls"
    "month_search ?ls 1 (d - days_before ?y) = (1 + i, Suc (d - days_before ?y - sum_list (take i ?ls)))"
    "sum_list (take i ?ls) \<le> d - days_before ?y" "d - days_before ?y - sum_list (take i ?ls) < ?ls ! i"
    using month_search_sum by blast
  have "length ?ls = 12" by (simp add: month_lengths_def)
  with i have f: "cyear c = Suc ?y" "cmonth c = 1 + i" "cday c = Suc (d - days_before ?y - sum_list (take i ?ls))" "i < 12"
    by (simp_all add: assms civil_of_day_def Let_def)
  show "days_of_civil (cyear c) (cmonth c) (cday c) = d" using S i(3) unfolding f days_of_civil_def by simp linarith
  show "valid_civil (cyear c) (cmonth c) (cday c)" using i(4) f(4) unfolding f valid_civil_def by simp
  show "1 \<le> cyear c" by (simp add: f)
qed

lemma digit_is_digit [simp]: "is_digit (digit n)"
  by (simp add: is_digit_def in_range_def of_char_digit less_Suc_eq_le [symmetric])

lemma digits_value_snoc: "digits_value (s @ [c]) = digits_value s * 10 + (byte c - 48)"
  by (simp add: digits_value_def)

lemma pad_dec_num: "list_all is_digit (pad_dec w n) \<and> digits_value (pad_dec w n) = n mod 10 ^ w"
proof (induction w n rule: pad_dec.induct)
  case (2 w n)
  have "n mod 10 ^ Suc w = n div 10 mod 10 ^ w * 10 + n mod 10"
    by (simp add: mod_mult2_eq mult.commute)
  then show ?case using 2 by (simp add: digits_value_snoc of_char_digit)
qed (simp add: digits_value_def)

lemma num_pad_dec: "0 < w \<Longrightarrow> n < 10 ^ w \<Longrightarrow> num (pad_dec w n) = Some n"
  using pad_dec_num [of w n] by (cases w) (simp_all add: num_def)

lemma frac_ns_Nil: "frac_ns [] = 0"
  by code_simp

lemma parse_frac_text:
  assumes "n < 1000000000"
  shows "parse_frac (frac_text n @ ''Z'') = Some (n, ''Z'')"
proof (cases "n = 0")
  case True
  then show ?thesis by (simp add: frac_text_def parse_frac_def)
next
  case False
  let ?s = "pad_dec 9 n"
  have s: "list_all is_digit ?s" "digits_value ?s = n" using pad_dec_num [of 9 n] assms by simp_all
  obtain k where k: "?s = strip_zeros ?s @ replicate k (CHR ''0'')" using strip_zeros_decomp by blast
  have digits: "list_all is_digit (strip_zeros ?s)" using s(1) by (subst (asm) k) simp
  have "k \<le> 9" using k by (metis length_append length_pad_dec length_replicate le_add2)
  then have "take 9 (strip_zeros ?s @ replicate 9 (CHR ''0'')) = ?s"
  proof -
    have "length (strip_zeros ?s) + k = 9" using k by (metis length_append length_pad_dec length_replicate)
    then have "take 9 (strip_zeros ?s @ replicate 9 (CHR ''0'')) = strip_zeros ?s @ replicate k (CHR ''0'')"
      by (simp add: take_replicate min_def)
    then show ?thesis using k by simp
  qed
  then have ns: "frac_ns (strip_zeros ?s) = n" using s(2) by (simp add: frac_ns_def)
  have "strip_zeros ?s \<noteq> []"
  proof
    assume "strip_zeros ?s = []"
    then have "frac_ns (strip_zeros ?s) = 0" by (simp only: frac_ns_Nil)
    with ns False show False by simp
  qed
  moreover have "\<not> is_digit (CHR ''Z'')" by (simp add: is_digit_def in_range_def)
  ultimately show ?thesis
    using digits ns False by (simp add: frac_text_def parse_frac_def Let_def takeWhile_append2 dropWhile_append2 list_all_iff)
qed
lemma date_text_parts:
  assumes "d < days_before 9999" "c = civil_of_day d"
  shows "date_text d = pad_dec 4 (cyear c) @ ''-'' @ pad_dec 2 (cmonth c) @ ''-'' @ pad_dec 2 (cday c)"
  using civil_of_day_bounds(1) [OF assms(1)] by (simp add: date_text_def Let_def year_text_def assms(2))

lemma take_exact: "length a = n \<Longrightarrow> take n (a @ b) = a"
  by simp

text \<open>The fields of a fixed-width record.\<close>

lemma fields:
  assumes "length a = 4" "length b = 2" "length c = 2" "length d = 2" "length e = 2" "length f = 2"
    "s = a @ [x1] @ b @ [x2] @ c @ [x3] @ d @ [x4] @ e @ [x5] @ f @ r"
  shows "take 4 s = a" "take 1 (drop 4 s) = [x1]" "take 2 (drop 5 s) = b" "take 1 (drop 7 s) = [x2]"
    "take 2 (drop 8 s) = c" "take 1 (drop 10 s) = [x3]" "take 2 (drop 11 s) = d" "take 1 (drop 13 s) = [x4]"
    "take 2 (drop 14 s) = e" "take 1 (drop 16 s) = [x5]" "take 2 (drop 17 s) = f" "drop 19 s = r"
  unfolding assms(7) using assms(1-6) by simp_all

lemma clock_numbers:
  fixes s :: nat
  assumes "s < 86400"
  shows "s div 3600 < 24" "s mod 3600 div 60 < 60" "s mod 60 < 60"
    "s div 3600 * 3600 + s mod 3600 div 60 * 60 + s mod 60 = s"
proof -
  show "s div 3600 < 24" using assms by (simp add: div_less_iff_less_mult)
  have "s mod 3600 < 60 * 60" by simp
  then show "s mod 3600 div 60 < 60" by (simp add: div_less_iff_less_mult)
  show "s mod 60 < 60" by simp
  have "s mod 3600 mod 60 = s mod 60" by (rule mod_mod_cancel) simp
  then have "s mod 3600 div 60 * 60 + s mod 60 = s mod 3600" by (metis div_mult_mod_eq)
  then show "s div 3600 * 3600 + s mod 3600 div 60 * 60 + s mod 60 = s" by (simp add: add.assoc)
qed

text \<open>Formatting an instant and parsing the text gives the instant back.\<close>

lemma parse_rfc3339nano:
  assumes "text_time t"
  shows "parse_ts (rfc3339nano t) = Some t"
proof -
  define q where "q = nat (t div Second)"
  define d where "d = q div 86400"
  define c where "c = civil_of_day d"
  define s where "s = q mod 86400"
  define n where "n = nat (t mod Second)"
  have t: "t = int q * Second + int n" "n < 1000000000"
    using assms pos_mod_sign [of Second t] pos_mod_bound [of Second t] div_mult_mod_eq [of t Second]
    by (simp_all add: q_def n_def text_time_def Second_def pos_imp_zdiv_nonneg_iff)
  have d: "d < days_before 9999"
    using text_time_seconds [OF assms] by (simp add: d_def q_def div_less_iff_less_mult)
  note B = civil_of_day_bounds [OF d, folded c_def] and R = civil_roundtrip [OF c_def]
  have "s < 86400" by (simp add: s_def)
  note K = clock_numbers [OF this]
  have form: "rfc3339nano t = pad_dec 4 (cyear c) @ [CHR ''-''] @ pad_dec 2 (cmonth c) @ [CHR ''-''] @ pad_dec 2 (cday c) @
      [CHR ''T''] @ pad_dec 2 (s div 3600) @ [CHR '':''] @ pad_dec 2 (s mod 3600 div 60) @ [CHR '':''] @ pad_dec 2 (s mod 60) @
      (frac_text n @ ''Z'')"
    unfolding rfc3339nano_def seconds_text_def clock_text_def n_def [symmetric] q_def [symmetric] s_def [symmetric] d_def [symmetric]
    by (subst date_text_parts [OF d c_def]) simp
  have F: "num (pad_dec 4 (cyear c)) = Some (cyear c)" "num (pad_dec 2 (cmonth c)) = Some (cmonth c)"
    "num (pad_dec 2 (cday c)) = Some (cday c)" "num (pad_dec 2 (s div 3600)) = Some (s div 3600)"
    "num (pad_dec 2 (s mod 3600 div 60)) = Some (s mod 3600 div 60)" "num (pad_dec 2 (s mod 60)) = Some (s mod 60)"
    using B K by (simp_all add: num_pad_dec)
  have "parse_ts (rfc3339nano t) =
      Some ((int (days_of_civil (cyear c) (cmonth c) (cday c) * 86400 + s div 3600 * 3600 + s mod 3600 div 60 * 60 + s mod 60)) * Second + int n)"
    unfolding parse_ts_def fields [OF length_pad_dec length_pad_dec length_pad_dec length_pad_dec length_pad_dec length_pad_dec form]
    using F K(1-3) R(2,3) parse_frac_text [OF t(2)] by (simp add: parse_zone_def)
  also have "days_of_civil (cyear c) (cmonth c) (cday c) * 86400 + s div 3600 * 3600 + s mod 3600 div 60 * 60 + s mod 60 = q"
    using K(4) R(1) by (simp add: d_def s_def add.assoc)
  finally show ?thesis using t(1) by simp
qed

end
