(* ===== verification/Audit_Store.thy ===== *)
theory Audit_Store
  imports Auth_Store Go_Timestamp
begin

text \<open>
  The \<open>audit_entries\<close> table of internal/store/store.go with its cursor pagination, and the
  retention transaction \<open>PruneOperationalData\<close> over all operational tables.  The detail
  document is kept as the map it encodes.  SQLite's \<open>julianday\<close> is a parameter of the listing.
\<close>

record AuditEntry =
  au_id :: string
  au_stack :: "string option"
  au_job :: "string option"
  au_action :: string
  au_requested_by :: string
  au_result :: string
  au_requested :: "time"
  au_finished :: "time option"
  au_duration :: "int option"
  au_target_type :: string
  au_target :: "string option"
  au_detail :: "(string, json) gomap option"

record AuditQuery =
  aq_stack :: string
  aq_cursor :: string
  aq_search :: string
  aq_results :: "string list"
  aq_from :: "time option"
  aq_before :: "time option"
  aq_limit :: int

record AuditListResult =
  al_items :: "AuditEntry list"
  al_next :: "string option"

section \<open>Searching with LIKE\<close>

definition lower_char :: "char \<Rightarrow> char" where
  "lower_char c = (if in_range 65 90 c then char_of (byte c + 32) else c)"

text \<open>Lower case for ASCII: \<open>LOWER\<close> of SQLite, and \<open>strings.ToLower\<close> on ASCII text.\<close>

abbreviation lower :: "string \<Rightarrow> string" where
  "lower s \<equiv> map lower_char s"

text \<open>The three replacements in sequence.\<close>

definition replace_char :: "char \<Rightarrow> string \<Rightarrow> string \<Rightarrow> string" where
  "replace_char old new s = concat (map (\<lambda>c. if c = old then new else [c]) s)"

definition escapeLikePattern :: "string \<Rightarrow> string" where
  "escapeLikePattern v =
     replace_char (CHR ''_'') [CHR 0x5C, CHR ''_'']
       (replace_char (CHR ''%'') [CHR 0x5C, CHR ''%''] (replace_char (CHR 0x5C) [CHR 0x5C, CHR 0x5C] v))"

text \<open>\<open>x LIKE p ESCAPE '\'\<close>, case-insensitive on ASCII letters.\<close>

fun like :: "string \<Rightarrow> string \<Rightarrow> bool" where
  "like [] x = (x = [])"
| "like (c # p) [] = (c = CHR ''%'' \<and> like p [])"
| "like (c # p) (y # x) =
     (if c = CHR ''%'' then like p (y # x) \<or> like (c # p) x
      else if c = CHR 0x5C then
        (case p of [] \<Rightarrow> False | d # p' \<Rightarrow> lower_char y = lower_char d \<and> like p' x)
      else if c = CHR ''_'' then like p x
      else lower_char y = lower_char c \<and> like p x)"

section \<open>Operations\<close>

definition CreateAuditEntry :: "fault \<Rightarrow> AuditEntry \<Rightarrow> AuditEntry list \<Rightarrow> store_error + AuditEntry list" where
  "CreateAuditEntry io entry rows =
     (case io of
        Some e \<Rightarrow> Inl (ErrStore e)
      | None \<Rightarrow>
          if au_id entry \<in> au_id ` set rows then Inl (ErrStore ''UNIQUE constraint failed: audit_entries.id'')
          else Inr (rows @ [entry]))"

text \<open>\<open>ORDER BY requested_at DESC, id DESC\<close>\<close>

definition audit_key :: "AuditEntry \<Rightarrow> string \<times> string" where
  "audit_key e = (rfc3339nano (au_requested e), au_id e)"

definition newest_first :: "AuditEntry list \<Rightarrow> AuditEntry list" where
  "newest_first rows = rev (sort_key audit_key rows)"

definition encodeAuditCursor :: "time \<Rightarrow> string \<Rightarrow> string" where
  "encodeAuditCursor requestedAt eid = b64_url (rfc3339nano requestedAt @ ''|'' @ eid)"

definition decodeAuditCursor :: "string \<Rightarrow> (time \<times> string) option" where
  "decodeAuditCursor v =
     (case b64_url_decode v of
        None \<Rightarrow> None
      | Some decoded \<Rightarrow>
          if CHR ''|'' \<notin> set decoded then None
          else
            (case parse_ts (takeWhile (\<lambda>c. c \<noteq> CHR ''|'') decoded) of
               None \<Rightarrow> None
             | Some t \<Rightarrow> Some (t, tl (dropWhile (\<lambda>c. c \<noteq> CHR ''|'') decoded))))"

definition audit_limit :: "int \<Rightarrow> nat" where
  "audit_limit n = (let limit = (if n \<le> 0 then 50 else n) in nat (if limit > 100 then 100 else limit))"

definition audit_where :: "(string \<Rightarrow> int) \<Rightarrow> AuditQuery \<Rightarrow> AuditEntry \<Rightarrow> bool" where
  "audit_where julianday q e \<longleftrightarrow>
     (aq_stack q \<noteq> '''' \<longrightarrow> au_stack e = Some (aq_stack q)) \<and>
     (aq_search q \<noteq> '''' \<longrightarrow>
        (let p = ''%'' @ escapeLikePattern (lower (go_trim_space (aq_search q))) @ ''%''
         in like p (lower (au_action e)) \<or> like p (lower (case au_stack e of Some s \<Rightarrow> s | None \<Rightarrow> '''')))) \<and>
     (aq_results q \<noteq> [] \<longrightarrow> au_result e \<in> set (aq_results q)) \<and>
     (case aq_from q of None \<Rightarrow> True | Some t \<Rightarrow> julianday (rfc3339nano (au_requested e)) \<ge> julianday (rfc3339nano t)) \<and>
     (case aq_before q of None \<Rightarrow> True | Some t \<Rightarrow> julianday (rfc3339nano (au_requested e)) < julianday (rfc3339nano t))"

definition after_cursor :: "time \<times> string \<Rightarrow> AuditEntry \<Rightarrow> bool" where
  "after_cursor c e \<longleftrightarrow>
     rfc3339nano (au_requested e) < rfc3339nano (fst c) \<or>
     (rfc3339nano (au_requested e) = rfc3339nano (fst c) \<and> au_id e < snd c)"

definition audit_page :: "nat \<Rightarrow> AuditEntry list \<Rightarrow> AuditListResult" where
  "audit_page limit rows =
     (let items = take (limit + 1) rows
      in if length items > limit
         then \<lparr>al_items = take limit items,
               al_next = Some (encodeAuditCursor (au_requested (items ! (limit - 1))) (au_id (items ! (limit - 1))))\<rparr>
         else \<lparr>al_items = items, al_next = None\<rparr>)"

definition ListAuditEntries :: "(string \<Rightarrow> int) \<Rightarrow> fault \<Rightarrow> AuditQuery \<Rightarrow> AuditEntry list \<Rightarrow> store_error + AuditListResult" where
  "ListAuditEntries julianday io q rows =
     (let selected = filter (audit_where julianday q) rows
      in if aq_cursor q = '''' then
           (case io of Some e \<Rightarrow> Inl (ErrStore e) | None \<Rightarrow> Inr (audit_page (audit_limit (aq_limit q)) (newest_first selected)))
         else
           (case decodeAuditCursor (aq_cursor q) of
              None \<Rightarrow> Inl (ErrStore ''decode audit cursor'')
            | Some c \<Rightarrow>
                (case io of
                   Some e \<Rightarrow> Inl (ErrStore e)
                 | None \<Rightarrow> Inr (audit_page (audit_limit (aq_limit q)) (newest_first (filter (after_cursor c) selected))))))"

text \<open>The loop keeps the first entry it sees of each stack.\<close>

fun first_per_stack :: "AuditEntry list \<Rightarrow> (string, AuditEntry) gomap \<Rightarrow> (string, AuditEntry) gomap" where
  "first_per_stack [] m = m"
| "first_per_stack (e # es) m =
     (case au_stack e of
        None \<Rightarrow> first_per_stack es m
      | Some s \<Rightarrow> if mget m s \<noteq> None then first_per_stack es m else first_per_stack es (mput s e m))"

definition LatestAuditEntriesByStackIDs :: "fault \<Rightarrow> string list \<Rightarrow> AuditEntry list \<Rightarrow> store_error + (string, AuditEntry) gomap" where
  "LatestAuditEntriesByStackIDs io stackIDs rows =
     (if stackIDs = [] then Inr []
      else
        (case io of
           Some e \<Rightarrow> Inl (ErrStore e)
         | None \<Rightarrow>
             Inr (first_per_stack
               (newest_first (filter (\<lambda>e. case au_stack e of Some s \<Rightarrow> s \<in> set stackIDs | None \<Rightarrow> False) rows)) [])))"

section \<open>Retention\<close>

record OperationalRetentionPolicy =
  rp_audit :: duration
  rp_job :: duration
  rp_event :: duration
  rp_session :: duration

record OperationalRetentionSummary =
  rs_audit :: nat
  rs_jobs :: nat
  rs_events :: nat
  rs_sessions :: nat

definition TotalDeleted :: "OperationalRetentionSummary \<Rightarrow> nat" where
  "TotalDeleted s = rs_audit s + rs_jobs s + rs_events s + rs_sessions s"

record operational_db =
  op_jobs :: job_db
  op_auth :: auth_db
  op_audit :: "AuditEntry list"

text \<open>A job is protected while a retained audit entry names it.\<close>

definition audited_since :: "time \<Rightarrow> AuditEntry list \<Rightarrow> string \<Rightarrow> bool" where
  "audited_since cutoff rows jid \<longleftrightarrow>
     (\<exists>e \<in> set rows. au_job e = Some jid \<and> \<not> ts_less (au_requested e) cutoff)"

definition PruneOperationalData :: "fault \<Rightarrow> time \<Rightarrow> OperationalRetentionPolicy \<Rightarrow> operational_db \<Rightarrow>
    store_error + OperationalRetentionSummary \<times> operational_db" where
  "PruneOperationalData io now p db =
     (case io of
        Some e \<Rightarrow> Inl (ErrStore e)
      | None \<Rightarrow>
          (let auditCutoff = now - rp_audit p; jobCutoff = now - rp_job p;
               jobEventCutoff = now - rp_event p; sessionCutoff = now - rp_session p;
               auth = prune_sessions sessionCutoff (op_auth db);
               jobs = prune_job_tables jobEventCutoff jobCutoff (audited_since auditCutoff (op_audit db)) (op_jobs db);
               audit = filter (\<lambda>e. \<not> ts_less (au_requested e) auditCutoff) (op_audit db)
           in Inr (\<lparr>rs_audit = length (op_audit db) - length audit,
                    rs_jobs = length (db_jobs (op_jobs db)) - length (db_jobs jobs),
                    rs_events = length (db_events (op_jobs db)) - length (db_events jobs),
                    rs_sessions = length (adb_sessions (op_auth db)) - length (adb_sessions auth)\<rparr>,
                   \<lparr>op_jobs = jobs, op_auth = auth, op_audit = audit\<rparr>)))"

definition DefaultPolicy :: OperationalRetentionPolicy where
  "DefaultPolicy = \<lparr>rp_audit = 180 * 24 * Hour, rp_job = 180 * 24 * Hour, rp_event = 14 * 24 * Hour, rp_session = 7 * 24 * Hour\<rparr>"

definition RunOnce :: "fault \<Rightarrow> time \<Rightarrow> operational_db \<Rightarrow> store_error + OperationalRetentionSummary \<times> operational_db" where
  "RunOnce io now db = PruneOperationalData io now DefaultPolicy db"

section \<open>The search pattern\<close>

definition escape_char :: "char \<Rightarrow> string" where
  "escape_char c = (if c = CHR 0x5C \<or> c = CHR ''%'' \<or> c = CHR ''_'' then [CHR 0x5C, c] else [c])"

lemma escape_each: "escapeLikePattern v = concat (map escape_char v)"
  by (induction v) (auto simp: escapeLikePattern_def replace_char_def escape_char_def)

lemma like_escaped:
  "like (escape_char c @ p) x \<longleftrightarrow> (\<exists>y x'. x = y # x' \<and> lower_char y = lower_char c \<and> like p x')"
  by (cases x) (auto simp: escape_char_def)

lemma like_prefix: "like (escapeLikePattern v @ ''%'') x \<longleftrightarrow> (\<exists>m b. x = m @ b \<and> lower m = lower v)"
proof (induction v arbitrary: x)
  case Nil
  have "like ''%'' x" for x by (induction x) auto
  then show ?case by (simp add: escape_each)
next
  case (Cons c v)
  have "like (escapeLikePattern (c # v) @ ''%'') x \<longleftrightarrow>
      (\<exists>y x'. x = y # x' \<and> lower_char y = lower_char c \<and> like (escapeLikePattern v @ ''%'') x')"
    by (simp add: escape_each like_escaped)
  also have "\<dots> \<longleftrightarrow> (\<exists>y m b. x = y # m @ b \<and> lower_char y = lower_char c \<and> lower m = lower v)"
    unfolding Cons.IH by blast
  also have "\<dots> \<longleftrightarrow> (\<exists>m b. x = m @ b \<and> lower m = lower (c # v))"
  proof
    assume "\<exists>y m b. x = y # m @ b \<and> lower_char y = lower_char c \<and> lower m = lower v"
    then show "\<exists>m b. x = m @ b \<and> lower m = lower (c # v)" by (metis append_Cons list.simps(9))
  next
    assume "\<exists>m b. x = m @ b \<and> lower m = lower (c # v)"
    then obtain m b where "x = m @ b" "lower m = lower (c # v)" by blast
    then show "\<exists>y m b. x = y # m @ b \<and> lower_char y = lower_char c \<and> lower m = lower v" by (cases m) auto
  qed
  finally show ?case .
qed

lemma like_substring:
  "like (''%'' @ escapeLikePattern v @ ''%'') x \<longleftrightarrow> (\<exists>a m b. x = a @ m @ b \<and> lower m = lower v)"
proof (induction x)
  case Nil
  show ?case using like_prefix [of v "[]"] by simp
next
  case (Cons y x)
  have "like (''%'' @ escapeLikePattern v @ ''%'') (y # x) \<longleftrightarrow>
      (\<exists>m b. y # x = m @ b \<and> lower m = lower v) \<or> (\<exists>a m b. x = a @ m @ b \<and> lower m = lower v)"
    using Cons like_prefix [of v "y # x"] by simp
  also have "\<dots> \<longleftrightarrow> (\<exists>a m b. y # x = a @ m @ b \<and> lower m = lower v)" (is "?l \<longleftrightarrow> ?r")
  proof
    assume ?l
    then show ?r by (metis append_Cons append_Nil)
  next
    assume ?r
    then obtain a m b where "y # x = a @ m @ b" "lower m = lower v" by blast
    then show ?l by (cases a) auto
  qed
  finally show ?case .
qed

section \<open>Cursors and pages\<close>

lemma dec_no_bar: "CHR ''|'' \<notin> set (dec n)" "CHR ''|'' \<notin> set (pad_dec w n)"
  using dec_digits [of n] pad_dec_num [of w n] by (auto simp: list_all_iff is_digit_def in_range_def)

lemma strip_zeros_subset: "set (strip_zeros s) \<subseteq> set s"
  by (auto simp: strip_zeros_def dest: set_dropWhileD)

lemma timestamp_no_bar: "CHR ''|'' \<notin> set (rfc3339nano t)"
proof -
  have "CHR ''|'' \<notin> set (frac_text n)" for n
    using strip_zeros_subset [of "pad_dec 9 n"] dec_no_bar(2) [of 9 n] by (auto simp: frac_text_def)
  then show ?thesis
    by (simp add: rfc3339nano_def seconds_text_def date_text_def Let_def year_text_def clock_text_def dec_no_bar)
qed

lemma split_at_first:
  assumes "c \<notin> set s"
  shows "takeWhile (\<lambda>x. x \<noteq> c) (s @ c # r) = s" "dropWhile (\<lambda>x. x \<noteq> c) (s @ c # r) = c # r"
  using assms by (induction s) auto

lemma cursor_roundtrip:
  assumes "text_time t"
  shows "decodeAuditCursor (encodeAuditCursor t eid) = Some (t, eid)" "encodeAuditCursor t eid \<noteq> ''''"
proof -
  note parts = split_at_first [OF timestamp_no_bar [of t], of eid]
  show "decodeAuditCursor (encodeAuditCursor t eid) = Some (t, eid)"
    by (simp add: decodeAuditCursor_def encodeAuditCursor_def b64_url_roundtrip parts parse_rfc3339nano [OF assms])
  have "b64_url s = '''' \<Longrightarrow> s = []" for s
    using b64_url_roundtrip [of s] by (simp add: b64_url_decode_def)
  then show "encodeAuditCursor t eid \<noteq> ''''" unfolding encodeAuditCursor_def by blast
qed

lemma after_cursor_key: "after_cursor (t, eid) e \<longleftrightarrow> audit_key e < (rfc3339nano t, eid)"
  by (auto simp: after_cursor_def audit_key_def less_le)

lemma newest_first_filter: "newest_first (filter P rows) = filter P (newest_first rows)"
  by (simp add: newest_first_def filter_sort [symmetric] rev_filter)

lemma newest_first_set [simp]: "set (newest_first rows) = set rows" "length (newest_first rows) = length rows"
  by (simp_all add: newest_first_def)

lemma newest_first_sorted:
  assumes "distinct (map au_id rows)"
  shows "sorted_wrt (\<lambda>a b. audit_key b < audit_key a) (newest_first rows)"
proof -
  have "inj_on audit_key (set rows)" using assms by (auto simp: inj_on_def audit_key_def distinct_map)
  then have "distinct (map audit_key rows)" using assms by (simp add: distinct_map)
  then have "distinct (map audit_key (sort_key audit_key rows))" by (metis distinct_map distinct_sort set_sort)
  then have "sorted_wrt (<) (map audit_key (sort_key audit_key rows))" by (simp add: strict_sorted_iff)
  then show ?thesis by (simp add: newest_first_def sorted_wrt_map sorted_wrt_rev)
qed

lemma filter_below:
  assumes "sorted_wrt (\<lambda>a b. (key b :: 'k :: linorder) < key a) xs" "i < length xs"
  shows "filter (\<lambda>e. key e < key (xs ! i)) xs = drop (Suc i) xs"
  using assms
proof (induction xs arbitrary: i)
  case (Cons x xs)
  show ?case
  proof (cases i)
    case 0
    then show ?thesis using Cons.prems(1) by (auto simp: filter_id_conv)
  next
    case (Suc j)
    then have j: "j < length xs" using Cons.prems(2) by simp
    then have "key (xs ! j) < key x" using Cons.prems(1) by simp
    then have "\<not> key x < key (xs ! j)" by simp
    then show ?thesis using Cons.IH [OF _ j] Cons.prems(1) Suc by simp
  qed
qed simp

text \<open>Following the cursors of a query to the end.\<close>

fun collect_pages :: "(string \<Rightarrow> int) \<Rightarrow> nat \<Rightarrow> AuditQuery \<Rightarrow> AuditEntry list \<Rightarrow> AuditEntry list option" where
  "collect_pages julianday 0 q rows = None"
| "collect_pages julianday (Suc n) q rows =
     (case ListAuditEntries julianday None q rows of
        Inl _ \<Rightarrow> None
      | Inr r \<Rightarrow>
          (case al_next r of
             None \<Rightarrow> Some (al_items r)
           | Some c \<Rightarrow> map_option ((@) (al_items r)) (collect_pages julianday n (q\<lparr>aq_cursor := c\<rparr>) rows)))"

lemma audit_limit_pos: "0 < audit_limit n"
  by (simp add: audit_limit_def Let_def)

lemma audit_where_cursor [simp]: "audit_where julianday (q\<lparr>aq_cursor := c\<rparr>) = audit_where julianday q"
  by (simp add: audit_where_def fun_eq_iff)

lemma next_page:
  assumes "distinct (map au_id rows)" "\<forall>e \<in> set rows. text_time (au_requested e)"
    "S = newest_first (filter (audit_where julianday q) rows)" "i < length S"
  shows "ListAuditEntries julianday None (q\<lparr>aq_cursor := encodeAuditCursor (au_requested (S ! i)) (au_id (S ! i))\<rparr>) rows =
    Inr (audit_page (audit_limit (aq_limit q)) (drop (Suc i) S))"
proof -
  have "S ! i \<in> set rows" using assms(3,4) nth_mem [OF assms(4)] by simp
  then have t: "text_time (au_requested (S ! i))" using assms(2) by blast
  have "distinct (map au_id (filter (audit_where julianday q) rows))" using assms(1) by (simp add: distinct_map_filter)
  note below = filter_below [OF newest_first_sorted [OF this, folded assms(3)] assms(4)]
  have "after_cursor (au_requested (S ! i), au_id (S ! i)) = (\<lambda>e. audit_key e < audit_key (S ! i))"
    unfolding fun_eq_iff after_cursor_key audit_key_def by blast
  with below have "filter (after_cursor (au_requested (S ! i), au_id (S ! i))) S = drop (Suc i) S" by (simp only:)
  then show ?thesis
    using cursor_roundtrip [OF t]
    by (simp add: ListAuditEntries_def Let_def newest_first_filter [of _ "filter _ _"] assms(3) [symmetric] del: filter_filter)
qed

lemma collect_suffix:
  assumes D: "distinct (map au_id rows)" "\<forall>e \<in> set rows. text_time (au_requested e)"
    and S: "S = newest_first (filter (audit_where julianday q) rows)"
    and start: "ListAuditEntries julianday None q' rows = Inr (audit_page (audit_limit (aq_limit q)) (drop k S))"
    and q': "\<exists>c. q' = q\<lparr>aq_cursor := c\<rparr>" and fuel: "length S - k < n"
  shows "collect_pages julianday n q' rows = Some (drop k S)"
  using start q' fuel
proof (induction n arbitrary: k q')
  case (Suc n)
  let ?L = "audit_limit (aq_limit q)"
  show ?case
  proof (cases "length (drop k S) > ?L")
    case False
    then have "audit_page ?L (drop k S) = \<lparr>al_items = drop k S, al_next = None\<rparr>" by (simp add: audit_page_def)
    then show ?thesis using Suc.prems(1) by simp
  next
    case True
    define i where "i = k + ?L - 1"
    have i: "i < length S" "drop k S ! (?L - 1) = S ! i" "Suc i = k + ?L"
      using True audit_limit_pos [of "aq_limit q"] by (simp_all add: i_def)
    have page: "audit_page ?L (drop k S) = \<lparr>al_items = take ?L (drop k S),
        al_next = Some (encodeAuditCursor (au_requested (S ! i)) (au_id (S ! i)))\<rparr>"
      using True i audit_limit_pos [of "aq_limit q"] by (simp add: audit_page_def min_def)
    obtain c where c: "q' = q\<lparr>aq_cursor := c\<rparr>" using Suc.prems(2) by blast
    have "collect_pages julianday n (q'\<lparr>aq_cursor := encodeAuditCursor (au_requested (S ! i)) (au_id (S ! i))\<rparr>) rows = Some (drop (k + ?L) S)"
      using next_page [OF D S i(1)] Suc.prems(3) i(1,3) audit_limit_pos [of "aq_limit q"]
      by (intro Suc.IH) (auto simp: c)
    moreover have "take ?L (drop k S) @ drop (k + ?L) S = drop k S"
      by (metis add.commute append_take_drop_id drop_drop)
    ultimately show ?thesis using Suc.prems(1) page by simp
  qed
qed simp

section \<open>Properties\<close>

text \<open>C18: Paging through the audit log misses nothing and repeats nothing: following the cursors of any
  query to the end returns exactly the matching entries, newest first in the order of the
  listing, after at most one request per entry plus one.\<close>

theorem audit_pages_complete:
  assumes "distinct (map au_id rows)" "\<forall>e \<in> set rows. text_time (au_requested e)" "aq_cursor q = ''''"
  shows "collect_pages julianday (Suc (length rows)) q rows =
    Some (newest_first (filter (audit_where julianday q) rows))"
proof -
  let ?S = "newest_first (filter (audit_where julianday q) rows)"
  have "collect_pages julianday (Suc (length rows)) q rows = Some (drop 0 ?S)"
  proof (rule collect_suffix [OF assms(1,2) refl, where q = q])
    show "ListAuditEntries julianday None q rows = Inr (audit_page (audit_limit (aq_limit q)) (drop 0 ?S))"
      using assms(3) by (simp add: ListAuditEntries_def)
    show "\<exists>c. q = q\<lparr>aq_cursor := c\<rparr>" by (rule exI [of _ "aq_cursor q"]) simp
    show "length ?S - 0 < Suc (length rows)" by (simp add: le_imp_less_Suc)
  qed
  then show ?thesis by simp
qed

definition example_entry :: "string \<Rightarrow> time \<Rightarrow> AuditEntry" where
  "example_entry eid t = \<lparr>au_id = eid, au_stack = Some ''web'', au_job = None, au_action = ''deploy'', au_requested_by = ''local'',
     au_result = ''succeeded'', au_requested = t, au_finished = Some t, au_duration = None, au_target_type = ''stack'',
     au_target = None, au_detail = None\<rparr>"

definition example_query :: AuditQuery where
  "example_query = \<lparr>aq_stack = ''web'', aq_cursor = '''', aq_search = '''', aq_results = [], aq_from = None, aq_before = None, aq_limit = 1\<rparr>"

lemma example_text_time: "text_time 5" "text_time 1000000005"
  by (simp_all add: text_time_def days_before_def Second_def)

theorem audit_pages_complete_witness:
  "collect_pages (\<lambda>_. 0) 3 example_query [example_entry ''a'' 5, example_entry ''b'' 1000000005] =
     Some (newest_first [example_entry ''a'' 5, example_entry ''b'' 1000000005])"
proof -
  have "filter (audit_where (\<lambda>_. 0) example_query) [example_entry ''a'' 5, example_entry ''b'' 1000000005] =
      [example_entry ''a'' 5, example_entry ''b'' 1000000005]"
    by (simp add: audit_where_def example_query_def example_entry_def)
  moreover have "collect_pages (\<lambda>_. 0) (Suc (length [example_entry ''a'' 5, example_entry ''b'' 1000000005])) example_query
      [example_entry ''a'' 5, example_entry ''b'' 1000000005] =
    Some (newest_first (filter (audit_where (\<lambda>_. 0) example_query) [example_entry ''a'' 5, example_entry ''b'' 1000000005]))"
    by (rule audit_pages_complete) (simp_all add: example_entry_def example_query_def example_text_time)
  ultimately show ?thesis by (simp add: numeral_3_eq_3)
qed

text \<open>The search pattern matches exactly the texts that contain the search text, up to ASCII case.\<close>

lemma like_literal:
  "like (''%'' @ escapeLikePattern (lower v) @ ''%'') (lower x) \<longleftrightarrow> (\<exists>a m b. x = a @ m @ b \<and> lower m = lower v)"
proof -
  have idem: "lower_char (lower_char c) = lower_char c" for c
    by (auto simp: lower_char_def in_range_def)
  have "lower (lower s) = lower s" for s by (simp add: idem)
  moreover have "(\<exists>a m b. lower x = a @ m @ b \<and> lower m = lower v) \<longleftrightarrow> (\<exists>a m b. x = a @ m @ b \<and> lower m = lower v)"
  proof
    assume "\<exists>a m b. lower x = a @ m @ b \<and> lower m = lower v"
    then obtain a m b where m: "lower x = a @ m @ b" "lower m = lower v" by blast
    obtain us r where us: "x = us @ r" "lower r = m @ b" using m(1) map_eq_append_conv [of lower_char x a "m @ b"] by metis
    obtain vs ws where vs: "r = vs @ ws" "lower vs = m" using us(2) map_eq_append_conv [of lower_char r m b] by metis
    have "lower vs = lower v" using m(2) vs(2) by (metis \<open>\<And>s. lower (lower s) = lower s\<close>)
    then show "\<exists>a m b. x = a @ m @ b \<and> lower m = lower v" using us(1) vs(1) by blast
  next
    assume "\<exists>a m b. x = a @ m @ b \<and> lower m = lower v"
    then obtain a m b where "x = a @ m @ b" "lower m = lower v" by blast
    then show "\<exists>a m b. lower x = a @ m @ b \<and> lower m = lower v"
      by (intro exI [of _ "lower a"] exI [of _ "lower m"] exI [of _ "lower b"]) (simp add: idem)
  qed
  ultimately show ?thesis by (simp only: like_substring)
qed

definition occurs_in :: "string \<Rightarrow> string \<Rightarrow> bool" where
  "occurs_in v x \<longleftrightarrow> (\<exists>a m b. x = a @ m @ b \<and> lower m = lower v)"

text \<open>The audit search is a literal substring search: whatever wildcard or escape characters the
  search text contains, it restricts the listing exactly to the entries whose action or stack
  contains the trimmed text, up to the case of ASCII letters.\<close>

theorem audit_search_literal:
  "audit_where julianday q e \<longleftrightarrow> audit_where julianday (q\<lparr>aq_search := ''''\<rparr>) e \<and>
     (aq_search q = '''' \<or> occurs_in (go_trim_space (aq_search q)) (au_action e) \<or>
      occurs_in (go_trim_space (aq_search q)) (case au_stack e of Some s \<Rightarrow> s | None \<Rightarrow> ''''))"
proof -
  have "like (''%'' @ escapeLikePattern (lower v) @ ''%'') (lower x) \<longleftrightarrow> occurs_in v x" for v x
    unfolding occurs_in_def by (rule like_literal)
  then show ?thesis by (simp add: audit_where_def Let_def del: append.simps) blast
qed

text \<open>The rows each statement of the retention keeps.\<close>

lemma prune_result:
  assumes "PruneOperationalData io now p db = Inr (s, db')"
  shows "op_auth db' = prune_sessions (now - rp_session p) (op_auth db)"
    "op_jobs db' = prune_job_tables (now - rp_event p) (now - rp_job p)
       (audited_since (now - rp_audit p) (op_audit db)) (op_jobs db)"
    "op_audit db' = filter (\<lambda>e. \<not> ts_less (au_requested e) (now - rp_audit p)) (op_audit db)"
    "rs_audit s = length (op_audit db) - length (op_audit db')"
    "rs_jobs s = length (db_jobs (op_jobs db)) - length (db_jobs (op_jobs db'))"
    "rs_events s = length (db_events (op_jobs db)) - length (db_events (op_jobs db'))"
    "rs_sessions s = length (adb_sessions (op_auth db)) - length (adb_sessions (op_auth db'))"
  using assms by (auto simp: PruneOperationalData_def Let_def split: option.splits)


definition example_policy :: OperationalRetentionPolicy where
  "example_policy = \<lparr>rp_audit = 10 * Second, rp_job = 10 * Second, rp_event = 5 * Second, rp_session = 5 * Second\<rparr>"

definition example_operational_db :: operational_db where
  "example_operational_db = \<lparr>op_jobs = empty_db, op_auth = empty_auth_db,
     op_audit = [example_entry ''a'' (5 * Second), example_entry ''b'' (25 * Second)]\<rparr>"




end
