(* ===== verification/Audit_Service.thy ===== *)
theory Audit_Service
  imports Audit_Store
begin

text \<open>
  internal/audit/service.go: the recorders that turn an outcome into an audit entry, and the
  last action of each stack.  The random token and the clock are arguments; a failed random
  source falls back to the clock.  The detail document is kept as the map that is marshalled.
\<close>

record LastAction =
  la_action :: string
  la_result :: string
  la_finished :: "time"

type_synonym details = "(string, json) gomap"

section \<open>Helpers\<close>

definition audit_fallback :: "string \<Rightarrow> string \<Rightarrow> string" where
  "audit_fallback v fallbackValue = (if v = '''' then fallbackValue else v)"

definition audit_randomToken :: "string option \<Rightarrow> nat \<Rightarrow> string" where
  "audit_randomToken random unixNano = (case random of Some bs \<Rightarrow> b64_url bs | None \<Rightarrow> dec unixNano)"

definition marshalDetails :: "details \<Rightarrow> details option" where
  "marshalDetails d = (if d = [] then None else Some d)"

text \<open>\<open>Duration.Milliseconds\<close> truncates towards zero.\<close>

definition Milliseconds :: "duration \<Rightarrow> int" where
  "Milliseconds d = (if d < 0 then - ((- d) div 1000000) else d div 1000000)"

text \<open>\<open>for key, value := range from { to[key] = value }\<close>\<close>

definition put_details :: "details \<Rightarrow> details \<Rightarrow> details" where
  "put_details from to = fold (\<lambda>(k, v). mput k v) from to"

section \<open>Recorders\<close>

definition job_details :: "Job \<Rightarrow> details \<Rightarrow> details" where
  "job_details job extra =
     (let d0 = [];
          d1 = (if job_error_code job \<noteq> '''' then mput ''error_code'' (JStr (job_error_code job)) d0 else d0);
          d2 = (if job_error_message job \<noteq> '''' then mput ''error_message'' (JStr (job_error_message job)) d1 else d1)
      in put_details extra d2)"

definition job_entry :: "string \<Rightarrow> Job \<Rightarrow> details \<Rightarrow> AuditEntry" where
  "job_entry token job extra =
     \<lparr>au_id = ''audit_'' @ token,
      au_stack = (if job_stack job \<noteq> '''' then Some (job_stack job) else None),
      au_job = Some (job_id job), au_action = job_action job,
      au_requested_by = audit_fallback (job_requested_by job) ''local'', au_result = job_state job,
      au_requested = job_requested_at job, au_finished = job_finished_at job,
      au_duration =
        (case (job_started_at job, job_finished_at job) of
           (Some s, Some f) \<Rightarrow> Some (Milliseconds (time_sub f s))
         | _ \<Rightarrow> None),
      au_target_type = (if job_stack job \<noteq> '''' then ''stack'' else ''workspace''),
      au_target = (if job_stack job \<noteq> '''' then Some (job_stack job) else None),
      au_detail = marshalDetails (job_details job extra)\<rparr>"

definition RecordJob :: "fault \<Rightarrow> string \<Rightarrow> Job \<Rightarrow> details \<Rightarrow> AuditEntry list \<Rightarrow> store_error + AuditEntry list" where
  "RecordJob io token job extra rows = CreateAuditEntry io (job_entry token job extra) rows"

definition RecordStackJob :: "fault \<Rightarrow> string \<Rightarrow> Job \<Rightarrow> AuditEntry list \<Rightarrow> store_error + AuditEntry list" where
  "RecordStackJob io token job rows = RecordJob io token job [] rows"

definition RecordSystemEvent :: "fault \<Rightarrow> string \<Rightarrow> string \<Rightarrow> string \<Rightarrow> string \<Rightarrow> time \<Rightarrow> time option \<Rightarrow> details \<Rightarrow>
    AuditEntry list \<Rightarrow> store_error + AuditEntry list" where
  "RecordSystemEvent io token action requestedBy result requestedAt finishedAt d rows =
     CreateAuditEntry io
       \<lparr>au_id = ''audit_'' @ token, au_stack = None, au_job = None, au_action = action,
        au_requested_by = audit_fallback requestedBy ''local'', au_result = result,
        au_requested = requestedAt, au_finished = finishedAt,
        au_duration = map_option (\<lambda>f. Milliseconds (time_sub f requestedAt)) finishedAt,
        au_target_type = ''system'', au_target = None, au_detail = marshalDetails d\<rparr> rows"

text \<open>The entry of an event that begins and ends now: what the recorders below have in common.\<close>

definition instant_entry :: "string \<Rightarrow> time \<Rightarrow> string option \<Rightarrow> string \<Rightarrow> string \<Rightarrow> string \<Rightarrow> string \<Rightarrow> string \<Rightarrow> details \<Rightarrow> AuditEntry" where
  "instant_entry token now stack action requestedBy result targetType target d =
     \<lparr>au_id = ''audit_'' @ token, au_stack = stack, au_job = None, au_action = action,
      au_requested_by = audit_fallback requestedBy ''local'', au_result = result,
      au_requested = now, au_finished = Some now, au_duration = None,
      au_target_type = targetType, au_target = Some target, au_detail = marshalDetails d\<rparr>"

definition RecordTerminalEvent :: "fault \<Rightarrow> string \<Rightarrow> time \<Rightarrow> string \<Rightarrow> string \<Rightarrow> string \<Rightarrow> string \<Rightarrow> string \<Rightarrow> details \<Rightarrow>
    AuditEntry list \<Rightarrow> store_error + AuditEntry list" where
  "RecordTerminalEvent io token now stackID sessionID requestedBy action result d rows =
     CreateAuditEntry io (instant_entry token now (Some stackID) action requestedBy result ''terminal_session'' sessionID d) rows"

definition recordConfigFileAction :: "fault \<Rightarrow> string \<Rightarrow> time \<Rightarrow> string \<Rightarrow> string \<Rightarrow> string option \<Rightarrow> string \<Rightarrow> details \<Rightarrow>
    AuditEntry list \<Rightarrow> store_error + AuditEntry list" where
  "recordConfigFileAction io token now action relativePath stackID requestedBy d rows =
     CreateAuditEntry io (instant_entry token now stackID action requestedBy ''succeeded'' ''config_file'' relativePath d) rows"

definition RecordConfigFileSave :: "fault \<Rightarrow> string \<Rightarrow> time \<Rightarrow> string \<Rightarrow> string option \<Rightarrow> string \<Rightarrow> details \<Rightarrow>
    AuditEntry list \<Rightarrow> store_error + AuditEntry list" where
  "RecordConfigFileSave io token now = recordConfigFileAction io token now ''save_config_file''"

definition RecordConfigFileDelete :: "fault \<Rightarrow> string \<Rightarrow> time \<Rightarrow> string \<Rightarrow> string option \<Rightarrow> string \<Rightarrow> details \<Rightarrow>
    AuditEntry list \<Rightarrow> store_error + AuditEntry list" where
  "RecordConfigFileDelete io token now = recordConfigFileAction io token now ''delete_config_file''"

definition RecordGitFileRestore :: "fault \<Rightarrow> string \<Rightarrow> time \<Rightarrow> string \<Rightarrow> string option \<Rightarrow> string \<Rightarrow> details \<Rightarrow>
    AuditEntry list \<Rightarrow> store_error + AuditEntry list" where
  "RecordGitFileRestore io token now = recordConfigFileAction io token now ''git_restore_file''"

definition RecordStackFileSave :: "fault \<Rightarrow> string \<Rightarrow> time \<Rightarrow> string \<Rightarrow> string \<Rightarrow> string \<Rightarrow> details \<Rightarrow>
    AuditEntry list \<Rightarrow> store_error + AuditEntry list" where
  "RecordStackFileSave io token now stackID relativePath requestedBy d rows =
     CreateAuditEntry io
       (instant_entry token now (Some stackID) ''save_stack_file'' requestedBy ''succeeded'' ''stack_file'' relativePath d) rows"

definition RecordConfigPermissionRepair :: "fault \<Rightarrow> string \<Rightarrow> time \<Rightarrow> string \<Rightarrow> string \<Rightarrow> details \<Rightarrow>
    AuditEntry list \<Rightarrow> store_error + AuditEntry list" where
  "RecordConfigPermissionRepair io token now relativePath requestedBy d rows =
     CreateAuditEntry io
       (instant_entry token now None ''repair_config_workspace_permissions'' requestedBy ''succeeded'' ''config_file'' relativePath d) rows"

definition RecordStackPermissionRepair :: "fault \<Rightarrow> string \<Rightarrow> time \<Rightarrow> string \<Rightarrow> string \<Rightarrow> string \<Rightarrow> details \<Rightarrow>
    AuditEntry list \<Rightarrow> store_error + AuditEntry list" where
  "RecordStackPermissionRepair io token now stackID relativePath requestedBy d rows =
     CreateAuditEntry io
       (instant_entry token now (Some stackID) ''repair_stack_workspace_permissions'' requestedBy ''succeeded'' ''stack_file'' relativePath d) rows"

definition commit_details :: "string \<Rightarrow> string \<Rightarrow> string list \<Rightarrow> int \<Rightarrow> details \<Rightarrow> details" where
  "commit_details commitID summary paths remainingChanges d =
     (let d1 = (if commitID \<noteq> '''' then mput ''commit'' (JStr commitID) d else d);
          d2 = (if summary \<noteq> '''' then mput ''summary'' (JStr summary) d1 else d1);
          d3 = (if paths \<noteq> [] then mput ''path_count'' (JNum (int (length paths))) (mput ''paths'' (JArr (map JStr paths)) d2) else d2)
      in mput ''remaining_changes'' (JNum remainingChanges) d3)"

definition RecordGitCommit :: "fault \<Rightarrow> string \<Rightarrow> time \<Rightarrow> string \<Rightarrow> string \<Rightarrow> string \<Rightarrow> string list \<Rightarrow> int \<Rightarrow> details \<Rightarrow>
    AuditEntry list \<Rightarrow> store_error + AuditEntry list" where
  "RecordGitCommit io token now requestedBy commitID summary paths remainingChanges d rows =
     CreateAuditEntry io
       (instant_entry token now None ''git_commit'' requestedBy ''succeeded'' ''git_workspace'' ''stacks+config''
          (commit_details commitID summary paths remainingChanges d)) rows"

definition push_details :: "string \<Rightarrow> string \<Rightarrow> string \<Rightarrow> string \<Rightarrow> bool \<Rightarrow> int \<Rightarrow> int \<Rightarrow> details \<Rightarrow> details" where
  "push_details remote branch upstreamName headCommit pushed aheadCount behindCount d =
     mput ''behind_count'' (JNum behindCount) (mput ''ahead_count'' (JNum aheadCount) (mput ''pushed'' (JBool pushed)
       (mput ''head_commit'' (JStr headCommit) (mput ''upstream_name'' (JStr upstreamName)
         (mput ''branch'' (JStr branch) (mput ''remote'' (JStr remote) d))))))"

definition RecordGitPush :: "fault \<Rightarrow> string \<Rightarrow> time \<Rightarrow> string \<Rightarrow> string \<Rightarrow> string \<Rightarrow> string \<Rightarrow> string \<Rightarrow> bool \<Rightarrow> int \<Rightarrow> int \<Rightarrow> details \<Rightarrow>
    AuditEntry list \<Rightarrow> store_error + AuditEntry list" where
  "RecordGitPush io token now requestedBy remote branch upstreamName headCommit pushed aheadCount behindCount d rows =
     CreateAuditEntry io
       (instant_entry token now None ''git_push'' requestedBy ''succeeded'' ''git_workspace'' ''stacks+config''
          (push_details remote branch upstreamName headCommit pushed aheadCount behindCount d)) rows"

section \<open>Queries\<close>

text \<open>\<open>List\<close> copies the query field by field.\<close>

definition List_entries :: "(string \<Rightarrow> int) \<Rightarrow> fault \<Rightarrow> AuditQuery \<Rightarrow> AuditEntry list \<Rightarrow> store_error + AuditListResult" where
  "List_entries julianday io query rows = ListAuditEntries julianday io query rows"

definition last_action_of :: "AuditEntry \<Rightarrow> time \<Rightarrow> LastAction" where
  "last_action_of e t = \<lparr>la_action = au_action e, la_result = au_result e, la_finished = t\<rparr>"

fun collect_last_actions :: "(string \<times> AuditEntry) list \<Rightarrow> (string, LastAction) gomap \<Rightarrow> (string, LastAction) gomap" where
  "collect_last_actions [] m = m"
| "collect_last_actions ((s, e) # es) m =
     (case au_finished e of
        None \<Rightarrow> collect_last_actions es m
      | Some t \<Rightarrow> collect_last_actions es (mput s (last_action_of e t) m))"

definition LastActions :: "fault \<Rightarrow> string list \<Rightarrow> AuditEntry list \<Rightarrow> store_error + (string, LastAction) gomap" where
  "LastActions io stackIDs rows =
     (case LatestAuditEntriesByStackIDs io stackIDs rows of
        Inl e \<Rightarrow> Inl e
      | Inr entries \<Rightarrow> Inr (collect_last_actions entries []))"

section \<open>The last action\<close>

lemma first_per_stack_get:
  "mget (first_per_stack es m) s = (case mget m s of Some x \<Rightarrow> Some x | None \<Rightarrow> find (\<lambda>e. au_stack e = Some s) es)"
  by (induction es arbitrary: m) (auto simp: mget_put split: option.splits)

lemma first_per_stack_ok: "map_ok m \<Longrightarrow> map_ok (first_per_stack es m)"
  by (induction es arbitrary: m) (auto split: option.splits)

lemma collect_last_actions_get:
  assumes "map_ok es"
  shows "mget (collect_last_actions es m) s =
    (case mget es s of
       None \<Rightarrow> mget m s
     | Some e \<Rightarrow> (case au_finished e of None \<Rightarrow> mget m s | Some t \<Rightarrow> Some (last_action_of e t)))"
  using assms
proof (induction es m rule: collect_last_actions.induct)
  case (2 k e es m)
  have ok: "map_ok es" "mget es k = None" using "2.prems" by (auto simp: map_ok_def map_of_eq_None_iff)
  show ?case using "2.IH" ok by (auto simp: mget_put split: option.splits)
qed simp

text \<open>The first entry of a sorted list is its largest.\<close>

lemma find_newest:
  assumes "distinct (map au_id rows)"
  shows "find P (newest_first rows) = Some e \<longleftrightarrow>
    e \<in> set rows \<and> P e \<and> (\<forall>e' \<in> set rows. P e' \<longrightarrow> audit_key e' \<le> audit_key e)"
proof -
  have S: "sorted_wrt (\<lambda>a b. audit_key b < audit_key a) xs \<Longrightarrow> find P xs = Some e \<longleftrightarrow>
      e \<in> set xs \<and> P e \<and> (\<forall>e' \<in> set xs. P e' \<longrightarrow> audit_key e' \<le> audit_key e)" for xs
  proof (induction xs)
    case (Cons x xs)
    show ?case
    proof (cases "P x")
      case True
      have "y = x" if "y \<in> set xs" "audit_key x \<le> audit_key y" for y
        using that Cons.prems leD by (metis sorted_wrt.simps(2))
      moreover have "audit_key y \<le> audit_key x" if "y \<in> set xs" for y
        using that Cons.prems less_imp_le by (metis sorted_wrt.simps(2))
      ultimately show ?thesis using True by (auto simp del: not_le not_less)
    next
      case False
      then show ?thesis using Cons by auto
    qed
  qed simp
  show ?thesis using S [OF newest_first_sorted [OF assms]] by simp
qed

section \<open>Properties\<close>

text \<open>The last action shown for a stack is its newest audit entry: for every requested stack the
  service reports the outcome of the entry that no entry of the stack exceeds in the order of
  the listing, if that entry is finished, and nothing otherwise.\<close>

theorem last_actions_newest:
  assumes "distinct (map au_id rows)" "LastActions None stackIDs rows = Inr m"
  shows "mget m s = Some a \<longleftrightarrow> s \<in> set stackIDs \<and>
    (\<exists>e t. e \<in> set rows \<and> au_stack e = Some s \<and> au_finished e = Some t \<and> a = last_action_of e t \<and>
       (\<forall>e' \<in> set rows. au_stack e' = Some s \<longrightarrow> audit_key e' \<le> audit_key e))"
proof -
  let ?in = "\<lambda>e. case au_stack e of Some s \<Rightarrow> s \<in> set stackIDs | None \<Rightarrow> False"
  let ?es = "first_per_stack (newest_first (filter ?in rows)) []"
  have m: "m = (if stackIDs = [] then [] else collect_last_actions ?es [])"
    using assms(2) by (auto simp: LastActions_def LatestAuditEntriesByStackIDs_def split: if_splits)
  have D: "distinct (map au_id (filter ?in rows))" using assms(1) by (simp add: distinct_map_filter)
  have "mget ?es s = Some e \<longleftrightarrow> s \<in> set stackIDs \<and> e \<in> set rows \<and> au_stack e = Some s \<and>
      (\<forall>e' \<in> set rows. au_stack e' = Some s \<longrightarrow> audit_key e' \<le> audit_key e)" for e
    unfolding first_per_stack_get map_of.simps option.case find_newest [OF D] by (auto simp: split: option.splits)
  moreover have "mget (collect_last_actions ?es []) s = Some a \<longleftrightarrow>
      (\<exists>e t. mget ?es s = Some e \<and> au_finished e = Some t \<and> a = last_action_of e t)"
    unfolding collect_last_actions_get [OF first_per_stack_ok [OF map_ok_Nil]] by (auto split: option.splits)
  ultimately have "mget (collect_last_actions ?es []) s = Some a \<longleftrightarrow> s \<in> set stackIDs \<and>
    (\<exists>e t. e \<in> set rows \<and> au_stack e = Some s \<and> au_finished e = Some t \<and> a = last_action_of e t \<and>
       (\<forall>e' \<in> set rows. au_stack e' = Some s \<longrightarrow> audit_key e' \<le> audit_key e))" by blast
  then show ?thesis by (cases "stackIDs = []") (simp_all add: m)
qed

theorem last_actions_newest_witness:
  "\<exists>m. LastActions None [''web''] [example_entry ''a'' 5, example_entry ''b'' 1000000005] = Inr m \<and>
     mget m ''web'' = Some (last_action_of (example_entry ''b'' 1000000005) 1000000005)"
proof -
  let ?rows = "[example_entry ''a'' 5, example_entry ''b'' 1000000005]"
  obtain m where m: "LastActions None [''web''] ?rows = Inr m"
    by (simp add: LastActions_def LatestAuditEntriesByStackIDs_def)
  have "ts_less 5 1000000005" by (rule ts_less_gap) (simp_all add: example_text_time Second_def)
  then have less: "audit_key (example_entry ''a'' 5) \<le> audit_key (example_entry ''b'' 1000000005)"
    by (simp add: ts_less_def audit_key_def example_entry_def)
  have "distinct (map au_id ?rows)" by (simp add: example_entry_def)
  moreover have "example_entry ''b'' 1000000005 \<in> set ?rows" "au_stack (example_entry ''b'' 1000000005) = Some ''web''"
    "au_finished (example_entry ''b'' 1000000005) = Some 1000000005" by (simp_all add: example_entry_def)
  moreover have "\<forall>e' \<in> set ?rows. au_stack e' = Some ''web'' \<longrightarrow> audit_key e' \<le> audit_key (example_entry ''b'' 1000000005)"
    using less by (simp only: list.set ball_simps simp_thms order_refl)
  moreover have "''web'' \<in> set [''web'']" by simp
  ultimately have "mget m ''web'' = Some (last_action_of (example_entry ''b'' 1000000005) 1000000005)"
    using last_actions_newest [OF _ m, of "''web''" "last_action_of (example_entry ''b'' 1000000005) 1000000005"] by blast

  with m show ?thesis by blast
qed

text \<open>Recording a finished job writes one entry that carries its outcome, unless the identifier is taken.\<close>

lemma RecordJob_entry:
  assumes "RecordJob io token job extra rows = Inr rows'"
  shows "rows' = rows @ [job_entry token job extra]"
    "distinct (map au_id rows) \<Longrightarrow> distinct (map au_id rows')"
  using assms by (auto simp: RecordJob_def CreateAuditEntry_def split: option.splits if_splits)

end
