(* ===== verification/Store_Migrations.thy ===== *)
theory Store_Migrations
  imports Job_Store
begin

text \<open>
  internal/store/migrations.go: the schema migrations of the SQLite store.  A database is its
  migration history, the columns of its tables, its indexes, and of the job tables the
  identifiers and sequence numbers that migration 4 rewrites.  A migration and its history
  row are one transaction, so a fault leaves the database as it was before that version.
\<close>

record schema_db =
  sd_history :: "(nat \<times> string) list option"
  sd_tables :: "(string, string list) gomap"
  sd_indexes :: "string list"
  sd_jobs :: "(string \<times> int) list"
  sd_events :: "(string \<times> int) list"

datatype migration_error =
    ErrSchemaTooNew nat
  | ErrInvalidHistory nat
  | ErrMigration string

type_synonym migration_result = "migration_error + schema_db"

section \<open>Statements\<close>

datatype ddl =
    CreateTable string "string list"
  | CreateIndex string string "string list"

definition has_columns :: "schema_db \<Rightarrow> string \<Rightarrow> string list \<Rightarrow> bool" where
  "has_columns db t cols = (case mget (sd_tables db) t of None \<Rightarrow> False | Some cs \<Rightarrow> set cols \<subseteq> set cs)"

text \<open>\<open>IF NOT EXISTS\<close> on both; an index needs its table and columns.\<close>

fun exec_ddl :: "ddl \<Rightarrow> schema_db \<Rightarrow> migration_result" where
  "exec_ddl (CreateTable t cols) db =
     Inr (if mget (sd_tables db) t \<noteq> None then db else db\<lparr>sd_tables := mput t cols (sd_tables db)\<rparr>)"
| "exec_ddl (CreateIndex i t cols) db =
     (if i \<in> set (sd_indexes db) then Inr db
      else if has_columns db t cols then Inr (db\<lparr>sd_indexes := i # sd_indexes db\<rparr>)
      else Inl (ErrMigration ''no such column''))"

fun exec_all :: "ddl list \<Rightarrow> schema_db \<Rightarrow> migration_result" where
  "exec_all [] db = Inr db"
| "exec_all (s # ss) db = rbind (exec_ddl s db) (exec_all ss)"

definition initial_statements :: "ddl list" where
  "initial_statements =
    [CreateTable ''auth_password'' [''id'', ''password_hash'', ''updated_at''],
     CreateTable ''auth_sessions''
       [''id'', ''user_id'', ''created_at'', ''last_seen_at'', ''expires_at'', ''user_agent'', ''ip_address'', ''revoked_at''],
     CreateIndex ''idx_auth_sessions_expires_at'' ''auth_sessions'' [''expires_at''],
     CreateIndex ''idx_auth_sessions_revoked_at'' ''auth_sessions'' [''revoked_at''],
     CreateTable ''app_settings'' [''key'', ''value_json'', ''updated_at''],
     CreateTable ''jobs''
       [''id'', ''stack_id'', ''action'', ''state'', ''requested_by'', ''requested_at'', ''started_at'', ''finished_at'',
        ''workflow_json'', ''error_code'', ''error_message''],
     CreateIndex ''idx_jobs_stack_requested_at'' ''jobs'' [''stack_id'', ''requested_at''],
     CreateIndex ''idx_jobs_state_requested_at'' ''jobs'' [''state'', ''requested_at''],
     CreateTable ''job_events'' [''job_id'', ''sequence'', ''event'', ''state'', ''message'', ''data'', ''step_json'', ''timestamp''],
     CreateIndex ''idx_job_events_job_sequence'' ''job_events'' [''job_id'', ''sequence''],
     CreateIndex ''idx_job_events_timestamp'' ''job_events'' [''timestamp''],
     CreateTable ''image_update_status'' [''image_ref'', ''local_digest'', ''remote_digest'', ''state'', ''checked_at''],
     CreateTable ''stack_deploy_baselines''
       [''stack_id'', ''compose_sha256'', ''env_sha256'', ''compose_yaml'', ''env'', ''env_exists'', ''last_deployed_at'', ''last_job_id''],
     CreateTable ''audit_entries''
       [''id'', ''stack_id'', ''job_id'', ''action'', ''requested_by'', ''requested_at'', ''finished_at'', ''result'',
        ''duration_ms'', ''target_type'', ''target_id'', ''detail_json''],
     CreateIndex ''idx_audit_entries_stack_requested_at'' ''audit_entries'' [''stack_id'', ''requested_at''],
     CreateIndex ''idx_audit_entries_requested_at'' ''audit_entries'' [''requested_at''],
     CreateIndex ''idx_audit_entries_action_requested_at'' ''audit_entries'' [''action'', ''requested_at'']]"

section \<open>Migrations\<close>

definition migrateInitialSchema :: "schema_db \<Rightarrow> migration_result" where
  "migrateInitialSchema db = exec_all initial_statements db"

text \<open>A new column of the \<open>jobs\<close> table starts with its default, 0 for the sequence number.\<close>

definition addColumnIfMissing :: "string \<Rightarrow> string \<Rightarrow> schema_db \<Rightarrow> migration_result" where
  "addColumnIfMissing t c db =
     (if has_columns db t [c] then Inr db
      else
        (case mget (sd_tables db) t of
           None \<Rightarrow> Inl (ErrMigration ''no such table'')
         | Some cs \<Rightarrow>
             Inr (db\<lparr>sd_tables := mput t (cs @ [c]) (sd_tables db),
                     sd_jobs := (if t = ''jobs'' \<and> c = ''event_sequence'' then map (\<lambda>(j, _). (j, 0)) (sd_jobs db) else sd_jobs db)\<rparr>)))"

definition migrateJobEventProgress :: "schema_db \<Rightarrow> migration_result" where
  "migrateJobEventProgress db = addColumnIfMissing ''job_events'' ''progress_json'' db"

definition migratePasswordVersion :: "schema_db \<Rightarrow> migration_result" where
  "migratePasswordVersion db =
     rbind (addColumnIfMissing ''auth_password'' ''password_version'' db)
       (addColumnIfMissing ''auth_sessions'' ''password_version'')"

text \<open>\<open>COALESCE(SELECT MAX(sequence) ..., 0)\<close>\<close>

definition max_sequence :: "(string \<times> int) list \<Rightarrow> string \<Rightarrow> int" where
  "max_sequence events j =
     (case map snd (filter (\<lambda>(i, _). i = j) events) of [] \<Rightarrow> 0 | q # qs \<Rightarrow> fold max qs q)"

definition migrateJobEventSequence :: "schema_db \<Rightarrow> migration_result" where
  "migrateJobEventSequence db =
     rbind (addColumnIfMissing ''jobs'' ''event_sequence'' db)
       (\<lambda>db. Inr (db\<lparr>sd_jobs := map (\<lambda>(j, s). (j, if s < max_sequence (sd_events db) j then max_sequence (sd_events db) j else s))
                                   (sd_jobs db)\<rparr>))"

definition migrateJobRequestID :: "schema_db \<Rightarrow> migration_result" where
  "migrateJobRequestID db = addColumnIfMissing ''jobs'' ''request_id'' db"

definition currentSchemaVersion :: nat where
  "currentSchemaVersion = 5"

type_synonym schema_migration = "nat \<times> string \<times> (schema_db \<Rightarrow> migration_result)"

definition schemaMigrations :: "schema_migration list" where
  "schemaMigrations =
    [(1, ''initial_schema'', migrateInitialSchema),
     (2, ''job_event_progress'', migrateJobEventProgress),
     (3, ''password_version'', migratePasswordVersion),
     (4, ''job_event_sequence'', migrateJobEventSequence),
     (5, ''job_request_id'', migrateJobRequestID)]"

definition ensureSchemaMigrationsTable :: "schema_db \<Rightarrow> schema_db" where
  "ensureSchemaMigrationsTable db = (if sd_history db = None then db\<lparr>sd_history := Some []\<rparr> else db)"

definition history :: "schema_db \<Rightarrow> (nat \<times> string) list" where
  "history db = (case sd_history db of None \<Rightarrow> [] | Some h \<Rightarrow> h)"

fun check_history :: "nat \<Rightarrow> (nat \<times> string) list \<Rightarrow> migration_error + (nat \<times> string) list" where
  "check_history expected [] = Inr []"
| "check_history expected ((v, n) # rows) =
     (if v > currentSchemaVersion then Inl (ErrSchemaTooNew v)
      else if v \<noteq> expected then Inl (ErrInvalidHistory expected)
      else rbind (check_history (expected + 1) rows) (\<lambda>rest. Inr ((v, n) # rest)))"

definition loadAppliedMigrations :: "schema_db \<Rightarrow> migration_error + (nat \<times> string) list" where
  "loadAppliedMigrations db = check_history 1 (sort_key fst (history db))"

text \<open>\<open>up\<close> and the history row in one transaction: a fault or a failed statement rolls back.\<close>

definition applySchemaMigration :: "fault \<Rightarrow> schema_migration \<Rightarrow> schema_db \<Rightarrow> migration_result" where
  "applySchemaMigration io mig db =
     (case mig of
        (v, n, up) \<Rightarrow>
          (case io of
             Some e \<Rightarrow> Inl (ErrMigration e)
           | None \<Rightarrow>
               rbind (up db) (\<lambda>db'.
                 if v \<in> fst ` set (history db') then Inl (ErrMigration ''UNIQUE constraint failed: schema_migrations.version'')
                 else Inr (db'\<lparr>sd_history := Some (history db' @ [(v, n)])\<rparr>))))"

text \<open>The loop: recorded versions must match the registry, the rest is applied in order.
  The error comes with the database the completed transactions left.\<close>

fun migrate_loop :: "(nat \<Rightarrow> fault) \<Rightarrow> (nat \<times> string) list \<Rightarrow> schema_migration list \<Rightarrow> schema_db \<Rightarrow> migration_error option \<times> schema_db" where
  "migrate_loop io applied [] db = (None, db)"
| "migrate_loop io (a # applied) (mig # migs) db =
     (if fst a \<noteq> fst mig \<or> snd a \<noteq> fst (snd mig) then (Some (ErrInvalidHistory (fst mig)), db)
      else migrate_loop io applied migs db)"
| "migrate_loop io [] (mig # migs) db =
     (case applySchemaMigration (io (fst mig)) mig db of
        Inl e \<Rightarrow> (Some e, db)
      | Inr db' \<Rightarrow> migrate_loop io [] migs db')"

definition runMigrations :: "(nat \<Rightarrow> fault) \<Rightarrow> schema_db \<Rightarrow> migration_error option \<times> schema_db" where
  "runMigrations io db =
     (if schemaMigrations = [] \<or> fst (last schemaMigrations) \<noteq> currentSchemaVersion
      then (Some (ErrMigration ''registry''), db)
      else
        (case io 0 of
           Some e \<Rightarrow> (Some (ErrMigration e), db)
         | None \<Rightarrow>
             (let db1 = ensureSchemaMigrationsTable db
              in case loadAppliedMigrations db1 of
                   Inl e \<Rightarrow> (Some e, db1)
                 | Inr applied \<Rightarrow> migrate_loop io applied schemaMigrations db1)))"

section \<open>The schema after k migrations\<close>

definition registry :: "nat \<Rightarrow> (nat \<times> string) list" where
  "registry k = map (\<lambda>(v, n, _). (v, n)) (take k schemaMigrations)"

definition created :: "ddl list \<Rightarrow> (string \<times> string list) list" where
  "created ss = concat (map (\<lambda>s. case s of CreateTable t c \<Rightarrow> [(t, c)] | _ \<Rightarrow> []) ss)"

definition sequence_bound :: "schema_db \<Rightarrow> bool" where
  "sequence_bound db = (\<forall>(j, s) \<in> set (sd_jobs db). \<forall>(i, q) \<in> set (sd_events db). i = j \<longrightarrow> q \<le> s)"

text \<open>Version 0 allows a database that predates the history and has some of the tables already.\<close>

definition schema_at :: "nat \<Rightarrow> schema_db \<Rightarrow> bool" where
  "schema_at k db \<longleftrightarrow>
     (\<forall>(t, cols) \<in> set (created initial_statements). has_columns db t cols \<or> (k = 0 \<and> mget (sd_tables db) t = None)) \<and>
     (2 \<le> k \<longrightarrow> has_columns db ''job_events'' [''progress_json'']) \<and>
     (3 \<le> k \<longrightarrow> has_columns db ''auth_password'' [''password_version''] \<and> has_columns db ''auth_sessions'' [''password_version'']) \<and>
     (4 \<le> k \<longrightarrow> has_columns db ''jobs'' [''event_sequence''] \<and> sequence_bound db) \<and>
     (5 \<le> k \<longrightarrow> has_columns db ''jobs'' [''request_id''])"

text \<open>What every statement keeps: rows and history stay, columns are only added.\<close>

definition grows :: "schema_db \<Rightarrow> schema_db \<Rightarrow> bool" where
  "grows db db' \<longleftrightarrow> sd_history db' = sd_history db \<and> sd_events db' = sd_events db \<and>
     map fst (sd_jobs db') = map fst (sd_jobs db) \<and>
     (\<forall>t cols. has_columns db t cols \<longrightarrow> has_columns db' t cols)"

lemma grows_refl [simp]: "grows db db"
  by (simp add: grows_def)

lemma grows_trans: "grows a b \<Longrightarrow> grows b c \<Longrightarrow> grows a c"
  by (simp add: grows_def)

text \<open>Every index comes after its table, and no table is created twice.\<close>

fun ddl_ok :: "(string \<times> string list) list \<Rightarrow> ddl list \<Rightarrow> bool" where
  "ddl_ok known [] = True"
| "ddl_ok known (CreateTable t c # ss) = (t \<notin> fst ` set known \<and> ddl_ok ((t, c) # known) ss)"
| "ddl_ok known (CreateIndex i t cols # ss) = ((\<exists>(t', c) \<in> set known. t' = t \<and> set cols \<subseteq> set c) \<and> ddl_ok known ss)"

lemma initial_ddl_ok: "ddl_ok [] initial_statements"
  by (simp add: initial_statements_def)

lemma ddl_ok_fresh: "ddl_ok known ss \<Longrightarrow> (t, c) \<in> set (created ss) \<Longrightarrow> t \<notin> fst ` set known"
  by (induction known ss rule: ddl_ok.induct) (auto simp: created_def)

lemma has_columns_mput:
  "has_columns (db\<lparr>sd_tables := mput t cs (sd_tables db)\<rparr>) t' cols = (if t' = t then set cols \<subseteq> set cs else has_columns db t' cols)"
  by (simp add: has_columns_def mget_put)

lemma exec_all_ok:
  assumes "ddl_ok known ss" "\<forall>(t, c) \<in> set known. has_columns db t c"
    and "\<forall>(t, c) \<in> set (created ss). has_columns db t c \<or> mget (sd_tables db) t = None"
  shows "\<exists>db'. exec_all ss db = Inr db' \<and> grows db db' \<and> sd_jobs db' = sd_jobs db \<and>
    (\<forall>(t, c) \<in> set (known @ created ss). has_columns db' t c)"
  using assms
proof (induction known ss arbitrary: db rule: ddl_ok.induct)
  case (2 known t c ss)
  let ?db = "if mget (sd_tables db) t \<noteq> None then db else db\<lparr>sd_tables := mput t c (sd_tables db)\<rparr>"
  have new: "has_columns ?db t c" using "2.prems"(3) by (auto simp: created_def has_columns_mput)
  have g: "grows db ?db" by (auto simp: grows_def has_columns_mput) (auto simp: has_columns_def)
  have fresh: "t' \<noteq> t" if "(t', c') \<in> set (created ss)" for t' c'
    using ddl_ok_fresh [of "(t, c) # known" ss t' c'] "2.prems"(1) that by auto
  have "\<exists>db'. exec_all ss ?db = Inr db' \<and> grows ?db db' \<and> sd_jobs db' = sd_jobs ?db \<and>
      (\<forall>(t, c) \<in> set (((t, c) # known) @ created ss). has_columns db' t c)"
  proof (rule "2.IH")
    show "ddl_ok ((t, c) # known) ss" using "2.prems"(1) by simp
    show "\<forall>(t, c) \<in> set ((t, c) # known). has_columns ?db t c"
      using new g "2.prems"(2) unfolding grows_def by auto
    show "\<forall>(t, c) \<in> set (created ss). has_columns ?db t c \<or> mget (sd_tables ?db) t = None"
    proof -
      have "has_columns ?db t' c' \<or> mget (sd_tables ?db) t' = None" if m: "(t', c') \<in> set (created ss)" for t' c'
      proof (cases "mget (sd_tables db) t' = None")
        case True
        then show ?thesis using fresh [OF m] by (simp add: mget_put)
      next
        case False
        then have "has_columns db t' c'" using "2.prems"(3) m by (auto simp: created_def)
        then show ?thesis using g unfolding grows_def by blast
      qed
      then show ?thesis by (simp only: split_paired_Ball_Sigma case_prod_beta Ball_def split_paired_All fst_conv snd_conv) blast
    qed
  qed
  then obtain db' where "exec_all ss ?db = Inr db'" "grows ?db db'" "sd_jobs db' = sd_jobs ?db"
      "\<forall>(t, c) \<in> set (((t, c) # known) @ created ss). has_columns db' t c" by blast
  then show ?case using grows_trans [OF g] by (intro exI [of _ db']) (auto simp: created_def)
next
  case (3 known i t cols ss)
  let ?db = "if i \<in> set (sd_indexes db) then db else db\<lparr>sd_indexes := i # sd_indexes db\<rparr>"
  have same: "has_columns ?db = has_columns db" "sd_tables ?db = sd_tables db" "sd_jobs ?db = sd_jobs db"
    by (auto simp: has_columns_def fun_eq_iff)
  have g: "grows db ?db" by (simp add: grows_def has_columns_def)
  obtain c where c: "(t, c) \<in> set known" "set cols \<subseteq> set c" using "3.prems"(1) by auto
  have "has_columns db t c" using "3.prems"(2) c(1) by blast
  then have "has_columns db t cols" using c(2) by (auto simp: has_columns_def split: option.splits)
  then have run: "exec_ddl (CreateIndex i t cols) db = Inr ?db" by simp
  obtain db' where "exec_all ss ?db = Inr db'" "grows ?db db'" "sd_jobs db' = sd_jobs db"
      "\<forall>(t, c) \<in> set (known @ created ss). has_columns db' t c"
    using "3.IH" [of ?db] "3.prems" unfolding same by (auto simp: created_def)
  then show ?case using grows_trans [OF g] run by (intro exI [of _ db']) (auto simp: created_def)
qed (auto simp: created_def)

lemma add_column_ok:
  assumes "has_columns db t cols"
  shows "\<exists>db'. addColumnIfMissing t c db = Inr db' \<and> grows db db' \<and> has_columns db' t [c] \<and>
    (t \<noteq> ''jobs'' \<or> c \<noteq> ''event_sequence'' \<longrightarrow> sd_jobs db' = sd_jobs db)"
proof (cases "has_columns db t [c]")
  case False
  obtain cs where cs: "mget (sd_tables db) t = Some cs" using assms by (auto simp: has_columns_def split: option.splits)
  have "map fst (map (\<lambda>(j, _). (j, 0 :: int)) js) = map fst js" for js :: "(string \<times> int) list"
    by (simp add: case_prod_beta)
  then show ?thesis using False cs
    by (auto simp: addColumnIfMissing_def grows_def has_columns_def mget_put split: option.splits)
qed (simp add: addColumnIfMissing_def)

lemma max_sequence_ge:
  assumes "(j, q) \<in> set events"
  shows "q \<le> max_sequence events j"
proof -
  have base: "(q0 :: int) \<le> fold max qs q0" for q0 qs
    by (induction qs arbitrary: q0) (auto intro: order_trans [OF max.cobounded2])
  have up: "(x :: int) \<le> fold max qs q0" if "x = q0 \<or> x \<in> set qs" for x q0 qs
    using that
  proof (induction qs arbitrary: q0)
    case (Cons a qs)
    show ?case using Cons.IH [of "max a q0"] Cons.prems base [of "max a q0" qs] by auto
  qed simp
  have "q \<in> set (map snd (filter (\<lambda>(i, _). i = j) events))" using assms by force
  then show ?thesis using up [of q]
    by (cases "map snd (filter (\<lambda>(i, _). i = j) events)") (simp_all only: max_sequence_def list.simps list.set empty_iff insert_iff)
qed

section \<open>One migration\<close>

lemma schema_at_grows:
  assumes "schema_at k db" "grows db db'" "4 \<le> k \<longrightarrow> sd_jobs db' = sd_jobs db" "0 < k"
  shows "schema_at k db'"
  using assms unfolding schema_at_def grows_def sequence_bound_def by fastforce

lemma table_exists:
  assumes "schema_at k db" "0 < k" "(t, cols) \<in> set (created initial_statements)"
  shows "has_columns db t cols"
  using assms unfolding schema_at_def by auto

text \<open>The tables the later migrations alter.\<close>

lemma created_tables:
  "\<exists>cols. (''auth_password'', cols) \<in> set (created initial_statements)"
  "\<exists>cols. (''auth_sessions'', cols) \<in> set (created initial_statements)"
  "\<exists>cols. (''jobs'', cols) \<in> set (created initial_statements)"
  "\<exists>cols. (''job_events'', cols) \<in> set (created initial_statements)"
  by (simp_all add: created_def initial_statements_def ex_disj_distrib)

lemma migrate_column:
  assumes "schema_at k db" "0 < k" "\<exists>cols. (t, cols) \<in> set (created initial_statements)" "t \<noteq> ''jobs'' \<or> c \<noteq> ''event_sequence''"
  shows "\<exists>db'. addColumnIfMissing t c db = Inr db' \<and> grows db db' \<and> has_columns db' t [c] \<and> schema_at k db'"
proof -
  obtain cols where "has_columns db t cols" using table_exists [OF assms(1,2)] assms(3) by blast
  from add_column_ok [OF this, of c] obtain db' where
    "addColumnIfMissing t c db = Inr db'" "grows db db'" "has_columns db' t [c]" "sd_jobs db' = sd_jobs db"
    using assms(4) by blast
  then show ?thesis using schema_at_grows [OF assms(1), of db'] assms(2) by blast
qed

lemma migrate_initial:
  assumes "schema_at 0 db"
  shows "\<exists>db'. migrateInitialSchema db = Inr db' \<and> grows db db' \<and> schema_at 1 db'"
proof -
  have "\<forall>(t, c) \<in> set (created initial_statements). has_columns db t c \<or> mget (sd_tables db) t = None"
    using assms unfolding schema_at_def by auto
  from exec_all_ok [OF initial_ddl_ok _ this] show ?thesis
    unfolding migrateInitialSchema_def schema_at_def by auto
qed

lemma migrate_passwords:
  assumes "schema_at 2 db"
  shows "\<exists>db'. migratePasswordVersion db = Inr db' \<and> grows db db' \<and> schema_at 3 db'"
proof -
  obtain db1 where 1: "addColumnIfMissing ''auth_password'' ''password_version'' db = Inr db1" "grows db db1"
      "has_columns db1 ''auth_password'' [''password_version'']" "schema_at 2 db1"
    using migrate_column [OF assms _ created_tables(1), of "''password_version''"] by auto
  obtain db2 where 2: "addColumnIfMissing ''auth_sessions'' ''password_version'' db1 = Inr db2" "grows db1 db2"
      "has_columns db2 ''auth_sessions'' [''password_version'']" "schema_at 2 db2"
    using migrate_column [OF 1(4) _ created_tables(2), of "''password_version''"] by auto
  have "schema_at 3 db2" using 1(3) 2(2-4) unfolding schema_at_def grows_def by auto
  then show ?thesis using 1(1,2) 2(1,2) grows_trans by (auto simp: migratePasswordVersion_def)
qed

lemma migrate_sequences:
  assumes "schema_at 3 db"
  shows "\<exists>db'. migrateJobEventSequence db = Inr db' \<and> grows db db' \<and> schema_at 4 db'"
proof -
  obtain cols where "has_columns db ''jobs'' cols" using table_exists [OF assms] created_tables(3) by auto
  from add_column_ok [OF this, of "''event_sequence''"] obtain db1 where
    1: "addColumnIfMissing ''jobs'' ''event_sequence'' db = Inr db1" "grows db db1" "has_columns db1 ''jobs'' [''event_sequence'']"
    by blast
  let ?f = "\<lambda>(j, s). (j, if s < max_sequence (sd_events db1) j then max_sequence (sd_events db1) j else s)"
  let ?db = "db1\<lparr>sd_jobs := map ?f (sd_jobs db1)\<rparr>"
  have "map fst (map ?f js) = map fst js" for js by (simp add: case_prod_beta)
  moreover have cols: "has_columns ?db = has_columns db1" by (simp add: has_columns_def fun_eq_iff)
  ultimately have g: "grows db1 ?db" unfolding grows_def by auto
  have "sequence_bound ?db"
    unfolding sequence_bound_def by (auto dest: max_sequence_ge)
  moreover have "schema_at 3 db1" using schema_at_grows [OF assms 1(2)] by simp
  ultimately have "schema_at 4 ?db" using 1(3) g unfolding schema_at_def cols by auto
  then show ?thesis using 1(1,2) g grows_trans by (auto simp: migrateJobEventSequence_def)
qed

text \<open>From every version the next migration succeeds and reaches the next version.\<close>

lemma migration_step:
  assumes "schema_at k db" "k < 5"
  shows "\<exists>db'. (snd (snd (schemaMigrations ! k))) db = Inr db' \<and> grows db db' \<and> schema_at (Suc k) db'"
proof -
  consider "k = 0" | "k = 1" | "k = 2" | "k = 3" | "k = 4" using assms(2) by linarith
  then show ?thesis
  proof cases
    case 1
    then show ?thesis using migrate_initial assms(1) by (simp add: schemaMigrations_def)
  next
    case 2
    obtain db' where "addColumnIfMissing ''job_events'' ''progress_json'' db = Inr db'" "grows db db'"
        "has_columns db' ''job_events'' [''progress_json'']" "schema_at 1 db'"
      using migrate_column [OF assms(1) _ created_tables(4), of "''progress_json''"] 2 by auto
    then show ?thesis using 2 by (auto simp: schemaMigrations_def migrateJobEventProgress_def schema_at_def)
  next
    case 3
    then show ?thesis using migrate_passwords assms(1) by (simp add: schemaMigrations_def)
  next
    case 4
    then show ?thesis using migrate_sequences assms(1) by (simp add: schemaMigrations_def)
  next
    case 5
    obtain db' where "addColumnIfMissing ''jobs'' ''request_id'' db = Inr db'" "grows db db'"
        "has_columns db' ''jobs'' [''request_id'']" "schema_at 4 db'"
      using migrate_column [OF assms(1) _ created_tables(3), of "''request_id''"] 5 by auto
    then show ?thesis using 5 by (auto simp: schemaMigrations_def migrateJobRequestID_def schema_at_def)
  qed
qed

section \<open>The whole run\<close>

lemma length_migrations: "length schemaMigrations = 5"
  by (simp add: schemaMigrations_def)

lemma migration_header:
  assumes "k < 5"
  shows "fst (schemaMigrations ! k) = Suc k" "registry (Suc k) = registry k @ [(Suc k, fst (snd (schemaMigrations ! k)))]"
proof -
  show "fst (schemaMigrations ! k) = Suc k"
    using assms by (auto simp: schemaMigrations_def less_Suc_eq numeral_eq_Suc)
  then show "registry (Suc k) = registry k @ [(Suc k, fst (snd (schemaMigrations ! k)))]"
    using assms by (simp add: registry_def take_Suc_conv_app_nth length_migrations case_prod_beta)
qed

lemma registry_versions: "k \<le> 5 \<Longrightarrow> map fst (registry k) = [1..<Suc k]"
proof (induction k)
  case 0
  then show ?case by (simp add: registry_def)
next
  case (Suc k)
  then show ?case by (simp add: migration_header)
qed

lemma check_registry:
  assumes "map fst h = [n..<n + length h]" "n + length h \<le> Suc currentSchemaVersion"
  shows "check_history n h = Inr h"
  using assms
proof (induction h arbitrary: n)
  case (Cons x h)
  have "[n..<n + length (x # h)] = n # [Suc n..<Suc n + length h]" by (simp add: upt_conv_Cons del: upt_Suc)
  then have "map fst h = [Suc n..<Suc n + length h]" "fst x = n"
    using Cons.prems(1) by (simp_all del: upt_Suc)
  moreover have "n \<le> currentSchemaVersion" using Cons.prems(2) by simp
  ultimately show ?case using Cons.IH [of "Suc n"] Cons.prems(2) by (cases x) simp
qed simp

lemma load_registry:
  assumes "history db = registry k" "k \<le> 5"
  shows "loadAppliedMigrations db = Inr (registry k)"
proof -
  note v = registry_versions [OF assms(2)]
  have l: "length (registry k) = k" using v by (metis diff_Suc_1 length_map length_upt)
  have "sorted (map fst (registry k))" unfolding v by (rule sorted_upt)
  then have "sort_key fst (registry k) = registry k" by (simp add: sort_key_id_if_sorted)
  then show ?thesis using assms v l check_registry [of "registry k" 1]
    by (simp add: loadAppliedMigrations_def currentSchemaVersion_def)
qed

lemma loop_skips:
  assumes "k + length migs = 5" "migs = drop k schemaMigrations" "applied = drop k (registry n)" "k \<le> n" "n \<le> 5"
  shows "migrate_loop io applied migs db = migrate_loop io [] (drop n schemaMigrations) db"
  using assms
proof (induction io applied migs db arbitrary: k rule: migrate_loop.induct)
  case (1 io applied db)
  then have "n = k" "k = 5" by simp_all
  then show ?case using 1 by (simp add: registry_def length_migrations)
next
  case (2 io a applied mig migs db)
  have "k < length (registry n)" using 2(4) by (metis drop_all list.distinct(1) not_le)
  then have k: "k < 5" "k < n" by (simp_all add: registry_def length_migrations)
  have "a = registry n ! k" "applied = drop (Suc k) (registry n)"
    using 2(4) by (metis nth_via_drop, metis drop_Suc list.sel(3) tl_drop)
  moreover have "mig = schemaMigrations ! k" "migs = drop (Suc k) schemaMigrations"
    using 2(3) by (metis nth_via_drop, metis drop_Suc list.sel(3) tl_drop)
  moreover have "registry n ! k = (fst (schemaMigrations ! k), fst (snd (schemaMigrations ! k)))"
    using k 2(6) by (simp add: registry_def length_migrations case_prod_beta)
  ultimately have "migrate_loop io (a # applied) (mig # migs) db = migrate_loop io applied migs db"
    "migrate_loop io applied migs db = migrate_loop io [] (drop n schemaMigrations) db"
    using 2(1) [of "Suc k"] 2(2,6) k by simp_all
  then show ?case by simp
next
  case (3 io mig migs db)
  have "k = n" using 3 by (simp add: registry_def length_migrations)
  then show ?case using 3 by simp
qed

lemma loop_applies:
  assumes "history db = registry k" "k \<le> 5" "schema_at k db"
  shows "case migrate_loop io [] (drop k schemaMigrations) db of (e, db') \<Rightarrow>
    (\<exists>j. k \<le> j \<and> j \<le> 5 \<and> history db' = registry j \<and> schema_at j db' \<and> (e = None \<longrightarrow> j = 5)) \<and>
    sd_events db' = sd_events db \<and> map fst (sd_jobs db') = map fst (sd_jobs db) \<and> ((\<forall>v. io v = None) \<longrightarrow> e = None)"
  using assms
proof (induction "5 - k" arbitrary: k db)
  case 0
  then show ?case by (auto simp: length_migrations)
next
  case (Suc d)
  then have k: "k < 5" by simp
  let ?mig = "schemaMigrations ! k"
  have cons: "drop k schemaMigrations = ?mig # drop (Suc k) schemaMigrations" using k by (simp add: Cons_nth_drop_Suc length_migrations)
  obtain db1 where 1: "(snd (snd ?mig)) db = Inr db1" "grows db db1" "schema_at (Suc k) db1"
    using migration_step [OF Suc.prems(3) k] by blast
  have h: "history db1 = registry k" using 1(2) Suc.prems(1) by (simp add: grows_def history_def)
  have "fst ` set (registry k) = {1..<Suc k}" using registry_versions [OF Suc.prems(2)] by (metis atLeastLessThan_upt set_map)
  then have "Suc k \<notin> fst ` set (registry k)" by simp
  then have ap: "applySchemaMigration None ?mig db = Inr (db1\<lparr>sd_history := Some (registry (Suc k))\<rparr>)" (is "_ = Inr ?db")
    using 1(1) migration_header [OF k] h by (simp add: applySchemaMigration_def case_prod_beta)
  have "schema_at (Suc k) ?db" using 1(3) by (simp add: schema_at_def has_columns_def sequence_bound_def)
  note IH = Suc.hyps(1) [of "Suc k" ?db, OF _ _ _ this]
  show ?case
  proof (cases "io (Suc k)")
    case None
    have "history ?db = registry (Suc k)" "d = 5 - Suc k" using Suc.hyps(2) by (simp_all add: history_def)
    note IH = IH [OF this(2,1)]
    have "migrate_loop io [] (drop k schemaMigrations) db = migrate_loop io [] (drop (Suc k) schemaMigrations) ?db"
      using None ap migration_header(1) [OF k] by (simp add: cons)
    moreover obtain e db' where run: "migrate_loop io [] (drop (Suc k) schemaMigrations) ?db = (e, db')" by (rule prod.exhaust)
    moreover from IH obtain j where j: "Suc k \<le> j" "j \<le> 5" "history db' = registry j" "schema_at j db'" "e = None \<longrightarrow> j = 5"
      "sd_events db' = sd_events ?db" "map fst (sd_jobs db') = map fst (sd_jobs ?db)" "(\<forall>v. io v = None) \<longrightarrow> e = None"
      using k by (auto simp: run)
    moreover have "sd_events ?db = sd_events db" "map fst (sd_jobs ?db) = map fst (sd_jobs db)"
      using 1(2) by (simp_all add: grows_def)
    ultimately show ?thesis using Suc_leD [OF j(1)] by (simp only: prod.case) blast
  next
    case (Some e)
    then have "applySchemaMigration (io (fst ?mig)) ?mig db = Inl (ErrMigration e)"
      using migration_header [OF k] by (simp add: applySchemaMigration_def case_prod_beta)
    then show ?thesis using Some Suc.prems by (auto simp: cons)
  qed
qed

text \<open>C19: Migrating is safe at every point of failure.  From a database at any supported version, and
  whatever fault interrupts the run, the database is left exactly at some later version with
  the tables and columns of that version and every job and event row kept; without faults
  the run succeeds and reaches the current version, where the sequence counter of each job
  is at least the largest sequence number of its events.\<close>

theorem migrations_resumable:
  assumes "history db = registry k" "k \<le> 5" "schema_at k db"
  shows "case runMigrations io db of (e, db') \<Rightarrow>
    (\<exists>j. k \<le> j \<and> j \<le> 5 \<and> history db' = registry j \<and> schema_at j db' \<and> (e = None \<longrightarrow> j = 5 \<and> sequence_bound db')) \<and>
    sd_events db' = sd_events db \<and> map fst (sd_jobs db') = map fst (sd_jobs db) \<and> ((\<forall>v. io v = None) \<longrightarrow> e = None)"
proof (cases "io 0")
  case (Some e)
  then show ?thesis using assms by (auto simp: runMigrations_def schemaMigrations_def currentSchemaVersion_def)
next
  case None
  let ?db = "ensureSchemaMigrationsTable db"
  have same: "history ?db = registry k" "schema_at k ?db" "sd_events ?db = sd_events db" "sd_jobs ?db = sd_jobs db"
    using assms by (auto simp: ensureSchemaMigrationsTable_def history_def schema_at_def has_columns_def sequence_bound_def)
  have "migrate_loop io (registry k) schemaMigrations ?db = migrate_loop io [] (drop k schemaMigrations) ?db"
    using loop_skips [of 0 schemaMigrations "registry k" k io ?db] assms(2) by (simp add: length_migrations)
  moreover have "schemaMigrations \<noteq> []" "fst (last schemaMigrations) = currentSchemaVersion"
    by (simp_all add: schemaMigrations_def currentSchemaVersion_def)
  ultimately have run: "runMigrations io db = migrate_loop io [] (drop k schemaMigrations) ?db"
    using None load_registry [OF same(1) assms(2)] by (simp add: runMigrations_def Let_def)
  have "schema_at 5 db' \<Longrightarrow> sequence_bound db'" for db' by (simp add: schema_at_def)
  then show ?thesis
    using loop_applies [OF same(1) assms(2) same(2), of io] unfolding run same(3,4) by (auto split: prod.splits)
qed

definition legacy_db :: schema_db where
  "legacy_db = \<lparr>sd_history = None, sd_tables = [(''job_events'', [''job_id'', ''sequence'', ''event'', ''state'', ''message'', ''data'', ''step_json'', ''timestamp''])],
     sd_indexes = [], sd_jobs = [(''job_1'', 0)], sd_events = [(''job_1'', 1), (''job_1'', 2)]\<rparr>"

theorem migrations_resumable_witness:
  "\<exists>db'. runMigrations (\<lambda>_. None) legacy_db = (None, db') \<and> history db' = registry 5 \<and> sequence_bound db' \<and>
     sd_events db' = [(''job_1'', 1), (''job_1'', 2)]"
proof -
  have "history legacy_db = registry 0" "schema_at 0 legacy_db"
    by (auto simp: history_def legacy_db_def registry_def schema_at_def has_columns_def created_def initial_statements_def)
  from migrations_resumable [OF this(1) _ this(2), of "\<lambda>_. None"] show ?thesis
    by (auto simp: legacy_db_def split: prod.splits)
qed

text \<open>A database of a newer program is refused before any of its tables is touched.\<close>

lemma check_history_newer:
  assumes "(v, n) \<in> set h" "currentSchemaVersion < v"
  shows "\<exists>e. check_history k h = Inl e"
  using assms
proof (induction k h rule: check_history.induct)
  case (2 expected w m rows)
  then show ?case by (cases "v = w") auto
qed simp

lemma newer_schema_refused:
  assumes "(v, n) \<in> set (history db)" "currentSchemaVersion < v" "io 0 = None"
  shows "\<exists>e. runMigrations io db = (Some e, db)"
proof -
  have "ensureSchemaMigrationsTable db = db"
    using assms(1) by (auto simp: ensureSchemaMigrationsTable_def history_def)
  moreover obtain e where "loadAppliedMigrations db = Inl e"
    using check_history_newer [of v n "sort_key fst (history db)" 1] assms(1,2) by (auto simp: loadAppliedMigrations_def)
  moreover have "schemaMigrations \<noteq> []" "fst (last schemaMigrations) = currentSchemaVersion"
    by (simp_all add: schemaMigrations_def currentSchemaVersion_def)
  ultimately show ?thesis using assms(3) by (simp add: runMigrations_def)
qed

end
