(* ===== verification/Go_Zone.thy ===== *)
theory Go_Zone
  imports Go_Time
begin

text \<open>
  Local time of Go's \<open>time\<close> package.  A \<open>time.Location\<close> is its offset before the first
  transition and the list of its transitions, in seconds since Go's zero time (the yearly
  rules of a zone are transitions like any other).  A local date is the number of its day,
  day 0 being Monday 1 January of year 1.
\<close>

record Location =
  loc_first :: int
  loc_trans :: "(int \<times> int) list"

definition UTC :: Location where
  "UTC = \<lparr>loc_first = 0, loc_trans = []\<rparr>"

definition fixed_zone :: "Location \<Rightarrow> bool" where
  "fixed_zone loc \<longleftrightarrow> loc_trans loc = []"

text \<open>\<open>lookup\<close>: the offset in force at a second, and the interval it is in force.\<close>

fun lookup_from :: "int \<Rightarrow> int option \<Rightarrow> (int \<times> int) list \<Rightarrow> int \<Rightarrow> int \<times> int option \<times> int option" where
  "lookup_from off since [] sec = (off, since, None)"
| "lookup_from off since ((w, off') # ts) sec =
     (if sec < w then (off, since, Some w) else lookup_from off' (Some w) ts sec)"

definition zone_lookup :: "Location \<Rightarrow> int \<Rightarrow> int \<times> int option \<times> int option" where
  "zone_lookup loc sec = lookup_from (loc_first loc) None (loc_trans loc) sec"

definition zone_offset :: "Location \<Rightarrow> int \<Rightarrow> int" where
  "zone_offset loc sec = fst (zone_lookup loc sec)"

definition in_zone :: "int option \<times> int option \<Rightarrow> int \<Rightarrow> bool" where
  "in_zone se sec = ((case fst se of None \<Rightarrow> True | Some s \<Rightarrow> s \<le> sec) \<and> (case snd se of None \<Rightarrow> True | Some e \<Rightarrow> sec < e))"

text \<open>The local second, day and second of the day of an instant.\<close>

definition local_seconds :: "Location \<Rightarrow> time \<Rightarrow> int" where
  "local_seconds loc t = t div Second + zone_offset loc (t div Second)"

definition local_day :: "Location \<Rightarrow> time \<Rightarrow> int" where
  "local_day loc t = local_seconds loc t div 86400"

definition local_clock :: "Location \<Rightarrow> time \<Rightarrow> int" where
  "local_clock loc t = local_seconds loc t mod 86400"

text \<open>\<open>time.Weekday\<close>, Sunday being 0.\<close>

definition weekday_of :: "int \<Rightarrow> nat" where
  "weekday_of day = nat ((day + 1) mod 7)"

text \<open>\<open>time.Date\<close>: the local time is first taken for universal time; if the offset found there is
  not in force at the instant it gives, the offset at that instant is used.\<close>

definition go_date :: "Location \<Rightarrow> int \<Rightarrow> int \<Rightarrow> int \<Rightarrow> time" where
  "go_date loc day clock nsec =
     (let unix = day * 86400 + clock
      in case zone_lookup loc unix of
           (off, se) \<Rightarrow>
             (let utc = unix - off;
                  off' = (if off = 0 then 0 else if in_zone se utc then off else zone_offset loc utc)
              in (unix - off') * Second + nsec))"

text \<open>\<open>t.AddDate(0, 0, days)\<close>\<close>

definition AddDays :: "Location \<Rightarrow> time \<Rightarrow> int \<Rightarrow> time" where
  "AddDays loc t days = go_date loc (local_day loc t + days) (local_clock loc t) (t mod Second)"

section \<open>Zones without transitions\<close>

lemma fixed_offset [simp]: "fixed_zone loc \<Longrightarrow> zone_offset loc sec = loc_first loc"
  by (simp add: fixed_zone_def zone_offset_def zone_lookup_def)

lemma fixed_date:
  assumes "fixed_zone loc"
  shows "go_date loc day clock nsec = (day * 86400 + clock - loc_first loc) * Second + nsec"
  using assms by (simp add: go_date_def fixed_zone_def zone_lookup_def in_zone_def zone_offset_def Let_def)

lemma local_parts: "local_day loc t * 86400 + local_clock loc t = local_seconds loc t" "0 \<le> local_clock loc t" "local_clock loc t < 86400"
  by (simp_all add: local_day_def local_clock_def div_mult_mod_eq)

text \<open>Reading a date back gives the date, and moving by days moves the date.\<close>

lemma fixed_date_parts:
  assumes "fixed_zone loc" "0 \<le> clock" "clock < 86400" "0 \<le> nsec" "nsec < Second"
  shows "local_day loc (go_date loc day clock nsec) = day" "local_clock loc (go_date loc day clock nsec) = clock"
    "go_date loc day clock nsec mod Second = nsec"
proof -
  let ?u = "day * 86400 + clock - loc_first loc"
  have "(u * Second + nsec) div Second = u" "(u * Second + nsec) mod Second = nsec" for u
    using assms(4,5) by (simp_all add: Second_def)
  note this [of ?u]
  then show "local_day loc (go_date loc day clock nsec) = day" "local_clock loc (go_date loc day clock nsec) = clock"
    "go_date loc day clock nsec mod Second = nsec"
    using assms(1-3) by (simp_all add: fixed_date local_day_def local_clock_def local_seconds_def)
qed

lemma fixed_AddDays:
  assumes "fixed_zone loc"
  shows "AddDays loc t days = t + days * 86400 * Second"
proof -
  have "(local_day loc t + days) * 86400 + local_clock loc t - loc_first loc = t div Second + days * 86400"
    using local_parts(1) [of loc t] assms by (simp add: local_seconds_def algebra_simps)
  then have "AddDays loc t days = (t div Second + days * 86400) * Second + t mod Second"
    unfolding AddDays_def fixed_date [OF assms] by simp
  also have "\<dots> = t + days * 86400 * Second" by (simp add: distrib_right)
  finally show ?thesis .
qed

text \<open>An instant is at or after a time of its own day exactly when its clock is.\<close>

lemma fixed_same_day:
  assumes "fixed_zone loc" "0 \<le> clock" "clock < 86400"
  shows "go_date loc day clock 0 \<le> t \<longleftrightarrow> day < local_day loc t \<or> (day = local_day loc t \<and> clock \<le> local_clock loc t)"
proof -
  have "go_date loc day clock 0 \<le> t \<longleftrightarrow> day * 86400 + clock - loc_first loc \<le> t div Second"
    unfolding fixed_date [OF assms(1)] by (simp add: Second_def) linarith
  also have "\<dots> \<longleftrightarrow> day * 86400 + clock \<le> local_day loc t * 86400 + local_clock loc t"
    using assms(1) unfolding local_parts(1) local_seconds_def by (simp add: algebra_simps)
  also have "\<dots> \<longleftrightarrow> day < local_day loc t \<or> (day = local_day loc t \<and> clock \<le> local_clock loc t)"
    using assms(2,3) local_parts(2,3) [of loc t] by linarith
  finally show ?thesis .
qed

lemma fixed_date_less:
  assumes "fixed_zone loc" "0 \<le> clock" "clock < 86400"
  shows "go_date loc d clock 0 < go_date loc e clock 0 \<longleftrightarrow> d < e"
  unfolding fixed_date [OF assms(1)] by (simp add: Second_def)

lemma weekday_periodic: "weekday_of (d + 7 * k) = weekday_of d"
  by (simp add: weekday_of_def add.commute [of _ "7 * k"] add.assoc)

lemma weekday_less: "weekday_of d < 7"
  by (simp add: weekday_of_def nat_less_iff)

lemma fixed_AddDays_day:
  assumes "fixed_zone loc"
  shows "local_day loc (AddDays loc t days) = local_day loc t + days"
proof -
  have "(t + days * 86400 * Second) div Second = t div Second + days * 86400" by (simp add: Second_def)
  then show ?thesis using assms by (simp add: fixed_AddDays local_day_def local_seconds_def add.commute add.left_commute)
qed

text \<open>Every weekday comes up within a week in both directions.\<close>

lemma weekday_within:
  assumes "n < 7"
  shows "\<exists>k \<in> {0..6}. weekday_of (d - k) = n" "\<exists>k \<in> {0..6}. weekday_of (d + k) = n"
proof -
  have w: "weekday_of x = n" if "x + 1 = int n + 7 * q" for x q using assms that by (simp add: weekday_of_def)
  define k where "k = (d + 1 - int n) mod 7"
  have "(d - k) + 1 = int n + 7 * ((d + 1 - int n) div 7)"
    using mult_div_mod_eq [of 7 "d + 1 - int n"] unfolding k_def by linarith
  from w [OF this] show "\<exists>k \<in> {0..6}. weekday_of (d - k) = n" by (intro bexI [of _ k]) (auto simp: k_def)
  define j where "j = (int n - d - 1) mod 7"
  have "(d + j) + 1 = int n + 7 * (- ((int n - d - 1) div 7))"
    using mult_div_mod_eq [of 7 "int n - d - 1"] unfolding j_def by linarith
  from w [OF this] show "\<exists>k \<in> {0..6}. weekday_of (d + k) = n" by (intro bexI [of _ j]) (auto simp: j_def)
qed

end
