(* ===== verification/Scheduler.thy ===== *)
theory Scheduler
  imports Go_Zone Go_Codec Job_Store
begin

text \<open>
  internal/scheduler: the maintenance schedules.  The stored settings and runtime documents
  are kept as the values they encode; an empty list of weekdays is absent from the document
  (\<open>omitempty\<close>) and reads back as the default.  The maintenance runner and the stack lister
  are parameters: what they return is an argument of the steps.
\<close>

section \<open>Data\<close>

record UpdateTarget =
  ut_mode :: string
  ut_stacks :: "string list"
  ut_excluded :: "(string, string list) gomap"

record UpdateOptions =
  uo_pull :: bool
  uo_build :: bool
  uo_remove_orphans :: bool
  uo_preserve_inactive :: bool
  uo_prune_after :: bool
  uo_include_volumes :: bool

record PruneScope =
  ps_images :: bool
  ps_build_cache :: bool
  ps_stopped :: bool
  ps_volumes :: bool

record UpdateScheduleConfig =
  uc_enabled :: bool
  uc_frequency :: string
  uc_time :: string
  uc_weekdays :: "string list"
  uc_target :: UpdateTarget
  uc_options :: UpdateOptions

record PruneScheduleConfig =
  pc_enabled :: bool
  pc_frequency :: string
  pc_time :: string
  pc_weekdays :: "string list"
  pc_scope :: PruneScope

record Settings =
  st_update :: UpdateScheduleConfig
  st_prune :: PruneScheduleConfig

record scheduleRuntimeState =
  rt_triggered :: "time option"
  rt_scheduled_for :: "time option"
  rt_result :: string
  rt_message :: string
  rt_job :: string

record runtimeState =
  rs_update :: scheduleRuntimeState
  rs_prune :: scheduleRuntimeState

record ScheduleStatus =
  ss_next :: "time option"
  ss_triggered :: "time option"
  ss_scheduled_for :: "time option"
  ss_result :: string
  ss_message :: string
  ss_job :: "string option"

definition empty_runtime :: scheduleRuntimeState where
  "empty_runtime = \<lparr>rt_triggered = None, rt_scheduled_for = None, rt_result = '''', rt_message = '''', rt_job = ''''\<rparr>"

definition catchUpWindow :: duration where
  "catchUpWindow = 6 * Hour"

definition defaultSettings :: Settings where
  "defaultSettings =
     \<lparr>st_update =
        \<lparr>uc_enabled = False, uc_frequency = ''weekly'', uc_time = ''03:30'', uc_weekdays = [''sat''],
         uc_target = \<lparr>ut_mode = ''all'', ut_stacks = [], ut_excluded = []\<rparr>,
         uc_options = \<lparr>uo_pull = True, uo_build = True, uo_remove_orphans = True, uo_preserve_inactive = False,
                       uo_prune_after = False, uo_include_volumes = False\<rparr>\<rparr>,
      st_prune =
        \<lparr>pc_enabled = False, pc_frequency = ''weekly'', pc_time = ''04:30'', pc_weekdays = [''sun''],
         pc_scope = \<lparr>ps_images = True, ps_build_cache = True, ps_stopped = True, ps_volumes = False\<rparr>\<rparr>\<rparr>"

section \<open>Times of day\<close>

definition parseTimeOfDay :: "string \<Rightarrow> string + int \<times> int" where
  "parseTimeOfDay v =
     (case go_split (CHR '':'') (go_trim_space v) of
        [h, m] \<Rightarrow>
          (case Atoi h of
             None \<Rightarrow> Inl ''time must be in HH:MM format''
           | Some hour \<Rightarrow>
               if hour < 0 \<or> hour > 23 then Inl ''time must be in HH:MM format''
               else
                 (case Atoi m of
                    None \<Rightarrow> Inl ''time must be in HH:MM format''
                  | Some minute \<Rightarrow>
                      if minute < 0 \<or> minute > 59 then Inl ''time must be in HH:MM format''
                      else Inr (hour, minute)))
      | _ \<Rightarrow> Inl ''time must be in HH:MM format'')"

definition weekdayToTime :: "string \<Rightarrow> nat option" where
  "weekdayToTime day =
     (if day = ''mon'' then Some 1 else if day = ''tue'' then Some 2 else if day = ''wed'' then Some 3
      else if day = ''thu'' then Some 4 else if day = ''fri'' then Some 5 else if day = ''sat'' then Some 6
      else if day = ''sun'' then Some 0 else None)"

definition weekdaySet :: "string list \<Rightarrow> nat list" where
  "weekdaySet days = List.map_filter weekdayToTime days"

text \<open>The two loops over the offsets 0 to 7.\<close>

fun scan_back :: "Location \<Rightarrow> nat list \<Rightarrow> int \<Rightarrow> time \<Rightarrow> int list \<Rightarrow> time option" where
  "scan_back loc allowed clock now [] = None"
| "scan_back loc allowed clock now (offset # offsets) =
     (let candidateDay = AddDays loc now (- offset)
      in if weekday_of (local_day loc candidateDay) \<notin> set allowed then scan_back loc allowed clock now offsets
         else
           let candidate = go_date loc (local_day loc candidateDay) clock 0
           in if candidate > now then scan_back loc allowed clock now offsets else Some candidate)"

fun scan_forward :: "Location \<Rightarrow> nat list \<Rightarrow> int \<Rightarrow> time \<Rightarrow> int list \<Rightarrow> time option" where
  "scan_forward loc allowed clock now [] = None"
| "scan_forward loc allowed clock now (offset # offsets) =
     (let candidateDay = AddDays loc now offset
      in if weekday_of (local_day loc candidateDay) \<notin> set allowed then scan_forward loc allowed clock now offsets
         else
           let candidate = go_date loc (local_day loc candidateDay) clock 0
           in if candidate > now then Some candidate else scan_forward loc allowed clock now offsets)"

definition mostRecentScheduledAt :: "Location \<Rightarrow> string \<Rightarrow> string \<Rightarrow> string list \<Rightarrow> time \<Rightarrow> string + time" where
  "mostRecentScheduledAt loc frequency timeOfDay weekdays now =
     rbind (parseTimeOfDay timeOfDay) (\<lambda>(hour, minute).
       let clock = hour * 3600 + minute * 60
       in if frequency = ''daily'' then
            (let candidate = go_date loc (local_day loc now) clock 0
             in Inr (if candidate > now then AddDays loc candidate (- 1) else candidate))
          else if frequency = ''weekly'' then
            (case scan_back loc (weekdaySet weekdays) clock now [0..7] of
               Some t \<Rightarrow> Inr t
             | None \<Rightarrow> Inl ''unable to compute schedule'')
          else Inl ''unable to compute schedule'')"

definition nextScheduledAt :: "Location \<Rightarrow> string \<Rightarrow> string \<Rightarrow> string list \<Rightarrow> time \<Rightarrow> string + time" where
  "nextScheduledAt loc frequency timeOfDay weekdays now =
     rbind (parseTimeOfDay timeOfDay) (\<lambda>(hour, minute).
       let clock = hour * 3600 + minute * 60
       in if frequency = ''daily'' then
            (let candidate = go_date loc (local_day loc now) clock 0
             in Inr (if \<not> candidate > now then AddDays loc candidate 1 else candidate))
          else if frequency = ''weekly'' then
            (case scan_forward loc (weekdaySet weekdays) clock now [0..7] of
               Some t \<Rightarrow> Inr t
             | None \<Rightarrow> Inl ''unable to compute next schedule'')
          else Inl ''unable to compute next schedule'')"

definition nextRun :: "Location \<Rightarrow> string \<Rightarrow> string \<Rightarrow> string list \<Rightarrow> time \<Rightarrow> string + time" where
  "nextRun loc frequency timeOfDay weekdays now = nextScheduledAt loc frequency timeOfDay weekdays now"

definition dueSchedule :: "Location \<Rightarrow> bool \<Rightarrow> string \<Rightarrow> string \<Rightarrow> string list \<Rightarrow> time option \<Rightarrow> time \<Rightarrow> time option" where
  "dueSchedule loc enabled frequency timeOfDay weekdays lastScheduledFor now =
     (if \<not> enabled then None
      else
        (case mostRecentScheduledAt loc frequency timeOfDay weekdays now of
           Inl _ \<Rightarrow> None
         | Inr dueAt \<Rightarrow>
             if lastScheduledFor = Some dueAt then None
             else if time_sub now dueAt > catchUpWindow then None
             else Some dueAt))"

definition seededScheduleRuntimeState :: "Location \<Rightarrow> bool \<Rightarrow> string \<Rightarrow> string \<Rightarrow> string list \<Rightarrow> time \<Rightarrow> scheduleRuntimeState" where
  "seededScheduleRuntimeState loc enabled frequency timeOfDay weekdays now =
     (if \<not> enabled then empty_runtime
      else
        (case mostRecentScheduledAt loc frequency timeOfDay weekdays now of
           Inl _ \<Rightarrow> empty_runtime
         | Inr mostRecent \<Rightarrow> empty_runtime\<lparr>rt_scheduled_for := Some mostRecent\<rparr>))"

definition buildStatus :: "Location \<Rightarrow> bool \<Rightarrow> string \<Rightarrow> string \<Rightarrow> string list \<Rightarrow> scheduleRuntimeState \<Rightarrow> time \<Rightarrow> ScheduleStatus" where
  "buildStatus loc enabled frequency timeOfDay weekdays runtime now =
     \<lparr>ss_next =
        (if enabled then (case nextRun loc frequency timeOfDay weekdays now of Inr next \<Rightarrow> Some next | Inl _ \<Rightarrow> None) else None),
      ss_triggered = rt_triggered runtime, ss_scheduled_for = rt_scheduled_for runtime,
      ss_result = rt_result runtime, ss_message = rt_message runtime,
      ss_job = (if rt_job runtime \<noteq> '''' then Some (rt_job runtime) else None)\<rparr>"

section \<open>Settings\<close>

fun unique_trimmed :: "string list \<Rightarrow> string list \<Rightarrow> string list \<Rightarrow> string list" where
  "unique_trimmed seen acc [] = acc"
| "unique_trimmed seen acc (v # vs) =
     (let v' = go_trim_space v
      in if v' = '''' then unique_trimmed seen acc vs
         else if v' \<in> set seen then unique_trimmed seen acc vs
         else unique_trimmed (v' # seen) (acc @ [v']) vs)"

definition dedupeStackIDs :: "string list \<Rightarrow> string list" where
  "dedupeStackIDs stackIDs = sort (unique_trimmed [] [] stackIDs)"

fun normalize_excluded :: "(string \<times> string list) list \<Rightarrow> (string, string list) gomap \<Rightarrow> (string, string list) gomap" where
  "normalize_excluded [] result = result"
| "normalize_excluded ((stackID, serviceNames) # rest) result =
     (let stackID' = go_trim_space stackID; normalized = dedupeStackIDs serviceNames
      in if stackID' = '''' then normalize_excluded rest result
         else normalize_excluded rest (if normalized \<noteq> [] then mput stackID' normalized result else result))"

definition normalizeExcludedServices :: "(string, string list) gomap \<Rightarrow> (string, string list) gomap" where
  "normalizeExcludedServices excluded = normalize_excluded excluded []"

definition hasExcludedServices :: "(string, string list) gomap \<Rightarrow> bool" where
  "hasExcludedServices excluded = (\<exists>(_, serviceNames) \<in> set excluded. serviceNames \<noteq> [])"

definition normalizeUpdateConfig :: "UpdateScheduleConfig \<Rightarrow> UpdateScheduleConfig" where
  "normalizeUpdateConfig config =
     config\<lparr>uc_target :=
       \<lparr>ut_mode = go_trim_space (ut_mode (uc_target config)), ut_stacks = dedupeStackIDs (ut_stacks (uc_target config)),
        ut_excluded = normalizeExcludedServices (ut_excluded (uc_target config))\<rparr>\<rparr>"

definition validateBaseSchedule :: "string \<Rightarrow> string \<Rightarrow> string list \<Rightarrow> string option" where
  "validateBaseSchedule frequency timeOfDay weekdays =
     (case parseTimeOfDay timeOfDay of
        Inl e \<Rightarrow> Some e
      | Inr _ \<Rightarrow>
          if frequency = ''daily'' then None
          else if frequency = ''weekly'' then
            (if weekdays = [] then Some ''weekly schedules require at least one weekday''
             else if \<exists>d \<in> set weekdays. weekdayToTime d = None then Some ''unsupported weekday''
             else None)
          else Some ''frequency must be one of: daily, weekly'')"

text \<open>\<open>resolve mode ids\<close> is the runner's \<open>ResolveTargetStacks\<close>.\<close>

definition validateUpdateConfig :: "(string \<Rightarrow> string list \<Rightarrow> string + string list) \<Rightarrow> UpdateScheduleConfig \<Rightarrow> string option" where
  "validateUpdateConfig resolve config =
     (case validateBaseSchedule (uc_frequency config) (uc_time config) (uc_weekdays config) of
        Some e \<Rightarrow> Some e
      | None \<Rightarrow>
          (let mode = (if ut_mode (uc_target config) = '''' then ''all'' else ut_mode (uc_target config));
               target =
                 (if mode = ''all'' then None
                  else if mode = ''selected'' then
                    (if ut_stacks (uc_target config) = []
                     then Some ''update.target.stack_ids must be non-empty when mode = selected''
                     else case resolve mode (ut_stacks (uc_target config)) of Inl e \<Rightarrow> Some e | Inr _ \<Rightarrow> None)
                  else Some ''update.target.mode must be one of: selected, all'')
           in case target of
                Some e \<Rightarrow> Some e
              | None \<Rightarrow>
                  if uo_include_volumes (uc_options config) \<and> \<not> uo_prune_after (uc_options config)
                  then Some ''update.options.include_volumes requires prune_after = true''
                  else if uo_remove_orphans (uc_options config) \<and> hasExcludedServices (ut_excluded (uc_target config))
                  then Some ''update.options.remove_orphans cannot be enabled when service exclusions are configured''
                  else None))"

text \<open>\<open>services stack\<close> is the stack lister's \<open>Get\<close>, the names of its services.\<close>

fun check_excluded :: "(string \<Rightarrow> string + string list) \<Rightarrow> string list \<Rightarrow> (string \<times> string list) list \<Rightarrow> string option" where
  "check_excluded services targeted [] = None"
| "check_excluded services targeted ((stackID, serviceNames) # rest) =
     (if serviceNames = [] then check_excluded services targeted rest
      else if stackID \<notin> set targeted then Some ''update.target.excluded_services includes non-target stack''
      else
        (case services stackID of
           Inl e \<Rightarrow> Some e
         | Inr known \<Rightarrow>
             if \<exists>n \<in> set serviceNames. n \<notin> set known then Some ''update.target.excluded_services includes unknown service''
             else check_excluded services targeted rest))"

definition validateUpdateServiceExclusions ::
  "(string \<Rightarrow> string list \<Rightarrow> string + string list) \<Rightarrow> (string \<Rightarrow> string + string list) \<Rightarrow> UpdateScheduleConfig \<Rightarrow> string option" where
  "validateUpdateServiceExclusions resolve services config =
     (if \<not> hasExcludedServices (ut_excluded (uc_target config)) then None
      else
        (case resolve (ut_mode (uc_target config)) (ut_stacks (uc_target config)) of
           Inl e \<Rightarrow> Some e
         | Inr targets \<Rightarrow> check_excluded services targets (ut_excluded (uc_target config))))"

definition validatePruneConfig :: "PruneScheduleConfig \<Rightarrow> string option" where
  "validatePruneConfig config =
     (case validateBaseSchedule (pc_frequency config) (pc_time config) (pc_weekdays config) of
        Some e \<Rightarrow> Some e
      | None \<Rightarrow>
          if \<not> ps_images (pc_scope config) \<and> \<not> ps_build_cache (pc_scope config) \<and> \<not> ps_stopped (pc_scope config) \<and>
             \<not> ps_volumes (pc_scope config)
          then Some ''prune.scope must enable at least one category''
          else None)"

definition validateSettings ::
  "(string \<Rightarrow> string list \<Rightarrow> string + string list) \<Rightarrow> (string \<Rightarrow> string + string list) \<Rightarrow> Settings \<Rightarrow> string option" where
  "validateSettings resolve services settings =
     (case validateUpdateConfig resolve (st_update settings) of
        Some e \<Rightarrow> Some e
      | None \<Rightarrow>
          (case validateUpdateServiceExclusions resolve services (st_update settings) of
             Some e \<Rightarrow> Some e
           | None \<Rightarrow> validatePruneConfig (st_prune settings)))"

section \<open>Persistence\<close>

record sched_db =
  sch_settings :: "Settings option"
  sch_runtime :: "runtimeState option"

text \<open>Reading a document over the defaults: absent weekdays keep the default ones.\<close>

definition read_settings :: "Settings \<Rightarrow> Settings" where
  "read_settings s =
     s\<lparr>st_update := (st_update s)\<lparr>uc_weekdays :=
          (if uc_weekdays (st_update s) = [] then uc_weekdays (st_update defaultSettings) else uc_weekdays (st_update s))\<rparr>,
       st_prune := (st_prune s)\<lparr>pc_weekdays :=
          (if pc_weekdays (st_prune s) = [] then pc_weekdays (st_prune defaultSettings) else pc_weekdays (st_prune s))\<rparr>\<rparr>"

definition loadSettings :: "fault \<Rightarrow> sched_db \<Rightarrow> string + Settings" where
  "loadSettings io db =
     (case io of
        Some e \<Rightarrow> Inl e
      | None \<Rightarrow>
          (case sch_settings db of
             None \<Rightarrow> Inr defaultSettings
           | Some raw \<Rightarrow>
               (let settings = read_settings raw
                in Inr (settings\<lparr>st_update := normalizeUpdateConfig (st_update settings)\<rparr>))))"

definition saveSettings :: "fault \<Rightarrow> Settings \<Rightarrow> sched_db \<Rightarrow> string + sched_db" where
  "saveSettings io settings db = (case io of Some e \<Rightarrow> Inl e | None \<Rightarrow> Inr (db\<lparr>sch_settings := Some settings\<rparr>))"

definition loadRuntimeState :: "fault \<Rightarrow> sched_db \<Rightarrow> string + runtimeState" where
  "loadRuntimeState io db =
     (case io of
        Some e \<Rightarrow> Inl e
      | None \<Rightarrow>
          Inr (case sch_runtime db of None \<Rightarrow> \<lparr>rs_update = empty_runtime, rs_prune = empty_runtime\<rparr> | Some r \<Rightarrow> r))"

definition resetRuntimeState :: "Location \<Rightarrow> fault \<Rightarrow> Settings \<Rightarrow> time \<Rightarrow> sched_db \<Rightarrow> string + sched_db" where
  "resetRuntimeState loc io settings now db =
     (let u = st_update settings; p = st_prune settings;
          state = \<lparr>rs_update = seededScheduleRuntimeState loc (uc_enabled u) (uc_frequency u) (uc_time u) (uc_weekdays u) now,
                   rs_prune = seededScheduleRuntimeState loc (pc_enabled p) (pc_frequency p) (pc_time p) (pc_weekdays p) now\<rparr>
      in case io of Some e \<Rightarrow> Inl e | None \<Rightarrow> Inr (db\<lparr>sch_runtime := Some state\<rparr>))"

definition updateRuntime :: "fault \<Rightarrow> fault \<Rightarrow> string \<Rightarrow> (scheduleRuntimeState \<Rightarrow> scheduleRuntimeState) \<Rightarrow> sched_db \<Rightarrow> string + sched_db" where
  "updateRuntime io1 io2 scheduleKey mutate db =
     rbind (loadRuntimeState io1 db) (\<lambda>state.
       let state' =
         (if scheduleKey = ''update'' then Some (state\<lparr>rs_update := mutate (rs_update state)\<rparr>)
          else if scheduleKey = ''prune'' then Some (state\<lparr>rs_prune := mutate (rs_prune state)\<rparr>)
          else None)
       in case state' of
            None \<Rightarrow> Inl ''unknown schedule key''
          | Some st \<Rightarrow> (case io2 of Some e \<Rightarrow> Inl e | None \<Rightarrow> Inr (db\<lparr>sch_runtime := Some st\<rparr>)))"

record SettingsResponse =
  sr_settings :: Settings
  sr_update_status :: ScheduleStatus
  sr_prune_status :: ScheduleStatus

definition GetSettings :: "Location \<Rightarrow> fault \<Rightarrow> fault \<Rightarrow> time \<Rightarrow> sched_db \<Rightarrow> string + SettingsResponse" where
  "GetSettings loc io1 io2 now db =
     rbind (loadSettings io1 db) (\<lambda>settings.
     rbind (loadRuntimeState io2 db) (\<lambda>runtime.
       let u = st_update settings; p = st_prune settings
       in Inr \<lparr>sr_settings = settings,
               sr_update_status = buildStatus loc (uc_enabled u) (uc_frequency u) (uc_time u) (uc_weekdays u) (rs_update runtime) now,
               sr_prune_status = buildStatus loc (pc_enabled p) (pc_frequency p) (pc_time p) (pc_weekdays p) (rs_prune runtime) now\<rparr>))"

text \<open>\<open>UpdateSettings\<close>; the faults are those of the save, the reset and the two reads of the reply.\<close>

definition UpdateSettings ::
  "Location \<Rightarrow> (string \<Rightarrow> string list \<Rightarrow> string + string list) \<Rightarrow> (string \<Rightarrow> string + string list) \<Rightarrow>
    fault \<times> fault \<times> fault \<times> fault \<Rightarrow> time \<Rightarrow> Settings \<Rightarrow> sched_db \<Rightarrow> (string + SettingsResponse) \<times> sched_db" where
  "UpdateSettings loc resolve services ios now request db =
     (let settings = request\<lparr>st_update := normalizeUpdateConfig (st_update request)\<rparr>
      in case ios of (io1, io2, io3, io4) \<Rightarrow>
           (case validateSettings resolve services settings of
              Some e \<Rightarrow> (Inl e, db)
            | None \<Rightarrow>
                (case saveSettings io1 settings db of
                   Inl e \<Rightarrow> (Inl e, db)
                 | Inr db1 \<Rightarrow>
                     (case resetRuntimeState loc io2 settings now db1 of
                        Inl e \<Rightarrow> (Inl e, db1)
                      | Inr db2 \<Rightarrow> (GetSettings loc io3 io4 now db2, db2)))))"

section \<open>Occurrences of a schedule\<close>

text \<open>The instants a schedule names: its time of day on every day, or on the chosen weekdays.\<close>

definition occurrence :: "Location \<Rightarrow> string \<Rightarrow> string \<Rightarrow> string list \<Rightarrow> time \<Rightarrow> bool" where
  "occurrence loc frequency timeOfDay weekdays t \<longleftrightarrow>
     (\<exists>hour minute day. parseTimeOfDay timeOfDay = Inr (hour, minute) \<and> t = go_date loc day (hour * 3600 + minute * 60) 0 \<and>
        (frequency = ''daily'' \<or> (frequency = ''weekly'' \<and> weekday_of day \<in> set (weekdaySet weekdays))))"

lemma parseTimeOfDay_bounds:
  assumes "parseTimeOfDay v = Inr (hour, minute)"
  shows "0 \<le> hour" "hour \<le> 23" "0 \<le> minute" "minute \<le> 59"
  using assms by (auto simp: parseTimeOfDay_def split: list.splits option.splits if_splits)

lemma clock_bounds:
  assumes "parseTimeOfDay v = Inr (hour, minute)"
  shows "0 \<le> hour * 3600 + minute * 60" "hour * 3600 + minute * 60 < 86400"
  using parseTimeOfDay_bounds [OF assms] by linarith+

lemma weekdaySet_mem: "n \<in> set (weekdaySet days) \<longleftrightarrow> (\<exists>d \<in> set days. weekdayToTime d = Some n)"
  by (induction days) (auto simp: weekdaySet_def List.map_filter_def)

lemma weekdayToTime_less: "weekdayToTime d = Some n \<Longrightarrow> n < 7"
  by (auto simp: weekdayToTime_def split: if_splits)

lemma valid_weekly:
  assumes "validateBaseSchedule ''weekly'' v weekdays = None"
  shows "\<exists>n \<in> set (weekdaySet weekdays). n < 7"
proof -
  obtain d ds n where "weekdays = d # ds" "weekdayToTime d = Some n"
    using assms by (cases weekdays) (auto simp: validateBaseSchedule_def split: sum.splits if_splits)
  then have "n \<in> set (weekdaySet weekdays)" "n < 7" using weekdayToTime_less by (auto simp: weekdaySet_mem)
  then show ?thesis by blast
qed

lemma scan_back_find:
  assumes "fixed_zone loc"
  shows "scan_back loc allowed clock now offsets =
    map_option (\<lambda>k. go_date loc (local_day loc now - k) clock 0)
      (find (\<lambda>k. weekday_of (local_day loc now - k) \<in> set allowed \<and> go_date loc (local_day loc now - k) clock 0 \<le> now) offsets)"
  by (induction offsets) (auto simp: fixed_AddDays_day [OF assms] Let_def)

lemma scan_forward_find:
  assumes "fixed_zone loc"
  shows "scan_forward loc allowed clock now offsets =
    map_option (\<lambda>k. go_date loc (local_day loc now + k) clock 0)
      (find (\<lambda>k. weekday_of (local_day loc now + k) \<in> set allowed \<and> now < go_date loc (local_day loc now + k) clock 0) offsets)"
  by (induction offsets) (auto simp: fixed_AddDays_day [OF assms] Let_def)

text \<open>In a zone without transitions the most recent time is the greatest occurrence up to now.\<close>

lemma most_recent_daily:
  assumes "fixed_zone loc" "parseTimeOfDay v = Inr (hour, minute)"
  defines "clock \<equiv> hour * 3600 + minute * 60"
  shows "\<exists>d. mostRecentScheduledAt loc ''daily'' v weekdays now = Inr (go_date loc d clock 0) \<and>
    go_date loc d clock 0 \<le> now \<and> now < go_date loc (d + 1) clock 0"
proof -
  note cb = clock_bounds [OF assms(2), folded clock_def]
  note day = fixed_same_day [OF assms(1) cb]
  have prev: "AddDays loc (go_date loc d clock 0) k = go_date loc (d + k) clock 0" for d k
    unfolding fixed_AddDays [OF assms(1)] fixed_date [OF assms(1)] by (simp add: algebra_simps)
  have "mostRecentScheduledAt loc ''daily'' v weekdays now =
      Inr (if go_date loc (local_day loc now) clock 0 > now then go_date loc (local_day loc now - 1) clock 0
           else go_date loc (local_day loc now) clock 0)"
    using assms(2) prev [of "local_day loc now" "- 1"] by (simp add: mostRecentScheduledAt_def Let_def clock_def)
  then show ?thesis using day [of _ now] by (cases "go_date loc (local_day loc now) clock 0 > now") (auto simp: not_le [symmetric])
qed

lemma next_daily:
  assumes "fixed_zone loc" "parseTimeOfDay v = Inr (hour, minute)"
  defines "clock \<equiv> hour * 3600 + minute * 60"
  shows "\<exists>d. nextScheduledAt loc ''daily'' v weekdays now = Inr (go_date loc d clock 0) \<and>
    go_date loc (d - 1) clock 0 \<le> now \<and> now < go_date loc d clock 0"
proof -
  note cb = clock_bounds [OF assms(2), folded clock_def]
  note day = fixed_same_day [OF assms(1) cb]
  have fwd: "AddDays loc (go_date loc d clock 0) k = go_date loc (d + k) clock 0" for d k
    unfolding fixed_AddDays [OF assms(1)] fixed_date [OF assms(1)] by (simp add: algebra_simps)
  have "nextScheduledAt loc ''daily'' v weekdays now =
      Inr (if go_date loc (local_day loc now) clock 0 > now then go_date loc (local_day loc now) clock 0
           else go_date loc (local_day loc now + 1) clock 0)"
    using assms(2) fwd [of "local_day loc now" 1] by (simp add: nextScheduledAt_def Let_def clock_def)
  then show ?thesis using day [of _ now] by (cases "go_date loc (local_day loc now) clock 0 > now") (auto simp: not_le [symmetric])
qed

lemma most_recent_weekly:
  assumes "fixed_zone loc" "parseTimeOfDay v = Inr (hour, minute)" "n \<in> set (weekdaySet weekdays)" "n < 7"
  defines "clock \<equiv> hour * 3600 + minute * 60"
  shows "\<exists>d. mostRecentScheduledAt loc ''weekly'' v weekdays now = Inr (go_date loc d clock 0) \<and>
    weekday_of d \<in> set (weekdaySet weekdays) \<and> go_date loc d clock 0 \<le> now \<and>
    (\<forall>e. weekday_of e \<in> set (weekdaySet weekdays) \<and> go_date loc e clock 0 \<le> now \<longrightarrow> e \<le> d)"
proof -
  note cb = clock_bounds [OF assms(2), folded clock_def]
  note day = fixed_same_day [OF assms(1) cb]
  define D where "D = local_day loc now"
  define P where "P k \<longleftrightarrow> weekday_of (D - k) \<in> set (weekdaySet weekdays) \<and> go_date loc (D - k) clock 0 \<le> now" for k
  obtain k where k: "0 \<le> k" "k \<le> 6" "weekday_of (D - k) = n" using weekday_within(1) [OF assms(4), of D] by auto
  have "\<exists>j \<in> {0..7}. P j"
  proof (cases "k = 0")
    case True
    then have "P 7" using k assms(3) day [of "D - 7" now] weekday_periodic [of D "- 1"] by (simp add: P_def D_def)
    then show ?thesis by auto
  next
    case False
    then have "P k" using k assms(3) day [of "D - k" now] by (simp add: P_def D_def)
    then show ?thesis using k by auto
  qed
  then obtain j where j: "find P [0..7] = Some j" by (cases "find P [0..7]") (auto simp: find_None_iff)
  then have Pj: "P j" "j \<in> {0..7}" using find_Some_iff2 [OF j] by auto
  have "e \<le> D - j" if e: "weekday_of e \<in> set (weekdaySet weekdays)" "go_date loc e clock 0 \<le> now" for e
  proof (cases "D - e \<le> 7")
    case True
    have "e \<le> D" using e(2) day [of e now] by (auto simp: D_def)
    then have "j \<le> D - e" using find_least [OF _ j, of "D - e"] True e by (auto simp: P_def)
    then show ?thesis by simp
  qed (use Pj in auto)
  moreover have "mostRecentScheduledAt loc ''weekly'' v weekdays now = Inr (go_date loc (D - j) clock 0)"
    using assms(2) j unfolding P_def [abs_def] D_def
    by (simp add: mostRecentScheduledAt_def Let_def clock_def scan_back_find [OF assms(1)])
  ultimately show ?thesis using Pj(1) by (intro exI [of _ "D - j"]) (auto simp: P_def)
qed

lemma next_weekly:
  assumes "fixed_zone loc" "parseTimeOfDay v = Inr (hour, minute)" "n \<in> set (weekdaySet weekdays)" "n < 7"
  defines "clock \<equiv> hour * 3600 + minute * 60"
  shows "\<exists>d. nextScheduledAt loc ''weekly'' v weekdays now = Inr (go_date loc d clock 0) \<and>
    weekday_of d \<in> set (weekdaySet weekdays) \<and> now < go_date loc d clock 0 \<and>
    (\<forall>e. weekday_of e \<in> set (weekdaySet weekdays) \<and> now < go_date loc e clock 0 \<longrightarrow> d \<le> e)"
proof -
  note cb = clock_bounds [OF assms(2), folded clock_def]
  note day = fixed_same_day [OF assms(1) cb]
  define D where "D = local_day loc now"
  define P where "P k \<longleftrightarrow> weekday_of (D + k) \<in> set (weekdaySet weekdays) \<and> now < go_date loc (D + k) clock 0" for k
  obtain k where k: "0 \<le> k" "k \<le> 6" "weekday_of (D + k) = n" using weekday_within(2) [OF assms(4), of D] by auto
  have "\<exists>j \<in> {0..7}. P j"
  proof (cases "k = 0")
    case True
    then have "P 7" using k assms(3) day [of "D + 7" now] weekday_periodic [of D 1] by (auto simp: P_def D_def)
    then show ?thesis by auto
  next
    case False
    then have "P k" using k assms(3) day [of "D + k" now] by (auto simp: P_def D_def)
    then show ?thesis using k by auto
  qed
  then obtain j where j: "find P [0..7] = Some j" by (cases "find P [0..7]") (auto simp: find_None_iff)
  then have Pj: "P j" "j \<in> {0..7}" using find_Some_iff2 [OF j] by auto
  have "D + j \<le> e" if e: "weekday_of e \<in> set (weekdaySet weekdays)" "now < go_date loc e clock 0" for e
  proof (cases "e - D \<le> 7")
    case True
    have "D \<le> e" using e(2) day [of e now] by (auto simp: D_def not_le [symmetric])
    then have "j \<le> e - D" using find_least [OF _ j, of "e - D"] True e by (auto simp: P_def)
    then show ?thesis by simp
  qed (use Pj in auto)
  moreover have "nextScheduledAt loc ''weekly'' v weekdays now = Inr (go_date loc (D + j) clock 0)"
    using assms(2) j unfolding P_def [abs_def] D_def
    by (simp add: nextScheduledAt_def Let_def clock_def scan_forward_find [OF assms(1)])
  ultimately show ?thesis using Pj(1) by (intro exI [of _ "D + j"]) (auto simp: P_def)
qed

lemma valid_frequency:
  assumes "validateBaseSchedule frequency v weekdays = None"
  obtains hour minute where "parseTimeOfDay v = Inr (hour, minute)" "frequency = ''daily'' \<or> frequency = ''weekly''"
  using assms by (auto simp: validateBaseSchedule_def split: sum.splits if_splits)

lemma most_recent_spec:
  assumes "fixed_zone loc" "validateBaseSchedule frequency v weekdays = None"
  shows "\<exists>r. mostRecentScheduledAt loc frequency v weekdays now = Inr r \<and> occurrence loc frequency v weekdays r \<and> r \<le> now \<and>
    (\<forall>x. occurrence loc frequency v weekdays x \<and> x \<le> now \<longrightarrow> x \<le> r)"
proof -
  obtain hour minute where v: "parseTimeOfDay v = Inr (hour, minute)" and f: "frequency = ''daily'' \<or> frequency = ''weekly''"
    using valid_frequency [OF assms(2)] .
  note less = fixed_date_less [OF assms(1) clock_bounds [OF v]]
  from f show ?thesis
  proof
    assume f: "frequency = ''daily''"
    obtain d where d: "mostRecentScheduledAt loc ''daily'' v weekdays now = Inr (go_date loc d (hour * 3600 + minute * 60) 0)"
        "go_date loc d (hour * 3600 + minute * 60) 0 \<le> now" "now < go_date loc (d + 1) (hour * 3600 + minute * 60) 0"
      using most_recent_daily [OF assms(1) v] by blast
    have "e \<le> d" if "go_date loc e (hour * 3600 + minute * 60) 0 \<le> now" for e
      using less [of e "d + 1"] that d(3) by linarith
    then show ?thesis using d v f less by (auto simp: occurrence_def not_less [symmetric])
  next
    assume f: "frequency = ''weekly''"
    obtain n where "n \<in> set (weekdaySet weekdays)" "n < 7" using valid_weekly assms(2) f by blast
    from most_recent_weekly [OF assms(1) v this, of now] show ?thesis using v f less by (auto simp: occurrence_def not_less [symmetric])
  qed
qed

lemma next_spec:
  assumes "fixed_zone loc" "validateBaseSchedule frequency v weekdays = None"
  shows "\<exists>r. nextScheduledAt loc frequency v weekdays now = Inr r \<and> occurrence loc frequency v weekdays r \<and> now < r \<and>
    (\<forall>x. occurrence loc frequency v weekdays x \<and> now < x \<longrightarrow> r \<le> x)"
proof -
  obtain hour minute where v: "parseTimeOfDay v = Inr (hour, minute)" and f: "frequency = ''daily'' \<or> frequency = ''weekly''"
    using valid_frequency [OF assms(2)] .
  note less = fixed_date_less [OF assms(1) clock_bounds [OF v]]
  from f show ?thesis
  proof
    assume f: "frequency = ''daily''"
    obtain d where d: "nextScheduledAt loc ''daily'' v weekdays now = Inr (go_date loc d (hour * 3600 + minute * 60) 0)"
        "go_date loc (d - 1) (hour * 3600 + minute * 60) 0 \<le> now" "now < go_date loc d (hour * 3600 + minute * 60) 0"
      using next_daily [OF assms(1) v] by blast
    have "d \<le> e" if "now < go_date loc e (hour * 3600 + minute * 60) 0" for e
      using less [of "d - 1" e] that d(2) by linarith
    then show ?thesis using d v f less by (auto simp: occurrence_def not_less [symmetric])
  next
    assume f: "frequency = ''weekly''"
    obtain n where "n \<in> set (weekdaySet weekdays)" "n < 7" using valid_weekly assms(2) f by blast
    from next_weekly [OF assms(1) v this, of now] show ?thesis using v f less by (auto simp: occurrence_def not_less [symmetric])
  qed
qed

text \<open>C40: In a zone with a fixed offset the schedule arithmetic is exact: for every accepted schedule the
  most recent time is the latest occurrence that is not after now, the announced next run is
  the earliest occurrence after now, and a run is due exactly for the latest occurrence if it
  is at most six hours old and is not the one that was last served.\<close>

theorem schedule_times_exact:
  assumes "fixed_zone loc" "validateBaseSchedule frequency v weekdays = None"
  shows "\<exists>r n. mostRecentScheduledAt loc frequency v weekdays now = Inr r \<and> nextRun loc frequency v weekdays now = Inr n \<and>
    occurrence loc frequency v weekdays r \<and> occurrence loc frequency v weekdays n \<and> r \<le> now \<and> now < n \<and>
    (\<forall>x. occurrence loc frequency v weekdays x \<longrightarrow> x \<le> r \<or> n \<le> x) \<and>
    (\<forall>lastServed. dueSchedule loc True frequency v weekdays lastServed now =
       (if lastServed \<noteq> Some r \<and> now - r \<le> 6 * Hour then Some r else None))"
proof -
  obtain r where r: "mostRecentScheduledAt loc frequency v weekdays now = Inr r" "occurrence loc frequency v weekdays r" "r \<le> now"
      "\<forall>x. occurrence loc frequency v weekdays x \<and> x \<le> now \<longrightarrow> x \<le> r" using most_recent_spec [OF assms] by blast
  obtain n where n: "nextScheduledAt loc frequency v weekdays now = Inr n" "occurrence loc frequency v weekdays n" "now < n"
      "\<forall>x. occurrence loc frequency v weekdays x \<and> now < x \<longrightarrow> n \<le> x" using next_spec [OF assms] by blast
  have "catchUpWindow < time_sub now r \<longleftrightarrow> 6 * Hour < now - r"
    using time_sub_gt [of catchUpWindow now r] by (simp add: catchUpWindow_def duration_defs min_duration_def max_duration_def)
  then have "dueSchedule loc True frequency v weekdays lastServed now =
       (if lastServed \<noteq> Some r \<and> now - r \<le> 6 * Hour then Some r else None)" for lastServed
    by (auto simp: dueSchedule_def r(1))
  then show ?thesis using r n by (metis nextRun_def not_le)
qed

text \<open>Saturdays at 03:30 in a zone one hour ahead; the instant is Monday noon, 1 January of year 1.\<close>

lemma example_schedule:
  "validateBaseSchedule ''weekly'' ''03:30'' [''sat''] = None" "fixed_zone \<lparr>loc_first = 3600, loc_trans = []\<rparr>"
  "parseTimeOfDay ''03:30'' = Inr (3, 30)"
proof -
  have "go_trim_space ''03:30'' = ''03:30''" by (simp add: go_trim_plain plain_char_def)
  then show "parseTimeOfDay ''03:30'' = Inr (3, 30)"
    by (simp add: parseTimeOfDay_def Atoi_def atoi_digits_def is_digit_def in_range_def digits_value_def)
  then show "validateBaseSchedule ''weekly'' ''03:30'' [''sat''] = None"
    by (simp add: validateBaseSchedule_def weekdayToTime_def)

qed (simp add: fixed_zone_def)

theorem schedule_times_exact_witness:
  "\<exists>r n. mostRecentScheduledAt \<lparr>loc_first = 3600, loc_trans = []\<rparr> ''weekly'' ''03:30'' [''sat''] (12 * Hour) = Inr r \<and>
     nextRun \<lparr>loc_first = 3600, loc_trans = []\<rparr> ''weekly'' ''03:30'' [''sat''] (12 * Hour) = Inr n \<and> r \<le> 12 * Hour \<and> 12 * Hour < n \<and>
     occurrence \<lparr>loc_first = 3600, loc_trans = []\<rparr> ''weekly'' ''03:30'' [''sat''] n"
  using schedule_times_exact [OF example_schedule(2,1), of "12 * Hour"] by blast

section \<open>A zone with a transition\<close>

text \<open>Clocks go forward from 02:00 to 03:00 on day 10.\<close>

definition spring_zone :: Location where
  "spring_zone = \<lparr>loc_first = 3600, loc_trans = [(10 * 86400 + 3600, 7200)]\<rparr>"

lemma time_0230: "parseTimeOfDay ''02:30'' = Inr (2, 30)"
proof -
  have "go_trim_space ''02:30'' = ''02:30''" by (simp add: go_trim_plain plain_char_def)
  then show ?thesis
    by (simp add: parseTimeOfDay_def Atoi_def atoi_digits_def is_digit_def in_range_def digits_value_def)
qed

text \<open>The announced next run can be wrong after a clock change.  A daily schedule at 02:30 runs at
  03:30 on the day 02:30 does not exist; during the rest of that day the next run is announced
  for 03:30 of the following day, because the shifted candidate is moved by a day, while the
  scheduler will start it an hour earlier, at 02:30.\<close>

theorem next_run_late_after_gap:
  "\<exists>announced actual. nextRun spring_zone ''daily'' ''02:30'' [] (10 * 24 * Hour + 12 * Hour) = Inr announced \<and>
     mostRecentScheduledAt spring_zone ''daily'' ''02:30'' [] actual = Inr actual \<and>
     dueSchedule spring_zone True ''daily'' ''02:30'' [] (Some (10 * 24 * Hour + 90 * Minute)) actual = Some actual \<and>
     10 * 24 * Hour + 12 * Hour < actual \<and> actual + Hour = announced"
proof (intro exI conjI)
  show "nextRun spring_zone ''daily'' ''02:30'' [] (10 * 24 * Hour + 12 * Hour) = Inr (11 * 24 * Hour + 90 * Minute)"
    by (simp add: nextRun_def nextScheduledAt_def time_0230 Let_def AddDays_def go_date_def zone_lookup_def zone_offset_def
        spring_zone_def in_zone_def local_day_def local_clock_def local_seconds_def duration_defs)
  show recent: "mostRecentScheduledAt spring_zone ''daily'' ''02:30'' [] (11 * 24 * Hour + 30 * Minute) = Inr (11 * 24 * Hour + 30 * Minute)"
    by (simp add: mostRecentScheduledAt_def time_0230 Let_def AddDays_def go_date_def zone_lookup_def zone_offset_def
        spring_zone_def in_zone_def local_day_def local_clock_def local_seconds_def duration_defs)
  show "dueSchedule spring_zone True ''daily'' ''02:30'' [] (Some (10 * 24 * Hour + 90 * Minute)) (11 * 24 * Hour + 30 * Minute) =
      Some (11 * 24 * Hour + 30 * Minute)"
    unfolding dueSchedule_def recent
    by (simp add: catchUpWindow_def time_sub_def min_duration_def max_duration_def duration_defs)
qed (simp_all add: duration_defs)

section \<open>Saving settings\<close>

text \<open>Saving seeds the runtime with the most recent occurrence, so nothing runs because of the save.\<close>

lemma seeded_not_due:
  "dueSchedule loc enabled frequency v weekdays
     (rt_scheduled_for (seededScheduleRuntimeState loc enabled frequency v weekdays now)) now = None"
  by (auto simp: dueSchedule_def seededScheduleRuntimeState_def split: sum.splits)

end
