(* ===== verification/Scheduler_System.thy ===== *)
theory Scheduler_System
  imports Scheduler Audit_Service "HOL-Library.Multiset"
begin

text \<open>
  The scheduler at work: the polling loop, the workers it starts and the settings requests,
  interleaved at the points where the code releases its locks.  The mutex \<open>mu\<close> guards the
  running flags, \<open>persistMu\<close> every read-modify-write of the runtime document; the loop keeps
  the settings, the runtime and the time it read at the start of a pass.
\<close>

section \<open>One pass of the loop\<close>

definition schedule_of :: "string \<Rightarrow> Settings \<Rightarrow> bool \<times> string \<times> string \<times> string list" where
  "schedule_of key settings =
     (if key = ''update'' then
        (let u = st_update settings in (uc_enabled u, uc_frequency u, uc_time u, uc_weekdays u))
      else (let p = st_prune settings in (pc_enabled p, pc_frequency p, pc_time p, pc_weekdays p)))"

definition runtime_of :: "string \<Rightarrow> runtimeState \<Rightarrow> scheduleRuntimeState" where
  "runtime_of key rt = (if key = ''update'' then rs_update rt else rs_prune rt)"

definition due_for :: "Location \<Rightarrow> string \<Rightarrow> Settings \<Rightarrow> runtimeState \<Rightarrow> time \<Rightarrow> time option" where
  "due_for loc key settings rt now =
     (case schedule_of key settings of
        (enabled, frequency, timeOfDay, weekdays) \<Rightarrow>
          dueSchedule loc enabled frequency timeOfDay weekdays (rt_scheduled_for (runtime_of key rt)) now)"

definition tryStart :: "string \<Rightarrow> (string, bool) gomap \<Rightarrow> bool \<times> (string, bool) gomap" where
  "tryStart scheduleKey running =
     (if mget running scheduleKey = Some True then (False, running) else (True, mput scheduleKey True running))"

definition finish :: "string \<Rightarrow> (string, bool) gomap \<Rightarrow> (string, bool) gomap" where
  "finish scheduleKey running = mput scheduleKey False running"

text \<open>The runtime entry of a run that starts.\<close>

definition begin_run :: "time \<Rightarrow> time \<Rightarrow> scheduleRuntimeState \<Rightarrow> scheduleRuntimeState" where
  "begin_run now dueAt state =
     state\<lparr>rt_triggered := Some now, rt_scheduled_for := Some dueAt, rt_result := ''running'', rt_message := '''', rt_job := ''''\<rparr>"

text \<open>What a run reports: the runner's job, with an empty identifier for none, and its error.\<close>

datatype run_error = RunConflict string | RunFailed string

definition run_outcome :: "Job \<Rightarrow> run_error option \<Rightarrow> string \<times> string \<times> string \<times> bool" where
  "run_outcome job runErr =
     (let result = (if job_id job \<noteq> '''' then job_state job else ''succeeded'');
          message = (if job_id job \<noteq> '''' then job_error_message job else '''');
          err = (if job_id job = '''' \<and> runErr = None then Some (RunFailed ''maintenance runner did not return a job'') else runErr)
      in case err of
           None \<Rightarrow> (result, message, job_id job, False)
         | Some (RunConflict _) \<Rightarrow> (''skipped'', ''Another maintenance job was already running.'', job_id job, True)
         | Some (RunFailed e) \<Rightarrow> (''failed'', e, job_id job, True))"

definition rfc3339 :: "time \<Rightarrow> string" where
  "rfc3339 t = seconds_text (nat (t div Second)) @ ''Z''"

definition schedule_details :: "string \<Rightarrow> time \<Rightarrow> string \<Rightarrow> details" where
  "schedule_details scheduleKey scheduledFor message =
     [(''schedule_key'', JStr scheduleKey), (''scheduled_for'', JStr (rfc3339 scheduledFor)), (''message'', JStr message)]"

text \<open>A failed audit write is ignored.\<close>

definition audit_schedule :: "fault \<Rightarrow> string \<Rightarrow> string \<Rightarrow> string \<Rightarrow> time \<Rightarrow> time \<Rightarrow> string \<Rightarrow> AuditEntry list \<Rightarrow> AuditEntry list" where
  "audit_schedule io token scheduleKey result scheduledFor finishedAt message rows =
     (case RecordSystemEvent io token ''run_maintenance_schedule'' ''scheduler'' result scheduledFor (Some finishedAt)
             (schedule_details scheduleKey scheduledFor message) rows of
        Inr rows' \<Rightarrow> rows'
      | Inl _ \<Rightarrow> rows)"

definition finalizeScheduledRun ::
  "fault \<times> fault \<times> fault \<Rightarrow> string \<Rightarrow> time \<Rightarrow> string \<Rightarrow> time \<Rightarrow> Job \<Rightarrow> run_error option \<Rightarrow>
    sched_db \<times> AuditEntry list \<Rightarrow> sched_db \<times> AuditEntry list" where
  "finalizeScheduledRun ios token finishedAt scheduleKey scheduledFor job runErr st =
     (case (ios, run_outcome job runErr, st) of
        ((io1, io2, io3), (result, message, jobID, failed), (db, rows)) \<Rightarrow>
          (let rows' = (if failed then audit_schedule io1 token scheduleKey result scheduledFor finishedAt message rows else rows)
           in (case updateRuntime io2 io3 scheduleKey
                     (\<lambda>state. state\<lparr>rt_result := result, rt_message := message, rt_job := jobID\<rparr>) db of
                 Inr db' \<Rightarrow> db'
               | Inl _ \<Rightarrow> db, rows')))"

definition recordScheduleFailure ::
  "fault \<times> fault \<times> fault \<Rightarrow> string \<Rightarrow> time \<Rightarrow> string \<Rightarrow> time \<Rightarrow> string \<Rightarrow>
    sched_db \<times> AuditEntry list \<Rightarrow> sched_db \<times> AuditEntry list" where
  "recordScheduleFailure ios token finishedAt scheduleKey scheduledFor message st =
     (case (ios, st) of
        ((io1, io2, io3), (db, rows)) \<Rightarrow>
          (case updateRuntime io2 io3 scheduleKey
                  (\<lambda>state. state\<lparr>rt_result := ''failed'', rt_message := message, rt_job := ''''\<rparr>) db of
             Inr db' \<Rightarrow> db'
           | Inl _ \<Rightarrow> db,
           audit_schedule io1 token scheduleKey ''failed'' scheduledFor finishedAt message rows))"

text \<open>The result of a worker: the run's job and error, or for the prune schedule the failure to list the stacks.\<close>

datatype work_result = Ran Job "run_error option" | NotListed string

definition complete_work ::
  "fault \<times> fault \<times> fault \<Rightarrow> string \<Rightarrow> time \<Rightarrow> string \<Rightarrow> time \<Rightarrow> work_result \<Rightarrow>
    sched_db \<times> AuditEntry list \<Rightarrow> sched_db \<times> AuditEntry list" where
  "complete_work ios token finishedAt key dueAt res st =
     (case res of
        Ran job err \<Rightarrow> finalizeScheduledRun ios token finishedAt key dueAt job err st
      | NotListed e \<Rightarrow> recordScheduleFailure ios token finishedAt key dueAt e st)"

section \<open>The system\<close>

datatype loop_state =
    LoopIdle
  | LoopEvaluate string Settings runtimeState "time"
  | LoopClaimed string "time" Settings runtimeState "time"

record worker =
  wk_key :: string
  wk_due :: "time"
  wk_finalized :: bool

record sched_state =
  sy_db :: sched_db
  sy_audit :: "AuditEntry list"
  sy_running :: "(string, bool) gomap"
  sy_loop :: loop_state
  sy_workers :: "worker list"
  sy_resets :: "Settings list"
  sy_clock :: "time"
  sy_started :: "(string \<times> time) list"

definition newService :: "sched_db \<Rightarrow> AuditEntry list \<Rightarrow> time \<Rightarrow> sched_state" where
  "newService db rows now =
     \<lparr>sy_db = db, sy_audit = rows, sy_running = [(''update'', False), (''prune'', False)], sy_loop = LoopIdle,
      sy_workers = [], sy_resets = [], sy_clock = now, sy_started = []\<rparr>"

text \<open>The loop evaluates the update schedule, then the prune schedule.\<close>

definition next_loop :: "string \<Rightarrow> Settings \<Rightarrow> runtimeState \<Rightarrow> time \<Rightarrow> loop_state" where
  "next_loop key settings rt now = (if key = ''update'' then LoopEvaluate ''prune'' settings rt now else LoopIdle)"

definition load_pass :: "fault \<Rightarrow> fault \<Rightarrow> time \<Rightarrow> sched_state \<Rightarrow> sched_state" where
  "load_pass io1 io2 now s =
     (case (loadSettings io1 (sy_db s), loadRuntimeState io2 (sy_db s)) of
        (Inr settings, Inr rt) \<Rightarrow> s\<lparr>sy_loop := LoopEvaluate ''update'' settings rt now, sy_clock := now\<rparr>
      | _ \<Rightarrow> s\<lparr>sy_clock := now\<rparr>)"

definition evaluate_claim :: "Location \<Rightarrow> string \<Rightarrow> Settings \<Rightarrow> runtimeState \<Rightarrow> time \<Rightarrow> sched_state \<Rightarrow> sched_state" where
  "evaluate_claim loc key settings rt now s =
     (case due_for loc key settings rt now of
        None \<Rightarrow> s\<lparr>sy_loop := next_loop key settings rt now\<rparr>
      | Some dueAt \<Rightarrow>
          (case tryStart key (sy_running s) of
             (False, _) \<Rightarrow> s\<lparr>sy_loop := next_loop key settings rt now\<rparr>
           | (True, running) \<Rightarrow> s\<lparr>sy_running := running, sy_loop := LoopClaimed key dueAt settings rt now\<rparr>))"

definition evaluate_persist :: "fault \<Rightarrow> fault \<Rightarrow> string \<Rightarrow> time \<Rightarrow> Settings \<Rightarrow> runtimeState \<Rightarrow> time \<Rightarrow> sched_state \<Rightarrow> sched_state" where
  "evaluate_persist io1 io2 key dueAt settings rt now s =
     (case updateRuntime io1 io2 key (begin_run now dueAt) (sy_db s) of
        Inl _ \<Rightarrow> s\<lparr>sy_running := finish key (sy_running s), sy_loop := next_loop key settings rt now\<rparr>
      | Inr db \<Rightarrow>
          s\<lparr>sy_db := db, sy_loop := next_loop key settings rt now,
            sy_workers := \<lparr>wk_key = key, wk_due = dueAt, wk_finalized = False\<rparr> # sy_workers s,
            sy_started := sy_started s @ [(key, dueAt)]\<rparr>)"

text \<open>\<open>evaluateUpdate\<close> and \<open>evaluatePrune\<close> as they run without interruption.\<close>

definition evaluate :: "Location \<Rightarrow> fault \<Rightarrow> fault \<Rightarrow> string \<Rightarrow> Settings \<Rightarrow> runtimeState \<Rightarrow> time \<Rightarrow> sched_state \<Rightarrow> sched_state" where
  "evaluate loc io1 io2 key settings rt now s =
     (let s1 = evaluate_claim loc key settings rt now s
      in case sy_loop s1 of
           LoopClaimed key' dueAt settings' rt' now' \<Rightarrow> evaluate_persist io1 io2 key' dueAt settings' rt' now' s1
         | _ \<Rightarrow> s1)"

definition runDueSchedules :: "Location \<Rightarrow> fault \<times> fault \<times> fault \<times> fault \<times> fault \<times> fault \<Rightarrow> time \<Rightarrow> sched_state \<Rightarrow> sched_state" where
  "runDueSchedules loc ios now s =
     (case ios of
        (io1, io2, io3, io4, io5, io6) \<Rightarrow>
          (case sy_loop (load_pass io1 io2 now s) of
             LoopEvaluate key settings rt now' \<Rightarrow>
               evaluate loc io5 io6 ''prune'' settings rt now'
                 (evaluate loc io3 io4 key settings rt now' (load_pass io1 io2 now s))
           | _ \<Rightarrow> load_pass io1 io2 now s))"

inductive sched_step :: "Location \<Rightarrow> bool \<Rightarrow> sched_state \<Rightarrow> sched_state \<Rightarrow> bool" for loc :: Location and edits :: bool where
  tick: "sy_loop s = LoopIdle \<Longrightarrow> sy_clock s \<le> now \<Longrightarrow> sched_step loc edits s (load_pass io1 io2 now s)"
| claim: "sy_loop s = LoopEvaluate key settings rt now \<Longrightarrow>
    sched_step loc edits s (evaluate_claim loc key settings rt now s)"
| persist: "sy_loop s = LoopClaimed key dueAt settings rt now \<Longrightarrow>
    sched_step loc edits s (evaluate_persist io1 io2 key dueAt settings rt now s)"
| complete: "w \<in> set (sy_workers s) \<Longrightarrow> \<not> wk_finalized w \<Longrightarrow>
    complete_work ios token finishedAt (wk_key w) (wk_due w) res (sy_db s, sy_audit s) = (db, rows) \<Longrightarrow>
    sched_step loc edits s (s\<lparr>sy_db := db, sy_audit := rows,
      sy_workers := w\<lparr>wk_finalized := True\<rparr> # remove1 w (sy_workers s)\<rparr>)"
| leave: "w \<in> set (sy_workers s) \<Longrightarrow> wk_finalized w \<Longrightarrow>
    sched_step loc edits s (s\<lparr>sy_running := finish (wk_key w) (sy_running s), sy_workers := remove1 w (sy_workers s)\<rparr>)"
| save: "edits \<Longrightarrow> saveSettings io settings (sy_db s) = Inr db \<Longrightarrow>
    sched_step loc edits s (s\<lparr>sy_db := db, sy_resets := settings # sy_resets s\<rparr>)"
| reset: "edits \<Longrightarrow> settings \<in> set (sy_resets s) \<Longrightarrow> resetRuntimeState loc io settings now (sy_db s) = Inr db \<Longrightarrow>
    sched_step loc edits s (s\<lparr>sy_db := db, sy_resets := remove1 settings (sy_resets s)\<rparr>)"

inductive sched_reachable :: "Location \<Rightarrow> bool \<Rightarrow> sched_state \<Rightarrow> sched_state \<Rightarrow> bool" for loc :: Location and edits :: bool and s0 :: sched_state where
  start: "sched_reachable loc edits s0 s0"
| step: "sched_reachable loc edits s0 s \<Longrightarrow> sched_step loc edits s s' \<Longrightarrow> sched_reachable loc edits s0 s'"

section \<open>One run per schedule at a time\<close>

primrec claimed :: "loop_state \<Rightarrow> string list" where
  "claimed LoopIdle = []"
| "claimed (LoopEvaluate _ _ _ _) = []"
| "claimed (LoopClaimed key _ _ _ _) = [key]"

definition holders :: "sched_state \<Rightarrow> string list" where
  "holders s = claimed (sy_loop s) @ map wk_key (sy_workers s)"

definition run_inv :: "sched_state \<Rightarrow> bool" where
  "run_inv s \<longleftrightarrow> distinct (holders s) \<and> (\<forall>k. mget (sy_running s) k = Some True \<longleftrightarrow> k \<in> set (holders s))"

lemma claimed_next [simp]: "claimed (next_loop key settings rt now) = []"
  by (simp add: next_loop_def)

lemma holders_cong:
  assumes "mset (holders s') = mset (holders s)" "sy_running s' = sy_running s" "run_inv s"
  shows "run_inv s'"
  using assms mset_eq_imp_distinct_iff [OF assms(1)] mset_eq_setD [OF assms(1)] by (simp add: run_inv_def)

lemma holders_finish:
  assumes "run_inv s" "mset (holders s) = add_mset key (mset (holders s'))" "sy_running s' = finish key (sy_running s)"
  shows "run_inv s'"
proof -
  have "mset (holders s) = mset (key # holders s')" using assms(2) by simp
  then have "distinct (key # holders s')" "set (holders s) = set (key # holders s')"
    using assms(1) mset_eq_imp_distinct_iff mset_eq_setD by (blast dest: run_inv_def [THEN iffD1])+
  then show ?thesis using assms(1,3) by (auto simp: run_inv_def finish_def mget_put)
qed

lemma claim_run_inv:
  assumes "run_inv s" "claimed (sy_loop s) = []"
  shows "run_inv (evaluate_claim loc key settings rt now s)"
proof (cases "due_for loc key settings rt now = None \<or> mget (sy_running s) key = Some True")
  case True
  then have "holders (evaluate_claim loc key settings rt now s) = holders s"
      "sy_running (evaluate_claim loc key settings rt now s) = sy_running s"
    using assms(2) by (auto simp: evaluate_claim_def tryStart_def holders_def split: option.splits)
  then show ?thesis using assms(1) by (simp add: run_inv_def)
next
  case False
  then obtain d where "evaluate_claim loc key settings rt now s =
      s\<lparr>sy_running := mput key True (sy_running s), sy_loop := LoopClaimed key d settings rt now\<rparr>"
    by (auto simp: evaluate_claim_def tryStart_def)
  moreover have "key \<notin> set (holders s)" using False assms(1) by (simp add: run_inv_def)
  ultimately show ?thesis using assms by (auto simp: run_inv_def holders_def mget_put)
qed

lemma persist_run_inv:
  assumes "run_inv s" "sy_loop s = LoopClaimed key dueAt settings rt now"
  shows "run_inv (evaluate_persist io1 io2 key dueAt settings rt now s)"
proof (cases "updateRuntime io1 io2 key (begin_run now dueAt) (sy_db s)")
  case (Inl e)
  show ?thesis by (rule holders_finish [OF assms(1)]) (simp_all add: evaluate_persist_def Inl holders_def assms(2))
next
  case (Inr db)
  show ?thesis by (rule holders_cong [OF _ _ assms(1)]) (simp_all add: evaluate_persist_def Inr holders_def assms(2))
qed

lemma remove_worker:
  "w \<in> set ws \<Longrightarrow> image_mset wk_key (mset ws) = add_mset (wk_key w) (image_mset wk_key (mset ws - {#w#}))"
  by (metis image_mset_add_mset insert_DiffM set_mset_mset)

lemma run_inv_step: "sched_step loc edits s s' \<Longrightarrow> run_inv s \<Longrightarrow> run_inv s'"
proof (induction rule: sched_step.induct)
  case (tick s now io1 io2)
  have "holders (load_pass io1 io2 now s) = holders s" "sy_running (load_pass io1 io2 now s) = sy_running s"
    using tick(1) by (auto simp: load_pass_def holders_def split: sum.splits)
  then show ?case using tick(3) by (simp add: run_inv_def)
next
  case (claim s key settings rt now)
  then show ?case by (intro claim_run_inv) simp_all
next
  case (persist s key dueAt settings rt now io1 io2)
  then show ?case by (intro persist_run_inv)
next
  case (complete w s ios token finishedAt res db rows)
  show ?case by (rule holders_cong [OF _ _ complete(4)]) (simp_all add: holders_def remove_worker [OF complete(1)])
next
  case (leave w s)
  show ?case by (rule holders_finish [OF leave(3)]) (simp_all add: holders_def remove_worker [OF leave(1)])
next
  case (save io settings s db)
  then show ?case by (simp add: run_inv_def holders_def)
next
  case (reset settings s io now db)
  then show ?case by (simp add: run_inv_def holders_def)
qed

lemma run_inv_reachable: "sched_reachable loc edits (newService db rows now) s \<Longrightarrow> run_inv s"
proof (induction rule: sched_reachable.induct)
  case start
  show ?case by (simp add: run_inv_def holders_def newService_def)
qed (rule run_inv_step)

text \<open>C38: A schedule never runs twice at the same time.  Whatever the interleaving of the polling loop,
  the workers and the settings requests, and whatever store faults occur, there is at most one
  worker for each schedule, the running flag of a schedule is set exactly while the loop has
  claimed it or its worker has not left, and no worker exists for a schedule the loop has claimed.\<close>

theorem schedule_runs_exclusive:
  assumes "sched_reachable loc edits (newService db rows now) s"
  shows "distinct (map wk_key (sy_workers s)) \<and>
    (\<forall>key dueAt settings rt t. sy_loop s = LoopClaimed key dueAt settings rt t \<longrightarrow> key \<notin> wk_key ` set (sy_workers s)) \<and>
    (\<forall>key. mget (sy_running s) key = Some True \<longleftrightarrow>
       key \<in> wk_key ` set (sy_workers s) \<or> (\<exists>dueAt settings rt t. sy_loop s = LoopClaimed key dueAt settings rt t))"
proof -
  note I = run_inv_reachable [OF assms, unfolded run_inv_def holders_def]
  then show ?thesis by (cases "sy_loop s") auto
qed

section \<open>One run per occurrence\<close>

abbreviation keys :: "string list" where
  "keys \<equiv> [''update'', ''prune'']"

definition stored_runtime :: "sched_db \<Rightarrow> runtimeState" where
  "stored_runtime db = (case sch_runtime db of None \<Rightarrow> \<lparr>rs_update = empty_runtime, rs_prune = empty_runtime\<rparr> | Some r \<Rightarrow> r)"

definition served :: "string \<Rightarrow> sched_db \<Rightarrow> time option" where
  "served key db = rt_scheduled_for (runtime_of key (stored_runtime db))"

definition starts :: "string \<Rightarrow> sched_state \<Rightarrow> time list" where
  "starts key s = map snd (filter (\<lambda>p. fst p = key) (sy_started s))"

text \<open>The most recent time of an enabled schedule.\<close>

definition recent_for :: "Location \<Rightarrow> string \<Rightarrow> Settings \<Rightarrow> time \<Rightarrow> time option" where
  "recent_for loc key settings now =
     (case schedule_of key settings of
        (enabled, frequency, timeOfDay, weekdays) \<Rightarrow>
          if enabled then (case mostRecentScheduledAt loc frequency timeOfDay weekdays now of Inr r \<Rightarrow> Some r | Inl _ \<Rightarrow> None)
          else None)"

definition occurrence_for :: "Location \<Rightarrow> string \<Rightarrow> Settings \<Rightarrow> time \<Rightarrow> bool" where
  "occurrence_for loc key settings t =
     (case schedule_of key settings of (_, frequency, timeOfDay, weekdays) \<Rightarrow> occurrence loc frequency timeOfDay weekdays t)"

definition valid_schedules :: "Settings \<Rightarrow> bool" where
  "valid_schedules settings \<longleftrightarrow>
     (\<forall>key \<in> set keys. case schedule_of key settings of
        (enabled, frequency, timeOfDay, weekdays) \<Rightarrow> enabled \<longrightarrow> validateBaseSchedule frequency timeOfDay weekdays = None)"

lemma due_recent: "due_for loc key settings rt now = Some d \<Longrightarrow>
  recent_for loc key settings now = Some d \<and> rt_scheduled_for (runtime_of key rt) \<noteq> Some d"
  by (auto simp: due_for_def recent_for_def dueSchedule_def split: prod.splits sum.splits if_splits)

lemma recent_mono:
  assumes "fixed_zone loc" "valid_schedules settings" "key \<in> set keys" "t \<le> u" "recent_for loc key settings t = Some a"
  obtains b where "recent_for loc key settings u = Some b" "a \<le> b"
proof -
  obtain f v w where sch: "schedule_of key settings = (True, f, v, w)"
    using assms(5) by (cases "schedule_of key settings") (auto simp: recent_for_def split: if_splits)
  then have ok: "validateBaseSchedule f v w = None" using assms(2,3) unfolding valid_schedules_def by fastforce
  obtain b where b: "mostRecentScheduledAt loc f v w u = Inr b" "\<forall>x. occurrence loc f v w x \<and> x \<le> u \<longrightarrow> x \<le> b"
    using most_recent_spec [OF assms(1) ok, of u] by blast
  obtain a' where a: "mostRecentScheduledAt loc f v w t = Inr a'" "occurrence loc f v w a'" "a' \<le> t"
    using most_recent_spec [OF assms(1) ok, of t] by blast
  show thesis using that [of b] a b assms(4,5) by (auto simp: recent_for_def sch)
qed

lemma recent_occurs:
  assumes "fixed_zone loc" "valid_schedules settings" "key \<in> set keys" "recent_for loc key settings t = Some a"
  shows "occurrence_for loc key settings a"
proof -
  obtain f v w where sch: "schedule_of key settings = (True, f, v, w)"
    using assms(4) by (cases "schedule_of key settings") (auto simp: recent_for_def split: if_splits)
  then have ok: "validateBaseSchedule f v w = None" using assms(2,3) unfolding valid_schedules_def by fastforce
  show ?thesis using most_recent_spec [OF assms(1) ok, of t] assms(4) by (auto simp: recent_for_def occurrence_for_def sch)
qed

lemma updateRuntime_entry:
  assumes "updateRuntime io1 io2 key f db = Inr db'"
  shows "key \<in> set keys" "sch_settings db' = sch_settings db"
    "k \<in> set keys \<Longrightarrow> runtime_of k (stored_runtime db') =
       (if k = key then f (runtime_of k (stored_runtime db)) else runtime_of k (stored_runtime db))"
  using assms
  by (auto simp: updateRuntime_def loadRuntimeState_def rbind_Inr stored_runtime_def runtime_of_def Let_def
      split: option.splits if_splits)

lemma complete_work_served:
  assumes "complete_work ios token finishedAt key dueAt res (db, rows) = (db', rows')"
  shows "sch_settings db' = sch_settings db" "k \<in> set keys \<Longrightarrow> served k db' = served k db"
proof -
  obtain io1 io2 f where db': "db' = (case updateRuntime io1 io2 key f db of Inr d \<Rightarrow> d | Inl _ \<Rightarrow> db)"
      and f: "\<And>st. rt_scheduled_for (f st) = rt_scheduled_for st"
  proof (cases res)
    case (Ran job err)
    obtain io1 io2 io3 where i: "ios = (io1, io2, io3)" by (cases ios)
    obtain result message jobID failed where o: "run_outcome job err = (result, message, jobID, failed)" by (cases "run_outcome job err")
    show ?thesis
      using assms that [of io2 io3 "\<lambda>state. state\<lparr>rt_result := result, rt_message := message, rt_job := jobID\<rparr>"]
      by (simp add: complete_work_def Ran finalizeScheduledRun_def i o Let_def)
  next
    case (NotListed e)
    obtain io1 io2 io3 where i: "ios = (io1, io2, io3)" by (cases ios)
    show ?thesis
      using assms that [of io2 io3 "\<lambda>state. state\<lparr>rt_result := ''failed'', rt_message := e, rt_job := ''''\<rparr>"]
      by (simp add: complete_work_def NotListed recordScheduleFailure_def i)
  qed
  have "sch_settings db' = sch_settings db \<and> (k \<in> set keys \<longrightarrow> served k db' = served k db)"
  proof (cases "updateRuntime io1 io2 key f db")
    case (Inr d)
    then have d: "db' = d" using db' by simp
    note e = updateRuntime_entry [OF Inr]
    show ?thesis unfolding d served_def using e(2) e(3) [of k] f [of "runtime_of k (stored_runtime db)"] by (metis (full_types))
  qed (simp add: db')
  then show "sch_settings db' = sch_settings db" "k \<in> set keys \<Longrightarrow> served k db' = served k db" by blast+
qed

text \<open>The schedules a loop state has yet to decide, with the runtime it read.\<close>

primrec pending :: "loop_state \<Rightarrow> (string \<times> runtimeState) list" where
  "pending LoopIdle = []"
| "pending (LoopEvaluate key settings rt now) = (key, rt) # (if key = ''update'' then [(''prune'', rt)] else [])"
| "pending (LoopClaimed key dueAt settings rt now) = (if key = ''update'' then [(''prune'', rt)] else [])"

primrec loop_ok :: "Location \<Rightarrow> Settings \<Rightarrow> sched_state \<Rightarrow> loop_state \<Rightarrow> bool" where
  "loop_ok loc S s LoopIdle = True"
| "loop_ok loc S s (LoopEvaluate key settings rt now) = (key \<in> set keys \<and> settings = S \<and> now = sy_clock s)"
| "loop_ok loc S s (LoopClaimed key dueAt settings rt now) =
     (key \<in> set keys \<and> settings = S \<and> now = sy_clock s \<and> recent_for loc key S now = Some dueAt \<and> served key (sy_db s) \<noteq> Some dueAt)"

definition starts_ok :: "Location \<Rightarrow> Settings \<Rightarrow> sched_state \<Rightarrow> string \<Rightarrow> bool" where
  "starts_ok loc S s key \<longleftrightarrow>
     sorted_wrt (<) (starts key s) \<and> (\<forall>t \<in> set (starts key s). occurrence_for loc key S t) \<and>
     (starts key s \<noteq> [] \<longrightarrow> served key (sy_db s) = Some (last (starts key s)) \<and>
        (\<exists>r. recent_for loc key S (sy_clock s) = Some r \<and> last (starts key s) \<le> r))"

definition order_inv :: "Location \<Rightarrow> Settings \<Rightarrow> sched_state \<Rightarrow> bool" where
  "order_inv loc S s \<longleftrightarrow>
     loadSettings None (sy_db s) = Inr S \<and> loop_ok loc S s (sy_loop s) \<and>
     (\<forall>(k, rt) \<in> set (pending (sy_loop s)). rt_scheduled_for (runtime_of k rt) = served k (sy_db s)) \<and>
     (\<forall>key \<in> set keys. starts_ok loc S s key)"

lemma order_invD:
  assumes "order_inv loc S s"
  shows "loadSettings None (sy_db s) = Inr S" "loop_ok loc S s (sy_loop s)"
    "(k, rt) \<in> set (pending (sy_loop s)) \<Longrightarrow> rt_scheduled_for (runtime_of k rt) = served k (sy_db s)"
    "key \<in> set keys \<Longrightarrow> starts_ok loc S s key"
  using assms unfolding order_inv_def by blast+

lemma loadSettings_cong: "sch_settings db' = sch_settings db \<Longrightarrow> loadSettings None db' = loadSettings None db"
  by (simp add: loadSettings_def)

lemma pending_keys: "loop_ok loc S s l \<Longrightarrow> (k, rt) \<in> set (pending l) \<Longrightarrow> k \<in> set keys"
  by (cases l) (auto split: if_splits)

lemma next_loop_ok:
  "key \<in> set keys \<Longrightarrow> now = sy_clock s \<Longrightarrow> loop_ok loc S s (next_loop key S rt now)"
  "set (pending (next_loop key S rt now)) = (if key = ''update'' then {(''prune'', rt)} else {})"
  by (auto simp: next_loop_def)

lemma loop_ok_cong:
  "sy_clock s' = sy_clock s \<Longrightarrow> (\<And>k. k \<in> set keys \<Longrightarrow> served k (sy_db s') = served k (sy_db s)) \<Longrightarrow>
     loop_ok loc S s' l = loop_ok loc S s l"
  by (cases l) auto

text \<open>A step that leaves the start times, the clock and what was served.\<close>

lemma order_inv_frame:
  assumes "order_inv loc S s" "sch_settings (sy_db s') = sch_settings (sy_db s)" "sy_clock s' = sy_clock s"
    and same: "\<And>k. k \<in> set keys \<Longrightarrow> served k (sy_db s') = served k (sy_db s)"
    and "sy_started s' = sy_started s" "sy_loop s' = sy_loop s"
  shows "order_inv loc S s'"
  unfolding order_inv_def
proof (intro conjI ballI)
  show "loadSettings None (sy_db s') = Inr S" using order_invD(1) [OF assms(1)] loadSettings_cong [OF assms(2)] by simp
  show "loop_ok loc S s' (sy_loop s')"
    using order_invD(2) [OF assms(1)] loop_ok_cong [of s' s, OF assms(3) same] assms(6) by simp
  show "case p of (k, rt) \<Rightarrow> rt_scheduled_for (runtime_of k rt) = served k (sy_db s')" if p: "p \<in> set (pending (sy_loop s'))" for p
  proof -
    obtain k rt where k: "p = (k, rt)" by (cases p)
    have "k \<in> set keys" using pending_keys [OF order_invD(2) [OF assms(1)], of k rt] p k assms(6) by simp
    then show ?thesis using order_invD(3) [OF assms(1), of k rt] same [of k] p k assms(6) by simp
  qed
  show "starts_ok loc S s' key" if "key \<in> set keys" for key
    using order_invD(4) [OF assms(1) that] same [OF that] assms(3,5) by (simp add: starts_ok_def starts_def)
qed

text \<open>A step that only moves the loop.\<close>

lemma order_inv_loop:
  assumes "order_inv loc S s" "loop_ok loc S (s\<lparr>sy_running := r, sy_loop := l\<rparr>) l"
    and "\<And>k rt. (k, rt) \<in> set (pending l) \<Longrightarrow> rt_scheduled_for (runtime_of k rt) = served k (sy_db s)"
  shows "order_inv loc S (s\<lparr>sy_running := r, sy_loop := l\<rparr>)"
proof -
  have "starts_ok loc S (s\<lparr>sy_running := r, sy_loop := l\<rparr>) key" if "key \<in> set keys" for key
    using order_invD(4) [OF assms(1) that] by (simp add: starts_ok_def starts_def)
  then show ?thesis using order_invD(1) [OF assms(1)] assms(2,3) unfolding order_inv_def by auto
qed

lemma tick_order:
  assumes "order_inv loc S s" "fixed_zone loc" "valid_schedules S" "sy_loop s = LoopIdle" "sy_clock s \<le> now"
  shows "order_inv loc S (load_pass io1 io2 now s)"
proof -
  have mono: "starts_ok loc S (s\<lparr>sy_loop := l, sy_clock := now\<rparr>) key" if k: "key \<in> set keys" for key l
  proof (cases "starts key s = []")
    case True
    then show ?thesis by (simp add: starts_ok_def starts_def)
  next
    case False
    then obtain r where r: "recent_for loc key S (sy_clock s) = Some r" "last (starts key s) \<le> r"
      using order_invD(4) [OF assms(1) k] by (auto simp: starts_ok_def)
    obtain b where "recent_for loc key S now = Some b" "r \<le> b" using recent_mono [OF assms(2,3) k assms(5) r(1)] .
    then show ?thesis using order_invD(4) [OF assms(1) k] r False by (auto simp: starts_ok_def starts_def)
  qed
  note S = order_invD(1) [OF assms(1)]
  have idle: "order_inv loc S (s\<lparr>sy_clock := now\<rparr>)"
    using mono [of "''update''" LoopIdle] mono [of "''prune''" LoopIdle] S assms(4)
    by (simp add: order_inv_def starts_ok_def starts_def)
  show ?thesis
  proof (cases "io1 = None \<and> io2 = None")
    case True
    then have "load_pass io1 io2 now s = s\<lparr>sy_loop := LoopEvaluate ''update'' S (stored_runtime (sy_db s)) now, sy_clock := now\<rparr>"
      using S by (simp add: load_pass_def loadRuntimeState_def stored_runtime_def)
    then show ?thesis using mono S by (simp add: order_inv_def served_def)
  next
    case False
    then have "load_pass io1 io2 now s = s\<lparr>sy_clock := now\<rparr>"
      using S by (auto simp: load_pass_def loadRuntimeState_def loadSettings_def split: sum.splits option.splits)
    then show ?thesis using idle by simp
  qed
qed

lemma claim_order:
  assumes "order_inv loc S s" "sy_loop s = LoopEvaluate key settings rt now"
  shows "order_inv loc S (evaluate_claim loc key settings rt now s)"
proof -
  have k: "key \<in> set keys" "settings = S" "now = sy_clock s" using order_invD(2) [OF assms(1)] assms(2) by auto
  have p: "rt_scheduled_for (runtime_of k' rt') = served k' (sy_db s)"
    if "(k', rt') \<in> set (pending (sy_loop s))" for k' rt' using order_invD(3) [OF assms(1) that] .
  have skip: "order_inv loc S (s\<lparr>sy_loop := next_loop key settings rt now\<rparr>)"
  proof -
    have "order_inv loc S (s\<lparr>sy_running := sy_running s, sy_loop := next_loop key settings rt now\<rparr>)"
    proof (rule order_inv_loop [OF assms(1)])
      show "loop_ok loc S (s\<lparr>sy_running := sy_running s, sy_loop := next_loop key settings rt now\<rparr>) (next_loop key settings rt now)"
        unfolding k(2) by (rule next_loop_ok(1)) (use k in auto)
      show "rt_scheduled_for (runtime_of k' rt') = served k' (sy_db s)" if "(k', rt') \<in> set (pending (next_loop key settings rt now))" for k' rt'
        using that p [of k' rt'] unfolding k(2) next_loop_ok(2) assms(2) by (auto split: if_splits)
    qed
    then show ?thesis by simp
  qed
  show ?thesis
  proof (cases "due_for loc key settings rt now")
    case (Some d)
    note d = due_recent [OF Some]
    have "served key (sy_db s) \<noteq> Some d" using d p [of key rt] by (simp add: assms(2))
    then have "order_inv loc S (s\<lparr>sy_running := mput key True (sy_running s), sy_loop := LoopClaimed key d settings rt now\<rparr>)"
      using d k p [of "''prune''" rt] by (intro order_inv_loop [OF assms(1)]) (auto simp: assms(2) split: if_splits)
    then show ?thesis using skip Some by (simp add: evaluate_claim_def tryStart_def)
  qed (simp add: evaluate_claim_def skip)
qed

lemma served_begin:
  assumes "updateRuntime io1 io2 key (begin_run now d) db = Inr db'" "k \<in> set keys"
  shows "served k db' = (if k = key then Some d else served k db)"
  using updateRuntime_entry(3) [OF assms] by (simp add: served_def begin_run_def)

lemma start_grows:
  assumes "fixed_zone loc" "valid_schedules S" "starts_ok loc S s key" "key \<in> set keys"
    and "recent_for loc key S (sy_clock s) = Some d" "served key (sy_db s) \<noteq> Some d"
  shows "sorted_wrt (<) (starts key s @ [d])" "\<forall>t \<in> set (starts key s @ [d]). occurrence_for loc key S t"
proof -
  have "t < d" if t: "t \<in> set (starts key s)" for t
  proof -
    have ne: "starts key s \<noteq> []" using t by auto
    then have "last (starts key s) \<le> d" "last (starts key s) \<noteq> d" using assms(3,5,6) by (auto simp: starts_ok_def)
    moreover have "t \<le> last (starts key s)"
    proof -
      have "starts key s = butlast (starts key s) @ [last (starts key s)]" using ne by simp
      moreover have "sorted_wrt (<) (starts key s)" using assms(3) by (simp add: starts_ok_def)
      ultimately have "\<forall>x \<in> set (butlast (starts key s)). x < last (starts key s)" by (metis list.set_intros(1) sorted_wrt_append)
      then show ?thesis using t \<open>starts key s = _\<close> by (metis Un_iff less_imp_le order_refl set_ConsD set_append empty_iff list.set(1))
    qed
    ultimately show ?thesis by linarith
  qed
  then show "sorted_wrt (<) (starts key s @ [d])" using assms(3) by (simp add: starts_ok_def sorted_wrt_append)
  show "\<forall>t \<in> set (starts key s @ [d]). occurrence_for loc key S t"
    using assms(3) recent_occurs [OF assms(1,2,4,5)] by (auto simp: starts_ok_def)
qed

lemma persist_order:
  assumes "order_inv loc S s" "fixed_zone loc" "valid_schedules S" "sy_loop s = LoopClaimed key d settings rt now"
  shows "order_inv loc S (evaluate_persist io1 io2 key d settings rt now s)"
proof -
  have k: "key \<in> set keys" "settings = S" "now = sy_clock s" "recent_for loc key S now = Some d" "served key (sy_db s) \<noteq> Some d"
    using order_invD(2) [OF assms(1)] assms(4) by auto
  have p: "rt_scheduled_for (runtime_of k' rt) = served k' (sy_db s) \<and> k' \<in> set keys \<and> k' \<noteq> key"
    if "(k', rt') \<in> set (pending (next_loop key settings rt now))" for k' rt'
    using that order_invD(3) [OF assms(1), of "''prune''" rt] unfolding k(2) next_loop_ok(2) assms(4) by (auto split: if_splits)
  have rt: "rt' = rt" if "(k', rt') \<in> set (pending (next_loop key settings rt now))" for k' rt'
    using that unfolding k(2) next_loop_ok(2) by (auto split: if_splits)
  show ?thesis
  proof (cases "updateRuntime io1 io2 key (begin_run now d) (sy_db s)")
    case (Inl e)
    have "order_inv loc S (s\<lparr>sy_running := finish key (sy_running s), sy_loop := next_loop key settings rt now\<rparr>)"
    proof (rule order_inv_loop [OF assms(1)])
      show "loop_ok loc S (s\<lparr>sy_running := finish key (sy_running s), sy_loop := next_loop key settings rt now\<rparr>) (next_loop key settings rt now)"
        unfolding k(2) by (rule next_loop_ok(1)) (use k in auto)
    qed (use p rt in blast)
    then show ?thesis by (simp add: evaluate_persist_def Inl)
  next
    case (Inr db)
    let ?s = "evaluate_persist io1 io2 key d settings rt now s"
    have s: "sy_db ?s = db" "sy_loop ?s = next_loop key settings rt now" "sy_clock ?s = sy_clock s" "sy_started ?s = sy_started s @ [(key, d)]"
      by (simp_all add: evaluate_persist_def Inr)
    note served = served_begin [OF Inr]
    have "starts_ok loc S ?s k'" if k': "k' \<in> set keys" for k'
    proof (cases "k' = key")
      case True
      have st: "starts key ?s = starts key s @ [d]" by (simp add: starts_def s(4))
      note g = start_grows [OF assms(2,3) order_invD(4) [OF assms(1) k(1)] k(1) k(4) [unfolded k(3)] k(5)]
      have "served key db = Some d" using served [OF k(1)] by simp
      then show ?thesis unfolding starts_ok_def True st s(1,3) using g k(3,4) by simp
    next
      case False
      then show ?thesis using order_invD(4) [OF assms(1) k'] served [OF k'] by (simp add: starts_ok_def starts_def s)
    qed
    moreover have "loop_ok loc S ?s (sy_loop ?s)" using next_loop_ok(1) [OF k(1), of now ?s loc S rt] k(2,3) s(2,3) by simp
    moreover have "loadSettings None (sy_db ?s) = Inr S"
      using order_invD(1) [OF assms(1)] loadSettings_cong [OF updateRuntime_entry(2) [OF Inr]] by (simp add: s)
    moreover have "rt_scheduled_for (runtime_of k' rt') = served k' (sy_db ?s)" if "(k', rt') \<in> set (pending (sy_loop ?s))" for k' rt'
      using p [of k' rt'] rt [of k' rt'] that served [of k'] unfolding s by auto
    ultimately show ?thesis unfolding order_inv_def by blast
  qed
qed

lemma order_inv_step:
  assumes "sched_step loc False s s'" "order_inv loc S s" "fixed_zone loc" "valid_schedules S"
  shows "order_inv loc S s'"
  using assms
proof (cases rule: sched_step.cases)
  case (complete w ios token finishedAt res db rows)
  note c = complete_work_served [OF complete(4)]
  show ?thesis unfolding complete(1)
    by (rule order_inv_frame [OF assms(2)]) (use c in simp_all)
next
  case (leave w)
  show ?thesis unfolding leave(1) by (rule order_inv_frame [OF assms(2)]) simp_all
next
  case (tick now io1 io2)
  then show ?thesis using tick_order assms(2-4) by simp
next
  case (claim key settings rt now)
  then show ?thesis using claim_order assms(2) by simp
next
  case (persist key dueAt settings rt now io1 io2)
  then show ?thesis using persist_order assms(2-4) by simp
qed simp_all

lemma order_inv_reachable:
  assumes "sched_reachable loc False s0 s" "order_inv loc S s0" "fixed_zone loc" "valid_schedules S"
  shows "order_inv loc S s"
  using assms by (induction rule: sched_reachable.induct) (auto intro: order_inv_step)

text \<open>C39: A schedule runs at most once per occurrence.  With accepted settings that are not edited, a fixed
  zone offset and a clock that does not go back, and whatever faults and worker delays occur,
  the runs a schedule starts are for strictly later and later occurrences of it.\<close>

theorem schedule_at_most_once:
  assumes "fixed_zone loc" "loadSettings None db = Inr S" "valid_schedules S" "key \<in> {''update'', ''prune''}"
    and "sched_reachable loc False (newService db rows now) s"
  shows "sorted_wrt (<) (starts key s) \<and> (\<forall>t \<in> set (starts key s). occurrence_for loc key S t)"
proof -
  have "order_inv loc S (newService db rows now)"
    using assms(2) by (simp add: order_inv_def newService_def starts_ok_def starts_def)
  then have "starts_ok loc S s key" using order_inv_reachable [OF assms(5) _ assms(1,3)] assms(4) order_invD(4) by simp
  then show ?thesis by (simp add: starts_ok_def)
qed

section \<open>A run\<close>

definition example_settings :: Settings where
  "example_settings = defaultSettings\<lparr>st_update := (st_update defaultSettings)\<lparr>uc_enabled := True, uc_frequency := ''daily''\<rparr>\<rparr>"

definition example_sched_db :: sched_db where
  "example_sched_db = \<lparr>sch_settings = Some example_settings, sch_runtime = None\<rparr>"

abbreviation dawn :: "time" where
  "dawn \<equiv> 3 * Hour + 30 * Minute"

lemma example_load: "loadSettings None example_sched_db = Inr example_settings"
proof -
  have "go_trim_space ''all'' = ''all''" by (simp add: go_trim_plain plain_char_def)
  then show ?thesis
    by (simp add: loadSettings_def example_sched_db_def example_settings_def read_settings_def defaultSettings_def
        normalizeUpdateConfig_def dedupeStackIDs_def normalizeExcludedServices_def)
qed

lemma example_valid: "valid_schedules example_settings"
  by (simp add: valid_schedules_def schedule_of_def example_settings_def defaultSettings_def validateBaseSchedule_def example_schedule(3))

lemma example_due:
  "due_for UTC ''update'' example_settings \<lparr>rs_update = empty_runtime, rs_prune = empty_runtime\<rparr> (4 * Hour) = Some dawn"
  by (simp add: due_for_def schedule_of_def example_settings_def defaultSettings_def dueSchedule_def mostRecentScheduledAt_def
      example_schedule(3) Let_def go_date_def zone_lookup_def UTC_def local_day_def local_seconds_def zone_offset_def duration_defs
      runtime_of_def empty_runtime_def time_sub_def min_duration_def max_duration_def catchUpWindow_def)

definition example_running :: sched_state where
  "example_running = evaluate UTC None None ''update'' example_settings \<lparr>rs_update = empty_runtime, rs_prune = empty_runtime\<rparr> (4 * Hour)
     (load_pass None None (4 * Hour) (newService example_sched_db [] 0))"

lemma example_pass:
  "load_pass None None (4 * Hour) (newService example_sched_db [] 0) =
     (newService example_sched_db [] 0)\<lparr>sy_loop := LoopEvaluate ''update'' example_settings
        \<lparr>rs_update = empty_runtime, rs_prune = empty_runtime\<rparr> (4 * Hour), sy_clock := 4 * Hour\<rparr>"
  using example_load by (simp add: load_pass_def newService_def loadRuntimeState_def example_sched_db_def)

lemma example_running_reachable:
  "sched_reachable UTC edits (newService example_sched_db [] 0) example_running"
  "sy_workers example_running = [\<lparr>wk_key = ''update'', wk_due = dawn, wk_finalized = False\<rparr>]"
  "sy_started example_running = [(''update'', dawn)]"
proof -
  let ?r = "\<lparr>rs_update = empty_runtime, rs_prune = empty_runtime\<rparr>"
  let ?s0 = "newService example_sched_db [] 0"
  let ?s1 = "load_pass None None (4 * Hour) ?s0"
  let ?s2 = "evaluate_claim UTC ''update'' example_settings ?r (4 * Hour) ?s1"
  have 2: "?s2 = ?s1\<lparr>sy_running := mput ''update'' True (sy_running ?s1), sy_loop := LoopClaimed ''update'' dawn example_settings ?r (4 * Hour)\<rparr>"
    using example_due unfolding example_pass by (simp add: evaluate_claim_def tryStart_def newService_def)
  have 3: "example_running = evaluate_persist None None ''update'' dawn example_settings ?r (4 * Hour) ?s2"
    unfolding example_running_def evaluate_def Let_def by (simp add: 2)
  have "sched_reachable UTC edits ?s0 ?s1"
    by (rule sched_reachable.step [OF sched_reachable.start sched_step.tick]) (simp_all add: newService_def duration_defs)
  then have "sched_reachable UTC edits ?s0 ?s2"
    by (rule sched_reachable.step) (rule sched_step.claim, simp add: example_pass)
  then show "sched_reachable UTC edits ?s0 example_running" unfolding 3
    by (rule sched_reachable.step) (rule sched_step.persist, simp add: 2)
  show "sy_workers example_running = [\<lparr>wk_key = ''update'', wk_due = dawn, wk_finalized = False\<rparr>]"
    "sy_started example_running = [(''update'', dawn)]"
    unfolding 3 2 unfolding example_pass
    by (simp_all add: evaluate_persist_def updateRuntime_def loadRuntimeState_def newService_def example_sched_db_def)
qed

theorem schedule_runs_exclusive_witness:
  "mget (sy_running example_running) ''update'' = Some True"
  using schedule_runs_exclusive [OF example_running_reachable(1) [of True]] example_running_reachable(2) by simp

theorem schedule_at_most_once_witness:
  "starts ''update'' example_running = [dawn] \<and> occurrence_for UTC ''update'' example_settings dawn"
proof -
  have "fixed_zone UTC" by (simp add: fixed_zone_def UTC_def)
  from schedule_at_most_once [OF this example_load example_valid _ example_running_reachable(1), of "''update''"]
  show ?thesis by (simp add: starts_def example_running_reachable(3))
qed

end
