(* ===== verification/Terminal.thy ===== *)
theory Terminal
  imports Go_Codec "HOL-Library.Word"
begin

text \<open>
  internal/terminal/service.go: the registry of container terminals.  Sessions and attachments
  are objects in stores keyed by their random identifiers; the service maps and the fields the
  mutexes guard change in the atomic sections the code has, and a request that spans several
  sections is several steps.  The pseudo terminal and its process are their observable state:
  running or terminated.  Timers are steps that may fire while they are armed.
\<close>

section \<open>Data\<close>

datatype term_error = ErrSessionNotFound | ErrSessionLimitExceeded | ErrInvalidShell | ErrPty string

record Config =
  MaxSessionsPerOwner :: int
  IdleTimeout :: int
  DetachGracePeriod :: int

record SessionInfo =
  si_id :: string
  si_stack :: string
  si_container :: string
  si_shell :: string

datatype Event = Output string | Exited "int option" string

record attachment =
  at_connection :: string
  at_events :: "Event list"
  at_closed :: bool

record tsession =
  ts_info :: SessionInfo
  ts_owner :: string
  ts_current :: "string option"
  ts_idle :: bool
  ts_detach :: bool
  ts_once :: bool
  ts_alive :: bool

datatype LifecycleEvent = Opened SessionInfo | Attached SessionInfo | ClosedEvent SessionInfo string

record term_service =
  tm_cfg :: Config
  tm_sessions :: "string list"
  tm_owners :: "(string, string list) gomap"
  tm_objects :: "(string, tsession) gomap"
  tm_attachments :: "(string, attachment) gomap"
  tm_hook :: "LifecycleEvent list"

definition NewTerminalService :: "Config \<Rightarrow> term_service" where
  "NewTerminalService cfg =
     \<lparr>tm_cfg =
        \<lparr>MaxSessionsPerOwner = (if MaxSessionsPerOwner cfg \<le> 0 then 5 else MaxSessionsPerOwner cfg),
         IdleTimeout = (if IdleTimeout cfg \<le> 0 then 30 * 60 * 1000000000 else IdleTimeout cfg),
         DetachGracePeriod = (if DetachGracePeriod cfg \<le> 0 then 60 * 1000000000 else DetachGracePeriod cfg)\<rparr>,
      tm_sessions = [], tm_owners = [], tm_objects = [], tm_attachments = [], tm_hook = []\<rparr>"

definition event_capacity :: nat where
  "event_capacity = 256"

section \<open>Helpers\<close>

definition normalizeShell :: "string \<Rightarrow> string option" where
  "normalizeShell shell =
     (if shell = '''' \<or> shell = ''/bin/sh'' then Some ''/bin/sh''
      else if shell = ''/bin/bash'' then Some ''/bin/bash'' else None)"

definition normalizeCols :: "int \<Rightarrow> int" where
  "normalizeCols cols = (if cols \<le> 0 then 120 else cols)"

definition normalizeRows :: "int \<Rightarrow> int" where
  "normalizeRows rows = (if rows \<le> 0 then 36 else rows)"

text \<open>\<open>pty.Winsize\<close> with the conversions to \<open>uint16\<close>.\<close>

definition winsize :: "int \<Rightarrow> int \<Rightarrow> 16 word \<times> 16 word" where
  "winsize cols rows = (word_of_int (normalizeCols cols), word_of_int (normalizeRows rows))"

definition term_randomID :: "string option \<Rightarrow> string" where
  "term_randomID random = (case random of None \<Rightarrow> ''fallback'' | Some bs \<Rightarrow> b64_url bs)"

definition closeAttachmentLocked :: "attachment \<Rightarrow> attachment" where
  "closeAttachmentLocked a = (if at_closed a then a else a\<lparr>at_closed := True\<rparr>)"

definition offer :: "Event \<Rightarrow> attachment \<Rightarrow> attachment" where
  "offer e a = (if length (at_events a) < event_capacity then a\<lparr>at_events := at_events a @ [e]\<rparr> else a)"

text \<open>When the channel is full its oldest event makes room for the exit event.\<close>

definition sendAndCloseAttachmentLocked :: "Event \<Rightarrow> attachment \<Rightarrow> attachment" where
  "sendAndCloseAttachmentLocked e a =
     (if at_closed a then a
      else closeAttachmentLocked
             (if length (at_events a) < event_capacity then a\<lparr>at_events := at_events a @ [e]\<rparr>
              else offer e (a\<lparr>at_events := tl (at_events a)\<rparr>)))"

definition on_attachment :: "string option \<Rightarrow> (attachment \<Rightarrow> attachment) \<Rightarrow> term_service \<Rightarrow> term_service" where
  "on_attachment c f s =
     (case c of
        None \<Rightarrow> s
      | Some aid \<Rightarrow>
          (case mget (tm_attachments s) aid of
             None \<Rightarrow> s
           | Some a \<Rightarrow> s\<lparr>tm_attachments := mput aid (f a) (tm_attachments s)\<rparr>))"

definition put_session :: "string \<Rightarrow> tsession \<Rightarrow> term_service \<Rightarrow> term_service" where
  "put_session sid ob s = s\<lparr>tm_objects := mput sid ob (tm_objects s)\<rparr>"

definition emitLifecycle :: "LifecycleEvent \<Rightarrow> term_service \<Rightarrow> term_service" where
  "emitLifecycle e s = s\<lparr>tm_hook := tm_hook s @ [e]\<rparr>"

definition owned :: "string \<Rightarrow> term_service \<Rightarrow> string list" where
  "owned ob s = (case mget (tm_owners s) ob of None \<Rightarrow> [] | Some xs \<Rightarrow> xs)"

definition drop_owned :: "string \<Rightarrow> string \<Rightarrow> (string, string list) gomap \<Rightarrow> (string, string list) gomap" where
  "drop_owned ownerID sessionID owners =
     (case mget owners ownerID of
        None \<Rightarrow> owners
      | Some xs \<Rightarrow>
          (let rest = filter (\<lambda>x. x \<noteq> sessionID) xs
           in if rest = [] then mdel ownerID owners else mput ownerID rest owners))"

section \<open>Opening\<close>

text \<open>The reservation under the service mutex.\<close>

definition open_reserve :: "string \<Rightarrow> string \<Rightarrow> term_service \<Rightarrow> term_error option \<times> term_service" where
  "open_reserve ownerID sid s =
     (let s1 = (if mget (tm_owners s) ownerID = None then s\<lparr>tm_owners := mput ownerID [] (tm_owners s)\<rparr> else s)
      in if int (length (owned ownerID s1)) \<ge> MaxSessionsPerOwner (tm_cfg s1) then (Some ErrSessionLimitExceeded, s1)
         else (None, s1\<lparr>tm_owners := mput ownerID (set_add sid (owned ownerID s1)) (tm_owners s1)\<rparr>))"

definition releaseOwnerSession :: "string \<Rightarrow> string \<Rightarrow> term_service \<Rightarrow> term_service" where
  "releaseOwnerSession ownerID sessionID s = s\<lparr>tm_owners := drop_owned ownerID sessionID (tm_owners s)\<rparr>"

text \<open>The started terminal becomes an object with its first attachment.\<close>

definition open_started :: "SessionInfo \<Rightarrow> string \<Rightarrow> string \<Rightarrow> string \<Rightarrow> term_service \<Rightarrow> term_service" where
  "open_started info ownerID aid connectionID s =
     (put_session (si_id info)
        \<lparr>ts_info = info, ts_owner = ownerID, ts_current = Some aid, ts_idle = True, ts_detach = False, ts_once = False, ts_alive = True\<rparr> s)
     \<lparr>tm_attachments := mput aid \<lparr>at_connection = connectionID, at_events = [], at_closed = False\<rparr> (tm_attachments s)\<rparr>"

definition open_insert :: "string \<Rightarrow> term_service \<Rightarrow> term_service" where
  "open_insert sid s = s\<lparr>tm_sessions := set_add sid (tm_sessions s)\<rparr>"

definition Open :: "string \<Rightarrow> string \<Rightarrow> string \<Rightarrow> string \<Rightarrow> string \<Rightarrow> string \<Rightarrow> string option \<Rightarrow> string \<Rightarrow> term_service \<Rightarrow>
    (term_error + SessionInfo) \<times> term_service" where
  "Open ownerID stackID containerID shell sid aid startErr connectionID s =
     (case normalizeShell shell of
        None \<Rightarrow> (Inl ErrInvalidShell, s)
      | Some normalizedShell \<Rightarrow>
          (let info = \<lparr>si_id = sid, si_stack = stackID, si_container = containerID, si_shell = normalizedShell\<rparr>
           in case open_reserve ownerID sid s of
                (Some e, s1) \<Rightarrow> (Inl e, s1)
              | (None, s1) \<Rightarrow>
                  (case startErr of
                     Some e \<Rightarrow> (Inl (ErrPty e), releaseOwnerSession ownerID sid s1)
                   | None \<Rightarrow> (Inr info, emitLifecycle (Opened info) (open_insert sid (open_started info ownerID aid connectionID s1))))))"

section \<open>Requests on a session\<close>

definition lookupOwnedSession :: "string \<Rightarrow> string \<Rightarrow> term_service \<Rightarrow> tsession option" where
  "lookupOwnedSession ownerID sessionID s =
     (if sessionID \<notin> set (tm_sessions s) then None
      else
        (case mget (tm_objects s) sessionID of
           None \<Rightarrow> None
         | Some ob \<Rightarrow> if ts_owner ob \<noteq> ownerID then None else Some ob))"

text \<open>\<open>touchLocked\<close> resets the idle timer, which arms it again even after it was stopped.\<close>

definition touchLocked :: "tsession \<Rightarrow> tsession" where
  "touchLocked ob = ob\<lparr>ts_idle := True\<rparr>"

text \<open>The part of \<open>Attach\<close> under the session mutex; \<open>sizeErr\<close> is the result of \<open>pty.Setsize\<close>.\<close>

definition attach_locked :: "string \<Rightarrow> string \<Rightarrow> string \<Rightarrow> string option \<Rightarrow> term_service \<Rightarrow> (term_error + SessionInfo) \<times> term_service" where
  "attach_locked sessionID aid connectionID sizeErr s =
     (case mget (tm_objects s) sessionID of
        None \<Rightarrow> (Inl ErrSessionNotFound, s)
      | Some ob \<Rightarrow>
          (let s1 = on_attachment (ts_current ob) (sendAndCloseAttachmentLocked (Exited None ''connection_replaced'')) s;
               new = \<lparr>at_connection = connectionID, at_events = [], at_closed = False\<rparr>;
               o1 = touchLocked (ob\<lparr>ts_detach := False, ts_current := Some aid\<rparr>)
           in case sizeErr of
                Some e \<Rightarrow>
                  (Inl (ErrPty e),
                   put_session sessionID (o1\<lparr>ts_current := None\<rparr>)
                     (s1\<lparr>tm_attachments := mput aid (closeAttachmentLocked new) (tm_attachments s1)\<rparr>))
              | None \<Rightarrow>
                  (Inr (ts_info ob), put_session sessionID o1 (s1\<lparr>tm_attachments := mput aid new (tm_attachments s1)\<rparr>))))"

definition Attach :: "string \<Rightarrow> string \<Rightarrow> string \<Rightarrow> string \<Rightarrow> string option \<Rightarrow> term_service \<Rightarrow> (term_error + SessionInfo) \<times> term_service" where
  "Attach ownerID sessionID aid connectionID sizeErr s =
     (case lookupOwnedSession ownerID sessionID s of
        None \<Rightarrow> (Inl ErrSessionNotFound, s)
      | Some _ \<Rightarrow>
          (case attach_locked sessionID aid connectionID sizeErr s of
             (Inl e, s1) \<Rightarrow> (Inl e, s1)
           | (Inr info, s1) \<Rightarrow> (Inr info, emitLifecycle (Attached info) s1)))"

definition detach_locked :: "string \<Rightarrow> string \<Rightarrow> term_service \<Rightarrow> term_service" where
  "detach_locked sessionID attachmentID s =
     (case mget (tm_objects s) sessionID of
        None \<Rightarrow> s
      | Some ob \<Rightarrow>
          if ts_current ob \<noteq> Some attachmentID then s
          else put_session sessionID (ob\<lparr>ts_current := None, ts_detach := True\<rparr>) (on_attachment (ts_current ob) closeAttachmentLocked s))"

definition Detach :: "string \<Rightarrow> string \<Rightarrow> string \<Rightarrow> term_service \<Rightarrow> term_service" where
  "Detach ownerID sessionID attachmentID s =
     (case lookupOwnedSession ownerID sessionID s of None \<Rightarrow> s | Some _ \<Rightarrow> detach_locked sessionID attachmentID s)"

definition touch_session :: "string \<Rightarrow> term_service \<Rightarrow> term_service" where
  "touch_session sessionID s =
     (case mget (tm_objects s) sessionID of None \<Rightarrow> s | Some ob \<Rightarrow> put_session sessionID (touchLocked ob) s)"

definition Input :: "string \<Rightarrow> string \<Rightarrow> string option \<Rightarrow> term_service \<Rightarrow> term_error option \<times> term_service" where
  "Input ownerID sessionID writeErr s =
     (case lookupOwnedSession ownerID sessionID s of
        None \<Rightarrow> (Some ErrSessionNotFound, s)
      | Some _ \<Rightarrow> (map_option ErrPty writeErr, touch_session sessionID s))"

definition Resize :: "string \<Rightarrow> string \<Rightarrow> int \<Rightarrow> int \<Rightarrow> string option \<Rightarrow> term_service \<Rightarrow>
    (term_error + 16 word \<times> 16 word) \<times> term_service" where
  "Resize ownerID sessionID cols rows sizeErr s =
     (case lookupOwnedSession ownerID sessionID s of
        None \<Rightarrow> (Inl ErrSessionNotFound, s)
      | Some _ \<Rightarrow> (case sizeErr of Some e \<Rightarrow> Inl (ErrPty e) | None \<Rightarrow> Inr (winsize cols rows), touch_session sessionID s))"

text \<open>One read of the output loop.\<close>

definition forward_chunk :: "string \<Rightarrow> string \<Rightarrow> term_service \<Rightarrow> term_service" where
  "forward_chunk sessionID chunk s =
     (case mget (tm_objects s) sessionID of
        None \<Rightarrow> s
      | Some ob \<Rightarrow> on_attachment (ts_current ob) (\<lambda>a. if at_closed a then a else offer (Output chunk) a) s)"

section \<open>Ending a session\<close>

text \<open>The first section of the once-only closure, under the session mutex.\<close>

definition end_detach :: "string \<Rightarrow> int option \<Rightarrow> string \<Rightarrow> term_service \<Rightarrow> term_service" where
  "end_detach sessionID exitCode reason s =
     (case mget (tm_objects s) sessionID of
        None \<Rightarrow> s
      | Some ob \<Rightarrow>
          put_session sessionID (ob\<lparr>ts_once := True, ts_idle := False, ts_detach := False, ts_current := None\<rparr>)
            (on_attachment (ts_current ob) (sendAndCloseAttachmentLocked (Exited exitCode reason)) s))"

text \<open>Closing the terminal and signalling its process, without a lock.\<close>

definition terminateTerminalProcess :: "string \<Rightarrow> term_service \<Rightarrow> term_service" where
  "terminateTerminalProcess sessionID s =
     (case mget (tm_objects s) sessionID of None \<Rightarrow> s | Some ob \<Rightarrow> put_session sessionID (ob\<lparr>ts_alive := False\<rparr>) s)"

text \<open>Leaving the maps, under the service mutex, and the hook.\<close>

definition end_remove :: "string \<Rightarrow> string \<Rightarrow> term_service \<Rightarrow> term_service" where
  "end_remove sessionID reason s =
     (case mget (tm_objects s) sessionID of
        None \<Rightarrow> s
      | Some ob \<Rightarrow>
          emitLifecycle (ClosedEvent (ts_info ob) reason)
            (s\<lparr>tm_sessions := filter (\<lambda>x. x \<noteq> sessionID) (tm_sessions s),
               tm_owners := drop_owned (ts_owner ob) sessionID (tm_owners s)\<rparr>))"

definition endSessionWithCode :: "string \<Rightarrow> int option \<Rightarrow> string \<Rightarrow> term_service \<Rightarrow> term_service" where
  "endSessionWithCode sessionID exitCode reason s =
     (if sessionID \<notin> set (tm_sessions s) then s
      else
        (case mget (tm_objects s) sessionID of
           None \<Rightarrow> s
         | Some ob \<Rightarrow>
             if ts_once ob then s
             else end_remove sessionID reason (terminateTerminalProcess sessionID (end_detach sessionID exitCode reason s))))"

definition endSession :: "string \<Rightarrow> string \<Rightarrow> term_service \<Rightarrow> term_service" where
  "endSession sessionID reason s = endSessionWithCode sessionID None reason s"

definition waitForExit :: "string \<Rightarrow> int option \<Rightarrow> term_service \<Rightarrow> term_service" where
  "waitForExit sessionID exitCode s =
     (if sessionID \<notin> set (tm_sessions s) then s else endSessionWithCode sessionID exitCode ''process_exit'' s)"

definition Close :: "string \<Rightarrow> string \<Rightarrow> string \<Rightarrow> term_service \<Rightarrow> term_error option \<times> term_service" where
  "Close ownerID sessionID reason s =
     (case lookupOwnedSession ownerID sessionID s of
        None \<Rightarrow> (Some ErrSessionNotFound, s)
      | Some _ \<Rightarrow> (None, endSession sessionID reason s))"

definition CloseOwner :: "string \<Rightarrow> string \<Rightarrow> term_service \<Rightarrow> term_service" where
  "CloseOwner ownerID reason s = fold (\<lambda>sid. endSession sid reason) (owned ownerID s) s"

definition CloseAll :: "string \<Rightarrow> term_service \<Rightarrow> term_service" where
  "CloseAll reason s = fold (\<lambda>sid. endSession sid reason) (tm_sessions s) s"

definition TermShutdown :: "string \<Rightarrow> term_service \<Rightarrow> term_service" where
  "TermShutdown reason s = CloseAll (if reason = '''' then ''server_shutdown'' else reason) s"

end
