(* ===== verification/Terminal_System.thy ===== *)
theory Terminal_System
  imports Terminal
begin

text \<open>
  The terminal service under concurrency.  A request to open a terminal is in flight between
  its reservation and its insertion, and a session that ends passes through the sections of
  the once-only closure.  Requests that looked a session up earlier may still run their locked
  section later, so the locked sections are steps on any session object.
\<close>

record term_state =
  tt_svc :: term_service
  tt_opening :: "(string \<times> string \<times> SessionInfo option) list"
  tt_ending :: "(string \<times> bool \<times> string) list"

definition fresh_session :: "string \<Rightarrow> term_state \<Rightarrow> bool" where
  "fresh_session sid st \<longleftrightarrow> mget (tm_objects (tt_svc st)) sid = None \<and> sid \<notin> set (tm_sessions (tt_svc st)) \<and>
     sid \<notin> fst ` set (tt_opening st) \<and> (\<forall>ob. sid \<notin> set (owned ob (tt_svc st)))"

definition fresh_attachment :: "string \<Rightarrow> term_state \<Rightarrow> bool" where
  "fresh_attachment aid st \<longleftrightarrow> mget (tm_attachments (tt_svc st)) aid = None"

inductive term_step :: "term_state \<Rightarrow> term_state \<Rightarrow> bool" where
  reserve: "fresh_session sid st \<Longrightarrow> open_reserve ob sid (tt_svc st) = (None, svc) \<Longrightarrow>
    term_step st (st\<lparr>tt_svc := svc, tt_opening := (sid, ob, None) # tt_opening st\<rparr>)"
| reserve_refused: "open_reserve ob sid (tt_svc st) = (Some e, svc) \<Longrightarrow> term_step st (st\<lparr>tt_svc := svc\<rparr>)"
| start_failed: "(sid, ob, None) \<in> set (tt_opening st) \<Longrightarrow>
    term_step st (st\<lparr>tt_svc := releaseOwnerSession ob sid (tt_svc st), tt_opening := remove1 (sid, ob, None) (tt_opening st)\<rparr>)"
| started: "(sid, ob, None) \<in> set (tt_opening st) \<Longrightarrow> si_id info = sid \<Longrightarrow> fresh_attachment aid st \<Longrightarrow>
    term_step st (st\<lparr>tt_svc := open_started info ob aid conn (tt_svc st),
      tt_opening := (sid, ob, Some info) # remove1 (sid, ob, None) (tt_opening st)\<rparr>)"
| insert: "(sid, ob, Some info) \<in> set (tt_opening st) \<Longrightarrow>
    term_step st (st\<lparr>tt_svc := emitLifecycle (Opened info) (open_insert sid (tt_svc st)),
      tt_opening := remove1 (sid, ob, Some info) (tt_opening st)\<rparr>)"
| attach: "fresh_attachment aid st \<Longrightarrow> attach_locked sid aid conn sizeErr (tt_svc st) = (r, svc) \<Longrightarrow>
    term_step st (st\<lparr>tt_svc := svc\<rparr>)"
| detach: "term_step st (st\<lparr>tt_svc := detach_locked sid aid (tt_svc st)\<rparr>)"
| activity: "term_step st (st\<lparr>tt_svc := touch_session sid (tt_svc st)\<rparr>)"
| chunk: "term_step st (st\<lparr>tt_svc := forward_chunk sid data (tt_svc st)\<rparr>)"
| receive: "term_step st (st\<lparr>tt_svc := on_attachment (Some aid) (\<lambda>a. a\<lparr>at_events := tl (at_events a)\<rparr>) (tt_svc st)\<rparr>)"
| end_first: "sid \<in> set (tm_sessions (tt_svc st)) \<Longrightarrow> mget (tm_objects (tt_svc st)) sid = Some ob \<Longrightarrow> \<not> ts_once ob \<Longrightarrow>
    term_step st (st\<lparr>tt_svc := end_detach sid code reason (tt_svc st), tt_ending := (sid, False, reason) # tt_ending st\<rparr>)"
| end_kill: "(sid, False, reason) \<in> set (tt_ending st) \<Longrightarrow>
    term_step st (st\<lparr>tt_svc := terminateTerminalProcess sid (tt_svc st),
      tt_ending := (sid, True, reason) # remove1 (sid, False, reason) (tt_ending st)\<rparr>)"
| end_last: "(sid, True, reason) \<in> set (tt_ending st) \<Longrightarrow>
    term_step st (st\<lparr>tt_svc := end_remove sid reason (tt_svc st), tt_ending := remove1 (sid, True, reason) (tt_ending st)\<rparr>)"

inductive term_reachable :: "term_state \<Rightarrow> term_state \<Rightarrow> bool" for s0 :: term_state where
  start: "term_reachable s0 s0"
| step: "term_reachable s0 s \<Longrightarrow> term_step s s' \<Longrightarrow> term_reachable s0 s'"

definition term_init :: "Config \<Rightarrow> term_state" where
  "term_init cfg = \<lparr>tt_svc = NewTerminalService cfg, tt_opening = [], tt_ending = []\<rparr>"

section \<open>Frame lemmas\<close>

lemma on_attachment_simps [simp]:
  "tm_cfg (on_attachment c f s) = tm_cfg s" "tm_sessions (on_attachment c f s) = tm_sessions s"
  "tm_owners (on_attachment c f s) = tm_owners s" "tm_objects (on_attachment c f s) = tm_objects s"
  "tm_hook (on_attachment c f s) = tm_hook s"
  by (simp_all add: on_attachment_def split: option.splits)

lemma put_session_simps [simp]:
  "tm_cfg (put_session sid x s) = tm_cfg s" "tm_sessions (put_session sid x s) = tm_sessions s"
  "tm_owners (put_session sid x s) = tm_owners s" "tm_attachments (put_session sid x s) = tm_attachments s"
  "tm_objects (put_session sid x s) = mput sid x (tm_objects s)"
  by (simp_all add: put_session_def)

lemma emitLifecycle_simps [simp]:
  "tm_cfg (emitLifecycle e s) = tm_cfg s" "tm_sessions (emitLifecycle e s) = tm_sessions s"
  "tm_owners (emitLifecycle e s) = tm_owners s" "tm_attachments (emitLifecycle e s) = tm_attachments s"
  "tm_objects (emitLifecycle e s) = tm_objects s"
  by (simp_all add: emitLifecycle_def)

lemma owned_cong: "tm_owners s' = tm_owners s \<Longrightarrow> owned ob s' = owned ob s"
  by (simp add: owned_def)

lemma owned_drop: "owned ob' (s\<lparr>tm_owners := drop_owned ob sid (tm_owners s)\<rparr>) =
  (if ob' = ob then filter (\<lambda>x. x \<noteq> sid) (owned ob s) else owned ob' s)"
  by (auto simp: owned_def drop_owned_def mget_put mget_del Let_def split: option.splits)

text \<open>Objects keep their owner and do not come back to life.\<close>

definition same_objects :: "term_service \<Rightarrow> term_service \<Rightarrow> bool" where
  "same_objects s s' \<longleftrightarrow> tm_cfg s' = tm_cfg s \<and> tm_sessions s' = tm_sessions s \<and> tm_owners s' = tm_owners s \<and>
     (\<forall>sid. rel_option (\<lambda>a b. ts_owner b = ts_owner a \<and> (ts_alive b \<longrightarrow> ts_alive a) \<and> (ts_once a \<longrightarrow> ts_once b))
        (mget (tm_objects s) sid) (mget (tm_objects s') sid))"

lemma rel_option_refl: "(\<And>x. R x x) \<Longrightarrow> rel_option R v v"
  by (cases v) auto

lemma same_objects_same: "tm_cfg s' = tm_cfg s \<Longrightarrow> tm_sessions s' = tm_sessions s \<Longrightarrow> tm_owners s' = tm_owners s \<Longrightarrow>
  tm_objects s' = tm_objects s \<Longrightarrow> same_objects s s'"
  by (auto simp: same_objects_def intro!: rel_option_refl)

lemma same_objects_put:
  assumes "mget (tm_objects s) sid = Some a" "tm_cfg s' = tm_cfg s" "tm_sessions s' = tm_sessions s" "tm_owners s' = tm_owners s"
    "tm_objects s' = mput sid b (tm_objects s)" "ts_owner b = ts_owner a" "ts_alive b \<longrightarrow> ts_alive a" "ts_once a \<longrightarrow> ts_once b"
  shows "same_objects s s'"
  using assms by (auto simp: same_objects_def mget_put intro!: rel_option_refl)

lemma same_refl [simp]: "same_objects s s"
  by (rule same_objects_same) simp_all

lemma attach_same:
  assumes "attach_locked sid aid conn e s = (r, s')"
  shows "same_objects s s'"
proof (cases "mget (tm_objects s) sid")
  case None
  then show ?thesis using assms by (simp add: attach_locked_def)
next
  case (Some x)
  then show ?thesis using assms
    by (cases e) (auto simp: attach_locked_def Let_def touchLocked_def intro!: same_objects_put [OF Some])
qed

lemma detach_same: "same_objects s (detach_locked sid aid s)"
proof (cases "mget (tm_objects s) sid")
  case (Some x)
  then show ?thesis
    by (cases "ts_current x = Some aid") (simp_all add: detach_locked_def same_objects_put [OF Some])
qed (simp add: detach_locked_def)

lemma touch_same: "same_objects s (touch_session sid s)"
proof (cases "mget (tm_objects s) sid")
  case (Some x)
  then show ?thesis by (simp add: touch_session_def touchLocked_def same_objects_put [OF Some])
qed (simp add: touch_session_def)

lemma forward_same: "same_objects s (forward_chunk sid chunk s)"
  by (auto simp: forward_chunk_def split: option.splits intro: same_objects_same)

lemma end_detach_same: "same_objects s (end_detach sid code reason s)"
proof (cases "mget (tm_objects s) sid")
  case (Some x)
  then show ?thesis by (simp add: end_detach_def same_objects_put [OF Some])
qed (simp add: end_detach_def)

lemma kill_same: "same_objects s (terminateTerminalProcess sid s)"
proof (cases "mget (tm_objects s) sid")
  case (Some x)
  then show ?thesis by (simp add: terminateTerminalProcess_def same_objects_put [OF Some])
qed (simp add: terminateTerminalProcess_def)

lemmas same_intros = attach_same detach_same touch_same forward_same end_detach_same kill_same

section \<open>The invariant\<close>

definition opening_ok :: "term_state \<Rightarrow> bool" where
  "opening_ok st \<longleftrightarrow> distinct (map fst (tt_opening st)) \<and>
     (\<forall>(sid, ob, i) \<in> set (tt_opening st). sid \<in> set (owned ob (tt_svc st)) \<and> sid \<notin> set (tm_sessions (tt_svc st)) \<and>
        (i = None \<longrightarrow> mget (tm_objects (tt_svc st)) sid = None))"

definition ending_ok :: "term_state \<Rightarrow> bool" where
  "ending_ok st \<longleftrightarrow> (\<forall>(sid, k, r) \<in> set (tt_ending st). sid \<notin> fst ` set (tt_opening st) \<and>
     (\<exists>x. mget (tm_objects (tt_svc st)) sid = Some x \<and> (k \<longrightarrow> \<not> ts_alive x)))"

definition term_inv :: "term_state \<Rightarrow> bool" where
  "term_inv st \<longleftrightarrow> 0 < MaxSessionsPerOwner (tm_cfg (tt_svc st)) \<and>
     (\<forall>ob. distinct (owned ob (tt_svc st)) \<and> int (length (owned ob (tt_svc st))) \<le> MaxSessionsPerOwner (tm_cfg (tt_svc st))) \<and>
     (\<forall>sid x. mget (tm_objects (tt_svc st)) sid = Some x \<and> ts_alive x \<longrightarrow> sid \<in> set (owned (ts_owner x) (tt_svc st))) \<and>
     opening_ok st \<and> ending_ok st"

lemma term_invD:
  assumes "term_inv st"
  shows "0 < MaxSessionsPerOwner (tm_cfg (tt_svc st))" "distinct (owned ob (tt_svc st))"
    "int (length (owned ob (tt_svc st))) \<le> MaxSessionsPerOwner (tm_cfg (tt_svc st))"
    "mget (tm_objects (tt_svc st)) sid = Some x \<Longrightarrow> ts_alive x \<Longrightarrow> sid \<in> set (owned (ts_owner x) (tt_svc st))"
    "opening_ok st" "ending_ok st"
  using assms unfolding term_inv_def by blast+

lemma term_init_inv: "term_inv (term_init cfg)"
  by (simp add: term_inv_def term_init_def NewTerminalService_def owned_def opening_ok_def ending_ok_def)

lemma opening_mem:
  assumes "opening_ok st" "(sid, ob, i) \<in> set (tt_opening st)"
  shows "sid \<in> set (owned ob (tt_svc st))" "sid \<notin> set (tm_sessions (tt_svc st))" "i = None \<Longrightarrow> mget (tm_objects (tt_svc st)) sid = None"
  using assms unfolding opening_ok_def by blast+

lemma opening_remove:
  assumes "opening_ok st" "(sid, p) \<in> set (tt_opening st)"
  shows "fst ` set (remove1 (sid, p) (tt_opening st)) = fst ` set (tt_opening st) - {sid}"
    "distinct (map fst (remove1 (sid, p) (tt_opening st)))"
proof -
  have d: "distinct (map fst (tt_opening st))" using assms(1) unfolding opening_ok_def by blast
  then have "inj_on fst (set (tt_opening st))" "distinct (tt_opening st)" by (simp_all add: distinct_map)
  then show "fst ` set (remove1 (sid, p) (tt_opening st)) = fst ` set (tt_opening st) - {sid}"
    using assms(2) inj_on_image_set_diff [of fst "set (tt_opening st)" "set (tt_opening st)" "{(sid, p)}"] by simp
  show "distinct (map fst (remove1 (sid, p) (tt_opening st)))"
    using d by (metis distinct_map distinct_remove1 inj_on_subset set_remove1_subset)
qed

lemma same_objects_inv:
  assumes "term_inv st" "same_objects (tt_svc st) s'" "tt_opening st' = tt_opening st" "tt_svc st' = s'" "ending_ok st'"
  shows "term_inv st'"
proof -
  note s = assms(2) [unfolded same_objects_def]
  have own: "owned ob s' = owned ob (tt_svc st)" for ob using s owned_cong by blast
  have obj: "\<exists>y. mget (tm_objects (tt_svc st)) sid = Some y \<and> ts_owner x = ts_owner y \<and> (ts_alive x \<longrightarrow> ts_alive y)"
    if "mget (tm_objects s') sid = Some x" for sid x
    using s that by (cases "mget (tm_objects (tt_svc st)) sid") (auto dest!: spec [of _ sid])
  have none: "mget (tm_objects s') sid = None" if "mget (tm_objects (tt_svc st)) sid = None" for sid
    using s that by (cases "mget (tm_objects s') sid") (auto dest!: spec [of _ sid])
  have "opening_ok st'" unfolding opening_ok_def assms(3,4) own
  proof (intro conjI ballI)
    show "distinct (map fst (tt_opening st))" using term_invD(5) [OF assms(1)] unfolding opening_ok_def by blast
    show "case e of (sid, ob, i) \<Rightarrow> sid \<in> set (owned ob (tt_svc st)) \<and> sid \<notin> set (tm_sessions s') \<and>
        (i = None \<longrightarrow> mget (tm_objects s') sid = None)" if e: "e \<in> set (tt_opening st)" for e
    proof -
      obtain sid ob i where p: "e = (sid, ob, i)" by (cases e)
      show ?thesis using opening_mem [OF term_invD(5) [OF assms(1)] e [unfolded p]] s none [of sid] by (simp add: p)
    qed
  qed
  moreover have "sid \<in> set (owned (ts_owner x) s')" if "mget (tm_objects s') sid = Some x" "ts_alive x" for sid x
    using obj [OF that(1)] that(2) term_invD(4) [OF assms(1), of sid] unfolding own by auto
  moreover have "tm_cfg s' = tm_cfg (tt_svc st)" using s by blast
  ultimately show ?thesis using term_invD(1-3) [OF assms(1)] assms(5) unfolding term_inv_def assms(4) own by simp
qed

lemma ending_mem:
  assumes "ending_ok st" "(sid, k, r) \<in> set (tt_ending st)"
  obtains x where "mget (tm_objects (tt_svc st)) sid = Some x" "k \<Longrightarrow> \<not> ts_alive x" "sid \<notin> fst ` set (tt_opening st)"
  using assms unfolding ending_ok_def by fast

lemma ending_okI:
  assumes "\<And>sid k r. (sid, k, r) \<in> set (tt_ending st) \<Longrightarrow> sid \<notin> fst ` set (tt_opening st)"
    and "\<And>sid k r. (sid, k, r) \<in> set (tt_ending st) \<Longrightarrow> \<exists>x. mget (tm_objects (tt_svc st)) sid = Some x \<and> (k \<longrightarrow> \<not> ts_alive x)"
  shows "ending_ok st"
  using assms unfolding ending_ok_def by fast

lemma opening_okI:
  assumes "distinct (map fst (tt_opening st))"
    and "\<And>sid ob i. (sid, ob, i) \<in> set (tt_opening st) \<Longrightarrow> sid \<in> set (owned ob (tt_svc st))"
    and "\<And>sid ob i. (sid, ob, i) \<in> set (tt_opening st) \<Longrightarrow> sid \<notin> set (tm_sessions (tt_svc st))"
    and "\<And>sid ob. (sid, ob, None) \<in> set (tt_opening st) \<Longrightarrow> mget (tm_objects (tt_svc st)) sid = None"
  shows "opening_ok st"
  using assms unfolding opening_ok_def by fast

lemma term_invI:
  assumes "0 < MaxSessionsPerOwner (tm_cfg (tt_svc st))" "\<And>ob. distinct (owned ob (tt_svc st))"
    "\<And>ob. int (length (owned ob (tt_svc st))) \<le> MaxSessionsPerOwner (tm_cfg (tt_svc st))"
    "\<And>sid x. mget (tm_objects (tt_svc st)) sid = Some x \<Longrightarrow> ts_alive x \<Longrightarrow> sid \<in> set (owned (ts_owner x) (tt_svc st))"
    "opening_ok st" "ending_ok st"
  shows "term_inv st"
  using assms unfolding term_inv_def by blast

lemma same_objects_ending:
  assumes "ending_ok st" "same_objects (tt_svc st) s'" "tt_opening st' = tt_opening st" "tt_svc st' = s'" "tt_ending st' = tt_ending st"
  shows "ending_ok st'"
proof -
  have "\<exists>y. mget (tm_objects s') sid = Some y \<and> (ts_alive y \<longrightarrow> ts_alive x)" if "mget (tm_objects (tt_svc st)) sid = Some x" for sid x
    using assms(2) that unfolding same_objects_def by (cases "mget (tm_objects s') sid") (auto dest!: spec [of _ sid])
  note obj = this
  show ?thesis
  proof (rule ending_okI; unfold assms(3-5))
    fix sid k r assume e: "(sid, k, r) \<in> set (tt_ending st)"
    obtain x where x: "mget (tm_objects (tt_svc st)) sid = Some x" "k \<Longrightarrow> \<not> ts_alive x" "sid \<notin> fst ` set (tt_opening st)"
      using ending_mem [OF assms(1) e] by blast
    then show "sid \<notin> fst ` set (tt_opening st)" "\<exists>x. mget (tm_objects s') sid = Some x \<and> (k \<longrightarrow> \<not> ts_alive x)"
      using obj [OF x(1)] by auto
  qed
qed
section \<open>Preservation\<close>

lemma open_reserve_owned:
  assumes "open_reserve ob sid s = (r, s')"
  shows "tm_cfg s' = tm_cfg s" "tm_sessions s' = tm_sessions s" "tm_objects s' = tm_objects s"
    "owned ob' s' = (if r = None \<and> ob' = ob then set_add sid (owned ob s) else owned ob' s)"
    "r = None \<Longrightarrow> int (length (owned ob s)) < MaxSessionsPerOwner (tm_cfg s)"
  using assms by (auto simp: open_reserve_def owned_def mget_put Let_def split: if_splits option.splits)

lemma reserve_term_inv:
  assumes "term_inv st" "fresh_session sid st" "open_reserve ob sid (tt_svc st) = (None, svc)"
  shows "term_inv (st\<lparr>tt_svc := svc, tt_opening := (sid, ob, None) # tt_opening st\<rparr>)" (is "term_inv ?st")
proof -
  note r = open_reserve_owned [OF assms(3)]
  note f = assms(2) [unfolded fresh_session_def]
  have own: "set (owned ob' svc) = (if ob' = ob then Set.insert sid (set (owned ob (tt_svc st))) else set (owned ob' (tt_svc st)))" for ob'
    by (simp add: r(4))
  have new: "length (set_add sid (owned ob (tt_svc st))) = Suc (length (owned ob (tt_svc st)))" using f by (simp add: set_add_def)
  show ?thesis
  proof (rule term_invI)
    show "opening_ok ?st"
    proof (rule opening_okI)
      show "distinct (map fst (tt_opening ?st))" using term_invD(5) [OF assms(1)] f by (simp add: opening_ok_def)
      fix sid' ob' i assume "(sid', ob', i) \<in> set (tt_opening ?st)"
      then have e: "sid' = sid \<and> ob' = ob \<or> (sid', ob', i) \<in> set (tt_opening st)" by auto
      show "sid' \<in> set (owned ob' (tt_svc ?st))"
        using e opening_mem(1) [OF term_invD(5) [OF assms(1)], of sid' ob' i] by (auto simp: own)
      show "sid' \<notin> set (tm_sessions (tt_svc ?st))"
        using e opening_mem(2) [OF term_invD(5) [OF assms(1)], of sid' ob' i] f r(2) by auto
    next
      fix sid' ob' assume "(sid', ob', None) \<in> set (tt_opening ?st)"
      then show "mget (tm_objects (tt_svc ?st)) sid' = None"
        using opening_mem(3) [OF term_invD(5) [OF assms(1)], of sid' ob' None] f r(3) by auto
    qed
    show "ending_ok ?st"
    proof (rule ending_okI)
      fix sid' k r' assume e: "(sid', k, r') \<in> set (tt_ending ?st)"
      obtain x where x: "mget (tm_objects (tt_svc st)) sid' = Some x" "k \<Longrightarrow> \<not> ts_alive x" "sid' \<notin> fst ` set (tt_opening st)"
        using ending_mem [OF term_invD(6) [OF assms(1)], of sid' k r'] e by auto
      then show "sid' \<notin> fst ` set (tt_opening ?st)" "\<exists>x. mget (tm_objects (tt_svc ?st)) sid' = Some x \<and> (k \<longrightarrow> \<not> ts_alive x)"
        using f r(3) by auto
    qed
    fix ob'
    show "distinct (owned ob' (tt_svc ?st))" using term_invD(2) [OF assms(1)] by (simp add: r(4))
    show "int (length (owned ob' (tt_svc ?st))) \<le> MaxSessionsPerOwner (tm_cfg (tt_svc ?st))"
      using term_invD(3) [OF assms(1), of ob'] r(5) by (simp add: r(1,4) new)
  next
    fix sid' x assume "mget (tm_objects (tt_svc ?st)) sid' = Some x" "ts_alive x"
    then show "sid' \<in> set (owned (ts_owner x) (tt_svc ?st))" using term_invD(4) [OF assms(1), of sid' x] by (auto simp: r(3) own)
  qed (use term_invD(1) [OF assms(1)] r(1) in simp)
qed

text \<open>Releasing an identifier that no living terminal has.\<close>

lemma drop_inv:
  assumes "term_inv st" "\<And>x. mget (tm_objects (tt_svc st)) sid = Some x \<Longrightarrow> ts_owner x = ob \<Longrightarrow> \<not> ts_alive x"
    and s': "tm_owners s' = drop_owned ob sid (tm_owners (tt_svc st))" "tm_cfg s' = tm_cfg (tt_svc st)"
      "tm_objects s' = tm_objects (tt_svc st)" "set (tm_sessions s') \<subseteq> set (tm_sessions (tt_svc st))"
    and op: "set op \<subseteq> set (tt_opening st)" "distinct (map fst op)" "sid \<notin> fst ` set op" and en: "set en \<subseteq> set (tt_ending st)"
  shows "term_inv \<lparr>tt_svc = s', tt_opening = op, tt_ending = en\<rparr>" (is "term_inv ?st")
proof -
  have own: "owned ob' s' = (if ob' = ob then filter (\<lambda>x. x \<noteq> sid) (owned ob (tt_svc st)) else owned ob' (tt_svc st))" for ob'
    using owned_drop [where s = "tt_svc st"] s'(1) by (simp add: owned_def)
  show ?thesis
  proof (rule term_invI)
    show "opening_ok ?st"
    proof (rule opening_okI)
      show "distinct (map fst (tt_opening ?st))" using op(2) by simp
      fix sid' ob' i assume "(sid', ob', i) \<in> set (tt_opening ?st)"
      then have e: "(sid', ob', i) \<in> set (tt_opening st)" "sid' \<noteq> sid" using op by (auto simp: image_iff)
      show "sid' \<in> set (owned ob' (tt_svc ?st))" "sid' \<notin> set (tm_sessions (tt_svc ?st))"
        using opening_mem(1,2) [OF term_invD(5) [OF assms(1)] e(1)] e(2) s'(4) by (auto simp: own)
    next
      fix sid' ob' assume "(sid', ob', None) \<in> set (tt_opening ?st)"
      then show "mget (tm_objects (tt_svc ?st)) sid' = None"
        using opening_mem(3) [OF term_invD(5) [OF assms(1)], of sid' ob' None] op(1) s'(3) by auto
    qed
    show "ending_ok ?st"
    proof (rule ending_okI)
      fix sid' k r' assume "(sid', k, r') \<in> set (tt_ending ?st)"
      then have e: "(sid', k, r') \<in> set (tt_ending st)" using en by auto
      obtain x where "mget (tm_objects (tt_svc st)) sid' = Some x" "k \<Longrightarrow> \<not> ts_alive x" "sid' \<notin> fst ` set (tt_opening st)"
        using ending_mem [OF term_invD(6) [OF assms(1)] e] by blast
      then show "sid' \<notin> fst ` set (tt_opening ?st)" "\<exists>x. mget (tm_objects (tt_svc ?st)) sid' = Some x \<and> (k \<longrightarrow> \<not> ts_alive x)"
        using op(1) s'(3) by auto
    qed
    fix ob'
    show "distinct (owned ob' (tt_svc ?st))" using term_invD(2) [OF assms(1)] by (simp add: own)
    have "length (owned ob' s') \<le> length (owned ob' (tt_svc st))" by (simp add: own)
    then show "int (length (owned ob' (tt_svc ?st))) \<le> MaxSessionsPerOwner (tm_cfg (tt_svc ?st))"
      using term_invD(3) [OF assms(1), of ob'] s'(2) by simp
  next
    fix sid' x assume "mget (tm_objects (tt_svc ?st)) sid' = Some x" "ts_alive x"
    then show "sid' \<in> set (owned (ts_owner x) (tt_svc ?st))"
      using term_invD(4) [OF assms(1), of sid' x] assms(2) [of x] s'(3) by (auto simp: own)
  qed (use term_invD(1) [OF assms(1)] s'(2) in simp)
qed

lemma refused_inv:
  assumes "term_inv st" "open_reserve ob sid (tt_svc st) = (Some e, svc)"
  shows "term_inv (st\<lparr>tt_svc := svc\<rparr>)"
proof -
  note r = open_reserve_owned [OF assms(2)]
  have "owned ob' svc = owned ob' (tt_svc st)" for ob' by (simp add: r(4))
  then show ?thesis using assms(1) by (simp add: term_inv_def opening_ok_def ending_ok_def r(1-3))
qed

lemma started_inv:
  assumes "term_inv st" "(sid, ob, None) \<in> set (tt_opening st)" "si_id info = sid"
  shows "term_inv (st\<lparr>tt_svc := open_started info ob aid conn (tt_svc st),
      tt_opening := (sid, ob, Some info) # remove1 (sid, ob, None) (tt_opening st)\<rparr>)" (is "term_inv ?st")
proof -
  note op = opening_mem [OF term_invD(5) [OF assms(1)] assms(2)]
  note rm = opening_remove [OF term_invD(5) [OF assms(1)] assms(2)]
  have s: "tm_cfg (tt_svc ?st) = tm_cfg (tt_svc st)" "tm_sessions (tt_svc ?st) = tm_sessions (tt_svc st)"
      "tm_owners (tt_svc ?st) = tm_owners (tt_svc st)" by (simp_all add: open_started_def)
  have own: "owned ob' (tt_svc ?st) = owned ob' (tt_svc st)" for ob' by (rule owned_cong [OF s(3)])
  have obj: "mget (tm_objects (tt_svc ?st)) k = (if k = sid then Some \<lparr>ts_info = info, ts_owner = ob, ts_current = Some aid,
      ts_idle = True, ts_detach = False, ts_once = False, ts_alive = True\<rparr> else mget (tm_objects (tt_svc st)) k)" for k
    using assms(3) by (simp add: open_started_def mget_put)
  show ?thesis
  proof (rule term_invI)
    show "opening_ok ?st"
    proof (rule opening_okI)
      show "distinct (map fst (tt_opening ?st))" using rm by (simp flip: set_map)
      fix sid' ob' i assume "(sid', ob', i) \<in> set (tt_opening ?st)"
      then have e: "sid' = sid \<and> ob' = ob \<or> (sid', ob', i) \<in> set (tt_opening st)" using set_remove1_subset by fastforce
      show "sid' \<in> set (owned ob' (tt_svc ?st))"
        using e op opening_mem(1) [OF term_invD(5) [OF assms(1)], of sid' ob' i] unfolding own by auto
      show "sid' \<notin> set (tm_sessions (tt_svc ?st))"
        using e op opening_mem(2) [OF term_invD(5) [OF assms(1)], of sid' ob' i] s(2) by auto
    next
      fix sid' ob' assume "(sid', ob', None) \<in> set (tt_opening ?st)"
      then have e: "(sid', ob', None) \<in> set (remove1 (sid, ob, None) (tt_opening st))" by simp
      then have "sid' \<in> fst ` set (remove1 (sid, ob, None) (tt_opening st))" by force
      then have "sid' \<noteq> sid" unfolding rm by simp
      then show "mget (tm_objects (tt_svc ?st)) sid' = None"
        using opening_mem(3) [OF term_invD(5) [OF assms(1)] subsetD [OF set_remove1_subset e]] unfolding obj by simp
    qed
    show "ending_ok ?st"
    proof (rule ending_okI)
      fix sid' k r' assume "(sid', k, r') \<in> set (tt_ending ?st)"
      then have e: "(sid', k, r') \<in> set (tt_ending st)" by simp
      obtain x where x: "mget (tm_objects (tt_svc st)) sid' = Some x" "k \<Longrightarrow> \<not> ts_alive x" "sid' \<notin> fst ` set (tt_opening st)"
        using ending_mem [OF term_invD(6) [OF assms(1)] e] by blast
      have "sid \<in> fst ` set (tt_opening st)" using assms(2) by force
      then have "sid' \<noteq> sid" using x(3) by blast
      then show "sid' \<notin> fst ` set (tt_opening ?st)" "\<exists>x. mget (tm_objects (tt_svc ?st)) sid' = Some x \<and> (k \<longrightarrow> \<not> ts_alive x)"
        using x rm(1) unfolding obj by auto
    qed
    fix ob'
    show "distinct (owned ob' (tt_svc ?st))" unfolding own by (rule term_invD(2) [OF assms(1)])
    show "int (length (owned ob' (tt_svc ?st))) \<le> MaxSessionsPerOwner (tm_cfg (tt_svc ?st))"
      unfolding own s by (rule term_invD(3) [OF assms(1)])
  next
    fix sid' x assume "mget (tm_objects (tt_svc ?st)) sid' = Some x" "ts_alive x"
    then show "sid' \<in> set (owned (ts_owner x) (tt_svc ?st))"
      using term_invD(4) [OF assms(1), of sid' x] op(1) unfolding obj own by (auto split: if_splits)
  qed (use term_invD(1) [OF assms(1)] s in simp)
qed

lemma insert_inv:
  assumes "term_inv st" "(sid, ob, Some info) \<in> set (tt_opening st)"
  shows "term_inv (st\<lparr>tt_svc := emitLifecycle (Opened info) (open_insert sid (tt_svc st)),
      tt_opening := remove1 (sid, ob, Some info) (tt_opening st)\<rparr>)" (is "term_inv ?st")
proof -
  note rm = opening_remove [OF term_invD(5) [OF assms(1)] assms(2)]
  have s: "tm_cfg (tt_svc ?st) = tm_cfg (tt_svc st)" "set (tm_sessions (tt_svc ?st)) = Set.insert sid (set (tm_sessions (tt_svc st)))"
      "tm_owners (tt_svc ?st) = tm_owners (tt_svc st)" "tm_objects (tt_svc ?st) = tm_objects (tt_svc st)" by (simp_all add: open_insert_def)
  have own: "owned ob' (tt_svc ?st) = owned ob' (tt_svc st)" for ob' by (rule owned_cong [OF s(3)])
  have ne: "sid' \<noteq> sid \<and> (sid', ob', i) \<in> set (tt_opening st)" if e: "(sid', ob', i) \<in> set (tt_opening ?st)" for sid' ob' i
  proof -
    have "sid' \<in> fst ` set (remove1 (sid, ob, Some info) (tt_opening st))" using e by force
    then have "sid' \<noteq> sid" unfolding rm by simp
    then show ?thesis using e subsetD [OF set_remove1_subset] by fastforce
  qed
  have opn: "opening_ok ?st"
  proof (rule opening_okI)
    show "distinct (map fst (tt_opening ?st))" using rm by simp
    fix sid' ob' i assume "(sid', ob', i) \<in> set (tt_opening ?st)"
    note e = ne [OF this]
    show "sid' \<in> set (owned ob' (tt_svc ?st))" "sid' \<notin> set (tm_sessions (tt_svc ?st))"
      unfolding own s using e opening_mem(1,2) [OF term_invD(5) [OF assms(1)], of sid' ob' i] by auto
  next
    fix sid' ob' assume "(sid', ob', None) \<in> set (tt_opening ?st)"
    note e = ne [OF this]
    show "mget (tm_objects (tt_svc ?st)) sid' = None"
      unfolding s using e opening_mem(3) [OF term_invD(5) [OF assms(1)], of sid' ob' None] by auto
  qed
  have edn: "ending_ok ?st"
  proof (rule ending_okI)
    fix sid' k r' assume "(sid', k, r') \<in> set (tt_ending ?st)"
    then have e: "(sid', k, r') \<in> set (tt_ending st)" by simp
    obtain x where x: "mget (tm_objects (tt_svc st)) sid' = Some x" "k \<Longrightarrow> \<not> ts_alive x" "sid' \<notin> fst ` set (tt_opening st)"
      using ending_mem [OF term_invD(6) [OF assms(1)] e] by blast
    then show "sid' \<notin> fst ` set (tt_opening ?st)" "\<exists>x. mget (tm_objects (tt_svc ?st)) sid' = Some x \<and> (k \<longrightarrow> \<not> ts_alive x)"
      unfolding s using rm(1) by auto
  qed
  show ?thesis
  proof (rule term_invI [OF _ _ _ _ opn edn])
    show "0 < MaxSessionsPerOwner (tm_cfg (tt_svc ?st))" unfolding s by (rule term_invD(1) [OF assms(1)])
    show "distinct (owned ob' (tt_svc ?st))" for ob' unfolding own by (rule term_invD(2) [OF assms(1)])
    show "int (length (owned ob' (tt_svc ?st))) \<le> MaxSessionsPerOwner (tm_cfg (tt_svc ?st))" for ob'
      unfolding own s by (rule term_invD(3) [OF assms(1)])
    show "sid' \<in> set (owned (ts_owner x) (tt_svc ?st))" if "mget (tm_objects (tt_svc ?st)) sid' = Some x" "ts_alive x" for sid' x
      using that unfolding own s by (rule term_invD(4) [OF assms(1)])
  qed
qed

lemma ball_subset: "A \<subseteq> B \<Longrightarrow> \<forall>x \<in> B. P x \<Longrightarrow> \<forall>x \<in> A. P x"
  by blast

lemma ending_cons:
  assumes "ending_ok st" "set e \<subseteq> set (tt_ending st)" "mget (tm_objects (tt_svc st)) sid = Some x"
    "sid \<notin> fst ` set (tt_opening st)" "k \<longrightarrow> \<not> ts_alive x"
  shows "ending_ok (st\<lparr>tt_ending := (sid, k, r) # e\<rparr>)"
proof -
  have "\<forall>(sid, k, r) \<in> set e. sid \<notin> fst ` set (tt_opening st) \<and>
     (\<exists>x. mget (tm_objects (tt_svc st)) sid = Some x \<and> (k \<longrightarrow> \<not> ts_alive x))"
    by (rule ball_subset [OF assms(2)]) (rule assms(1) [unfolded ending_ok_def])
  then show ?thesis using assms(3-5) by (simp add: ending_ok_def)
qed

lemma end_last_inv:
  assumes "term_inv st" "(sid, True, reason) \<in> set (tt_ending st)"
  shows "term_inv (st\<lparr>tt_svc := end_remove sid reason (tt_svc st), tt_ending := remove1 (sid, True, reason) (tt_ending st)\<rparr>)"
proof -
  obtain x where x: "mget (tm_objects (tt_svc st)) sid = Some x" "\<not> ts_alive x" "sid \<notin> fst ` set (tt_opening st)"
    using ending_mem [OF term_invD(6) [OF assms(1)] assms(2)] by blast
  have "term_inv \<lparr>tt_svc = end_remove sid reason (tt_svc st), tt_opening = tt_opening st, tt_ending = remove1 (sid, True, reason) (tt_ending st)\<rparr>"
    using x term_invD(5) [OF assms(1)]
    by (intro drop_inv [OF assms(1), where sid = sid and ob = "ts_owner x"]) (auto simp: end_remove_def opening_ok_def set_remove1_subset)
  then show ?thesis by (cases st) simp
qed

lemma term_inv_step: "term_step st st' \<Longrightarrow> term_inv st \<Longrightarrow> term_inv st'"
proof (induction rule: term_step.induct)
  case (start_failed sid ob st)
  note op = opening_mem(3) [OF term_invD(5) [OF start_failed(2)] start_failed(1)]
  note rm = opening_remove [OF term_invD(5) [OF start_failed(2)] start_failed(1)]
  have "term_inv \<lparr>tt_svc = releaseOwnerSession ob sid (tt_svc st), tt_opening = remove1 (sid, ob, None) (tt_opening st), tt_ending = tt_ending st\<rparr>"
    using op rm by (intro drop_inv [OF start_failed(2), where sid = sid and ob = ob]) (auto simp: releaseOwnerSession_def set_remove1_subset)
  then show ?case by (cases st) simp
next
  case (attach aid st sid conn sizeErr r svc)
  note s = attach_same [OF attach(2)]
  show ?case by (rule same_objects_inv [OF attach(3) s _ _ same_objects_ending [OF term_invD(6) [OF attach(3)] s]]) simp_all
next
  case (detach st sid aid)
  show ?case by (rule same_objects_inv [OF detach detach_same _ _ same_objects_ending [OF term_invD(6) [OF detach] detach_same]]) simp_all
next
  case (activity st sid)
  show ?case by (rule same_objects_inv [OF activity touch_same _ _ same_objects_ending [OF term_invD(6) [OF activity] touch_same]]) simp_all
next
  case (chunk st sid data)
  show ?case by (rule same_objects_inv [OF chunk forward_same _ _ same_objects_ending [OF term_invD(6) [OF chunk] forward_same]]) simp_all
next
  case (receive st aid)
  have s: "same_objects (tt_svc st) (on_attachment (Some aid) (\<lambda>a. a\<lparr>at_events := tl (at_events a)\<rparr>) (tt_svc st))"
    by (rule same_objects_same) simp_all
  show ?case by (rule same_objects_inv [OF receive s _ _ same_objects_ending [OF term_invD(6) [OF receive] s]]) simp_all
next
  case (end_first sid st ob reason code)
  let ?s = "end_detach sid code reason (tt_svc st)"
  let ?st = "st\<lparr>tt_svc := ?s, tt_ending := (sid, False, reason) # tt_ending st\<rparr>"
  have old: "ending_ok (st\<lparr>tt_svc := ?s\<rparr>)" by (rule same_objects_ending [OF term_invD(6) [OF end_first(4)] end_detach_same]) simp_all
  have "sid \<notin> fst ` set (tt_opening st)" using opening_mem(2) [OF term_invD(5) [OF end_first(4)]] end_first(1) by force
  moreover obtain x where "mget (tm_objects ?s) sid = Some x" using end_first(2) by (simp add: end_detach_def mget_put)
  ultimately have "ending_ok ?st" using ending_cons [OF old, of "tt_ending st" sid x False reason] by simp
  then show ?case by (intro same_objects_inv [OF end_first(4) end_detach_same]) simp_all
next
  case (end_kill sid reason st)
  let ?s = "terminateTerminalProcess sid (tt_svc st)"
  let ?st = "st\<lparr>tt_svc := ?s, tt_ending := (sid, True, reason) # remove1 (sid, False, reason) (tt_ending st)\<rparr>"
  have old: "ending_ok (st\<lparr>tt_svc := ?s\<rparr>)" by (rule same_objects_ending [OF term_invD(6) [OF end_kill(2)] kill_same]) simp_all
  obtain x where "mget (tm_objects (tt_svc st)) sid = Some x" "sid \<notin> fst ` set (tt_opening st)"
    using ending_mem [OF term_invD(6) [OF end_kill(2)] end_kill(1)] by blast
  then have "mget (tm_objects ?s) sid = Some (x\<lparr>ts_alive := False\<rparr>)" "sid \<notin> fst ` set (tt_opening st)"
    by (simp_all add: terminateTerminalProcess_def mget_put)
  then have "ending_ok ?st"
    using ending_cons [OF old, of "remove1 (sid, False, reason) (tt_ending st)" sid "x\<lparr>ts_alive := False\<rparr>" True reason]
    by (simp add: set_remove1_subset)
  then show ?case by (intro same_objects_inv [OF end_kill(2) kill_same]) simp_all
next
  case (end_last sid reason st)
  then show ?case by (intro end_last_inv)
qed (blast intro: reserve_term_inv refused_inv started_inv insert_inv)+

lemma term_inv_reachable: "term_reachable (term_init cfg) st \<Longrightarrow> term_inv st"
  by (induction rule: term_reachable.induct) (auto intro: term_init_inv term_inv_step)


lemma term_step_cfg: "term_step st st' \<Longrightarrow> tm_cfg (tt_svc st') = tm_cfg (tt_svc st)"
proof (induction rule: term_step.induct)
  case (attach aid st sid conn sizeErr r svc)
  then show ?case using attach_same [of sid aid conn sizeErr "tt_svc st" r svc] by (simp add: same_objects_def)
next
  case (reserve sid st ob svc)
  then show ?case by (auto simp: open_reserve_def Let_def split: if_splits)
next
  case (reserve_refused ob sid st e svc)
  then show ?case by (auto simp: open_reserve_def Let_def split: if_splits)
qed (use same_intros in \<open>auto simp: same_objects_def releaseOwnerSession_def open_started_def open_insert_def end_remove_def
  split: option.splits\<close>)

lemma term_reachable_cfg: "term_reachable (term_init cfg) st \<Longrightarrow> tm_cfg (tt_svc st) = tm_cfg (NewTerminalService cfg)"
  by (induction rule: term_reachable.induct) (simp_all add: term_init_def term_step_cfg)

section \<open>No living terminal is out of reach\<close>

text \<open>A living terminal is still being opened, or it is registered and its once-only closure has
  not begun or has not yet reached the process.\<close>

definition live_ok :: "term_state \<Rightarrow> bool" where
  "live_ok st \<longleftrightarrow> (\<forall>sid x. mget (tm_objects (tt_svc st)) sid = Some x \<and> ts_alive x \<longrightarrow>
     (\<not> ts_once x \<and> (\<exists>ob i. (sid, ob, Some i) \<in> set (tt_opening st))) \<or>
     (sid \<in> set (tm_sessions (tt_svc st)) \<and> (ts_once x \<longrightarrow> (\<exists>r. (sid, False, r) \<in> set (tt_ending st)))))"

lemma live_okD:
  assumes "live_ok st" "mget (tm_objects (tt_svc st)) sid = Some x" "ts_alive x"
  shows "(\<not> ts_once x \<and> (\<exists>ob i. (sid, ob, Some i) \<in> set (tt_opening st))) \<or>
     (sid \<in> set (tm_sessions (tt_svc st)) \<and> (ts_once x \<longrightarrow> (\<exists>r. (sid, False, r) \<in> set (tt_ending st))))"
  using assms unfolding live_ok_def by blast

lemma live_okI:
  assumes "\<And>sid x. mget (tm_objects (tt_svc st)) sid = Some x \<Longrightarrow> ts_alive x \<Longrightarrow>
     (\<not> ts_once x \<and> (\<exists>ob i. (sid, ob, Some i) \<in> set (tt_opening st))) \<or>
     (sid \<in> set (tm_sessions (tt_svc st)) \<and> (ts_once x \<longrightarrow> (\<exists>r. (sid, False, r) \<in> set (tt_ending st))))"
  shows "live_ok st"
  using assms unfolding live_ok_def by blast

text \<open>A step that keeps the once flag and does not revive anything.\<close>

definition kept_once :: "term_service \<Rightarrow> term_service \<Rightarrow> bool" where
  "kept_once s s' \<longleftrightarrow> tm_sessions s' = tm_sessions s \<and>
     (\<forall>sid y. mget (tm_objects s') sid = Some y \<longrightarrow>
        (\<exists>x. mget (tm_objects s) sid = Some x \<and> ts_once y = ts_once x \<and> (ts_alive y \<longrightarrow> ts_alive x)))"

lemma kept_same: "tm_sessions s' = tm_sessions s \<Longrightarrow> tm_objects s' = tm_objects s \<Longrightarrow> kept_once s s'"
  by (simp add: kept_once_def)

lemma kept_put:
  assumes "mget (tm_objects s) sid = Some x" "tm_sessions s' = tm_sessions s" "tm_objects s' = mput sid y (tm_objects s)"
    "ts_once y = ts_once x" "ts_alive y \<longrightarrow> ts_alive x"
  shows "kept_once s s'"
  using assms by (auto simp: kept_once_def mget_put)

lemma kept_attach:
  assumes "attach_locked sid aid conn e s = (r, s')"
  shows "kept_once s s'"
proof (cases "mget (tm_objects s) sid")
  case None
  then show ?thesis using assms by (simp add: attach_locked_def kept_same)
next
  case (Some x)
  then show ?thesis using assms
    by (cases e) (auto simp: attach_locked_def Let_def touchLocked_def intro!: kept_put [OF Some])
qed

lemma kept_detach: "kept_once s (detach_locked sid aid s)"
proof (cases "mget (tm_objects s) sid")
  case (Some x)
  then show ?thesis
    by (cases "ts_current x = Some aid") (simp_all add: detach_locked_def kept_put [OF Some] kept_same)
qed (simp add: detach_locked_def kept_same)

lemma kept_touch: "kept_once s (touch_session sid s)"
proof (cases "mget (tm_objects s) sid")
  case (Some x)
  then show ?thesis by (simp add: touch_session_def touchLocked_def kept_put [OF Some])
qed (simp add: touch_session_def kept_same)

lemma kept_forward: "kept_once s (forward_chunk sid data s)"
  by (rule kept_same) (simp_all add: forward_chunk_def split: option.splits)

lemma kept_receive: "kept_once s (on_attachment c f s)"
  by (rule kept_same) simp_all

lemma kept_live:
  assumes "live_ok st" "kept_once (tt_svc st) s'"
  shows "live_ok (st\<lparr>tt_svc := s'\<rparr>)"
proof (rule live_okI)
  fix sid y assume y: "mget (tm_objects (tt_svc (st\<lparr>tt_svc := s'\<rparr>))) sid = Some y" "ts_alive y"
  then obtain x where "mget (tm_objects (tt_svc st)) sid = Some x" "ts_once y = ts_once x" "ts_alive x"
    using assms(2) unfolding kept_once_def by auto
  then show "(\<not> ts_once y \<and> (\<exists>ob i. (sid, ob, Some i) \<in> set (tt_opening (st\<lparr>tt_svc := s'\<rparr>)))) \<or>
     (sid \<in> set (tm_sessions (tt_svc (st\<lparr>tt_svc := s'\<rparr>))) \<and>
      (ts_once y \<longrightarrow> (\<exists>r. (sid, False, r) \<in> set (tt_ending (st\<lparr>tt_svc := s'\<rparr>)))))"
    using live_okD [OF assms(1)] assms(2) unfolding kept_once_def by simp
qed

lemma open_reserve_frame:
  "open_reserve ob sid s = (e, s') \<Longrightarrow> tm_sessions s' = tm_sessions s \<and> tm_objects s' = tm_objects s"
  by (auto simp: open_reserve_def Let_def split: if_splits)


lemma insert_live:
  assumes "live_ok st" "(sid, ob, Some info) \<in> set (tt_opening st)"
  shows "live_ok (st\<lparr>tt_svc := emitLifecycle e (open_insert sid (tt_svc st)), tt_opening := remove1 (sid, ob, Some info) (tt_opening st)\<rparr>)"
    (is "live_ok ?st")
proof (rule live_okI)
  fix sid' x assume "mget (tm_objects (tt_svc ?st)) sid' = Some x" "ts_alive x"
  then have x: "mget (tm_objects (tt_svc st)) sid' = Some x" "ts_alive x" by (simp_all add: open_insert_def)
  have rest: "p \<in> set (tt_opening ?st)" if "p \<in> set (tt_opening st)" "fst p \<noteq> sid" for p
  proof -
    have "p \<noteq> (sid, ob, Some info)" using that(2) by auto
    then show ?thesis using that(1) by (simp add: in_set_remove1)
  qed
  have ses: "set (tm_sessions (tt_svc ?st)) = insert sid (set (tm_sessions (tt_svc st)))" by (auto simp: open_insert_def set_add_def)
  show "(\<not> ts_once x \<and> (\<exists>ob i. (sid', ob, Some i) \<in> set (tt_opening ?st))) \<or>
     (sid' \<in> set (tm_sessions (tt_svc ?st)) \<and> (ts_once x \<longrightarrow> (\<exists>r. (sid', False, r) \<in> set (tt_ending ?st))))"
  proof (cases "sid' = sid")
    case True
    then show ?thesis using live_okD [OF assms(1) x] unfolding ses by auto
  next
    case False
    have "(sid', ob', Some i) \<in> set (tt_opening ?st)" if "(sid', ob', Some i) \<in> set (tt_opening st)" for ob' i
      using rest [OF that] False by simp
    then show ?thesis using live_okD [OF assms(1) x] unfolding ses by (simp del: set_remove1_eq) blast
  qed
qed

lemma end_first_live:
  assumes "live_ok st" "term_inv st" "sid \<in> set (tm_sessions (tt_svc st))" "mget (tm_objects (tt_svc st)) sid = Some x"
  shows "live_ok (st\<lparr>tt_svc := end_detach sid code reason (tt_svc st), tt_ending := (sid, False, reason) # tt_ending st\<rparr>)"
    (is "live_ok ?st")
proof (rule live_okI)
  fix sid' y assume y: "mget (tm_objects (tt_svc ?st)) sid' = Some y" "ts_alive y"
  show "(\<not> ts_once y \<and> (\<exists>ob i. (sid', ob, Some i) \<in> set (tt_opening ?st))) \<or>
     (sid' \<in> set (tm_sessions (tt_svc ?st)) \<and> (ts_once y \<longrightarrow> (\<exists>r. (sid', False, r) \<in> set (tt_ending ?st))))"
  proof (cases "sid' = sid")
    case True
    then show ?thesis using assms(3,4) by (auto simp: end_detach_def)
  next
    case False
    then have "mget (tm_objects (tt_svc st)) sid' = Some y" using y(1) assms(4) by (simp add: end_detach_def mget_put)
    from live_okD [OF assms(1) this y(2)] show ?thesis using assms(4) by (simp add: end_detach_def) blast
  qed
qed

lemma end_kill_live:
  assumes "live_ok st"
  shows "live_ok (st\<lparr>tt_svc := terminateTerminalProcess sid (tt_svc st), tt_ending := (sid, True, reason) # remove1 (sid, False, reason) (tt_ending st)\<rparr>)"
    (is "live_ok ?st")
proof (rule live_okI)
  fix sid' y assume y: "mget (tm_objects (tt_svc ?st)) sid' = Some y" "ts_alive y"
  then have ne: "sid' \<noteq> sid" and y': "mget (tm_objects (tt_svc st)) sid' = Some y"
    by (auto simp: terminateTerminalProcess_def mget_put split: option.splits if_splits)
  have ses: "tm_sessions (tt_svc ?st) = tm_sessions (tt_svc st)" by (simp add: terminateTerminalProcess_def split: option.splits)
  have "(sid', False, r) \<in> set (tt_ending ?st)" if "(sid', False, r) \<in> set (tt_ending st)" for r
    using that ne by (simp add: in_set_remove1)
  with live_okD [OF assms y' y(2)]
  show "(\<not> ts_once y \<and> (\<exists>ob i. (sid', ob, Some i) \<in> set (tt_opening ?st))) \<or>
     (sid' \<in> set (tm_sessions (tt_svc ?st)) \<and> (ts_once y \<longrightarrow> (\<exists>r. (sid', False, r) \<in> set (tt_ending ?st))))"
    unfolding ses by (simp del: set_remove1_eq) blast
qed

lemma end_last_live:
  assumes "live_ok st" "term_inv st" "(sid, True, reason) \<in> set (tt_ending st)"
  shows "live_ok (st\<lparr>tt_svc := end_remove sid reason (tt_svc st), tt_ending := remove1 (sid, True, reason) (tt_ending st)\<rparr>)"
    (is "live_ok ?st")
proof (rule live_okI)
  fix sid' y assume y: "mget (tm_objects (tt_svc ?st)) sid' = Some y" "ts_alive y"
  obtain x where x: "mget (tm_objects (tt_svc st)) sid = Some x" "\<not> ts_alive x"
    using ending_mem [OF term_invD(6) [OF assms(2)] assms(3)] by blast
  have y': "mget (tm_objects (tt_svc st)) sid' = Some y" using y(1) x(1) by (simp add: end_remove_def)
  then have ne: "sid' \<noteq> sid" using x y(2) by auto
  have "(sid', False, r) \<in> set (tt_ending ?st)" if "(sid', False, r) \<in> set (tt_ending st)" for r
    using that by (simp add: in_set_remove1)
  with live_okD [OF assms(1) y' y(2)]
  show "(\<not> ts_once y \<and> (\<exists>ob i. (sid', ob, Some i) \<in> set (tt_opening ?st))) \<or>
     (sid' \<in> set (tm_sessions (tt_svc ?st)) \<and> (ts_once y \<longrightarrow> (\<exists>r. (sid', False, r) \<in> set (tt_ending ?st))))"
    using ne x(1) by (simp add: end_remove_def)
qed


lemma reserve_live:
  assumes "live_ok st" "tm_sessions svc = tm_sessions (tt_svc st)" "tm_objects svc = tm_objects (tt_svc st)"
    "\<And>sid ob i. (sid, ob, Some i) \<in> set (tt_opening st) \<Longrightarrow> (sid, ob, Some i) \<in> set op"
  shows "live_ok (st\<lparr>tt_svc := svc, tt_opening := op\<rparr>)" (is "live_ok ?st")
proof (rule live_okI)
  fix sid x assume "mget (tm_objects (tt_svc ?st)) sid = Some x" and x: "ts_alive x"
  then have "mget (tm_objects (tt_svc st)) sid = Some x" using assms(3) by simp
  from live_okD [OF assms(1) this x] show "(\<not> ts_once x \<and> (\<exists>ob i. (sid, ob, Some i) \<in> set (tt_opening ?st))) \<or>
     (sid \<in> set (tm_sessions (tt_svc ?st)) \<and> (ts_once x \<longrightarrow> (\<exists>r. (sid, False, r) \<in> set (tt_ending ?st))))"
    using assms(4) [of sid] assms(2) by simp blast
qed

lemma started_live:
  assumes "live_ok st" "si_id info = sid"
  shows "live_ok (st\<lparr>tt_svc := open_started info ob aid conn (tt_svc st), tt_opening := (sid, ob, Some info) # remove1 (sid, ob, None) (tt_opening st)\<rparr>)"
    (is "live_ok ?st")
proof (rule live_okI)
  fix sid' x assume x: "mget (tm_objects (tt_svc ?st)) sid' = Some x" "ts_alive x"
  show "(\<not> ts_once x \<and> (\<exists>ob i. (sid', ob, Some i) \<in> set (tt_opening ?st))) \<or>
     (sid' \<in> set (tm_sessions (tt_svc ?st)) \<and> (ts_once x \<longrightarrow> (\<exists>r. (sid', False, r) \<in> set (tt_ending ?st))))"
  proof (cases "sid' = sid")
    case True
    then show ?thesis using x(1) assms(2) by (auto simp: open_started_def mget_put)
  next
    case False
    then have "mget (tm_objects (tt_svc st)) sid' = Some x" using x(1) assms(2) by (simp add: open_started_def mget_put)
    from live_okD [OF assms(1) this x(2)] show ?thesis by (simp add: open_started_def in_set_remove1) blast
  qed
qed

lemma live_step: "term_step st st' \<Longrightarrow> term_inv st \<Longrightarrow> live_ok st \<Longrightarrow> live_ok st'"
proof (induction rule: term_step.induct)
  case (reserve sid st ob svc)
  show ?case by (rule reserve_live [OF reserve(4)]) (use open_reserve_frame [OF reserve(2)] in auto)
next
  case (reserve_refused ob sid st e svc)
  have "live_ok (st\<lparr>tt_svc := svc, tt_opening := tt_opening st\<rparr>)"
    by (rule reserve_live [OF reserve_refused(3)]) (use open_reserve_frame [OF reserve_refused(1)] in auto)
  then show ?case by (cases st) simp
next
  case (start_failed sid ob st)
  show ?case by (rule reserve_live [OF start_failed(3)]) (simp_all add: releaseOwnerSession_def in_set_remove1)
next
  case (attach aid st sid conn sizeErr r svc)
  then show ?case by (intro kept_live kept_attach)
qed (intro started_live insert_live end_first_live end_kill_live end_last_live kept_live
  kept_detach kept_touch kept_forward kept_receive; assumption)+

lemma term_live_reachable: "term_reachable (term_init cfg) st \<Longrightarrow> live_ok st"
proof (induction rule: term_reachable.induct)
  case start
  show ?case by (simp add: live_ok_def term_init_def NewTerminalService_def)
next
  case (step s s')
  then show ?case by (blast intro: live_step term_inv_reachable)
qed

section \<open>Terminals belong to one owner\<close>

definition own_ok :: "term_state \<Rightarrow> bool" where
  "own_ok st \<longleftrightarrow> (\<forall>ob sid. sid \<in> set (owned ob (tt_svc st)) \<longrightarrow>
     (\<forall>ob'. sid \<in> set (owned ob' (tt_svc st)) \<longrightarrow> ob' = ob) \<and>
     (\<forall>x. mget (tm_objects (tt_svc st)) sid = Some x \<longrightarrow> ts_owner x = ob))"

lemma own_okD:
  assumes "own_ok st" "sid \<in> set (owned ob (tt_svc st))"
  shows "sid \<in> set (owned ob' (tt_svc st)) \<Longrightarrow> ob' = ob" "mget (tm_objects (tt_svc st)) sid = Some x \<Longrightarrow> ts_owner x = ob"
  using assms unfolding own_ok_def by blast+

lemma own_shrink:
  assumes "own_ok st" "\<And>ob. set (owned ob (tt_svc st')) \<subseteq> set (owned ob (tt_svc st))"
    "\<And>sid y. mget (tm_objects (tt_svc st')) sid = Some y \<Longrightarrow> \<exists>x. mget (tm_objects (tt_svc st)) sid = Some x \<and> ts_owner y = ts_owner x"
  shows "own_ok st'"
  unfolding own_ok_def
proof (intro allI impI conjI)
  fix ob sid assume o: "sid \<in> set (owned ob (tt_svc st'))"
  then have m: "sid \<in> set (owned ob (tt_svc st))" using assms(2) by blast
  show "ob' = ob" if "sid \<in> set (owned ob' (tt_svc st'))" for ob'
    using own_okD(1) [OF assms(1) m] that assms(2) by blast
  show "ts_owner y = ob" if "mget (tm_objects (tt_svc st')) sid = Some y" for y
    using assms(3) [OF that] own_okD(2) [OF assms(1) m] by metis
qed

lemma own_same:
  assumes "own_ok st" "same_objects (tt_svc st) (tt_svc st')"
  shows "own_ok st'"
proof (rule own_shrink [OF assms(1)])
  show "set (owned ob (tt_svc st')) \<subseteq> set (owned ob (tt_svc st))" for ob
    using assms(2) by (simp add: same_objects_def owned_def)
  show "\<exists>x. mget (tm_objects (tt_svc st)) sid = Some x \<and> ts_owner y = ts_owner x" if "mget (tm_objects (tt_svc st')) sid = Some y" for sid y
    using assms(2) that unfolding same_objects_def by (cases "mget (tm_objects (tt_svc st)) sid") (auto dest!: spec [of _ sid])
qed

lemma own_drop:
  assumes "own_ok st" "tm_owners (tt_svc st') = drop_owned ob sid (tm_owners (tt_svc st))" "tm_objects (tt_svc st') = tm_objects (tt_svc st)"
  shows "own_ok st'"
proof (rule own_shrink [OF assms(1)])
  fix ob'
  have "owned ob' (tt_svc st') = owned ob' ((tt_svc st)\<lparr>tm_owners := drop_owned ob sid (tm_owners (tt_svc st))\<rparr>)"
    by (rule owned_cong) (simp add: assms(2))
  then show "set (owned ob' (tt_svc st')) \<subseteq> set (owned ob' (tt_svc st))" unfolding owned_drop by simp
qed (simp add: assms(3))

lemma reserve_own:
  assumes "own_ok st" "fresh_session sid st" "open_reserve ob sid (tt_svc st) = (None, svc)"
  shows "own_ok (st\<lparr>tt_svc := svc, tt_opening := op\<rparr>)"
proof -
  have own: "set (owned ob' svc) = (if ob' = ob then insert sid (set (owned ob' (tt_svc st))) else set (owned ob' (tt_svc st)))" for ob'
    using assms(3) by (auto simp: open_reserve_def Let_def owned_def mget_put set_add_def split: if_splits option.splits)
  have fr: "sid \<notin> set (owned ob' (tt_svc st))" "mget (tm_objects (tt_svc st)) sid = None" for ob'
    using assms(2) unfolding fresh_session_def by blast+
  show ?thesis unfolding own_ok_def
  proof (intro allI impI conjI)
    fix ob1 s1 assume m: "s1 \<in> set (owned ob1 (tt_svc (st\<lparr>tt_svc := svc, tt_opening := op\<rparr>)))"
    show "ob' = ob1" if "s1 \<in> set (owned ob' (tt_svc (st\<lparr>tt_svc := svc, tt_opening := op\<rparr>)))" for ob'
      using m that fr(1) own_okD(1) [OF assms(1)] by (simp add: own split: if_splits) metis+
    show "ts_owner x = ob1" if "mget (tm_objects (tt_svc (st\<lparr>tt_svc := svc, tt_opening := op\<rparr>))) s1 = Some x" for x
      using m that fr(2) own_okD(2) [OF assms(1)] open_reserve_frame [OF assms(3)] by (auto simp: own split: if_splits)
  qed
qed

lemma started_own:
  assumes "own_ok st" "term_inv st" "(si_id info, ob, i) \<in> set (tt_opening st)"
  shows "own_ok (st\<lparr>tt_svc := open_started info ob aid conn (tt_svc st), tt_opening := op\<rparr>)"
proof -
  have own: "owned ob' (open_started info ob aid conn (tt_svc st)) = owned ob' (tt_svc st)" for ob'
    by (simp add: owned_def open_started_def)
  have m: "si_id info \<in> set (owned ob (tt_svc st))" using opening_mem(1) [OF term_invD(5) [OF assms(2)] assms(3)] .
  show ?thesis unfolding own_ok_def
  proof (intro allI impI conjI)
    fix ob1 s1 assume "s1 \<in> set (owned ob1 (tt_svc (st\<lparr>tt_svc := open_started info ob aid conn (tt_svc st), tt_opening := op\<rparr>)))"
    then have s1: "s1 \<in> set (owned ob1 (tt_svc st))" by (simp add: own)
    show "ob' = ob1" if "s1 \<in> set (owned ob' (tt_svc (st\<lparr>tt_svc := open_started info ob aid conn (tt_svc st), tt_opening := op\<rparr>)))" for ob'
      using that own_okD(1) [OF assms(1) s1] by (simp add: own)
    show "ts_owner x = ob1" if "mget (tm_objects (tt_svc (st\<lparr>tt_svc := open_started info ob aid conn (tt_svc st), tt_opening := op\<rparr>))) s1 = Some x" for x
      using that own_okD(1) [OF assms(1) m] own_okD(2) [OF assms(1) s1] s1
      by (cases "s1 = si_id info") (auto simp: open_started_def mget_put)
  qed
qed

lemma own_step: "term_step st st' \<Longrightarrow> term_inv st \<Longrightarrow> own_ok st \<Longrightarrow> own_ok st'"
proof (induction rule: term_step.induct)
  case (reserve sid st ob svc)
  then show ?case by (intro reserve_own)
next
  case (reserve_refused ob sid st e svc)
  show ?case
  proof (rule own_shrink [OF reserve_refused(3)])
    show "set (owned ob' (tt_svc (st\<lparr>tt_svc := svc\<rparr>))) \<subseteq> set (owned ob' (tt_svc st))" for ob'
      using reserve_refused(1) by (auto simp: open_reserve_def Let_def owned_def mget_put split: if_splits)
  qed (use open_reserve_frame [OF reserve_refused(1)] in simp)
next
  case (start_failed sid ob st)
  show ?case by (rule own_drop [OF start_failed(3), of _ ob sid]) (simp_all add: releaseOwnerSession_def)
next
  case (started sid ob st info aid conn)
  then show ?case by (intro started_own) auto
next
  case (insert sid ob info st)
  show ?case by (rule own_shrink [OF insert(3)]) (simp_all add: open_insert_def owned_def)
next
  case (attach aid st sid conn sizeErr r svc)
  then show ?case using attach_same by (intro own_same [OF attach(4)]) simp
next
  case (receive st aid)
  then show ?case by (intro own_same [OF receive(2)] same_objects_same) simp_all
next
  case (end_last sid reason st)
  obtain x where "mget (tm_objects (tt_svc st)) sid = Some x"
    using ending_mem [OF term_invD(6) [OF end_last(2)] end_last(1)] by blast
  then show ?case by (intro own_drop [OF end_last(3), of _ "ts_owner x" sid]) (simp_all add: end_remove_def)
qed (use same_intros own_same in fastforce)+

lemma own_reachable: "term_reachable (term_init cfg) st \<Longrightarrow> own_ok st"
proof (induction rule: term_reachable.induct)
  case start
  show ?case by (simp add: own_ok_def term_init_def NewTerminalService_def owned_def)
next
  case (step s s')
  then show ?case by (blast intro: own_step term_inv_reachable)
qed

section \<open>Closing every terminal of an owner\<close>

lemma endSession_other:
  assumes "sid' \<noteq> sid"
  shows "mget (tm_objects (endSession sid r s)) sid' = mget (tm_objects s) sid'"
    "sid' \<in> set (tm_sessions (endSession sid r s)) \<longleftrightarrow> sid' \<in> set (tm_sessions s)"
  using assms by (auto simp: endSession_def endSessionWithCode_def end_remove_def terminateTerminalProcess_def end_detach_def mget_put
    split: option.splits)

lemma endSession_kills:
  assumes "mget (tm_objects s) sid = Some x" "ts_alive x \<Longrightarrow> sid \<in> set (tm_sessions s) \<and> \<not> ts_once x"
  shows "\<exists>y. mget (tm_objects (endSession sid r s)) sid = Some y \<and> \<not> ts_alive y"
  using assms by (auto simp: endSession_def endSessionWithCode_def end_remove_def terminateTerminalProcess_def end_detach_def mget_put)

lemma endSession_owner:
  "mget (tm_objects s) sid = Some x \<Longrightarrow> \<exists>y. mget (tm_objects (endSession k r s)) sid = Some y \<and> ts_owner y = ts_owner x"
  by (auto simp: endSession_def endSessionWithCode_def end_remove_def terminateTerminalProcess_def end_detach_def mget_put
    split: option.splits)

lemma endSession_dead:
  assumes "mget (tm_objects s) sid = Some x" "\<not> ts_alive x"
  shows "\<exists>y. mget (tm_objects (endSession k r s)) sid = Some y \<and> \<not> ts_alive y"
  using assms by (auto simp: endSession_def endSessionWithCode_def end_remove_def terminateTerminalProcess_def end_detach_def mget_put
    split: option.splits)

lemma fold_dead:
  assumes "mget (tm_objects s) sid = Some x" "\<not> ts_alive x"
  shows "\<exists>y. mget (tm_objects (fold (\<lambda>k. endSession k r) ks s)) sid = Some y \<and> \<not> ts_alive y"
  using assms
proof (induction ks arbitrary: s x)
  case (Cons k ks)
  obtain y where "mget (tm_objects (endSession k r s)) sid = Some y" "\<not> ts_alive y"
    using endSession_dead [OF Cons(2,3)] by blast
  from Cons(1) [OF this] show ?case by simp
qed simp

lemma fold_kills:
  assumes "mget (tm_objects s) sid = Some x" "ts_alive x \<Longrightarrow> sid \<in> set (tm_sessions s) \<and> \<not> ts_once x" "sid \<in> set ks"
  shows "\<exists>y. mget (tm_objects (fold (\<lambda>k. endSession k r) ks s)) sid = Some y \<and> \<not> ts_alive y"
  using assms
proof (induction ks arbitrary: s)
  case (Cons k ks)
  show ?case
  proof (cases "k = sid")
    case True
    obtain y where "mget (tm_objects (endSession k r s)) sid = Some y" "\<not> ts_alive y"
      using endSession_kills [OF Cons(2,3)] True by blast
    from fold_dead [OF this] show ?thesis by simp
  next
    case False
    then show ?thesis using Cons endSession_other [of sid k r s] by simp
  qed
qed simp

lemma fold_unlisted:
  "sid \<notin> set ks \<Longrightarrow> mget (tm_objects (fold (\<lambda>k. endSession k r) ks s)) sid = mget (tm_objects s) sid"
  by (induction ks arbitrary: s) (auto simp: endSession_other)


lemma reserve_opening:
  assumes "fresh_session sid st" "open_reserve ob sid (tt_svc st) = (None, s1)" "term_reachable s0 st"
  shows "term_reachable s0 (st\<lparr>tt_svc := s1, tt_opening := (sid, ob, None) # tt_opening st\<rparr>)"
  by (rule term_reachable.step [OF assms(3)]) (rule term_step.reserve [OF assms(1,2)])

lemma started_opening:
  assumes "term_reachable s0 (st\<lparr>tt_svc := s1, tt_opening := (si_id info, ob, None) # op\<rparr>)" "mget (tm_attachments s1) aid = None"
  shows "term_reachable s0 (st\<lparr>tt_svc := open_started info ob aid conn s1, tt_opening := (si_id info, ob, Some info) # op\<rparr>)"
proof -
  have "term_step (st\<lparr>tt_svc := s1, tt_opening := (si_id info, ob, None) # op\<rparr>)
      ((st\<lparr>tt_svc := s1, tt_opening := (si_id info, ob, None) # op\<rparr>)\<lparr>tt_svc := open_started info ob aid conn (tt_svc (st\<lparr>tt_svc := s1, tt_opening := (si_id info, ob, None) # op\<rparr>)),
        tt_opening := (si_id info, ob, Some info) # remove1 (si_id info, ob, None) (tt_opening (st\<lparr>tt_svc := s1, tt_opening := (si_id info, ob, None) # op\<rparr>))\<rparr>)"
    by (rule term_step.started) (simp_all add: fresh_attachment_def assms(2))
  from term_reachable.step [OF assms(1) this] show ?thesis by simp
qed

text \<open>The uninterrupted \<open>Open\<close> is a run of the steps.\<close>

lemma open_reachable:
  assumes "term_reachable s0 st" "fresh_session sid st" "fresh_attachment aid st"
    "Open ob stack container shell sid aid None conn (tt_svc st) = (Inr info, s')"
  shows "term_reachable s0 (st\<lparr>tt_svc := s'\<rparr>)"
proof -
  obtain s1 where r: "open_reserve ob sid (tt_svc st) = (None, s1)" "si_id info = sid"
    "s' = emitLifecycle (Opened info) (open_insert sid (open_started info ob aid conn s1))"
    using assms(4) by (auto simp: Open_def Let_def split: option.splits prod.splits)
  have att: "mget (tm_attachments s1) aid = None"
    using assms(3) r(1) by (auto simp: fresh_attachment_def open_reserve_def Let_def split: if_splits)
  let ?m = "st\<lparr>tt_svc := open_started info ob aid conn s1, tt_opening := (sid, ob, Some info) # tt_opening st\<rparr>"
  have m: "term_reachable s0 ?m"
    using started_opening [where info = info and ob = ob and st = st and aid = aid and conn = conn and op = "tt_opening st", of s0 s1] reserve_opening [OF assms(2) r(1) assms(1)] att r(2) by simp
  have "term_step ?m (?m\<lparr>tt_svc := emitLifecycle (Opened info) (open_insert sid (tt_svc ?m)), tt_opening := remove1 (sid, ob, Some info) (tt_opening ?m)\<rparr>)"
    by (rule term_step.insert) simp
  from term_reachable.step [OF m this] show ?thesis by (cases st) (simp add: r(3))
qed

section \<open>Claims\<close>

lemmas term_eval = term_init_def NewTerminalService_def Open_def normalizeShell_def open_reserve_def owned_def open_started_def
  open_insert_def emitLifecycle_def put_session_def set_add_def mget_put Let_def

lemma one_terminal:
  "\<exists>st x. term_reachable (term_init \<lparr>MaxSessionsPerOwner = 1, IdleTimeout = 0, DetachGracePeriod = 0\<rparr>) st \<and> tt_opening st = [] \<and> tt_ending st = [] \<and>
     lookupOwnedSession ''alice'' ''term_1'' (tt_svc st) = Some x \<and> ts_alive x"
proof -
  let ?i = "term_init \<lparr>MaxSessionsPerOwner = 1, IdleTimeout = 0, DetachGracePeriod = 0\<rparr>"
  obtain info s' where o1: "Open ''alice'' ''web'' ''c1'' '''' ''term_1'' ''attach_1'' None ''conn_1'' (tt_svc ?i) = (Inr info, s')"
    by (simp add: term_eval)
  have "term_reachable ?i (?i\<lparr>tt_svc := s'\<rparr>)"
    by (rule open_reachable [OF term_reachable.start _ _ o1])
       (simp_all add: fresh_session_def fresh_attachment_def term_eval)
  moreover obtain x where "lookupOwnedSession ''alice'' ''term_1'' s' = Some x" "ts_alive x"
    using o1 by (auto simp: term_eval lookupOwnedSession_def)
  ultimately show ?thesis by (intro exI [of _ "?i\<lparr>tt_svc := s'\<rparr>"] exI [of _ x]) (simp add: term_init_def)
qed






text \<open>C22: A terminal whose owner is reserved but which is not yet registered escapes \<open>CloseOwner\<close>: in
  a reachable state the owner has a reservation, \<open>CloseOwner\<close> returns without changing anything,
  and the opening request then completes with a registered, living terminal of that owner.\<close>

theorem close_owner_misses_opening:
  "\<exists>s1 s2 x. term_reachable (term_init cfg) s1 \<and> sid \<in> set (owned ownerID (tt_svc s1)) \<and>
     CloseOwner ownerID reason (tt_svc s1) = tt_svc s1 \<and>
     term_reachable s1 s2 \<and> lookupOwnedSession ownerID sid (tt_svc s2) = Some x \<and> ts_alive x"
proof -
  let ?info = "\<lparr>si_id = sid, si_stack = ''web'', si_container = ''c1'', si_shell = ''/bin/sh''\<rparr>"
  let ?i = "term_init cfg"
  have "fst (open_reserve ownerID sid (tt_svc ?i)) = None" by (simp add: term_eval)
  then obtain s1 where r: "open_reserve ownerID sid (tt_svc ?i) = (None, s1)" by (metis prod.collapse)
  let ?s1 = "?i\<lparr>tt_svc := s1, tt_opening := (sid, ownerID, None) # tt_opening ?i\<rparr>"
  let ?m = "?i\<lparr>tt_svc := open_started ?info ownerID ''attach_1'' ''conn_1'' s1, tt_opening := (sid, ownerID, Some ?info) # tt_opening ?i\<rparr>"
  let ?s2 = "?m\<lparr>tt_svc := emitLifecycle (Opened ?info) (open_insert sid (tt_svc ?m)), tt_opening := remove1 (sid, ownerID, Some ?info) (tt_opening ?m)\<rparr>"
  have s1: "term_reachable ?i ?s1"
    by (rule reserve_opening [OF _ r term_reachable.start]) (simp add: fresh_session_def term_eval)
  have own: "owned ownerID s1 = [sid]" "tm_sessions s1 = []" "tm_attachments s1 = []"
    using r by (auto simp: term_eval split: if_splits)
  have m: "term_reachable ?s1 ?m"
    using started_opening [where ?s0.0 = ?s1 and st = ?i and ?s1.0 = s1 and info = ?info and ob = ownerID and op = "tt_opening ?i" and aid = "''attach_1''" and conn = "''conn_1''"]
      term_reachable.start [of ?s1] own(3) by simp
  have "term_step ?m ?s2" by (rule term_step.insert) simp
  then have s2: "term_reachable ?s1 ?s2" by (rule term_reachable.step [OF m])
  moreover obtain x where "lookupOwnedSession ownerID sid (tt_svc ?s2) = Some x" "ts_alive x"
    by (simp add: lookupOwnedSession_def term_eval)
  moreover have "CloseOwner ownerID reason (tt_svc ?s1) = tt_svc ?s1"
    using own by (simp add: CloseOwner_def endSession_def endSessionWithCode_def)
  moreover have "sid \<in> set (owned ownerID (tt_svc ?s1))" using own by simp
  ultimately show ?thesis using s1 by blast
qed

end
