(* ===== verification/Step_Systems.thy ===== *)
theory Step_Systems
  imports Prelude
begin

text \<open>
  Interleaved programs as step relations.  The locale is the contract of an inductive
  invariant; its lemmas are used by every component whose handlers run concurrently.
\<close>

locale step_invariant =
  fixes step :: "'s \<Rightarrow> 's \<Rightarrow> bool" and inv :: "'s \<Rightarrow> bool"
  assumes keeps: "step s s' \<Longrightarrow> inv s \<Longrightarrow> inv s'"
begin

lemma run_keeps: "step\<^sup>*\<^sup>* s s' \<Longrightarrow> inv s \<Longrightarrow> inv s'"
  by (induction rule: rtranclp_induct) (auto intro: keeps)

lemma run_transfer:
  assumes "step\<^sup>*\<^sup>* s s'" "inv s" "P s" "\<And>a b. step a b \<Longrightarrow> inv a \<Longrightarrow> P a \<Longrightarrow> P b"
  shows "P s'"
proof -
  have "inv s' \<and> P s'"
    using assms(1)
  proof (induction rule: rtranclp_induct)
    case base
    then show ?case using assms(2,3) by simp
  next
    case (step a b)
    then show ?case using assms(4) keeps by blast
  qed
  then show ?thesis by simp
qed

end

end
