(* ===== verification/Lifecycle.thy ===== *)
theory Lifecycle
  imports Step_Systems
begin

text \<open>
  internal/lifecycle/manager.go: the group of background workers.  The mutex sections of
  \<open>Go\<close> and \<open>Stop\<close>, the once-only start of the goroutine that waits for the group, the
  return of a worker and the closing of the done channel are the steps.  A negative wait group
  and a second close of the channel panic in Go; here they are the value \<open>None\<close>.
\<close>

section \<open>The manager\<close>

record Manager =
  mg_cancelled :: bool
  mg_stopping :: bool
  mg_wg :: nat
  mg_once :: bool
  mg_done :: bool

definition NewManager :: Manager where
  "NewManager = \<lparr>mg_cancelled = False, mg_stopping = False, mg_wg = 0, mg_once = False, mg_done = False\<rparr>"

definition Go_admit :: "bool \<Rightarrow> Manager \<Rightarrow> bool \<times> Manager" where
  "Go_admit fn_nil m =
     (if fn_nil then (False, m)
      else if mg_stopping m then (False, m)
      else (True, m\<lparr>mg_wg := mg_wg m + 1\<rparr>))"

definition Go_return :: "Manager \<Rightarrow> Manager option" where
  "Go_return m = (if mg_wg m = 0 then None else Some (m\<lparr>mg_wg := mg_wg m - 1\<rparr>))"

text \<open>The result tells whether the call goes on to the once-only part.\<close>

definition Stop_locked :: "Manager \<Rightarrow> bool \<times> Manager" where
  "Stop_locked m = (if mg_stopping m then (False, m) else (True, m\<lparr>mg_stopping := True, mg_cancelled := True\<rparr>))"

definition Stop_once :: "Manager \<Rightarrow> bool \<times> Manager" where
  "Stop_once m = (if mg_once m then (False, m) else (True, m\<lparr>mg_once := True\<rparr>))"

text \<open>The waiting goroutine after \<open>wg.Wait\<close> has returned.\<close>

definition close_done :: "Manager \<Rightarrow> Manager option" where
  "close_done m = (if mg_done m then None else Some (m\<lparr>mg_done := True\<rparr>))"

datatype wait_error = ErrShutdownTimedOut string

text \<open>The results the select of \<open>Wait\<close> may take; none while it blocks.\<close>

definition Wait_select :: "string option \<Rightarrow> Manager \<Rightarrow> wait_error option list" where
  "Wait_select ctxErr m =
     (if mg_done m then [None] else []) @ (case ctxErr of None \<Rightarrow> [] | Some e \<Rightarrow> [Some (ErrShutdownTimedOut e)])"

section \<open>The group as a system\<close>

record group =
  gr_mgr :: Manager
  gr_running :: "string list"
  gr_stops :: nat
  gr_waiter :: bool

definition group_init :: group where
  "group_init = \<lparr>gr_mgr = NewManager, gr_running = [], gr_stops = 0, gr_waiter = False\<rparr>"

inductive group_step :: "group \<Rightarrow> group \<Rightarrow> bool" where
  admit: "Go_admit fn_nil (gr_mgr g) = (True, m) \<Longrightarrow> w \<notin> set (gr_running g) \<Longrightarrow>
    group_step g (g\<lparr>gr_mgr := m, gr_running := w # gr_running g\<rparr>)"
| finished: "w \<in> set (gr_running g) \<Longrightarrow> Go_return (gr_mgr g) = Some m \<Longrightarrow>
    group_step g (g\<lparr>gr_mgr := m, gr_running := remove1 w (gr_running g)\<rparr>)"
| parent_cancelled: "group_step g (g\<lparr>gr_mgr := (gr_mgr g)\<lparr>mg_cancelled := True\<rparr>\<rparr>)"
| stop: "Stop_locked (gr_mgr g) = (True, m) \<Longrightarrow> group_step g (g\<lparr>gr_mgr := m, gr_stops := gr_stops g + 1\<rparr>)"
| once_first: "0 < gr_stops g \<Longrightarrow> Stop_once (gr_mgr g) = (True, m) \<Longrightarrow>
    group_step g (g\<lparr>gr_mgr := m, gr_stops := gr_stops g - 1, gr_waiter := True\<rparr>)"
| once_again: "0 < gr_stops g \<Longrightarrow> Stop_once (gr_mgr g) = (False, m) \<Longrightarrow>
    group_step g (g\<lparr>gr_mgr := m, gr_stops := gr_stops g - 1\<rparr>)"
| all_returned: "gr_waiter g \<Longrightarrow> mg_wg (gr_mgr g) = 0 \<Longrightarrow> close_done (gr_mgr g) = Some m \<Longrightarrow>
    group_step g (g\<lparr>gr_mgr := m, gr_waiter := False\<rparr>)"

definition group_inv :: "group \<Rightarrow> bool" where
  "group_inv g \<longleftrightarrow> distinct (gr_running g) \<and> mg_wg (gr_mgr g) = length (gr_running g) \<and>
     (mg_stopping (gr_mgr g) \<longleftrightarrow> 0 < gr_stops g \<or> mg_once (gr_mgr g)) \<and>
     (mg_once (gr_mgr g) \<longleftrightarrow> gr_waiter g \<or> mg_done (gr_mgr g)) \<and>
     \<not> (gr_waiter g \<and> mg_done (gr_mgr g)) \<and> (mg_done (gr_mgr g) \<longrightarrow> gr_running g = []) \<and>
     (mg_once (gr_mgr g) \<longrightarrow> gr_stops g = 0) \<and> gr_stops g \<le> 1 \<and>
     (mg_stopping (gr_mgr g) \<longrightarrow> mg_cancelled (gr_mgr g))"

lemmas manager_defs = Go_admit_def Go_return_def Stop_locked_def Stop_once_def close_done_def

lemma group_inv_step: "group_step g g' \<Longrightarrow> group_inv g \<Longrightarrow> group_inv g'"
  by (induction rule: group_step.induct)
     (auto simp: group_inv_def manager_defs length_remove1 split: if_splits)

interpretation gr: step_invariant group_step group_inv
  by unfold_locales (rule group_inv_step)

lemma group_reachable: "group_step\<^sup>*\<^sup>* group_init g \<Longrightarrow> group_inv g"
  by (erule gr.run_keeps) (simp add: group_inv_def group_init_def NewManager_def)

lemma stopping_stays: "group_step g g' \<Longrightarrow> mg_stopping (gr_mgr g) \<Longrightarrow> mg_stopping (gr_mgr g')"
  by (induction rule: group_step.induct) (auto simp: manager_defs split: if_splits)

lemma done_stays: "group_step g g' \<Longrightarrow> mg_done (gr_mgr g) \<Longrightarrow> mg_done (gr_mgr g')"
  by (induction rule: group_step.induct) (auto simp: manager_defs split: if_splits)

lemma group_no_panic:
  assumes "group_inv g"
  shows "w \<in> set (gr_running g) \<Longrightarrow> Go_return (gr_mgr g) \<noteq> None" "gr_waiter g \<Longrightarrow> close_done (gr_mgr g) \<noteq> None"
  using assms by (auto simp: group_inv_def manager_defs)

lemma example_stopping:
  "group_step\<^sup>*\<^sup>* group_init
     \<lparr>gr_mgr = \<lparr>mg_cancelled = True, mg_stopping = True, mg_wg = 0, mg_once = False, mg_done = False\<rparr>, gr_running = [], gr_stops = 1, gr_waiter = False\<rparr>"
  (is "group_step\<^sup>*\<^sup>* _ ?g3")
proof -
  let ?m1 = "\<lparr>mg_cancelled = False, mg_stopping = False, mg_wg = 1, mg_once = False, mg_done = False\<rparr>"
  let ?g1 = "\<lparr>gr_mgr = ?m1, gr_running = [''w''], gr_stops = 0, gr_waiter = False\<rparr>"
  let ?g2 = "\<lparr>gr_mgr = ?m1\<lparr>mg_stopping := True, mg_cancelled := True\<rparr>, gr_running = [''w''], gr_stops = 1, gr_waiter = False\<rparr>"
  have s1: "group_step group_init ?g1"
    using group_step.admit [of False group_init ?m1 "''w''"] by (simp add: group_init_def NewManager_def Go_admit_def)
  have s2: "group_step ?g1 ?g2"
    using group_step.stop [of ?g1 "?m1\<lparr>mg_stopping := True, mg_cancelled := True\<rparr>"] by (simp add: Stop_locked_def)
  have s3: "group_step ?g2 ?g3"
    using group_step.finished [of "''w''" ?g2 "gr_mgr ?g3"] by (simp add: Go_return_def)
  show ?thesis
    by (rule converse_rtranclp_into_rtranclp [where r = group_step, OF s1]) (rule converse_rtranclp_into_rtranclp [where r = group_step, OF s2], rule r_into_rtranclp [where r = group_step, OF s3])
qed

lemma reach_done:
  assumes "group_inv g" "mg_stopping (gr_mgr g)" "\<not> mg_done (gr_mgr g)" "gr_running g = []"
  shows "\<exists>g1. group_step\<^sup>*\<^sup>* g g1 \<and> mg_done (gr_mgr g1)"
proof -
  have close: "\<exists>g1. group_step h g1 \<and> mg_done (gr_mgr g1)"
    if "gr_waiter h" "mg_wg (gr_mgr h) = 0" "\<not> mg_done (gr_mgr h)" for h
    using group_step.all_returned [OF that(1,2)] that(3) by (fastforce simp: close_done_def)
  show ?thesis
  proof (cases "gr_waiter g")
    case True
    then show ?thesis using close [of g] assms by (auto simp: group_inv_def)
  next
    case False
    then have s: "0 < gr_stops g" "\<not> mg_once (gr_mgr g)" using assms(1-3) by (auto simp: group_inv_def)
    let ?h = "g\<lparr>gr_mgr := (gr_mgr g)\<lparr>mg_once := True\<rparr>, gr_stops := gr_stops g - 1, gr_waiter := True\<rparr>"
    have "group_step g ?h" using s by (intro group_step.once_first) (simp_all add: Stop_once_def)
    moreover obtain g1 where "group_step ?h g1" "mg_done (gr_mgr g1)" using close [of ?h] assms by (auto simp: group_inv_def)
    ultimately show ?thesis by (meson r_into_rtranclp rtranclp.rtrancl_into_rtrancl)
  qed
qed

lemma example_shutdown: "\<exists>g. group_step\<^sup>*\<^sup>* group_init g \<and> mg_done (gr_mgr g)"
proof -
  obtain g where g: "group_step\<^sup>*\<^sup>* group_init g" "mg_stopping (gr_mgr g)" "\<not> mg_done (gr_mgr g)" "gr_running g = []"
    using example_stopping by fastforce
  show ?thesis using reach_done [OF group_reachable [OF g(1)] g(2-4)] g(1) by (meson rtranclp_trans)
qed

section \<open>Claims\<close>

text \<open>C23: When \<open>Wait\<close> returns nil, every admitted worker has returned, and at no later time is a
  worker running or admitted.\<close>

theorem wait_after_all_returned:
  assumes "group_step\<^sup>*\<^sup>* group_init g" "None \<in> set (Wait_select ctxErr (gr_mgr g))" "group_step\<^sup>*\<^sup>* g g'"
  shows "gr_running g' = [] \<and> Go_admit fn_nil (gr_mgr g') = (False, gr_mgr g')"
proof -
  note inv = group_reachable [OF assms(1)]
  have "mg_done (gr_mgr g)" using assms(2) by (auto simp: Wait_select_def split: if_splits option.splits)
  then have d: "mg_done (gr_mgr g')" using gr.run_transfer [OF assms(3) inv, of "\<lambda>g. mg_done (gr_mgr g)"] done_stays by blast
  have "group_inv g'" by (rule gr.run_keeps [OF assms(3) inv])
  with d show ?thesis by (auto simp: group_inv_def Go_admit_def)
qed

theorem wait_after_all_returned_witness:
  "\<exists>g. group_step\<^sup>*\<^sup>* group_init g \<and> None \<in> set (Wait_select (Some ''deadline'') (gr_mgr g)) \<and>
     gr_running g = [] \<and> Go_admit False (gr_mgr g) = (False, gr_mgr g)"
proof -
  obtain g where "group_step\<^sup>*\<^sup>* group_init g" "mg_done (gr_mgr g)" using example_shutdown by blast
  then show ?thesis
    using wait_after_all_returned [of g "Some ''deadline''" g False] by (auto simp: Wait_select_def)
qed

text \<open>Shutting down cannot get stuck: once stopping has begun and every admitted worker has
  returned, the steps of the manager alone lead to a state in which \<open>Wait\<close> returns nil.\<close>

theorem shutdown_progress:
  assumes "group_step\<^sup>*\<^sup>* group_init g" "mg_stopping (gr_mgr g)" "\<not> mg_done (gr_mgr g)" "gr_running g = []"
  shows "\<exists>g1. group_step\<^sup>*\<^sup>* g g1 \<and> None \<in> set (Wait_select ctxErr (gr_mgr g1))"
  using reach_done [OF group_reachable [OF assms(1)] assms(2-4)] by (auto simp: Wait_select_def)

theorem shutdown_progress_witness:
  "\<exists>g g1. group_step\<^sup>*\<^sup>* group_init g \<and> mg_stopping (gr_mgr g) \<and> \<not> mg_done (gr_mgr g) \<and>
     group_step\<^sup>*\<^sup>* g g1 \<and> None \<in> set (Wait_select None (gr_mgr g1))"
proof -
  obtain g where g: "group_step\<^sup>*\<^sup>* group_init g" "mg_stopping (gr_mgr g)" "\<not> mg_done (gr_mgr g)" "gr_running g = []"
    using example_stopping by fastforce
  show ?thesis using shutdown_progress [OF g, of None] g by blast
qed

end
