(* ===== verification/Limited_IO.thy ===== *)
theory Limited_IO
  imports Prelude
begin

text \<open>
  internal/limitedio/limitedio.go: bounded strings, files and buffers.  Lengths are \<open>int64\<close>
  in the code; the one sum that can wrap, \<open>maxBytes + 1\<close>, is written with its wrap-around.
\<close>

datatype limit_error = LimitError int | IOError string

definition MaxBytes :: "limit_error \<Rightarrow> int \<times> bool" where
  "MaxBytes e = (case e of LimitError n \<Rightarrow> (n, True) | IOError _ \<Rightarrow> (0, False))"

definition CheckString :: "string \<Rightarrow> int \<Rightarrow> limit_error option" where
  "CheckString content maxBytes = (if int (length content) > maxBytes then Some (LimitError maxBytes) else None)"

definition int64_wrap :: "int \<Rightarrow> int" where
  "int64_wrap n = (n + 2 ^ 63) mod 2 ^ 64 - 2 ^ 63"

text \<open>\<open>io.ReadAll\<close> of a limited reader: nothing when the limit is not positive.\<close>

definition read_limited :: "int \<Rightarrow> string \<Rightarrow> string" where
  "read_limited n content = (if n \<le> 0 then [] else take (nat n) content)"

text \<open>The file may have grown between \<open>Stat\<close> and the read, so the size is an argument of its own.\<close>

definition ReadFile :: "limit_error option \<Rightarrow> limit_error option \<Rightarrow> limit_error option \<Rightarrow> int \<Rightarrow> string \<Rightarrow> int \<Rightarrow> limit_error + string" where
  "ReadFile openErr statErr readErr infoSize file maxBytes =
     (case openErr of Some e \<Rightarrow> Inl e | None \<Rightarrow>
      case statErr of Some e \<Rightarrow> Inl e | None \<Rightarrow>
        if infoSize > maxBytes then Inl (LimitError maxBytes)
        else
          (case readErr of
             Some e \<Rightarrow> Inl e
           | None \<Rightarrow>
               (let content = read_limited (int64_wrap (maxBytes + 1)) file
                in if int (length content) > maxBytes then Inl (LimitError maxBytes) else Inr content)))"

record Buffer =
  bf_content :: string
  bf_maxBytes :: int
  bf_exceeded :: bool

definition NewBuffer :: "int \<Rightarrow> Buffer" where
  "NewBuffer maxBytes = \<lparr>bf_content = [], bf_maxBytes = maxBytes, bf_exceeded = False\<rparr>"

definition Write :: "string \<Rightarrow> Buffer \<Rightarrow> int \<times> Buffer" where
  "Write content b =
     (let written = int (length content);
          remaining = bf_maxBytes b - int (length (bf_content b))
      in if remaining \<le> 0 then (written, if content \<noteq> [] then b\<lparr>bf_exceeded := True\<rparr> else b)
         else if int (length content) > remaining
           then (written, b\<lparr>bf_content := bf_content b @ take (nat remaining) content, bf_exceeded := True\<rparr>)
         else (written, b\<lparr>bf_content := bf_content b @ content\<rparr>))"

definition WriteString :: "string \<Rightarrow> Buffer \<Rightarrow> int \<times> Buffer" where
  "WriteString content b = Write content b"

definition Bytes :: "Buffer \<Rightarrow> string" where
  "Bytes b = bf_content b"

definition BufferErr :: "Buffer \<Rightarrow> limit_error option" where
  "BufferErr b = (if bf_exceeded b then Some (LimitError (bf_maxBytes b)) else None)"

definition write_all :: "string list \<Rightarrow> Buffer \<Rightarrow> Buffer" where
  "write_all ws b = fold (\<lambda>w b. snd (Write w b)) ws b"

section \<open>The bounded buffer\<close>

definition holds_prefix :: "int \<Rightarrow> string \<Rightarrow> Buffer \<Rightarrow> bool" where
  "holds_prefix maxBytes sent b \<longleftrightarrow> bf_maxBytes b = maxBytes \<and> bf_content b = take (nat maxBytes) sent \<and>
     (bf_exceeded b \<longleftrightarrow> nat maxBytes < length sent)"

lemma write_prefix:
  assumes "holds_prefix n sent b"
  shows "holds_prefix n (sent @ w) (snd (Write w b))"
proof (cases "nat n \<le> length sent")
  case True
  then have "n \<le> int (length (bf_content b))" using assms by (simp add: holds_prefix_def)
  then show ?thesis using assms True by (cases w) (auto simp: holds_prefix_def Write_def Let_def)
next
  case False
  then have n: "int (nat n) = n" "bf_content b = sent" "\<not> bf_exceeded b" "bf_maxBytes b = n" using assms by (simp_all add: holds_prefix_def)
  have "nat (n - int (length sent)) = nat n - length sent" by (simp add: nat_diff_distrib')
  then show ?thesis using n False by (auto simp: holds_prefix_def Write_def Let_def)
qed

lemma write_all_prefix: "holds_prefix n sent b \<Longrightarrow> holds_prefix n (sent @ concat ws) (write_all ws b)"
proof (induction ws arbitrary: sent b)
  case (Cons w ws)
  from Cons(1) [OF write_prefix [OF Cons(2), of w]] show ?case by (simp add: write_all_def)
qed (simp add: write_all_def)

lemma write_reports: "fst (Write w b) = int (length w)"
  by (simp add: Write_def Let_def)

lemma read_limited_length: "int (length (read_limited n s)) \<le> max 0 n"
  by (auto simp: read_limited_def)

text \<open>Whatever its producer writes in whatever pieces, a bounded buffer holds exactly the first
  \<open>maxBytes\<close> bytes, reports every write as complete, and reports the limit as exceeded exactly
  when more bytes were written.\<close>

theorem buffer_refines_prefix:
  "Bytes (write_all ws (NewBuffer maxBytes)) = take (nat maxBytes) (concat ws) \<and>
   (BufferErr (write_all ws (NewBuffer maxBytes)) = (if nat maxBytes < length (concat ws) then Some (LimitError maxBytes) else None)) \<and>
   fst (Write w (write_all ws (NewBuffer maxBytes))) = int (length w)"
proof -
  have "holds_prefix maxBytes [] (NewBuffer maxBytes)" by (simp add: holds_prefix_def NewBuffer_def)
  from write_all_prefix [OF this, of ws] show ?thesis
    by (simp add: holds_prefix_def Bytes_def BufferErr_def write_reports)
qed

lemma read_file_exact:
  assumes "0 \<le> maxBytes" "maxBytes < 2 ^ 63 - 1" "infoSize \<le> int (length file)"
  shows "ReadFile None None None infoSize file maxBytes = (if int (length file) \<le> maxBytes then Inr file else Inl (LimitError maxBytes))"
proof -
  have "int64_wrap (maxBytes + 1) = maxBytes + 1" using assms(1,2) by (simp add: int64_wrap_def)
  then show ?thesis using assms by (auto simp: ReadFile_def read_limited_def Let_def min_def nat_le_iff)
qed

end
