(* ===== verification/Request_Id.thy ===== *)
theory Request_Id
  imports Go_Codec "HOL-Library.Word"
begin

text \<open>
  internal/requestid/requestid.go: request identifiers.  The random bytes, the clock and the
  fallback counter are arguments.
\<close>

definition alnum :: "char \<Rightarrow> bool" where
  "alnum c \<longleftrightarrow> in_range 65 90 c \<or> in_range 97 122 c \<or> in_range 48 57 c"

definition id_char :: "char \<Rightarrow> bool" where
  "id_char c \<longleftrightarrow> alnum c \<or> c \<in> set ''._:-''"

text \<open>The regular expression: one alphanumeric byte and up to 127 more of a safe set.\<close>

definition validID :: "string \<Rightarrow> bool" where
  "validID s = (case s of [] \<Rightarrow> False | c # cs \<Rightarrow> alnum c \<and> length cs \<le> 127 \<and> list_all id_char cs)"

definition hex_digit :: "nat \<Rightarrow> char" where
  "hex_digit n = ''0123456789abcdef'' ! n"

definition hex_encode :: "string \<Rightarrow> string" where
  "hex_encode bs = concat (map (\<lambda>b. [hex_digit (byte b div 16), hex_digit (byte b mod 16)]) bs)"

fun hex_nat :: "nat \<Rightarrow> string" where
  "hex_nat n = (if n < 16 then [hex_digit n] else hex_nat (n div 16) @ [hex_digit (n mod 16)])"

declare hex_nat.simps [simp del]

definition hex_int :: "int \<Rightarrow> string" where
  "hex_int i = (if i < 0 then ''-'' @ hex_nat (nat (- i)) else hex_nat (nat i))"

text \<open>The fallback counter is a 64-bit word, the clock a signed 64-bit count of nanoseconds.\<close>

definition NewID :: "string option \<Rightarrow> int \<Rightarrow> 64 word \<Rightarrow> string \<times> 64 word" where
  "NewID random unixNano counter =
     (case random of
        Some bs \<Rightarrow> (''req_'' @ hex_encode bs, counter)
      | None \<Rightarrow> (''req_'' @ hex_int unixNano @ ''_'' @ hex_nat (unat (counter + 1)), counter + 1))"

definition Resolve :: "string \<Rightarrow> string option \<Rightarrow> int \<Rightarrow> 64 word \<Rightarrow> string \<times> 64 word" where
  "Resolve candidate random unixNano counter =
     (if validID candidate then (candidate, counter) else NewID random unixNano counter)"

lemma hex_digit_ok [simp]: "n < 16 \<Longrightarrow> id_char (hex_digit n)"
proof -
  have "\<forall>n \<in> set [0..<16]. id_char (hex_digit n)" by code_simp
  then show "n < 16 \<Longrightarrow> id_char (hex_digit n)" by simp
qed

lemma hex_encode_ok: "list_all id_char (hex_encode bs)" "length (hex_encode bs) = 2 * length bs"
proof (induction bs)
  case (Cons b bs)
  { case 1 have "byte b div 16 < 16" by (rule less_mult_imp_div_less) (use nat_of_char_less_256 [of b] in simp)
    then show ?case using Cons by (simp add: hex_encode_def) }
  { case 2 show ?case using Cons by (simp add: hex_encode_def) }
qed (simp_all add: hex_encode_def)

lemma hex_nat_ok: "list_all id_char (hex_nat n)"
  by (induction n rule: hex_nat.induct) (subst hex_nat.simps, auto)

lemma hex_nat_length: "n < 16 ^ k \<Longrightarrow> 0 < k \<Longrightarrow> length (hex_nat n) \<le> k"
proof (induction k arbitrary: n)
  case (Suc k)
  show ?case
  proof (cases "n < 16")
    case True
    then show ?thesis by (subst hex_nat.simps) simp
  next
    case False
    then have "n div 16 < 16 ^ k" "0 < k" using Suc(2) by (cases k; simp add: less_mult_imp_div_less)+
    from Suc(1) [OF this] show ?thesis using False by (subst hex_nat.simps) simp
  qed
qed simp

lemma hex_int_ok:
  assumes "- (2 ^ 63) \<le> i" "i < 2 ^ 63"
  shows "list_all id_char (hex_int i)" "length (hex_int i) \<le> 17"
proof -
  have "nat (- i) < 16 ^ 16" "nat i < 16 ^ 16" using assms by simp_all
  then have "length (hex_nat (nat (- i))) \<le> 16" "length (hex_nat (nat i)) \<le> 16" by (simp_all add: hex_nat_length)
  then show "length (hex_int i) \<le> 17" by (simp add: hex_int_def)
  have "id_char CHR ''-''" by (simp add: id_char_def)
  then show "list_all id_char (hex_int i)" by (simp add: hex_int_def hex_nat_ok)
qed

lemma prefix_valid: "list_all id_char s \<Longrightarrow> length s \<le> 124 \<Longrightarrow> validID (''req_'' @ s)"
  by (simp add: validID_def alnum_def id_char_def in_range_def)

text \<open>C36: Whatever a caller sends, the identifier that is echoed in headers and logs has the safe
  syntax, whether it is the caller's, random, or made from the clock and the counter; a
  well-formed caller identifier is kept.\<close>

theorem resolve_valid:
  assumes "\<And>bs. random = Some bs \<Longrightarrow> length bs = 16" "- (2 ^ 63) \<le> unixNano" "unixNano < 2 ^ 63"
  shows "validID (fst (Resolve candidate random unixNano counter)) \<and>
    (validID candidate \<longrightarrow> Resolve candidate random unixNano counter = (candidate, counter))"
proof (cases random)
  case None
  have "unat (counter + 1) < 16 ^ 16" using unsigned_less [of "counter + 1", where ?'a = nat] by simp
  then have "length (hex_nat (unat (counter + 1))) \<le> 16" by (simp add: hex_nat_length)
  then have "validID (''req_'' @ hex_int unixNano @ ''_'' @ hex_nat (unat (counter + 1)))"
    using hex_int_ok [OF assms(2,3)] hex_nat_ok by (intro prefix_valid) (simp_all add: id_char_def)
  then show ?thesis using None by (simp add: Resolve_def NewID_def)
next
  case (Some bs)
  then have "validID (''req_'' @ hex_encode bs)" using assms(1) hex_encode_ok by (intro prefix_valid) simp_all
  then show ?thesis using Some by (simp add: Resolve_def NewID_def)
qed

theorem resolve_valid_witness:
  "validID (fst (Resolve ''bad id'' None (- 1) 41)) \<and> fst (Resolve ''bad id'' None (- 1) 41) = ''req_-1_2a'' \<and> \<not> validID ''bad id''"
  using resolve_valid [of None "- 1" "''bad id''" 41] by (simp add: Resolve_def NewID_def hex_int_def hex_nat.simps hex_digit_def validID_def id_char_def alnum_def in_range_def)

end
