(* ===== verification/Backup_Types.thy ===== *)
theory Backup_Types
  imports Go_Zone Go_Codec
begin

text \<open>
  The data of internal/backup: types.go, the persisted state of service.go and the evidence
  records of health.go and snapshot_evidence.go.  Measured durations (floating point seconds,
  only displayed) are left out.
\<close>

datatype backup_error = BNotFound | BInvalid string | BBusy string | BExpired | BOther string

record Schedule =
  bs_frequency :: string
  bs_time :: string
  bs_weekday :: int
  bs_timezone :: string
  bs_interval_hours :: int

definition no_schedule :: Schedule where
  "no_schedule = \<lparr>bs_frequency = '''', bs_time = '''', bs_weekday = 0, bs_timezone = '''', bs_interval_hours = 0\<rparr>"

record Retention =
  rt_daily :: int
  rt_weekly :: int
  rt_monthly :: int

record Assignment =
  as_destination :: string
  as_enabled :: bool
  as_schedule :: Schedule
  as_retention :: Retention
  as_last_scheduled :: "time option"
  as_activated :: "time option"

record Source =
  so_id :: string
  so_kind :: string
  so_stack :: string
  so_service :: string
  so_mount :: string
  so_path :: string
  so_excludes :: "string list"

record Plan =
  pl_id :: string
  pl_name :: string
  pl_enabled :: bool
  pl_consistency :: string
  pl_sources :: "Source list"
  pl_destinations :: "Assignment list"
  pl_staging_max :: int
  pl_staging_ttl :: int
  pl_stop_timeout :: int

record CheckEvidence =
  ce_status :: string
  ce_scope :: string
  ce_checked_at :: "time option"
  ce_error :: string

record CheckHold =
  ch_scope :: string
  ch_checked_at :: "time option"
  ch_error :: string

record Destination =
  de_id :: string
  de_name :: string
  de_kind :: string
  de_repository :: string
  de_expected_filesystem :: string
  de_region :: string
  de_repository_size :: "int option"
  de_credentials :: bool
  de_attempt_at :: "time option"
  de_attempt_policy :: string
  de_attempt_status :: string
  de_attempt_error :: string
  de_metadata_check :: CheckEvidence
  de_data_check :: CheckEvidence
  de_check_hold :: "CheckHold option"
  de_review_token :: string
  de_last_check_at :: "time option"
  de_last_check_policy :: string
  de_check_schedule :: Schedule
  de_check_read_data :: string
  de_prune_schedule :: Schedule
  de_last_check_scheduled :: "time option"
  de_last_prune_scheduled :: "time option"
  de_last_prune_at :: "time option"
  de_check_status :: string
  de_check_error :: string
  de_last_operation :: string
  de_last_operation_status :: string
  de_last_operation_error :: string
  de_last_operation_at :: "time option"
  de_last_restore_test_at :: "time option"
  de_last_restore_test_snapshot :: string
  de_last_inventory_at :: "time option"
  de_last_inventory_attempt :: "time option"
  de_inventory_error :: string
  de_last_success_at :: "time option"
  de_status :: string
  de_error :: string

record CopyResult =
  co_destination :: string
  co_state :: string
  co_snapshot :: string
  co_uploaded_at :: "time option"
  co_verification :: string
  co_verified_at :: "time option"
  co_retention :: string
  co_retention_error :: string
  co_retention_started :: "time option"
  co_retention_completed :: "time option"
  co_error :: string
  co_started_at :: "time option"
  co_completed_at :: "time option"

record Run =
  ru_id :: string
  ru_job :: string
  ru_plan :: string
  ru_plan_name :: string
  ru_state :: string
  ru_capture_state :: string
  ru_phase :: string
  ru_completed_at :: "time option"
  ru_captured_at :: "time option"
  ru_created_at :: time
  ru_expires_at :: time
  ru_copies :: "CopyResult list"
  ru_manifest :: bool
  ru_error :: string

record Snapshot =
  sn_id :: string
  sn_time :: time

record snapshotClassification =
  cl_version :: int
  cl_status :: string
  cl_at :: time

record copyCheckpoint =
  cp_captured_at :: time
  cp_uploaded_at :: "time option"
  cp_snapshot :: string
  cp_run :: string
  cp_selection :: string
  cp_verification :: string
  cp_snapshot_status :: string
  cp_snapshot_checked :: "time option"

record copyAttempt =
  ca_run :: string
  ca_completed_at :: time
  ca_error :: string

text \<open>\<open>persistedRun\<close> is the run with the plan it was started from.  The library of restored
  recovery sets (\<open>Restores\<close>, \<open>RestoreOrder\<close>) and the format version are not modelled.\<close>

record backup_state =
  bk_classifications :: "(string, snapshotClassification) gomap"
  bk_cursors :: "(string, string) gomap"
  bk_copy_attempts :: "(string, copyAttempt) gomap"
  bk_attempts_version :: int
  bk_maintenance_attempts :: "(string, copyAttempt) gomap"
  bk_verified_snapshots :: "(string, time) gomap"
  bk_restore_tests :: "(string, time) gomap"
  bk_checkpoints :: "(string, copyCheckpoint) gomap"
  bk_instance :: string
  bk_destinations :: "(string, Destination) gomap"
  bk_plans :: "(string, Plan) gomap"
  bk_runs :: "(string, Run \<times> Plan) gomap"

definition clockSkewTolerance :: duration where
  "clockSkewTolerance = 5 * Minute"

definition checkpointKey :: "string \<Rightarrow> string \<Rightarrow> string" where
  "checkpointKey planID destinationID = planID @ ''/'' @ destinationID"

definition snapshotEvidenceKey :: "string \<Rightarrow> string \<Rightarrow> string" where
  "snapshotEvidenceKey destinationID snapshotID = destinationID @ ''/'' @ snapshotID"

definition recoveryObjectsVerified :: string where
  "recoveryObjectsVerified = ''recovery_objects_verified''"

text \<open>Verified transfer evidence and pending work of a copy (transfers.go).\<close>

definition verifiedCopy :: "CopyResult \<Rightarrow> bool" where
  "verifiedCopy copy \<longleftrightarrow> co_state copy = ''succeeded'' \<and> co_verification copy = recoveryObjectsVerified \<and>
     co_verified_at copy \<noteq> None \<and> co_snapshot copy \<noteq> ''''"

definition copyWorkPending :: "CopyResult \<Rightarrow> bool" where
  "copyWorkPending copy \<longleftrightarrow> co_state copy = ''pending'' \<or> verifiedCopy copy \<and> co_retention copy = ''pending''"

definition runNeedsStaging :: "Run \<Rightarrow> bool" where
  "runNeedsStaging run = list_ex (\<lambda>copy. co_state copy \<noteq> ''succeeded'') (ru_copies run)"

end
