(* ===== verification/Backup_Schedule.thy ===== *)
theory Backup_Schedule
  imports Backup_Types
begin

text \<open>
  internal/backup/schedule.go: backup schedules.  The system's time zone database is a
  parameter: what \<open>time.LoadLocation\<close> returns for a name, and the host's own zone.
  Interval schedules count from the Unix epoch, calendar schedules use local dates.
\<close>

record tzdb =
  tz_load :: "string \<Rightarrow> Location option"
  tz_local :: Location

section \<open>Parsing\<close>

text \<open>\<open>time.Parse("15:04", v)\<close>: one or two digits for the hour, two for the minute.\<close>

definition getnum :: "bool \<Rightarrow> string \<Rightarrow> (nat \<times> string) option" where
  "getnum fixed v =
     (case v of
        [] \<Rightarrow> None
      | c # r \<Rightarrow>
          if \<not> is_digit c then None
          else
            (case r of
               [] \<Rightarrow> if fixed then None else Some (digits_value [c], [])
             | d # r' \<Rightarrow>
                 if is_digit d then Some (digits_value [c, d], r')
                 else if fixed then None else Some (digits_value [c], r)))"

definition parse_clock :: "string \<Rightarrow> (int \<times> int) option" where
  "parse_clock v =
     (case getnum False v of
        None \<Rightarrow> None
      | Some (hour, r) \<Rightarrow>
          if hour \<ge> 24 then None
          else
            (case r of
               [] \<Rightarrow> None
             | c # r1 \<Rightarrow>
                 if c \<noteq> CHR '':'' then None
                 else
                   (case getnum True r1 of
                      None \<Rightarrow> None
                    | Some (minute, r2) \<Rightarrow> if minute \<ge> 60 \<or> r2 \<noteq> [] then None else Some (int hour, int minute))))"

section \<open>Schedules\<close>

definition validateSchedule :: "tzdb \<Rightarrow> Schedule \<Rightarrow> backup_error option" where
  "validateSchedule tz s =
     (if bs_frequency s = '''' \<or> bs_frequency s = ''manual'' then None
      else if bs_frequency s = ''interval'' then
        (if bs_interval_hours s < 1 \<or> bs_interval_hours s > 168 then Some (BInvalid ''interval_hours must be 1 to 168'') else None)
      else if bs_frequency s \<noteq> ''daily'' \<and> bs_frequency s \<noteq> ''weekly'' then
        Some (BInvalid ''schedule frequency must be manual, interval, daily, or weekly'')
      else if parse_clock (bs_time s) = None then Some (BInvalid ''schedule time must be HH:MM'')
      else if bs_weekday s < 0 \<or> bs_weekday s > 6 then Some (BInvalid ''schedule weekday must be 0 to 6'')
      else if bs_timezone s \<noteq> '''' \<and> tz_load tz (bs_timezone s) = None then Some (BInvalid ''unknown schedule timezone'')
      else None)"

text \<open>The location with the name \<open>Location.String\<close> gives it.\<close>

definition scheduleLocation :: "tzdb \<Rightarrow> Schedule \<Rightarrow> string \<times> Location" where
  "scheduleLocation tz s =
     (if bs_frequency s = ''interval'' then (''UTC'', UTC)
      else if bs_timezone s \<noteq> '''' then
        (case tz_load tz (bs_timezone s) of Some loc \<Rightarrow> (bs_timezone s, loc) | None \<Rightarrow> (''Local'', tz_local tz))
      else (''Local'', tz_local tz))"

abbreviation schedule_zone :: "tzdb \<Rightarrow> Schedule \<Rightarrow> Location" where
  "schedule_zone tz s \<equiv> snd (scheduleLocation tz s)"

definition day_of_month :: "int \<Rightarrow> nat" where
  "day_of_month day = cday (civil_of_day (nat day))"

definition calendarOccurrence :: "tzdb \<Rightarrow> Schedule \<Rightarrow> time \<Rightarrow> time option" where
  "calendarOccurrence tz s date =
     (case parse_clock (bs_time s) of
        None \<Rightarrow> None
      | Some (hour, minute) \<Rightarrow>
          (let loc = schedule_zone tz s;
               candidate = go_date loc (local_day loc date) (hour * 3600 + minute * 60) 0
           in if local_clock loc candidate div 3600 \<noteq> hour \<or> local_clock loc candidate mod 3600 div 60 \<noteq> minute \<or>
                 day_of_month (local_day loc candidate) \<noteq> day_of_month (local_day loc date) then None
              else if bs_frequency s = ''weekly'' \<and> int (weekday_of (local_day loc candidate)) \<noteq> bs_weekday s then None
              else Some candidate))"

definition unix_epoch_seconds :: int where
  "unix_epoch_seconds = 62135596800"

definition Unix :: "time \<Rightarrow> int" where
  "Unix t = t div Second - unix_epoch_seconds"

definition time_unix :: "int \<Rightarrow> time" where
  "time_unix sec = (sec + unix_epoch_seconds) * Second"

text \<open>Integer division of Go truncates towards zero.\<close>

definition go_div :: "int \<Rightarrow> int \<Rightarrow> int" where
  "go_div a b = (if a \<ge> 0 then a div b else - ((- a) div b))"

fun due_scan :: "tzdb \<Rightarrow> Schedule \<Rightarrow> time \<Rightarrow> int list \<Rightarrow> time option" where
  "due_scan tz s now [] = None"
| "due_scan tz s now (days # rest) =
     (case calendarOccurrence tz s (AddDays (schedule_zone tz s) now (- days)) of
        Some candidate \<Rightarrow> if candidate \<le> now then Some candidate else due_scan tz s now rest
      | None \<Rightarrow> due_scan tz s now rest)"

definition latestDue :: "tzdb \<Rightarrow> Schedule \<Rightarrow> time \<Rightarrow> time option" where
  "latestDue tz s now =
     (if validateSchedule tz s \<noteq> None \<or> bs_frequency s = ''manual'' \<or> bs_frequency s = '''' then None
      else if bs_frequency s = ''interval'' then
        (let seconds = bs_interval_hours s * 3600 in Some (time_unix (go_div (Unix now) seconds * seconds)))
      else due_scan tz s now [0..14])"

fun preview_scan :: "tzdb \<Rightarrow> Schedule \<Rightarrow> time \<Rightarrow> nat \<Rightarrow> int list \<Rightarrow> time list" where
  "preview_scan tz s from n [] = []"
| "preview_scan tz s from n (days # rest) =
     (if n = 0 then []
      else
        (case calendarOccurrence tz s (AddDays (schedule_zone tz s) from days) of
           Some candidate \<Rightarrow>
             if candidate > from then candidate # preview_scan tz s from (n - 1) rest else preview_scan tz s from n rest
         | None \<Rightarrow> preview_scan tz s from n rest))"

definition PreviewSchedule :: "tzdb \<Rightarrow> Schedule \<Rightarrow> time \<Rightarrow> int \<Rightarrow> backup_error + time list" where
  "PreviewSchedule tz s from count =
     (case validateSchedule tz s of
        Some e \<Rightarrow> Inl e
      | None \<Rightarrow>
          if count < 1 \<or> count > 10 then Inl (BInvalid ''schedule preview count must be 1 to 10'')
          else if bs_frequency s = ''manual'' \<or> bs_frequency s = '''' then Inr []
          else if bs_frequency s = ''interval'' then
            (let due = (case latestDue tz s from of Some t \<Rightarrow> t | None \<Rightarrow> 0);
                 interval = bs_interval_hours s * Hour
             in Inr (map (\<lambda>i. due + i * interval) [1..count]))
          else Inr (preview_scan tz s from (nat count) [0..99]))"

text \<open>The displayed zone; instants carry no zone here, so converting them to UTC changes nothing.\<close>

definition SchedulePreview :: "tzdb \<Rightarrow> time \<Rightarrow> Schedule \<Rightarrow> int option \<Rightarrow> backup_error option \<times> time list \<times> string" where
  "SchedulePreview tz now s requested =
     (let count = (case requested of Some c \<Rightarrow> if c \<noteq> 0 then c else 5 | None \<Rightarrow> 5);
          zone = fst (scheduleLocation tz s);
          shown = (if zone = ''Local'' then ''UTC'' else zone)
      in case PreviewSchedule tz s now count of
           Inl e \<Rightarrow> (Some e, [], shown)
         | Inr occurrences \<Rightarrow> (None, occurrences, shown))"

definition occurrencePending :: "time option \<Rightarrow> time \<Rightarrow> time \<Rightarrow> bool" where
  "occurrencePending lastRun due now = (case lastRun of None \<Rightarrow> True | Some l \<Rightarrow> l > now + clockSkewTolerance \<or> l < due)"

text \<open>The instant after which an occurrence is outstanding; 0 is Go's zero time.\<close>

definition outstanding_from :: "Assignment \<Rightarrow> time option \<Rightarrow> time \<Rightarrow> time" where
  "outstanding_from assignment captured now =
     (let from = (case captured of Some c \<Rightarrow> if c > now + clockSkewTolerance then 0 else c | None \<Rightarrow> 0)
      in case as_activated assignment of
           None \<Rightarrow> from
         | Some activated \<Rightarrow>
             if activated > now + clockSkewTolerance then from
             else if time_is_zero from \<or> activated - Nanosecond > from then activated - Nanosecond else from)"

definition firstOutstandingDue :: "tzdb \<Rightarrow> Assignment \<Rightarrow> time option \<Rightarrow> time \<Rightarrow> duration \<Rightarrow> time option" where
  "firstOutstandingDue tz assignment captured now grace =
     (let from = outstanding_from assignment captured now
      in if time_is_zero from then latestDue tz (as_schedule assignment) (now - grace - Nanosecond)
         else
           (case PreviewSchedule tz (as_schedule assignment) from 1 of
              Inl _ \<Rightarrow> None
            | Inr [] \<Rightarrow> None
            | Inr (next # _) \<Rightarrow> if next > now then None else Some next))"


section \<open>Occurrences\<close>

text \<open>The instants a schedule names, in a zone without transitions.\<close>

definition backup_occurrence :: "tzdb \<Rightarrow> Schedule \<Rightarrow> time \<Rightarrow> bool" where
  "backup_occurrence tz s t \<longleftrightarrow>
     (if bs_frequency s = ''interval'' then \<exists>k. t = time_unix (k * (bs_interval_hours s * 3600))
      else \<exists>d hour minute. parse_clock (bs_time s) = Some (hour, minute) \<and>
             t = go_date (schedule_zone tz s) d (hour * 3600 + minute * 60) 0 \<and>
             (bs_frequency s = ''weekly'' \<longrightarrow> int (weekday_of d) = bs_weekday s))"

lemma parse_clock_bounds:
  assumes "parse_clock v = Some (hour, minute)"
  shows "0 \<le> hour" "hour < 24" "0 \<le> minute" "minute < 60" "0 \<le> hour * 3600 + minute * 60" "hour * 3600 + minute * 60 < 86400"
proof -
  show "0 \<le> hour" "hour < 24" "0 \<le> minute" "minute < 60"
    using assms by (auto simp: parse_clock_def split: option.splits prod.splits list.splits if_splits)
  then show "0 \<le> hour * 3600 + minute * 60" "hour * 3600 + minute * 60 < 86400" by linarith+
qed

lemma clock_fields:
  assumes "0 \<le> hour" "0 \<le> minute" "minute < (60::int)"
  shows "(hour * 3600 + minute * 60) div 3600 = hour" "(hour * 3600 + minute * 60) mod 3600 div 60 = minute"
proof -
  have "(hour * 3600 + minute * 60) div 3600 = hour + minute * 60 div 3600" by simp
  then show "(hour * 3600 + minute * 60) div 3600 = hour" using assms by simp
  have "(hour * 3600 + minute * 60) mod 3600 = minute * 60" using assms by (simp add: mod_mult_self3)
  then show "(hour * 3600 + minute * 60) mod 3600 div 60 = minute" by simp
qed

lemma calendar_fixed:
  assumes "fixed_zone (schedule_zone tz s)" "parse_clock (bs_time s) = Some (hour, minute)"
  shows "calendarOccurrence tz s date =
    (if bs_frequency s = ''weekly'' \<and> int (weekday_of (local_day (schedule_zone tz s) date)) \<noteq> bs_weekday s then None
     else Some (go_date (schedule_zone tz s) (local_day (schedule_zone tz s) date) (hour * 3600 + minute * 60) 0))"
proof -
  note b = parse_clock_bounds [OF assms(2)]
  note p = fixed_date_parts [OF assms(1) b(5,6), of 0]
  show ?thesis
    using assms(2) b by (simp add: calendarOccurrence_def Let_def p Second_def clock_fields)
qed

text \<open>Whether a day of a calendar schedule has an occurrence.\<close>

definition day_ok :: "Schedule \<Rightarrow> int \<Rightarrow> bool" where
  "day_ok s d \<longleftrightarrow> (bs_frequency s = ''weekly'' \<longrightarrow> int (weekday_of d) = bs_weekday s)"

lemma due_scan_find:
  fixes now :: time
  assumes "fixed_zone (schedule_zone tz s)" "parse_clock (bs_time s) = Some (hour, minute)"
  defines "day \<equiv> \<lambda>k. local_day (schedule_zone tz s) now - k"
    and "at \<equiv> \<lambda>d. go_date (schedule_zone tz s) d (hour * 3600 + minute * 60) 0"
  shows "due_scan tz s now ks = map_option (\<lambda>k. at (day k)) (find (\<lambda>k. day_ok s (day k) \<and> at (day k) \<le> now) ks)"
  by (induction ks) (auto simp: calendar_fixed [OF assms(1,2)] fixed_AddDays_day [OF assms(1)] day_ok_def day_def at_def)

lemma preview_scan_take:
  fixes "from" :: time
  assumes "fixed_zone (schedule_zone tz s)" "parse_clock (bs_time s) = Some (hour, minute)"
  defines "day \<equiv> \<lambda>k. local_day (schedule_zone tz s) from + k"
    and "at \<equiv> \<lambda>d. go_date (schedule_zone tz s) d (hour * 3600 + minute * 60) 0"
  shows "preview_scan tz s from n ks = take n (map (\<lambda>k. at (day k)) (filter (\<lambda>k. day_ok s (day k) \<and> from < at (day k)) ks))"
  by (induction ks arbitrary: n)
     (auto simp: calendar_fixed [OF assms(1,2)] fixed_AddDays_day [OF assms(1)] day_ok_def day_def at_def take_Cons')

lemma day_ok_within:
  assumes "0 \<le> bs_weekday s" "bs_weekday s \<le> 6"
  shows "\<exists>k \<in> {0..6}. day_ok s (d - k)" "\<exists>k \<in> {0..6}. day_ok s (d + k)"
proof -
  have n: "nat (bs_weekday s) < 7" using assms by simp
  have ok: "day_ok s e" if "weekday_of e = nat (bs_weekday s)" for e using that assms(1) by (simp add: day_ok_def)
  show "\<exists>k \<in> {0..6}. day_ok s (d - k)" using weekday_within(1) [OF n, of d] ok by blast
  show "\<exists>k \<in> {0..6}. day_ok s (d + k)" using weekday_within(2) [OF n, of d] ok by blast
qed


lemma latest_calendar:
  assumes "fixed_zone (schedule_zone tz s)" "parse_clock (bs_time s) = Some (hour, minute)" "0 \<le> bs_weekday s" "bs_weekday s \<le> 6"
  defines "at \<equiv> \<lambda>d. go_date (schedule_zone tz s) d (hour * 3600 + minute * 60) 0"
  shows "\<exists>d. due_scan tz s now [0..14] = Some (at d) \<and> day_ok s d \<and> at d \<le> now \<and> (\<forall>e. day_ok s e \<and> at e \<le> now \<longrightarrow> e \<le> d)"
proof -
  note b = parse_clock_bounds(5,6) [OF assms(2)]
  let ?D = "local_day (schedule_zone tz s) now"
  have day: "at d \<le> t \<longleftrightarrow> d < local_day (schedule_zone tz s) t \<or>
      (d = local_day (schedule_zone tz s) t \<and> hour * 3600 + minute * 60 \<le> local_clock (schedule_zone tz s) t)" for d t
    unfolding at_def by (rule fixed_same_day [OF assms(1) b])
  let ?P = "\<lambda>k. day_ok s (?D - k) \<and> at (?D - k) \<le> now"
  obtain k where k: "k \<in> {0..6}" "day_ok s (?D - 1 - k)" using day_ok_within(1) [OF assms(3,4)] by blast
  have eq: "?D - (k + 1) = ?D - 1 - k" by simp
  have "?P (k + 1)" unfolding eq using k day [of "?D - 1 - k" now] by simp
  moreover have "k + 1 \<in> set [0..14]" using k(1) by auto
  ultimately obtain j where j: "find ?P [0..14] = Some j" by (cases "find ?P [0..14]") (auto simp: find_None_iff)
  then have sj: "j \<in> set [0..14]" "?P j" by (auto simp: find_Some_iff)
  have "e \<le> ?D - j" if "day_ok s e" "at e \<le> now" for e
  proof (rule ccontr)
    assume "\<not> e \<le> ?D - j"
    moreover have "e \<le> ?D" using day [of e now] that(2) by linarith
    ultimately have "?D - e \<in> set [0..14]" "?D - e < j" using sj(1) by auto
    then show False using find_least [OF _ j, of "?D - e"] that by simp
  qed
  then show ?thesis using j sj(2) due_scan_find [OF assms(1,2), of now "[0..14]"] unfolding at_def by auto
qed

lemma enough_days:
  assumes "0 \<le> bs_weekday s" "bs_weekday s \<le> 6" "\<And>d. D < d \<Longrightarrow> Q d"
  shows "10 \<le> length (filter (\<lambda>k. day_ok s (D + k) \<and> Q (D + k)) [0..99])"
proof -
  have "\<exists>k. k \<in> {7 * int i + 1..7 * int i + 7} \<and> day_ok s (D + k)" for i
  proof -
    obtain k where "k \<in> {0..6}" "day_ok s (D + 7 * int i + 1 + k)" using day_ok_within(2) [OF assms(1,2)] by blast
    then show ?thesis by (intro exI [of _ "7 * int i + 1 + k"]) (simp add: add.assoc)
  qed
  then obtain g where g: "\<And>i. g i \<in> {7 * int i + 1..7 * int i + 7}" "\<And>i. day_ok s (D + g i)" by metis
  let ?S = "{k \<in> {0..99}. day_ok s (D + k) \<and> Q (D + k)}"
  have "inj_on g {..<10}"
  proof (rule inj_onI)
    fix i j assume "g i = g j"
    then show "i = j" using g(1) [of i] g(1) [of j] by auto
  qed
  then have "10 = card (g ` {..<10})" by (simp add: card_image)
  moreover have "g ` {..<10} \<subseteq> ?S"
  proof
    fix k assume "k \<in> g ` {..<10}"
    then obtain i where i: "i < 10" "k = g i" by auto
    then show "k \<in> ?S" using g [of i] assms(3) by auto
  qed
  moreover have "finite ?S" by (rule finite_subset [of _ "{0..99}"]) auto
  ultimately have "10 \<le> card ?S" using card_mono by metis
  also have "?S = set (filter (\<lambda>k. day_ok s (D + k) \<and> Q (D + k)) [0..99])" by auto
  also have "card \<dots> \<le> length (filter (\<lambda>k. day_ok s (D + k) \<and> Q (D + k)) [0..99])" by (rule card_length)
  finally show ?thesis .
qed


lemma set_take_drop: "set xs = set (take n xs) \<union> set (drop n xs)"
  by (metis append_take_drop_id set_append)

lemma preview_calendar:
  fixes now :: time
  assumes "fixed_zone (schedule_zone tz s)" "parse_clock (bs_time s) = Some (hour, minute)" "0 \<le> bs_weekday s" "bs_weekday s \<le> 6" "n \<le> 10"
  defines "at \<equiv> \<lambda>d. go_date (schedule_zone tz s) d (hour * 3600 + minute * 60) 0"
  defines "ts \<equiv> preview_scan tz s now n [0..99]"
  shows "length ts = n" "sorted_wrt (<) ts" "\<forall>t \<in> set ts. now < t \<and> (\<exists>d. t = at d \<and> day_ok s d)"
    "\<forall>d. day_ok s d \<and> now < at d \<longrightarrow> at d \<in> set ts \<or> (\<forall>x \<in> set ts. x < at d)"
proof -
  note b = parse_clock_bounds(5,6) [OF assms(2)]
  let ?D = "local_day (schedule_zone tz s) now"
  let ?P = "\<lambda>k. day_ok s (?D + k) \<and> now < at (?D + k)"
  let ?L = "map (\<lambda>k. at (?D + k)) (filter ?P [0..99])"
  have day: "now < at d" if "?D < d" for d
    using fixed_same_day [OF assms(1) b, of d now] that unfolding at_def by linarith
  have below: "\<not> now < at d" if "d < ?D" for d
    using fixed_same_day [OF assms(1) b, of d now] that unfolding at_def by linarith
  have less: "at d < at e \<longleftrightarrow> d < e" for d e unfolding at_def by (rule fixed_date_less [OF assms(1) b])
  have ts: "ts = take n ?L" unfolding ts_def at_def by (rule preview_scan_take [OF assms(1,2)])
  show "length ts = n" using enough_days [OF assms(3,4), of ?D "\<lambda>d. now < at d", OF day] assms(5) by (simp add: ts)
  have srt: "sorted_wrt (<) ?L"
    by (rule sorted_wrt_map [THEN iffD2], rule sorted_wrt_mono_rel [OF _ sorted_wrt_filter [OF sorted_wrt_upto]]) (simp add: less)
  then show "sorted_wrt (<) ts" unfolding ts by (rule sorted_wrt_take)
  have mem: "\<exists>k. k \<le> 99 \<and> t = at (?D + k) \<and> ?P k" if "t \<in> set ts" for t
    using in_set_takeD [OF that [unfolded ts]] by auto
  then show "\<forall>t \<in> set ts. now < t \<and> (\<exists>d. t = at d \<and> day_ok s d)" by blast
  show "\<forall>d. day_ok s d \<and> now < at d \<longrightarrow> at d \<in> set ts \<or> (\<forall>x \<in> set ts. x < at d)"
  proof (intro allI impI)
    fix d assume d: "day_ok s d \<and> now < at d"
    then have "?D \<le> d" using below by force
    show "at d \<in> set ts \<or> (\<forall>x \<in> set ts. x < at d)"
    proof (cases "d \<le> ?D + 99")
      case True
      then have "at d \<in> set ?L" using d \<open>?D \<le> d\<close> by (auto intro!: image_eqI [of _ _ "d - ?D"])
      then consider "at d \<in> set (take n ?L)" | "at d \<in> set (drop n ?L)"
        using set_take_drop [of ?L n] by blast
      then show ?thesis
      proof cases
        case 2
        have "sorted_wrt (<) (take n ?L @ drop n ?L)" using srt by simp
        then show ?thesis using 2 unfolding ts sorted_wrt_append by blast
      qed (simp add: ts)
    next
      case False
      have "x < at d" if "x \<in> set ts" for x using mem [OF that] less False by fastforce
      then show ?thesis by blast
    qed
  qed
qed


lemma mult_le_iff_le_div:
  assumes "0 < (k :: int)"
  shows "u * k \<le> t \<longleftrightarrow> u \<le> t div k"
proof
  assume "u * k \<le> t"
  then have "u * k div k \<le> t div k" using assms by (intro zdiv_mono1)
  then show "u \<le> t div k" using assms by simp
next
  assume "u \<le> t div k"
  then have "u * k \<le> t div k * k" using assms by simp
  also have "\<dots> \<le> t" using div_mult_mod_eq [of t k] pos_mod_sign [OF assms, of t] by linarith
  finally show "u * k \<le> t" .
qed

lemma time_unix_less: "time_unix a \<le> t \<longleftrightarrow> a \<le> Unix t" "t < time_unix a \<longleftrightarrow> Unix t < a"
proof -
  show "time_unix a \<le> t \<longleftrightarrow> a \<le> Unix t"
    unfolding time_unix_def Unix_def using mult_le_iff_le_div [of Second "a + unix_epoch_seconds" t] by (auto simp: Second_def)
  then show "t < time_unix a \<longleftrightarrow> Unix t < a" by linarith
qed

lemma interval_step:
  assumes "0 < p" "time_unix 0 \<le> now"
  shows "\<exists>q. go_div (Unix now) p * p = q * p \<and> time_unix (q * p) \<le> now \<and> now < time_unix ((q + 1) * p)"
proof -
  have u: "0 \<le> Unix now" using assms(2) by (simp add: time_unix_less)
  have "Unix now div p * p \<le> Unix now" "\<not> (Unix now div p + 1) * p \<le> Unix now"
    using assms(1) by (simp_all add: mult_le_iff_le_div)
  then show ?thesis using u by (intro exI [of _ "Unix now div p"]) (simp add: go_div_def time_unix_less)
qed


definition exact_times :: "tzdb \<Rightarrow> Schedule \<Rightarrow> time \<Rightarrow> time \<Rightarrow> time list \<Rightarrow> bool" where
  "exact_times tz s now due ts \<longleftrightarrow> backup_occurrence tz s due \<and> due \<le> now \<and> sorted_wrt (<) ts \<and>
     (\<forall>t \<in> set ts. now < t \<and> backup_occurrence tz s t) \<and>
     (\<forall>t. backup_occurrence tz s t \<longrightarrow> t \<le> due \<or> t \<in> set ts \<or> (\<forall>x \<in> set ts. x < t))"

lemma interval_exact:
  assumes "validateSchedule tz s = None" "bs_frequency s = ''interval''" "time_unix 0 \<le> now" "1 \<le> n" "n \<le> 10"
  shows "\<exists>due ts. latestDue tz s now = Some due \<and> PreviewSchedule tz s now n = Inr ts \<and> length ts = nat n \<and> exact_times tz s now due ts"
proof -
  define p where "p = bs_interval_hours s * 3600"
  have p: "0 < p" using assms(1,2) by (auto simp: validateSchedule_def p_def split: if_splits)
  obtain q where q: "go_div (Unix now) p * p = q * p" "time_unix (q * p) \<le> now" "now < time_unix ((q + 1) * p)"
    using interval_step [OF p assms(3)] by blast
  let ?ts = "map (\<lambda>i. time_unix ((q + i) * p)) [1..n]"
  have less: "time_unix (a * p) < time_unix (b * p) \<longleftrightarrow> a < b" for a b using p by (simp add: time_unix_def Second_def)
  have due: "latestDue tz s now = Some (time_unix (q * p))"
    using assms(1,2) by (simp add: latestDue_def Let_def q(1) flip: p_def)
  have shift: "time_unix (q * p) + i * (bs_interval_hours s * Hour) = time_unix ((q + i) * p)" for i
    by (simp add: time_unix_def p_def Hour_def Minute_def algebra_simps)
  have "PreviewSchedule tz s now n = Inr ?ts"
    using assms(1,2,4,5) due by (simp add: PreviewSchedule_def shift)
  moreover have "exact_times tz s now (time_unix (q * p)) ?ts"
    unfolding exact_times_def
  proof (intro conjI)
    show "backup_occurrence tz s (time_unix (q * p))" using assms(2) by (auto simp: backup_occurrence_def p_def)
    show "sorted_wrt (<) ?ts"
      by (rule sorted_wrt_map [THEN iffD2], rule sorted_wrt_mono_rel [OF _ sorted_wrt_upto]) (simp add: less)
    have "now < time_unix ((q + i) * p)" if "1 \<le> i" for i
      using q(3) less [of "q + 1" "q + i"] that by (cases "i = 1") auto
    then show "\<forall>t \<in> set ?ts. now < t \<and> backup_occurrence tz s t" using assms(2) by (auto simp: backup_occurrence_def p_def)
    show "\<forall>t. backup_occurrence tz s t \<longrightarrow> t \<le> time_unix (q * p) \<or> t \<in> set ?ts \<or> (\<forall>x \<in> set ?ts. x < t)"
    proof (intro allI impI)
      fix t assume "backup_occurrence tz s t"
      then obtain k where k: "t = time_unix (k * p)" using assms(2) by (auto simp: backup_occurrence_def p_def)
      consider "k \<le> q" | "q + 1 \<le> k" "k \<le> q + n" | "q + n < k" by linarith
      then show "t \<le> time_unix (q * p) \<or> t \<in> set ?ts \<or> (\<forall>x \<in> set ?ts. x < t)"
      proof cases
        case 1
        then show ?thesis using less [of q k] k by (simp add: not_less)
      next
        case 2
        then show ?thesis unfolding k by (auto intro!: image_eqI [of _ _ "k - q"])
      next
        case 3
        then show ?thesis unfolding k by (auto simp: less)
      qed
    qed
  qed (rule q(2))
  ultimately show ?thesis using due assms(4) by (intro exI [of _ "time_unix (q * p)"] exI [of _ ?ts]) simp
qed

lemma calendar_exact:
  assumes "validateSchedule tz s = None" "bs_frequency s \<noteq> ''manual''" "bs_frequency s \<noteq> ''''" "bs_frequency s \<noteq> ''interval''"
    "fixed_zone (schedule_zone tz s)" "1 \<le> n" "n \<le> 10"
  shows "\<exists>due ts. latestDue tz s now = Some due \<and> PreviewSchedule tz s now n = Inr ts \<and> length ts = nat n \<and> exact_times tz s now due ts"
proof -
  obtain hour minute where c: "parse_clock (bs_time s) = Some (hour, minute)" and w: "0 \<le> bs_weekday s" "bs_weekday s \<le> 6"
    using assms(1-4) by (cases "parse_clock (bs_time s)") (auto simp: validateSchedule_def split: if_splits)
  define at where "at = (\<lambda>d. go_date (schedule_zone tz s) d (hour * 3600 + minute * 60) 0)"
  have occ: "backup_occurrence tz s t \<longleftrightarrow> (\<exists>d. t = at d \<and> day_ok s d)" for t
    using assms(4) c by (auto simp: backup_occurrence_def at_def day_ok_def)
  have less: "at d < at e \<longleftrightarrow> d < e" for d e
    unfolding at_def by (rule fixed_date_less [OF assms(5) parse_clock_bounds(5,6) [OF c]])
  obtain d where d: "due_scan tz s now [0..14] = Some (at d)" "day_ok s d" "at d \<le> now" "\<And>e. day_ok s e \<and> at e \<le> now \<longrightarrow> e \<le> d"
    using latest_calendar [OF assms(5) c w, of now] unfolding at_def by blast
  define ts where "ts = preview_scan tz s now (nat n) [0..99]"
  note ts = preview_calendar [OF assms(5) c w, of "nat n" now, folded ts_def]
  have n: "nat n \<le> 10" using assms(7) by simp
  have "exact_times tz s now (at d) ts"
    unfolding exact_times_def
  proof (intro conjI)
    show "\<forall>t. backup_occurrence tz s t \<longrightarrow> t \<le> at d \<or> t \<in> set ts \<or> (\<forall>x \<in> set ts. x < t)"
    proof (intro allI impI)
      fix t assume "backup_occurrence tz s t"
      then obtain e where e: "t = at e" "day_ok s e" by (auto simp: occ)
      show "t \<le> at d \<or> t \<in> set ts \<or> (\<forall>x \<in> set ts. x < t)"
      proof (cases "at e \<le> now")
        case True
        then have "\<not> at d < at e" using d(4) [of e] e(2) less by simp
        then show ?thesis using e(1) by simp
      next
        case False
        then show ?thesis using ts(4) [OF n] e unfolding at_def by (simp add: not_le)
      qed
    qed
    show "\<forall>t \<in> set ts. now < t \<and> backup_occurrence tz s t" using ts(3) [OF n] unfolding occ at_def .
  qed (use d ts(2) [OF n] occ in auto)
  moreover have "latestDue tz s now = Some (at d)" using assms(1-4) d(1) by (simp add: latestDue_def)
  moreover have "PreviewSchedule tz s now n = Inr ts" using assms(1-4,6,7) by (simp add: PreviewSchedule_def ts_def)
  ultimately show ?thesis using ts(1) [OF n] by blast
qed

text \<open>C35: In a zone without clock changes the schedule arithmetic is exact: the due time is the greatest
  occurrence up to now, and a preview lists the next occurrences in order, none skipped and as
  many as asked for; an interval schedule counts from the Unix epoch.\<close>

theorem backup_schedule_exact:
  assumes "validateSchedule tz s = None" "bs_frequency s \<noteq> ''manual''" "bs_frequency s \<noteq> ''''"
    "fixed_zone (schedule_zone tz s)" "time_unix 0 \<le> now" "1 \<le> n" "n \<le> 10"
  shows "\<exists>due ts. latestDue tz s now = Some due \<and> PreviewSchedule tz s now n = Inr ts \<and> length ts = nat n \<and>
    backup_occurrence tz s due \<and> due \<le> now \<and> sorted_wrt (<) ts \<and> (\<forall>t \<in> set ts. now < t \<and> backup_occurrence tz s t) \<and>
    (\<forall>t. backup_occurrence tz s t \<longrightarrow> t \<le> due \<or> t \<in> set ts \<or> (\<forall>x \<in> set ts. x < t))"
proof (cases "bs_frequency s = ''interval''")
  case True
  show ?thesis using interval_exact [OF assms(1) True assms(5-7)] unfolding exact_times_def .
next
  case False
  show ?thesis using calendar_exact [OF assms(1-3) False assms(4,6,7)] unfolding exact_times_def .
qed


definition example_zones :: tzdb where
  "example_zones = \<lparr>tz_load = (\<lambda>_. None), tz_local = \<lparr>loc_first = 3600, loc_trans = []\<rparr>\<rparr>"

definition example_weekly :: Schedule where
  "example_weekly = \<lparr>bs_frequency = ''weekly'', bs_time = ''2:30'', bs_weekday = 6, bs_timezone = '''', bs_interval_hours = 0\<rparr>"

lemma example_weekly_valid:
  "validateSchedule example_zones example_weekly = None" "fixed_zone (schedule_zone example_zones example_weekly)"
  by (code_simp, simp add: example_zones_def example_weekly_def scheduleLocation_def fixed_zone_def)

theorem backup_schedule_exact_witness:
  "\<exists>due ts. latestDue example_zones example_weekly (time_unix 1800000000) = Some due \<and>
     PreviewSchedule example_zones example_weekly (time_unix 1800000000) 3 = Inr ts \<and> length ts = 3 \<and> due \<le> time_unix 1800000000 \<and>
     backup_occurrence example_zones example_weekly due"
  using backup_schedule_exact [OF example_weekly_valid(1) _ _ example_weekly_valid(2), of "time_unix 1800000000" 3]
  by (auto simp: example_weekly_def time_unix_def Second_def)

text \<open>A zone whose clocks go forward at midnight.  Moving by whole days from a time in the first hour
  lands on the day before, so that day is visited twice and the next one not at all.\<close>

definition midnight_zones :: tzdb where
  "midnight_zones = \<lparr>tz_load = (\<lambda>_. None), tz_local = \<lparr>loc_first = - 10800, loc_trans = [(737000 * 86400 + 10800, - 7200)]\<rparr>\<rparr>"

definition example_daily :: Schedule where
  "example_daily = \<lparr>bs_frequency = ''daily'', bs_time = ''12:00'', bs_weekday = 0, bs_timezone = '''', bs_interval_hours = 0\<rparr>"

lemma preview_repeats_after_midnight_gap:
  "PreviewSchedule midnight_zones example_daily ((736999 * 86400 + 1800 + 10800) * Second) 3 =
     Inr [(736999 * 86400 + 15 * 3600) * Second, (736999 * 86400 + 15 * 3600) * Second, (737001 * 86400 + 14 * 3600) * Second]"
proof -
  have v: "validateSchedule midnight_zones example_daily = None" by code_simp
  have clock: "parse_clock ''12:00'' = Some (12, 0)" by code_simp
  have z: "schedule_zone midnight_zones example_daily = \<lparr>loc_first = - 10800, loc_trans = [(63676810800, - 7200)]\<rparr>"
    by (simp add: midnight_zones_def example_daily_def scheduleLocation_def)
  have f: "bs_frequency example_daily = ''daily''" "bs_time example_daily = ''12:00''" by (simp_all add: example_daily_def)
  define rest where "rest = [3..99::int]"
  have l: "[0..99] = 0 # 1 # 2 # rest" by (simp add: upto_rec1 rest_def)
  have n: "preview_scan tz s t 0 ks = []" for tz s t ks by (cases ks) simp_all
  let ?Z = "schedule_zone midnight_zones example_daily"
  note zone = z go_date_def local_day_def local_clock_def local_seconds_def zone_offset_def zone_lookup_def in_zone_def Second_def
  define t0 where "t0 = (736999 * 86400 + 1800 + 10800) * Second"
  define a where "a = (736999 * 86400 + 15 * 3600) * Second"
  define b where "b = (737001 * 86400 + 14 * 3600) * Second"
  have days: "local_day ?Z (AddDays ?Z t0 0) = 736999" "local_day ?Z (AddDays ?Z t0 1) = 736999" "local_day ?Z (AddDays ?Z t0 2) = 737001"
    by (simp_all add: AddDays_def zone t0_def)
  have at: "go_date ?Z 736999 43200 0 = a" "go_date ?Z 737001 43200 0 = b" by (simp_all add: zone a_def b_def)
  have rd: "local_day ?Z a = 736999" "local_clock ?Z a = 43200" "local_day ?Z b = 737001" "local_clock ?Z b = 43200"
    by (simp_all add: zone a_def b_def)
  have hc: "12 * 3600 + 0 * 60 = (43200 :: int)" by simp
  have occ: "calendarOccurrence midnight_zones example_daily (AddDays ?Z t0 0) = Some a"
    "calendarOccurrence midnight_zones example_daily (AddDays ?Z t0 1) = Some a"
    "calendarOccurrence midnight_zones example_daily (AddDays ?Z t0 2) = Some b"
    unfolding calendarOccurrence_def f clock by (simp_all only: option.case prod.case Let_def days hc at rd) simp_all
  have "t0 < a" "t0 < b" by (simp_all add: t0_def a_def b_def Second_def)
  then show ?thesis
    unfolding PreviewSchedule_def v l t0_def [symmetric] a_def [symmetric] b_def [symmetric] by (simp add: f n occ)
qed


section \<open>Outstanding occurrences\<close>

text \<open>The first unsatisfied deadline of a known capture or activation does not move while time passes,
  in any zone and whatever the grace period.\<close>

lemma outstanding_due_stable:
  assumes "firstOutstandingDue tz a captured now grace = Some due" "now \<le> now'" "\<not> time_is_zero (outstanding_from a captured now)"
    "\<And>c. captured = Some c \<Longrightarrow> c \<le> now + clockSkewTolerance" "\<And>c. as_activated a = Some c \<Longrightarrow> c \<le> now + clockSkewTolerance"
  shows "firstOutstandingDue tz a captured now' grace' = Some due"
proof -
  have "outstanding_from a captured now' = outstanding_from a captured now"
    using assms(2,4,5) by (cases captured; cases "as_activated a") (force simp: outstanding_from_def Let_def)+
  then show ?thesis using assms(1-3)
    by (auto simp: firstOutstandingDue_def Let_def split: sum.splits list.splits if_splits)
qed

end
