(* ===== verification/Backup_Evidence.thy ===== *)
theory Backup_Evidence
  imports Backup_Schedule "HOL-Library.Product_Lexorder"
begin

text \<open>
  internal/backup/check_evidence.go and snapshot_evidence.go: what repository checks prove, when
  maintenance is blocked, and the bounded caches of snapshot evidence.  The digest of the
  unresolved conditions (SHA-256 over their JSON text) is a parameter of the definitions.
\<close>

section \<open>Check evidence\<close>

definition nonIntegrityCodes :: "string list" where
  "nonIntegrityCodes = [''unavailable'', ''timeout'', ''cancelled'', ''repository_locked'', ''repository_missing'',
     ''credentials_rejected'', ''permission_denied'', ''storage_full'']"

definition knownNonIntegrityFailure :: "string \<Rightarrow> bool" where
  "knownNonIntegrityFailure message = list_ex (\<lambda>code. go_has_suffix (go_trim_space message) (''('' @ code @ '')'')) nonIntegrityCodes"

definition no_evidence :: CheckEvidence where
  "no_evidence = \<lparr>ce_status = '''', ce_scope = '''', ce_checked_at = None, ce_error = ''''\<rparr>"

definition repositoryMaintenanceBlocked :: "Destination \<Rightarrow> bool" where
  "repositoryMaintenanceBlocked d \<longleftrightarrow> de_check_hold d \<noteq> None \<or> ce_status (de_metadata_check d) = ''failed'' \<or>
     ce_status (de_data_check d) = ''failed'' \<or> de_check_status d = ''failed''"

definition requiredCheckScope :: "string \<Rightarrow> string" where
  "requiredCheckScope policy = (if policy = ''metadata'' then ''metadata'' else ''all'')"

definition laterCheckResolves :: "time option \<Rightarrow> string \<Rightarrow> time option \<Rightarrow> string \<Rightarrow> bool" where
  "laterCheckResolves successAt successPolicy failedAt requiredScope =
     (case (successAt, failedAt) of
        (Some s, Some f) \<Rightarrow>
          if \<not> s > f then False
          else successPolicy = ''all'' \<or> requiredScope = ''metadata'' \<and> (successPolicy = ''metadata'' \<or> successPolicy = ''subset'')
      | _ \<Rightarrow> False)"

record review_condition =
  rc_scope :: string
  rc_checked_at :: string
  rc_error :: string

record repository_review =
  rv_version :: int
  rv_destination :: string
  rv_metadata :: "review_condition option"
  rv_data :: "review_condition option"
  rv_hold :: "review_condition option"

definition makeCondition :: "string \<Rightarrow> time option \<Rightarrow> string \<Rightarrow> review_condition" where
  "makeCondition scope at message =
     \<lparr>rc_scope = scope, rc_checked_at = (case at of None \<Rightarrow> '''' | Some t \<Rightarrow> rfc3339nano t), rc_error = message\<rparr>"

definition repositoryReviewFingerprint :: "(repository_review \<Rightarrow> string) \<Rightarrow> Destination \<Rightarrow> string" where
  "repositoryReviewFingerprint digest d =
     (if \<not> repositoryMaintenanceBlocked d then ''''
      else
        (let condition = (\<lambda>e. if ce_status e = ''failed'' then Some (makeCondition (ce_scope e) (ce_checked_at e) (ce_error e)) else None);
             review = \<lparr>rv_version = 1, rv_destination = de_id d, rv_metadata = condition (de_metadata_check d),
                       rv_data = condition (de_data_check d),
                       rv_hold = map_option (\<lambda>h. makeCondition (ch_scope h) (ch_checked_at h) (ch_error h)) (de_check_hold d)\<rparr>;
             review' = (if rv_metadata review = None \<and> rv_data review = None \<and> rv_hold review = None
                        then review\<lparr>rv_data := Some (makeCondition ''unknown'' (de_attempt_at d) (de_check_error d))\<rparr> else review)
         in digest review'))"

definition updateAggregateCheckEvidence :: "(repository_review \<Rightarrow> string) \<Rightarrow> Destination \<Rightarrow> Destination" where
  "updateAggregateCheckEvidence digest d =
     (let d1 =
            (if ce_status (de_data_check d) = ''failed''
               then d\<lparr>de_check_status := ''failed'', de_check_error := ce_error (de_data_check d)\<rparr>
             else if ce_status (de_metadata_check d) = ''failed''
               then d\<lparr>de_check_status := ''failed'', de_check_error := ce_error (de_metadata_check d)\<rparr>
             else
               (case de_check_hold d of
                  Some h \<Rightarrow> d\<lparr>de_check_status := ''unverified'', de_check_error := ch_error h\<rparr>
                | None \<Rightarrow>
                    if ce_status (de_metadata_check d) = ''verified'' \<or> ce_status (de_data_check d) = ''verified'' \<or>
                       ce_status (de_data_check d) = ''sampled''
                    then d\<lparr>de_check_status := ''verified'', de_check_error := ''''\<rparr>
                    else d\<lparr>de_check_status := ''unknown'', de_check_error := ''''\<rparr>))
      in d1\<lparr>de_review_token := repositoryReviewFingerprint digest d1\<rparr>)"

definition drop_known :: "CheckEvidence \<Rightarrow> CheckEvidence" where
  "drop_known e = (if ce_status e = ''failed'' \<and> ce_scope e = ''unknown'' \<and> knownNonIntegrityFailure (ce_error e) then no_evidence else e)"

definition fill_unknown :: "CheckEvidence \<Rightarrow> CheckEvidence" where
  "fill_unknown e =
     e\<lparr>ce_status := (if ce_status e = '''' then ''unknown'' else ce_status e),
       ce_scope := (if ce_scope e = '''' then ''unknown'' else ce_scope e)\<rparr>"

text \<open>The steps of \<open>normalizeCheckEvidence\<close>: repairing evidence, the legacy attempt, the legacy hold,
  and evidence of an earlier success.\<close>

definition repair_evidence :: "Destination \<Rightarrow> bool \<times> Destination" where
  "repair_evidence d =
     (let m = drop_known (de_metadata_check d);
          t = drop_known (de_data_check d);
          repaired = (m \<noteq> de_metadata_check d \<or> t \<noteq> de_data_check d);
          d1 = d\<lparr>de_metadata_check := m, de_data_check := t\<rparr>
      in if de_check_status d1 = ''failed'' \<and> ce_status m \<noteq> ''failed'' \<and> ce_status t \<noteq> ''failed'' then
           (if knownNonIntegrityFailure (de_check_error d1) then (True, d1)
            else (repaired, d1\<lparr>de_data_check :=
                   \<lparr>ce_status = ''failed'', ce_scope = ''unknown'', ce_checked_at = de_attempt_at d1, ce_error = de_check_error d1\<rparr>\<rparr>))
         else (repaired, d1))"

definition legacy_attempt :: "string \<Rightarrow> string \<Rightarrow> Destination \<Rightarrow> Destination" where
  "legacy_attempt legacyStatus legacyError d =
     (if legacyStatus = ''failed'' \<and> de_attempt_status d = '''' then
        d\<lparr>de_attempt_status := ''failed'', de_attempt_error := legacyError,
          de_attempt_policy := (if de_attempt_policy d = '''' then ''unknown'' else de_attempt_policy d)\<rparr>
      else d)"

definition legacy_hold :: "Destination \<Rightarrow> Destination" where
  "legacy_hold d =
     (let d1 =
            (if de_check_hold d = None \<and> de_attempt_status d = ''failed'' \<and>
                go_contains (de_attempt_error d) ''repository check was inconclusive'' \<and>
                go_has_suffix (de_attempt_error d) ''(operation_failed)'' \<and>
                \<not> laterCheckResolves (de_last_check_at d) (de_last_check_policy d) (de_attempt_at d) (requiredCheckScope (de_attempt_policy d))
             then d\<lparr>de_check_hold := Some \<lparr>ch_scope = requiredCheckScope (de_attempt_policy d), ch_checked_at = de_attempt_at d,
                                           ch_error = de_attempt_error d\<rparr>\<rparr>
             else d)
      in d1\<lparr>de_check_hold := map_option (\<lambda>h. h\<lparr>ch_scope := requiredCheckScope (ch_scope h)\<rparr>) (de_check_hold d1)\<rparr>)"

definition earlier_success :: "Destination \<Rightarrow> Destination" where
  "earlier_success d =
     (let d1 =
            (if ce_status (de_metadata_check d) = '''' \<or> ce_status (de_metadata_check d) = ''unknown''
             then d\<lparr>de_metadata_check := \<lparr>ce_status = ''verified'', ce_scope = ''metadata'', ce_checked_at = de_last_check_at d, ce_error = ''''\<rparr>\<rparr>
             else d)
      in if ce_status (de_data_check d1) = '''' \<or> ce_status (de_data_check d1) = ''unknown'' then
           (if de_last_check_policy d1 = ''all''
              then d1\<lparr>de_data_check := \<lparr>ce_status = ''verified'', ce_scope = ''all'', ce_checked_at = de_last_check_at d1, ce_error = ''''\<rparr>\<rparr>
            else if de_last_check_policy d1 = ''subset''
              then d1\<lparr>de_data_check := \<lparr>ce_status = ''sampled'', ce_scope = ''subset'', ce_checked_at = de_last_check_at d1, ce_error = ''''\<rparr>\<rparr>
            else d1)
         else d1)"

definition normalizeCheckEvidence :: "(repository_review \<Rightarrow> string) \<Rightarrow> Destination \<Rightarrow> Destination" where
  "normalizeCheckEvidence digest d =
     (case repair_evidence d of
        (repaired, d1) \<Rightarrow>
          (let d2 = legacy_hold (legacy_attempt (de_check_status d) (de_check_error d) d1);
               d3 = (if de_check_status d = ''verified'' \<or> repaired \<and> de_last_check_at d2 \<noteq> None then earlier_success d2 else d2);
               d4 = d3\<lparr>de_metadata_check := fill_unknown (de_metadata_check d3), de_data_check := fill_unknown (de_data_check d3)\<rparr>
           in updateAggregateCheckEvidence digest d4))"

text \<open>The error of a repository command carries a code when \<open>errors.As\<close> finds one in its chain.\<close>

record check_failure =
  cf_code :: "string option"
  cf_message :: string

definition recordCheckAttempt :: "(repository_review \<Rightarrow> string) \<Rightarrow> Destination \<Rightarrow> string \<Rightarrow> time \<Rightarrow> check_failure option \<Rightarrow> Destination" where
  "recordCheckAttempt digest d0 policy0 at err =
     (let d = normalizeCheckEvidence digest d0;
          policy = (if policy0 = '''' then ''metadata'' else policy0);
          d1 = d\<lparr>de_attempt_at := Some at, de_attempt_policy := policy, de_attempt_status := ''succeeded'', de_attempt_error := ''''\<rparr>;
          d2 =
            (case err of
               Some e \<Rightarrow>
                 (let d3 = d1\<lparr>de_attempt_status := ''failed'', de_attempt_error := cf_message e\<rparr>;
                      evidence = \<lparr>ce_status = ''failed'', ce_scope = policy, ce_checked_at = Some at, ce_error = cf_message e\<rparr>;
                      hold = \<lparr>ch_scope = requiredCheckScope policy, ch_checked_at = Some at, ch_error = cf_message e\<rparr>
                  in if cf_code e = Some ''integrity_failed'' then
                       (if policy = ''metadata'' then d3\<lparr>de_metadata_check := evidence\<rparr> else d3\<lparr>de_data_check := evidence\<rparr>)
                     else if cf_code e = Some ''check_inconclusive'' then
                       (case de_check_hold d3 of
                          None \<Rightarrow> d3\<lparr>de_check_hold := Some hold\<rparr>
                        | Some old \<Rightarrow>
                            if ch_scope old = ''metadata'' \<or> ch_scope hold = ''all'' then d3\<lparr>de_check_hold := Some hold\<rparr> else d3)
                     else d3)
             | None \<Rightarrow>
                 (let d3 = (case de_check_hold d1 of
                              None \<Rightarrow> d1
                            | Some h \<Rightarrow> if policy = ''all'' \<or> ch_scope h = ''metadata'' then d1\<lparr>de_check_hold := None\<rparr> else d1);
                      d4 = d3\<lparr>de_last_check_at := Some at, de_last_check_policy := policy,
                              de_metadata_check := \<lparr>ce_status = ''verified'', ce_scope = ''metadata'', ce_checked_at = Some at, ce_error = ''''\<rparr>\<rparr>
                  in if policy = ''all'' then
                       d4\<lparr>de_data_check := \<lparr>ce_status = ''verified'', ce_scope = ''all'', ce_checked_at = Some at, ce_error = ''''\<rparr>\<rparr>
                     else if policy = ''subset'' \<and> ce_status (de_data_check d4) \<noteq> ''failed'' \<and> ce_status (de_data_check d4) \<noteq> ''verified'' then
                       d4\<lparr>de_data_check := \<lparr>ce_status = ''sampled'', ce_scope = ''subset'', ce_checked_at = Some at, ce_error = ''''\<rparr>\<rparr>
                     else d4))
      in updateAggregateCheckEvidence digest d2)"


section \<open>Unresolved failures\<close>

text \<open>Failed data evidence that later normalisation does not take for a transport problem, and a hold
  that only a full check resolves.\<close>

definition lasting :: "CheckEvidence \<Rightarrow> bool" where
  "lasting e \<longleftrightarrow> ce_status e = ''failed'' \<and> (ce_scope e \<notin> {'''', ''unknown''} \<or> \<not> knownNonIntegrityFailure (ce_error e))"

definition unresolved :: "Destination \<Rightarrow> bool" where
  "unresolved d \<longleftrightarrow> lasting (de_data_check d) \<or> (\<exists>h. de_check_hold d = Some h \<and> ch_scope h \<noteq> ''metadata'')"

lemma requiredCheckScope_simps [simp]:
  "requiredCheckScope ''metadata'' = ''metadata''" "s \<noteq> ''metadata'' \<Longrightarrow> requiredCheckScope s = ''all''"
  "requiredCheckScope s = ''metadata'' \<longleftrightarrow> s = ''metadata''"
  by (simp_all add: requiredCheckScope_def)

lemma aggregate_fields [simp]:
  "de_data_check (updateAggregateCheckEvidence digest d) = de_data_check d"
  "de_metadata_check (updateAggregateCheckEvidence digest d) = de_metadata_check d"
  "de_check_hold (updateAggregateCheckEvidence digest d) = de_check_hold d"
  by (simp_all add: updateAggregateCheckEvidence_def Let_def split: option.splits)

lemma aggregate_status:
  "de_check_status (updateAggregateCheckEvidence digest d) = ''failed'' \<longleftrightarrow>
     ce_status (de_data_check d) = ''failed'' \<or> ce_status (de_metadata_check d) = ''failed''"
  by (simp add: updateAggregateCheckEvidence_def Let_def split: option.splits)

lemma fill_lasting: "lasting e \<Longrightarrow> lasting (fill_unknown e)"
  by (auto simp: lasting_def fill_unknown_def)

lemma repair_lasting: "lasting (de_data_check d) \<Longrightarrow> de_data_check (snd (repair_evidence d)) = de_data_check d"
  by (auto simp: repair_evidence_def lasting_def drop_known_def Let_def)

lemma repair_hold: "de_check_hold (snd (repair_evidence d)) = de_check_hold d"
  by (simp add: repair_evidence_def Let_def)

lemma legacy_fields [simp]:
  "de_data_check (legacy_attempt s e d) = de_data_check d" "de_check_hold (legacy_attempt s e d) = de_check_hold d"
  "de_data_check (legacy_hold d) = de_data_check d"
  by (simp_all add: legacy_attempt_def legacy_hold_def Let_def)

lemma legacy_hold_kept: "de_check_hold d = Some h \<Longrightarrow> de_check_hold (legacy_hold d) = Some (h\<lparr>ch_scope := requiredCheckScope (ch_scope h)\<rparr>)"
  by (simp add: legacy_hold_def)

lemma success_fields:
  "de_check_hold (earlier_success d) = de_check_hold d"
  "lasting (de_data_check d) \<Longrightarrow> de_data_check (earlier_success d) = de_data_check d"
  by (simp_all add: earlier_success_def lasting_def Let_def)

lemma normalize_lasting:
  assumes "lasting (de_data_check d)"
  shows "lasting (de_data_check (normalizeCheckEvidence digest d))"
proof (cases "repair_evidence d")
  case (Pair repaired d1)
  then have "de_data_check d1 = de_data_check d" using repair_lasting [OF assms] by simp
  then show ?thesis using Pair assms by (simp add: normalizeCheckEvidence_def Let_def success_fields fill_lasting)
qed

lemma normalize_hold:
  assumes "de_check_hold d = Some h"
  shows "\<exists>h'. de_check_hold (normalizeCheckEvidence digest d) = Some h' \<and> ch_scope h' = requiredCheckScope (ch_scope h)"
proof (cases "repair_evidence d")
  case (Pair repaired d1)
  then have "de_check_hold (legacy_hold (legacy_attempt s e d1)) = Some (h\<lparr>ch_scope := requiredCheckScope (ch_scope h)\<rparr>)" for s e
    using repair_hold [of d] assms by (simp add: legacy_hold_kept)
  then show ?thesis using Pair by (simp add: normalizeCheckEvidence_def Let_def success_fields)
qed

lemma normalize_unresolved:
  assumes "unresolved d"
  shows "unresolved (normalizeCheckEvidence digest d)"
proof (cases "lasting (de_data_check d)")
  case True
  then show ?thesis by (simp add: unresolved_def normalize_lasting)
next
  case False
  then obtain h where h: "de_check_hold d = Some h" "ch_scope h \<noteq> ''metadata''" using assms by (auto simp: unresolved_def)
  obtain h' where "de_check_hold (normalizeCheckEvidence digest d) = Some h'" "ch_scope h' = requiredCheckScope (ch_scope h)"
    using normalize_hold [OF h(1)] by blast
  then show ?thesis using h(2) by (auto simp: unresolved_def)
qed

lemma record_failed_fields:
  fixes digest :: "repository_review \<Rightarrow> string" and d :: Destination and policy :: string
  defines "n \<equiv> normalizeCheckEvidence digest d" and "p \<equiv> if policy = '''' then ''metadata'' else policy"
  shows "de_data_check (recordCheckAttempt digest d policy at (Some e)) =
      (if cf_code e = Some ''integrity_failed'' \<and> p \<noteq> ''metadata''
       then \<lparr>ce_status = ''failed'', ce_scope = p, ce_checked_at = Some at, ce_error = cf_message e\<rparr> else de_data_check n)"
    "de_check_hold (recordCheckAttempt digest d policy at (Some e)) =
      (if cf_code e = Some ''check_inconclusive'' \<and> (\<forall>old. de_check_hold n = Some old \<longrightarrow> ch_scope old = ''metadata'' \<or> p \<noteq> ''metadata'')
       then Some \<lparr>ch_scope = requiredCheckScope p, ch_checked_at = Some at, ch_error = cf_message e\<rparr> else de_check_hold n)"
  unfolding recordCheckAttempt_def n_def [symmetric] p_def [symmetric] Let_def aggregate_fields option.case
  by (cases "de_check_hold n"; cases "cf_code e = Some ''integrity_failed''"; cases "cf_code e = Some ''check_inconclusive''"; cases "p = ''metadata''"; simp)+

lemma record_success_fields:
  fixes digest :: "repository_review \<Rightarrow> string" and d :: Destination
  defines "n \<equiv> normalizeCheckEvidence digest d"
  assumes "policy \<noteq> ''all''"
  shows "ce_status (de_data_check n) = ''failed'' \<Longrightarrow> de_data_check (recordCheckAttempt digest d policy at None) = de_data_check n"
    "de_check_hold n = Some h \<Longrightarrow> ch_scope h \<noteq> ''metadata'' \<Longrightarrow> de_check_hold (recordCheckAttempt digest d policy at None) = Some h"
  using assms(2) unfolding recordCheckAttempt_def n_def [symmetric] Let_def aggregate_fields option.case
  by (simp_all split: option.splits)

lemma record_unresolved:
  assumes "unresolved d" "policy \<noteq> ''unknown''" "policy \<noteq> ''all'' \<or> err \<noteq> None"
  shows "unresolved (recordCheckAttempt digest d policy at err)"
proof -
  have u: "unresolved (normalizeCheckEvidence digest d)" by (rule normalize_unresolved [OF assms(1)])
  show ?thesis
  proof (cases err)
    case None
    then have p: "policy \<noteq> ''all''" using assms(3) by simp
    show ?thesis using u record_success_fields [OF p, where digest = digest and d = d and at = at] unfolding None unresolved_def by (auto simp: lasting_def)
  next
    case (Some e)
    show ?thesis using u assms(2) unfolding Some unresolved_def record_failed_fields by (auto simp: lasting_def)
  qed
qed

lemma record_failed_unresolved:
  assumes "policy \<in> {''all'', ''subset''}" "cf_code e \<in> {Some ''integrity_failed'', Some ''check_inconclusive''}"
  shows "unresolved (recordCheckAttempt digest d policy at (Some e))"
  using assms unfolding unresolved_def record_failed_fields by (auto simp: lasting_def)

lemma unresolved_blocked: "unresolved d \<Longrightarrow> repositoryMaintenanceBlocked d"
  by (auto simp: unresolved_def repositoryMaintenanceBlocked_def lasting_def)

lemma full_check_resolves: "\<not> repositoryMaintenanceBlocked (recordCheckAttempt digest d ''all'' at None)"
  by (simp add: recordCheckAttempt_def Let_def repositoryMaintenanceBlocked_def aggregate_status split: option.splits)

type_synonym check_attempt = "string \<times> time \<times> check_failure option"

definition record_all :: "(repository_review \<Rightarrow> string) \<Rightarrow> Destination \<Rightarrow> check_attempt list \<Rightarrow> Destination" where
  "record_all digest d attempts = fold (\<lambda>(policy, at, err) d. recordCheckAttempt digest d policy at err) attempts d"

lemma record_all_unresolved:
  assumes "unresolved d" "\<And>policy at err. (policy, at, err) \<in> set attempts \<Longrightarrow> policy \<noteq> ''unknown'' \<and> (policy \<noteq> ''all'' \<or> err \<noteq> None)"
  shows "unresolved (record_all digest d attempts)"
  using assms
proof (induction attempts arbitrary: d)
  case (Cons a attempts)
  obtain policy at err where a: "a = (policy, at, err)" by (cases a)
  have "unresolved (recordCheckAttempt digest d policy at err)" using Cons(2) Cons(3) [of policy at err] a by (intro record_unresolved) auto
  moreover have "p \<noteq> ''unknown'' \<and> (p \<noteq> ''all'' \<or> r \<noteq> None)" if "(p, t, r) \<in> set attempts" for p t r
    by (rule Cons(3) [of p t r]) (use that in simp)
  ultimately have "unresolved (record_all digest (recordCheckAttempt digest d policy at err) attempts)" by (rule Cons(1))
  then show ?case by (simp add: record_all_def a)
qed (simp add: record_all_def)

text \<open>C34: A failed or inconclusive read of repository data blocks maintenance until a full data check
  succeeds: whatever checks of whatever scope succeed or fail in between, and only then.\<close>

theorem check_failure_sticky:
  assumes "policy \<in> {''all'', ''subset''}" "cf_code e \<in> {Some ''integrity_failed'', Some ''check_inconclusive''}"
    "\<And>policy at err. (policy, at, err) \<in> set attempts \<Longrightarrow> policy \<noteq> ''unknown'' \<and> (policy \<noteq> ''all'' \<or> err \<noteq> None)"
  shows "repositoryMaintenanceBlocked (record_all digest (recordCheckAttempt digest d policy at (Some e)) attempts) \<and>
    \<not> repositoryMaintenanceBlocked (recordCheckAttempt digest (record_all digest (recordCheckAttempt digest d policy at (Some e)) attempts) ''all'' at' None)"
proof
  show "repositoryMaintenanceBlocked (record_all digest (recordCheckAttempt digest d policy at (Some e)) attempts)"
    by (rule unresolved_blocked, rule record_all_unresolved [OF record_failed_unresolved [OF assms(1,2)]], rule assms(3))
qed (rule full_check_resolves)


definition example_destination :: Destination where
  "example_destination =
     \<lparr>de_id = ''dst_1'', de_name = ''Local'', de_kind = ''local'', de_repository = ''/backup'', de_expected_filesystem = '''', de_region = '''',
      de_repository_size = None, de_credentials = True, de_attempt_at = None, de_attempt_policy = '''', de_attempt_status = '''',
      de_attempt_error = '''', de_metadata_check = no_evidence, de_data_check = no_evidence, de_check_hold = None, de_review_token = '''',
      de_last_check_at = None, de_last_check_policy = '''', de_check_schedule = no_schedule, de_check_read_data = ''metadata'',
      de_prune_schedule = no_schedule, de_last_check_scheduled = None, de_last_prune_scheduled = None, de_last_prune_at = None,
      de_check_status = '''', de_check_error = '''', de_last_operation = '''', de_last_operation_status = '''', de_last_operation_error = '''',
      de_last_operation_at = None, de_last_restore_test_at = None, de_last_restore_test_snapshot = '''', de_last_inventory_at = None,
      de_last_inventory_attempt = None, de_inventory_error = '''', de_last_success_at = None, de_status = ''available'', de_error = ''''\<rparr>"

theorem check_failure_sticky_witness:
  "repositoryMaintenanceBlocked (record_all (\<lambda>_. ''token'')
     (recordCheckAttempt (\<lambda>_. ''token'') example_destination ''subset'' 1 (Some \<lparr>cf_code = Some ''integrity_failed'', cf_message = ''pack damaged''\<rparr>))
     [(''metadata'', 2, None), (''subset'', 3, None), (''all'', 4, Some \<lparr>cf_code = None, cf_message = ''network (timeout)''\<rparr>)])"
  using check_failure_sticky [of "''subset''" "\<lparr>cf_code = Some ''integrity_failed'', cf_message = ''pack damaged''\<rparr>"
    "[(''metadata'', 2, None), (''subset'', 3, None), (''all'', 4, Some \<lparr>cf_code = None, cf_message = ''network (timeout)''\<rparr>)]"
    "\<lambda>_. ''token''" example_destination 1] by auto


section \<open>Bounded evidence caches\<close>

definition maxSnapshotEvidence :: nat where
  "maxSnapshotEvidence = 4096"

definition snapshotClassificationVersion :: int where
  "snapshotClassificationVersion = 1"

text \<open>The time of an entry, Go's zero time for a missing one, and one pass of the search for the oldest.\<close>

definition stamp :: "('v \<Rightarrow> time) \<Rightarrow> (string, 'v) gomap \<Rightarrow> string \<Rightarrow> time" where
  "stamp at m k = (case mget m k of None \<Rightarrow> 0 | Some v \<Rightarrow> at v)"


definition pick_older :: "('v \<Rightarrow> time) \<Rightarrow> (string, 'v) gomap \<Rightarrow> string \<times> 'v \<Rightarrow> string \<Rightarrow> string" where
  "pick_older at m e oldest =
     (if oldest = '''' \<or> at (snd e) < stamp at m oldest \<or> at (snd e) = stamp at m oldest \<and> fst e < oldest then fst e else oldest)"

definition oldest_key :: "('v \<Rightarrow> time) \<Rightarrow> (string, 'v) gomap \<Rightarrow> string" where
  "oldest_key at m = fold (pick_older at m) m ''''"

lemma pick_older_mem: "oldest \<in> K \<Longrightarrow> fst ` set xs \<subseteq> K \<Longrightarrow> fold (pick_older at m) xs oldest \<in> K"
  by (induction xs arbitrary: oldest) (auto simp: pick_older_def)

lemma oldest_key_Cons: "oldest_key at (e # m) = fold (pick_older at (e # m)) m (fst e)"
  by (simp add: oldest_key_def pick_older_def [of _ _ e "''''"])

lemma oldest_key_mem:
  assumes "m \<noteq> []"
  shows "oldest_key at m \<in> fst ` set m"
proof (cases m)
  case (Cons e xs)
  show ?thesis unfolding Cons oldest_key_Cons by (rule pick_older_mem) auto
qed (use assms in simp)

lemma mdel_shorter: "k \<in> fst ` set m \<Longrightarrow> length (mdel k m) < length m"
  unfolding AList.delete_eq by (auto intro: length_filter_less)

text \<open>The loop that makes room.\<close>

function evict :: "nat \<Rightarrow> ('v \<Rightarrow> time) \<Rightarrow> (string, 'v) gomap \<Rightarrow> (string, 'v) gomap" where
  "evict limit at m = (if length m \<le> limit then m else evict limit at (mdel (oldest_key at m) m))"
  by pat_completeness auto
termination
  by (relation "measure (\<lambda>(limit, at, m). length m)") (auto intro!: mdel_shorter oldest_key_mem)

declare evict.simps [simp del]

definition snapshotClassificationLocked :: "string \<Rightarrow> string \<Rightarrow> backup_state \<Rightarrow> snapshotClassification option" where
  "snapshotClassificationLocked destinationID sid s =
     (let key = snapshotEvidenceKey destinationID sid;
          old = map_option (\<lambda>at. \<lparr>cl_version = snapshotClassificationVersion, cl_status = ''complete'', cl_at = at\<rparr>) (mget (bk_verified_snapshots s) key)
      in case mget (bk_classifications s) key of
           Some e \<Rightarrow>
             if cl_version e = snapshotClassificationVersion \<and> \<not> time_is_zero (cl_at e) \<and>
                cl_status e \<in> set [''complete'', ''incomplete'', ''legacy'', ''unsupported'', ''invalid'']
             then Some e else old
         | None \<Rightarrow> old)"

definition rememberSnapshotClassificationLocked :: "string \<Rightarrow> string \<Rightarrow> string \<Rightarrow> time \<Rightarrow> backup_state \<Rightarrow> backup_state" where
  "rememberSnapshotClassificationLocked destinationID sid status at s =
     s\<lparr>bk_classifications :=
         evict maxSnapshotEvidence cl_at
           (mput (snapshotEvidenceKey destinationID sid) \<lparr>cl_version = snapshotClassificationVersion, cl_status = status, cl_at = at\<rparr>
              (bk_classifications s))\<rparr>"

definition rememberSnapshotEvidence :: "string \<Rightarrow> time \<Rightarrow> (string, time) gomap \<Rightarrow> (string, time) gomap" where
  "rememberSnapshotEvidence key at values = evict maxSnapshotEvidence (\<lambda>t. t) (mput key at values)"

definition configured_pair :: "backup_state \<Rightarrow> string \<Rightarrow> bool" where
  "configured_pair s key =
     (case go_cut (CHR ''/'') key of
        None \<Rightarrow> False
      | Some (planID, destinationID) \<Rightarrow> mget (bk_plans s) planID \<noteq> None \<and> mget (bk_destinations s) destinationID \<noteq> None)"

definition rememberRetentionCursorLocked :: "string \<Rightarrow> string \<Rightarrow> string \<Rightarrow> backup_state \<Rightarrow> backup_state" where
  "rememberRetentionCursorLocked planID destinationID sid s =
     s\<lparr>bk_cursors := mput (checkpointKey planID destinationID) sid (mdrop_if (\<lambda>key _. \<not> configured_pair s key) (bk_cursors s))\<rparr>"

definition restoreTestedAtLocked :: "Destination \<Rightarrow> string \<Rightarrow> backup_state \<Rightarrow> time option" where
  "restoreTestedAtLocked d sid s =
     (case mget (bk_restore_tests s) (snapshotEvidenceKey (de_id d) sid) of
        Some tested \<Rightarrow> Some tested
      | None \<Rightarrow> if de_last_restore_test_snapshot d = sid then de_last_restore_test_at d else None)"

section \<open>What the caches keep\<close>

abbreviation rank :: "('v \<Rightarrow> time) \<Rightarrow> (string, 'v) gomap \<Rightarrow> string \<Rightarrow> time \<times> string" where
  "rank at m k \<equiv> (stamp at m k, k)"

lemma stamp_entry: "map_ok m \<Longrightarrow> (k, v) \<in> set m \<Longrightarrow> stamp at m k = at v"
  by (simp add: stamp_def map_ok_entry)

lemma pick_older_rank:
  assumes "map_ok m" "e \<in> set m" "oldest \<noteq> ''''"
  shows "pick_older at m e oldest = (if rank at m (fst e) < rank at m oldest then fst e else oldest)"
  using stamp_entry [OF assms(1), of "fst e" "snd e" at] assms(2,3) by (simp add: pick_older_def)

lemma oldest_fold_least:
  assumes "map_ok m" "set xs \<subseteq> set m" "'''' \<notin> fst ` set m" "oldest \<in> fst ` set m"
  shows "\<forall>k \<in> insert oldest (fst ` set xs). rank at m (fold (pick_older at m) xs oldest) \<le> rank at m k"
  using assms(2,4)
proof (induction xs arbitrary: oldest)
  case (Cons e xs)
  have ne: "oldest \<noteq> ''''" using Cons(3) assms(3) by metis
  note pick = pick_older_rank [OF assms(1) _ ne, of e at]
  let ?n = "pick_older at m e oldest"
  have "?n \<in> fst ` set m" using Cons(2,3) pick by auto
  then have ih: "\<forall>k \<in> insert ?n (fst ` set xs). rank at m (fold (pick_older at m) xs ?n) \<le> rank at m k"
    using Cons by auto
  have "rank at m ?n \<le> rank at m oldest" "rank at m ?n \<le> rank at m (fst e)"
    using pick Cons(2) by (auto split: if_splits)
  with ih have "rank at m (fold (pick_older at m) xs ?n) \<le> rank at m oldest" "rank at m (fold (pick_older at m) xs ?n) \<le> rank at m (fst e)"
    by (meson insertI1 order_trans)+
  with ih show ?case by simp
qed simp


lemma oldest_key_least:
  assumes "map_ok m" "'''' \<notin> fst ` set m" "k \<in> fst ` set m"
  shows "rank at m (oldest_key at m) \<le> rank at m k"
proof (cases m)
  case (Cons e xs)
  have "\<forall>k \<in> insert (fst e) (fst ` set xs). rank at m (fold (pick_older at m) xs (fst e)) \<le> rank at m k"
    by (rule oldest_fold_least [OF assms(1) _ assms(2)]) (auto simp: Cons)
  moreover have "k \<in> insert (fst e) (fst ` set xs)" using assms(3) by (simp add: Cons)
  ultimately show ?thesis unfolding Cons oldest_key_Cons by blast
qed (use assms(3) in simp)

lemma mdel_set: "map_ok m \<Longrightarrow> set (mdel k m) = {e \<in> set m. fst e \<noteq> k}"
  unfolding AList.delete_eq by auto

lemma evict_cache_spec:
  assumes "map_ok m" "'''' \<notin> fst ` set m"
  shows "length (evict limit at m) \<le> limit \<and> map_ok (evict limit at m) \<and> set (evict limit at m) \<subseteq> set m \<and>
    (\<forall>x \<in> set m - set (evict limit at m). \<forall>y \<in> set (evict limit at m). (at (snd x), fst x) < (at (snd y), fst y))"
  using assms
proof (induction limit at m rule: evict.induct)
  case (1 limit at m)
  show ?case
  proof (cases "length m \<le> limit")
    case True
    then show ?thesis using 1(2) by (simp add: evict.simps [of limit at m])
  next
    case False
    let ?o = "oldest_key at m" let ?m = "mdel ?o m"
    have ev: "evict limit at m = evict limit at ?m" using False by (simp add: evict.simps [of limit at m])
    have ok: "map_ok ?m" "'''' \<notin> fst ` set ?m" using 1(2,3) by (auto simp: map_ok_del mdel_set)
    note ih = 1(1) [OF False ok]
    have "(at (snd x), fst x) < (at (snd y), fst y)" if x: "x \<in> set m" "x \<notin> set (evict limit at ?m)" and y: "y \<in> set (evict limit at ?m)" for x y
    proof (cases "x \<in> set ?m")
      case True
      then show ?thesis using ih x(2) y by blast
    next
      case False
      then have k: "fst x = ?o" using x(1) mdel_set [OF 1(2)] by auto
      have ym: "y \<in> set m" "fst y \<noteq> ?o" using ih y mdel_set [OF 1(2)] by auto
      have "rank at m ?o \<le> rank at m (fst y)" using ym(1) by (intro oldest_key_least [OF 1(2,3)]) auto
      moreover have "stamp at m ?o = at (snd x)" using stamp_entry [OF 1(2), of "fst x" "snd x" at] x(1) k by (cases x) simp
      moreover have "stamp at m (fst y) = at (snd y)" using stamp_entry [OF 1(2), of "fst y" "snd y" at] ym(1) by simp
      ultimately have "(at (snd x), fst x) \<le> (at (snd y), fst y)" using k by simp
      then show ?thesis using k ym(2) by auto
    qed
    moreover have "set (evict limit at ?m) \<subseteq> set m" using ih mdel_set [OF 1(2)] by blast
    ultimately show ?thesis unfolding ev using ih by blast
  qed
qed

text \<open>Making room in an evidence cache ends after finitely many evictions, leaves at most the limit,
  keeps one entry per key, and drops only the replaced entry and entries no newer than every entry it keeps.\<close>

theorem evidence_cache_bounded:
  assumes "map_ok (bk_classifications s)" "'''' \<notin> fst ` set (bk_classifications s)"
  shows "length (bk_classifications (rememberSnapshotClassificationLocked destinationID sid status at s)) \<le> maxSnapshotEvidence \<and>
    map_ok (bk_classifications (rememberSnapshotClassificationLocked destinationID sid status at s)) \<and>
    (\<forall>x \<in> set (bk_classifications s) - set (bk_classifications (rememberSnapshotClassificationLocked destinationID sid status at s)).
       fst x = snapshotEvidenceKey destinationID sid \<or>
       (\<forall>y \<in> set (bk_classifications (rememberSnapshotClassificationLocked destinationID sid status at s)). cl_at (snd x) \<le> cl_at (snd y)))"
proof -
  let ?k = "snapshotEvidenceKey destinationID sid"
  let ?m = "mput ?k \<lparr>cl_version = snapshotClassificationVersion, cl_status = status, cl_at = at\<rparr> (bk_classifications s)"
  have "?k \<noteq> ''''" by (simp add: snapshotEvidenceKey_def)
  then have "map_ok ?m" "'''' \<notin> fst ` set ?m" using assms by (auto simp: map_ok_put dom_update)
  note ev = evict_cache_spec [OF this, of maxSnapshotEvidence cl_at]
  have "x \<in> set ?m" if "x \<in> set (bk_classifications s)" "fst x \<noteq> ?k" for x
    using that assms(1) map_ok_entry [of "bk_classifications s" "fst x" "snd x"] map_of_SomeD [of ?m "fst x" "snd x"] by (simp add: update_conv')
  note mem = this
  define r where "r = evict maxSnapshotEvidence cl_at ?m"
  note ev = ev [folded r_def]
  have lt: "a \<le> c" if "(a, b) < (c, d)" for a c :: time and b d :: string using that by auto
  have "fst x = ?k \<or> (\<forall>y \<in> set r. cl_at (snd x) \<le> cl_at (snd y))" if "x \<in> set (bk_classifications s) - set r" for x
    using mem [of x] that ev lt by (cases "fst x = ?k") (simp, blast)
  moreover have "bk_classifications (rememberSnapshotClassificationLocked destinationID sid status at s) = r"
    by (simp add: rememberSnapshotClassificationLocked_def r_def)
  ultimately show ?thesis using ev by simp
qed

theorem evidence_cache_bounded_witness:
  "\<exists>s. length (bk_classifications s) = 1 \<and>
     length (bk_classifications (rememberSnapshotClassificationLocked ''dst_1'' ''a'' ''complete'' 7 s)) \<le> maxSnapshotEvidence"
proof -
  let ?s = "\<lparr>bk_classifications = [(''dst_1/b'', \<lparr>cl_version = 1, cl_status = ''complete'', cl_at = 5\<rparr>)], bk_cursors = [], bk_copy_attempts = [],
    bk_attempts_version = 1, bk_maintenance_attempts = [], bk_verified_snapshots = [], bk_restore_tests = [], bk_checkpoints = [],
    bk_instance = ''i'', bk_destinations = [], bk_plans = [], bk_runs = []\<rparr>"
  have "map_ok (bk_classifications ?s)" "'''' \<notin> fst ` set (bk_classifications ?s)" by (simp_all add: map_ok_def)
  then show ?thesis using evidence_cache_bounded [of ?s "''dst_1''" "''a''" "''complete''" 7] by (intro exI [of _ ?s]) simp
qed

end
