(* ===== verification/Go_Path.thy ===== *)
theory Go_Path
  imports Prelude
begin

text \<open>
  Go's slash-separated paths (package path; path/filepath agrees with it on the platforms the
  server runs on).  \<open>path_clean\<close> resolves the elements of a path as the loop of path.Clean does:
  empty elements and \<open>.\<close> vanish, \<open>..\<close> removes the element before it, a leading \<open>..\<close> stays in a
  relative path and vanishes at the root.
\<close>

abbreviation slash :: char where
  "slash \<equiv> CHR ''/''"

fun path_join_parts :: "string list \<Rightarrow> string" where
  "path_join_parts [] = ''''"
| "path_join_parts [p] = p"
| "path_join_parts (p # ps) = p @ slash # path_join_parts ps"

text \<open>The elements kept so far, the last one first.\<close>

fun clean_parts :: "bool \<Rightarrow> string list \<Rightarrow> string list \<Rightarrow> string list" where
  "clean_parts rooted kept [] = rev kept"
| "clean_parts rooted kept (p # ps) =
     (if p = '''' \<or> p = ''.'' then clean_parts rooted kept ps
      else if p = ''..'' then
        (if kept \<noteq> [] \<and> hd kept \<noteq> ''..'' then clean_parts rooted (tl kept) ps
         else if rooted then clean_parts rooted kept ps
         else clean_parts rooted (p # kept) ps)
      else clean_parts rooted (p # kept) ps)"

definition path_is_abs :: "string \<Rightarrow> bool" where
  "path_is_abs p = go_has_prefix p ''/''"

definition path_clean :: "string \<Rightarrow> string" where
  "path_clean p =
     (let parts = clean_parts (path_is_abs p) [] (go_split slash p)
      in if path_is_abs p then slash # path_join_parts parts
         else if parts = [] then ''.'' else path_join_parts parts)"

text \<open>The text up to and including the last slash, and what follows it.\<close>

definition path_split :: "string \<Rightarrow> string \<times> string" where
  "path_split p = (rev (dropWhile (\<lambda>c. c \<noteq> slash) (rev p)), rev (takeWhile (\<lambda>c. c \<noteq> slash) (rev p)))"

definition path_dir :: "string \<Rightarrow> string" where
  "path_dir p = path_clean (fst (path_split p))"

definition path_join :: "string list \<Rightarrow> string" where
  "path_join ps = (let qs = filter (\<lambda>p. p \<noteq> '''') ps in if qs = [] then '''' else path_clean (path_join_parts qs))"


section \<open>Clean relative paths\<close>

text \<open>An element a clean path that stays below its start is made of.\<close>

definition plain_part :: "string \<Rightarrow> bool" where
  "plain_part p \<longleftrightarrow> p \<noteq> '''' \<and> p \<noteq> ''.'' \<and> p \<noteq> ''..'' \<and> slash \<notin> set p"

definition escapes :: "string \<Rightarrow> bool" where
  "escapes p \<longleftrightarrow> p = ''..'' \<or> go_has_prefix p ''../''"

text \<open>A path that names something strictly below the directory it is relative to.\<close>

definition below :: "string \<Rightarrow> bool" where
  "below p \<longleftrightarrow> p \<noteq> '''' \<and> list_all plain_part (go_split slash p)"

text \<open>What \<open>clean_parts\<close> produces: leading parent references, then plain elements.\<close>

definition cleaned :: "bool \<Rightarrow> string list \<Rightarrow> bool" where
  "cleaned rooted ps \<longleftrightarrow>
     (\<exists>n qs. ps = replicate n ''..'' @ qs \<and> list_all plain_part qs \<and> (rooted \<longrightarrow> n = 0))"

lemma go_split_join:
  "ps \<noteq> [] \<Longrightarrow> list_all (\<lambda>p. slash \<notin> set p) ps \<Longrightarrow> go_split slash (path_join_parts ps) = ps"
  by (induction ps rule: path_join_parts.induct) (simp_all add: go_split_plain go_split_append)

lemma join_parts_Cons: "path_join_parts ((c # p) # ps) = c # path_join_parts (p # ps)"
  by (cases ps) simp_all

lemma join_split: "path_join_parts (go_split slash p) = p"
proof (induction p)
  case (Cons c p)
  then show ?case by (cases "go_split slash p") (auto simp: join_parts_Cons)
qed simp

lemma cleaned_part:
  assumes "cleaned rooted ps" "p \<in> set ps"
  shows "p \<noteq> '''' \<and> slash \<notin> set p"
proof -
  have "p = ''..'' \<or> plain_part p" using assms unfolding cleaned_def by (auto simp: list_all_iff)
  then show ?thesis by (elim disjE) (simp_all add: plain_part_def)
qed

lemma cleaned_slash_free: "cleaned rooted ps \<Longrightarrow> list_all (\<lambda>p. slash \<notin> set p) ps"
  using cleaned_part by (simp add: list_all_iff)

lemma cleaned_snoc: "cleaned rooted ps \<Longrightarrow> plain_part p \<Longrightarrow> cleaned rooted (ps @ [p])"
proof -
  assume "cleaned rooted ps" "plain_part p"
  then obtain n qs where "ps @ [p] = replicate n ''..'' @ qs @ [p]" "list_all plain_part (qs @ [p])" "rooted \<longrightarrow> n = 0"
    unfolding cleaned_def by auto
  then show ?thesis unfolding cleaned_def by blast
qed

lemma cleaned_parent:
  assumes "cleaned rooted (rev kept)"
  shows "if kept \<noteq> [] \<and> hd kept \<noteq> ''..'' then cleaned rooted (rev (tl kept))
    else rooted \<or> cleaned rooted (rev (''..'' # kept))"
proof -
  obtain n qs where q: "rev kept = replicate n ''..'' @ qs" "list_all plain_part qs" "rooted \<longrightarrow> n = 0"
    using assms unfolding cleaned_def by blast
  show ?thesis
  proof (cases qs rule: rev_cases)
    case Nil
    then have "rev kept = rev (replicate n ''..'')" using q(1) by simp
    then have "kept = replicate n ''..''" by (simp only: rev_is_rev_conv)
    moreover have "rev (''..'' # kept) = replicate (Suc n) ''..''" using calculation by (simp add: replicate_append_same)
    moreover have "cleaned rooted (replicate (Suc n) ''..'')" if "\<not> rooted" using that unfolding cleaned_def
      by (intro exI [of _ "Suc n"] exI [of _ "[]"]) simp
    ultimately show ?thesis by (cases n; cases rooted) auto
  next
    case (snoc rs r)
    then have "rev kept = rev (r # rev (replicate n ''..'' @ rs))" using q(1) by simp
    then have "kept = r # rev (replicate n ''..'' @ rs)" by (simp only: rev_is_rev_conv)
    moreover have "r \<noteq> ''..''" using q(2) snoc by (simp add: plain_part_def)
    moreover have "cleaned rooted (replicate n ''..'' @ rs)" using q(2,3) snoc unfolding cleaned_def
      by (intro exI [of _ n] exI [of _ rs]) simp
    ultimately show ?thesis by simp
  qed
qed


lemma clean_parts_cleaned:
  "cleaned rooted (rev kept) \<Longrightarrow> list_all (\<lambda>p. slash \<notin> set p) ps \<Longrightarrow> cleaned rooted (clean_parts rooted kept ps)"
proof (induction rooted kept ps rule: clean_parts.induct)
  case (2 rooted kept p ps)
  show ?case
  proof (cases "p = ''..''")
    case True
    then show ?thesis using cleaned_parent [OF "2.prems"(1)] "2.IH"(2,3,4) "2.prems" by (auto split: if_splits)
  next
    case False
    then have "cleaned rooted (rev (p # kept))" if "p \<noteq> ''''" "p \<noteq> ''.''"
      using cleaned_snoc [OF "2.prems"(1)] "2.prems"(2) that by (simp add: plain_part_def)
    then show ?thesis using False "2.IH"(1,5) "2.prems" by auto
  qed
qed simp

lemma clean_parts_plain: "list_all plain_part ps \<Longrightarrow> clean_parts rooted kept ps = rev kept @ ps"
  by (induction ps arbitrary: kept) (simp_all add: plain_part_def)

lemma clean_parts_parents: "clean_parts False (replicate m ''..'') (replicate n ''..'' @ ps) = clean_parts False (replicate (n + m) ''..'') ps"
proof (induction n arbitrary: m)
  case (Suc n)
  have "clean_parts False (replicate m ''..'') (replicate (Suc n) ''..'' @ ps) = clean_parts False (replicate (Suc m) ''..'') (replicate n ''..'' @ ps)"
    by (cases m) simp_all
  also have "\<dots> = clean_parts False (replicate (n + Suc m) ''..'') ps" by (rule Suc)
  finally show ?case by simp
qed simp

lemma clean_parts_idem:
  assumes "cleaned rooted ps"
  shows "clean_parts rooted [] ps = ps"
proof -
  obtain n qs where q: "ps = replicate n ''..'' @ qs" "list_all plain_part qs" "rooted \<longrightarrow> n = 0"
    using assms unfolding cleaned_def by blast
  show ?thesis
  proof (cases rooted)
    case True
    then show ?thesis using q by (simp add: clean_parts_plain)
  next
    case False
    then show ?thesis using q clean_parts_parents [of 0 n qs] by (simp add: clean_parts_plain)
  qed
qed

lemma split_slash_free: "list_all (\<lambda>p. slash \<notin> set p) (go_split slash p)"
  by (auto simp: list_all_iff dest: go_split_sep_free)

lemma clean_parts_split: "cleaned (path_is_abs p) (clean_parts (path_is_abs p) [] (go_split slash p))"
  by (rule clean_parts_cleaned) (simp_all add: split_slash_free cleaned_def)

text \<open>The elements of a cleaned relative path.\<close>

lemma join_parts_abs: "list_all (\<lambda>p. p \<noteq> '''' \<and> slash \<notin> set p) ps \<Longrightarrow> \<not> path_is_abs (path_join_parts ps)"
  by (induction ps rule: path_join_parts.induct) (auto simp: path_is_abs_def go_has_prefix_iff Cons_eq_append_conv append_eq_Cons_conv)

lemma cleaned_nonempty: "cleaned rooted ps \<Longrightarrow> list_all (\<lambda>p. p \<noteq> '''' \<and> slash \<notin> set p) ps"
  using cleaned_part by (simp add: list_all_iff)

theorem path_clean_relative:
  assumes "\<not> path_is_abs p"
  shows "path_clean p = ''.'' \<or> escapes (path_clean p) \<or> below (path_clean p)"
proof -
  define ps where "ps = clean_parts False [] (go_split slash p)"
  have c: "cleaned False ps" using clean_parts_split [of p] assms by (simp add: ps_def)
  have eq: "path_clean p = (if ps = [] then ''.'' else path_join_parts ps)" using assms by (simp add: path_clean_def ps_def)
  show ?thesis
  proof (cases ps)
    case (Cons q qs)
    obtain n rs where r: "ps = replicate n ''..'' @ rs" "list_all plain_part rs" using c unfolding cleaned_def by blast
    have sp: "go_split slash (path_join_parts ps) = ps" by (rule go_split_join [OF _ cleaned_slash_free [OF c]]) (simp add: Cons)
    show ?thesis
    proof (cases n)
      case 0
      have "path_join_parts ps \<noteq> ''''" using sp r 0 Cons by (auto simp: plain_part_def)
      then have "below (path_join_parts ps)" using r 0 sp by (simp add: below_def)
      then show ?thesis using eq Cons by simp
    next
      case (Suc m)
      then have "ps = ''..'' # qs" using r Cons by simp
      then have "escapes (path_join_parts ps)" by (cases qs) (simp_all add: escapes_def go_has_prefix_def)
      then show ?thesis using eq Cons by simp
    qed
  qed (simp add: eq)
qed

lemma below_not_abs: "below p \<Longrightarrow> \<not> path_is_abs p"
  by (cases p) (auto simp: below_def path_is_abs_def go_has_prefix_iff plain_part_def)

lemma below_clean:
  assumes "below p"
  shows "path_clean p = p"
proof -
  have "clean_parts False [] (go_split slash p) = go_split slash p" using assms by (simp add: clean_parts_plain below_def)
  then show ?thesis using below_not_abs [OF assms] join_split [of p] by (simp add: path_clean_def)
qed

lemma below_not_escapes: "below p \<Longrightarrow> \<not> escapes p \<and> p \<noteq> ''.''"
  by (auto simp: below_def escapes_def go_has_prefix_iff plain_part_def)

lemma path_clean_idem: "path_clean (path_clean p) = path_clean p"
proof -
  define ps where "ps = clean_parts (path_is_abs p) [] (go_split slash p)"
  have c: "cleaned (path_is_abs p) ps" using clean_parts_split [of p] by (simp add: ps_def)
  have sp: "go_split slash (path_join_parts ps) = ps" if "ps \<noteq> []" by (rule go_split_join [OF that cleaned_slash_free [OF c]])
  show ?thesis
  proof (cases "path_is_abs p")
    case True
    have "clean_parts True [] ([] # go_split slash (path_join_parts ps)) = ps"
      using sp c True clean_parts_idem [of True ps] by (cases "ps = []") simp_all
    moreover have "path_clean p = slash # path_join_parts ps" using True by (simp add: path_clean_def ps_def)
    ultimately show ?thesis by (simp add: path_clean_def path_is_abs_def go_has_prefix_def)
  next
    case False
    have "\<not> path_is_abs (path_join_parts ps)" by (rule join_parts_abs [OF cleaned_nonempty [OF c]])
    moreover have "clean_parts False [] ps = ps" using c False clean_parts_idem by simp
    moreover have "path_clean p = (if ps = [] then ''.'' else path_join_parts ps)" using False by (simp add: path_clean_def ps_def)
    ultimately show ?thesis using sp by (cases "ps = []") (simp_all add: path_clean_def path_is_abs_def go_has_prefix_def)
  qed
qed


section \<open>Parents\<close>

lemma join_parts_snoc: "ps \<noteq> [] \<Longrightarrow> path_join_parts (ps @ [q]) = path_join_parts ps @ slash # q"
  by (induction ps rule: path_join_parts.induct) simp_all

lemma while_not_slash:
  "slash \<notin> set q \<Longrightarrow> takeWhile (\<lambda>c. c \<noteq> slash) (q @ slash # s) = q \<and> dropWhile (\<lambda>c. c \<noteq> slash) (q @ slash # s) = slash # s"
  "slash \<notin> set q \<Longrightarrow> takeWhile (\<lambda>c. c \<noteq> slash) q = q \<and> dropWhile (\<lambda>c. c \<noteq> slash) q = []"
  by (induction q) auto

lemma path_split_snoc: "slash \<notin> set q \<Longrightarrow> path_split (s @ slash # q) = (s @ [slash], q)"
  using while_not_slash(1) [of "rev q" "rev s"] by (simp add: path_split_def)

lemma path_split_plain: "slash \<notin> set q \<Longrightarrow> path_split q = ('''', q)"
proof -
  assume "slash \<notin> set q"
  then have "takeWhile (\<lambda>c. c \<noteq> slash) (rev q) = rev q" "dropWhile (\<lambda>c. c \<noteq> slash) (rev q) = []"
    using while_not_slash(2) [of "rev q"] by (simp_all only: set_rev not_False_eq_True simp_thms)
  then show ?thesis by (simp only: path_split_def rev.simps rev_rev_ident)
qed

lemma go_split_snoc: "go_split slash (s @ [slash]) = go_split slash s @ [[]]"
proof (induction s)
  case (Cons c s)
  then show ?case by (cases "go_split slash s") auto
qed simp

lemma clean_parts_skip: "clean_parts rooted kept (ps @ [[]]) = clean_parts rooted kept ps"
  by (induction ps arbitrary: kept; cases rooted) simp_all

text \<open>The parent of a path made of plain elements.\<close>

lemma path_dir_parts:
  assumes "list_all plain_part ps" "plain_part q"
  shows "path_dir (path_join_parts (ps @ [q])) = (if ps = [] then ''.'' else path_join_parts ps)"
proof (cases "ps = []")
  case True
  have "path_split q = ('''', q)" using assms(2) by (intro path_split_plain) (simp add: plain_part_def)
  then show ?thesis using True by (simp add: path_dir_def path_clean_def path_is_abs_def go_has_prefix_def)
next
  case False
  let ?s = "path_join_parts ps"
  have free: "list_all (\<lambda>p. slash \<notin> set p) ps" "list_all (\<lambda>p. p \<noteq> '''' \<and> slash \<notin> set p) ps" using assms(1) by (simp_all add: list_all_iff plain_part_def)
  have sp: "go_split slash ?s = ps" by (rule go_split_join [OF False free(1)])
  have "?s \<noteq> ''''" using sp False assms(1) by (auto simp: plain_part_def)
  then have na: "\<not> path_is_abs (?s @ [slash])"
    using join_parts_abs [OF free(2)] by (cases ?s) (simp_all add: path_is_abs_def go_has_prefix_def)
  have "path_dir (path_join_parts (ps @ [q])) = path_clean (?s @ [slash])"
    using path_split_snoc [of q ?s] assms(2) by (simp add: path_dir_def join_parts_snoc [OF False] plain_part_def)
  also have "\<dots> = ?s" using na False clean_parts_plain [OF assms(1)]
    by (simp add: path_clean_def go_split_snoc sp clean_parts_skip)
  finally show ?thesis using False by simp
qed

lemma below_parts: "below p \<longleftrightarrow> (\<exists>ps. ps \<noteq> [] \<and> list_all plain_part ps \<and> p = path_join_parts ps)"
proof
  assume "below p"
  then show "\<exists>ps. ps \<noteq> [] \<and> list_all plain_part ps \<and> p = path_join_parts ps"
    using join_split [of p] by (intro exI [of _ "go_split slash p"]) (simp add: below_def)
next
  assume "\<exists>ps. ps \<noteq> [] \<and> list_all plain_part ps \<and> p = path_join_parts ps"
  then obtain ps where ps: "ps \<noteq> []" "list_all plain_part ps" "p = path_join_parts ps" by blast
  have "go_split slash p = ps" unfolding ps(3) by (rule go_split_join) (use ps in \<open>simp_all add: list_all_iff plain_part_def\<close>)
  then show "below p" using ps by (cases "p = ''''") (auto simp: below_def plain_part_def)
qed

lemma below_dir: "below p \<Longrightarrow> path_dir p = ''.'' \<or> below (path_dir p) \<and> length (path_dir p) < length p \<and> prefix (path_dir p) p"
proof -
  assume "below p"
  then obtain ps where ps: "ps \<noteq> []" "list_all plain_part ps" "p = path_join_parts ps" by (auto simp: below_parts)
  obtain qs q where q: "ps = qs @ [q]" using ps(1) by (cases ps rule: rev_cases) auto
  have d: "path_dir p = (if qs = [] then ''.'' else path_join_parts qs)" using ps q by (simp add: path_dir_parts)
  show ?thesis
  proof (cases "qs = []")
    case False
    then have "below (path_join_parts qs)" using ps(2) q by (auto simp: below_parts)
    then show ?thesis using False d ps(3) q by (simp add: join_parts_snoc)
  qed (simp add: d)
qed


section \<open>Size and characters\<close>

lemma length_join: "ps \<noteq> [] \<Longrightarrow> Suc (length (path_join_parts ps)) = sum_list (map (\<lambda>p. Suc (length p)) ps)"
  by (induction ps rule: path_join_parts.induct) simp_all

lemma clean_parts_sum: "sum_list (map f (clean_parts rooted kept ps)) \<le> sum_list (map f kept) + sum_list (map (f :: string \<Rightarrow> nat) ps)"
proof (induction rooted kept ps rule: clean_parts.induct)
  case (2 rooted kept p ps)
  have "sum_list (map f (tl kept)) \<le> sum_list (map f kept)" by (cases kept) simp_all
  then show ?case using "2.IH" by (auto simp: add.assoc intro: order_trans)
qed (simp add: rev_map [symmetric])

lemma path_clean_length: "length (path_clean p) \<le> max 1 (length p)"
proof -
  define ps where "ps = clean_parts (path_is_abs p) [] (go_split slash p)"
  have le: "sum_list (map (\<lambda>p. Suc (length p)) ps) \<le> Suc (length p)"
    using clean_parts_sum [of "\<lambda>p. Suc (length p)" "path_is_abs p" "[]" "go_split slash p"] length_join [OF go_split_not_Nil, of slash p]
    by (simp add: ps_def join_split)
  have eq: "path_clean p = (if path_is_abs p then slash # path_join_parts ps else if ps = [] then ''.'' else path_join_parts ps)"
    by (simp add: path_clean_def ps_def)
  show ?thesis
  proof (cases "path_is_abs p")
    case True
    then obtain s where s: "p = slash # s" by (auto simp: path_is_abs_def go_has_prefix_iff)
    have "sum_list (map (\<lambda>p. Suc (length p)) ps) \<le> Suc (length s)"
      using clean_parts_sum [of "\<lambda>p. Suc (length p)" True "[]" "go_split slash s"] length_join [OF go_split_not_Nil, of slash s] True
      by (simp add: ps_def join_split s)
    then show ?thesis using eq True length_join [of ps] by (cases "ps = []") (simp_all add: s)
  next
    case False
    then show ?thesis using eq le length_join [of ps] by (cases "ps = []") simp_all
  qed
qed

lemma set_join: "set (path_join_parts ps) \<subseteq> insert slash (\<Union> (set ` set ps))"
  by (induction ps rule: path_join_parts.induct) auto

lemma clean_parts_set: "set (clean_parts rooted kept ps) \<subseteq> set kept \<union> set ps"
proof (induction ps arbitrary: kept)
  case (Cons p ps)
  show ?case using Cons [of "tl kept"] Cons [of kept] Cons [of "p # kept"] by (cases kept) auto
qed simp

lemma go_split_set: "q \<in> set (go_split c s) \<Longrightarrow> set q \<subseteq> set s"
proof (induction s arbitrary: q)
  case (Cons d s)
  show ?case using Cons.prems Cons.IH [of "hd (go_split c s)"] Cons.IH [of q] by (cases "go_split c s") (auto split: if_splits)
qed simp

lemma path_clean_set: "set (path_clean p) \<subseteq> {slash, CHR ''.''} \<union> set p"
proof -
  let ?ps = "clean_parts (path_is_abs p) [] (go_split slash p)"
  have "set ?ps \<subseteq> set (go_split slash p)" using clean_parts_set [of "path_is_abs p" "[]" "go_split slash p"] by simp
  then have "\<Union> (set ` set ?ps) \<subseteq> set p" using go_split_set [of _ slash p] by (intro UN_least) (rule go_split_set, rule subsetD)
  then have "set (path_join_parts ?ps) \<subseteq> insert slash (set p)" using set_join [of ?ps] by (rule_tac subset_trans) (assumption, blast)
  then show ?thesis by (auto simp: path_clean_def Let_def split: if_splits)
qed

end
