(* ===== verification/Backup_Catalog.thy ===== *)
theory Backup_Catalog
  imports Backup_Evidence Go_Path
begin

text \<open>
  The file catalogue of a snapshot (internal/backup/catalog.go, capture_validation.go): validating
  and indexing a captured tar archive, decoding an index, browsing and comparing.  The tar reader,
  the JSON encoding of documents, SHA-256 and restic are parameters: an archive is the list of headers the reader
  returns, a JSON document is its length and the value json.Unmarshal makes of it.
\<close>

record Writer =
  wr_container :: string
  wr_stack :: string
  wr_service :: string
  wr_running :: bool
  wr_read_only :: bool
  wr_stop_timeout :: "int option"

record ManifestSource =
  ms_source :: Source
  ms_saved_path :: string
  ms_original_path :: string
  ms_writers :: "Writer list"
  ms_consumers :: "Writer list"
  ms_aliases :: "Source list"
  ms_archive :: bool
  ms_size :: int
  ms_volume :: string
  ms_file_name :: string
  ms_index_path :: string
  ms_index_version :: int
  ms_entry_count :: int
  ms_index_reason :: string
  ms_restrictions :: "string list"

record Manifest =
  mf_version :: int
  mf_run :: string
  mf_plan :: string
  mf_captured_at :: time
  mf_consistency :: string
  mf_sources :: "ManifestSource list"
  mf_warnings :: "string list"
  mf_stacklab_version :: string
  mf_images :: "string list"
  mf_downtime :: int

record FileEntry =
  fe_path :: string
  fe_type :: string
  fe_size :: int
  fe_modified :: time
  fe_sha256 :: string
  fe_metadata_sha256 :: string
  fe_link :: string
  fe_mode :: int
  fe_uid :: int
  fe_gid :: int

record FileIndex =
  fi_version :: int
  fi_source :: string
  fi_entries :: "FileEntry list"

record CatalogQuery =
  cq_source :: string
  cq_path :: string
  cq_search :: string
  cq_offset :: int
  cq_limit :: int

record CatalogPage =
  pg_items :: "FileEntry list"
  pg_sources :: "ManifestSource list"
  pg_source :: string
  pg_path :: string
  pg_total :: int
  pg_offset :: int
  pg_limit :: int
  pg_available :: bool
  pg_reason :: string
  pg_transfer :: int

record FileChange =
  fc_path :: string
  fc_change :: string
  fc_before :: "FileEntry option"
  fc_after :: "FileEntry option"
  fc_content :: bool
  fc_metadata :: bool

record FileComparison =
  cmp_items :: "FileChange list"
  cmp_total :: int
  cmp_offset :: int
  cmp_limit :: int
  cmp_available :: bool
  cmp_reason :: string
  cmp_added :: int
  cmp_removed :: int
  cmp_modified :: int

definition maxCatalogEntries :: int where
  "maxCatalogEntries = 100000"

definition maxCatalogBytes :: int where
  "maxCatalogBytes = 12 * 1048576"

type_synonym 'a json_data = "int \<times> 'a option"

definition hex_lower :: "char list" where
  "hex_lower = ''0123456789abcdef''"

definition id_chars :: "char list" where
  "id_chars = ''abcdefghijklmnopqrstuvwxyzABCDEFGHIJKLMNOPQRSTUVWXYZ0123456789_-''"

definition safeID :: "string \<Rightarrow> bool" where
  "safeID s \<longleftrightarrow> 1 \<le> length s \<and> length s \<le> 100 \<and> list_all (\<lambda>c. c \<in> set id_chars) s"

definition snapshotID :: "string \<Rightarrow> bool" where
  "snapshotID s \<longleftrightarrow> 8 \<le> length s \<and> length s \<le> 64 \<and> list_all (\<lambda>c. c \<in> set hex_lower) s"

text \<open>strings.ContainsAny, and what encoding/hex.DecodeString accepts.\<close>

definition go_contains_any :: "string \<Rightarrow> string \<Rightarrow> bool" where
  "go_contains_any s cs = list_ex (\<lambda>c. c \<in> set cs) s"

definition hex_decodes :: "string \<Rightarrow> bool" where
  "hex_decodes s \<longleftrightarrow> even (length s) \<and> list_all (\<lambda>c. c \<in> set (hex_lower @ ''ABCDEF'')) s"

definition line_chars :: string where
  "line_chars = [CHR 0x00, CHR 0x0D, CHR 0x0A]"

definition catalogPath :: "string \<Rightarrow> bool \<Rightarrow> backup_error + string" where
  "catalogPath v allowRoot =
     (if int (length v) > 4096 \<or> go_contains_any v (CHR 0x5C # line_chars) \<or> path_is_abs v then Inl (BInvalid ''invalid relative file path'')
      else let clean = path_clean v in
        if clean = ''..'' \<or> go_has_prefix clean ''../'' then Inl (BInvalid ''file path escapes source'')
        else if clean = ''.'' then (if allowRoot then Inr '''' else Inl (BInvalid ''select a file''))
        else Inr clean)"

definition normalizeCatalogQuery :: "CatalogQuery \<Rightarrow> backup_error + CatalogQuery" where
  "normalizeCatalogQuery query =
     rbind (catalogPath (cq_path query) True) (\<lambda>p.
       if cq_source query \<noteq> '''' \<and> \<not> safeID (cq_source query) \<or> int (length (cq_search query)) > 256 \<or> go_contains_any (cq_search query) line_chars \<or>
          cq_offset query < 0 \<or> cq_limit query < 0 \<or> cq_limit query > 500
       then Inl (BInvalid ''invalid catalog query'')
       else Inr (query\<lparr>cq_path := p, cq_limit := if cq_limit query = 0 then 100 else cq_limit query\<rparr>))"


section \<open>Archives\<close>

datatype Typeflag = TypeReg | TypeRegA | TypeDir | TypeSymlink | TypeLink | TypeFifo | TypeChar | TypeBlock | TypeOther

record tar_header =
  th_name :: string
  th_link :: string
  th_type :: Typeflag
  th_size :: int
  th_mode :: int
  th_uid :: int
  th_gid :: int
  th_modified :: time
  th_xattrs :: "(string, string) gomap"
  th_pax :: "(string, string) gomap"
  th_content :: "string + string"

text \<open>The headers up to the end of the archive, or up to a read error.  \<open>th_content\<close> is the
  SHA-256 digest of the body in hexadecimal, or the error of reading it.\<close>

record tar_stream =
  ta_headers :: "tar_header list"
  ta_error :: "string option"

definition mode_outside :: "int \<Rightarrow> bool" where
  "mode_outside mode \<longleftrightarrow> mode < 0 \<or> mode div 4096 \<noteq> 0"

definition restrict :: "string \<Rightarrow> string \<Rightarrow> (string \<times> string) list \<Rightarrow> (string \<times> string) list" where
  "restrict category name rs = (if category \<in> fst ` set rs then rs else rs @ [(category, name)])"

definition outside :: "string \<Rightarrow> bool" where
  "outside p \<longleftrightarrow> p = ''..'' \<or> go_has_prefix p ''../''"

definition header_restrictions :: "int \<Rightarrow> tar_header \<Rightarrow> (string \<times> string) list \<Rightarrow> (string \<times> string) list" where
  "header_restrictions entries h rs =
     (let name = path_clean (th_name h);
          r0 = if entries > 1000000 then restrict ''archive exceeds the automatic extraction entry limit'' (th_name h) rs else rs;
          r1 = if go_contains name [CHR 0x5C] then restrict ''member name contains a backslash'' name r0 else r0;
          r2 = if th_mode h div 2048 mod 2 = 1 \<or> th_mode h div 1024 mod 2 = 1 \<and> th_type h \<noteq> TypeDir
               then restrict ''setuid or setgid file permissions'' name r1 else r1;
          r3 = if ''security.capability'' \<in> fst ` set (th_xattrs h) then restrict ''file capabilities'' name r2 else r2;
          r4 = if list_ex (\<lambda>(key, _). go_has_suffix key ''.security.capability'') (th_pax h) then restrict ''file capabilities'' name r3 else r3
      in case th_type h of
           TypeReg \<Rightarrow> r4 | TypeRegA \<Rightarrow> r4 | TypeDir \<Rightarrow> r4
         | TypeSymlink \<Rightarrow>
             let resolved = path_clean (path_join [path_dir name, th_link h])
             in if path_is_abs (th_link h) \<or> outside resolved then restrict ''symlink points outside the source'' name r4 else r4
         | TypeLink \<Rightarrow>
             let link = path_clean (th_link h)
             in if path_is_abs link \<or> outside link then restrict ''hard link points outside the source'' name r4 else r4
         | _ \<Rightarrow> restrict ''special file metadata'' name r4)"

fun validate_headers :: "int \<Rightarrow> (string \<times> string) list \<Rightarrow> string option \<Rightarrow> tar_header list \<Rightarrow> backup_error + (string \<times> string) list" where
  "validate_headers entries rs failure [] = (case failure of None \<Rightarrow> Inr rs | Some e \<Rightarrow> Inl (BOther e))"
| "validate_headers entries rs failure (h # hs) =
     (let name = path_clean (th_name h) in
      if int (length (th_name h)) > 4096 \<or> int (length (th_link h)) > 4096 \<or> go_contains_any name [CHR 0x00] \<or> path_is_abs name \<or> outside name
      then Inl (BOther ''archive contains an invalid member path'')
      else if th_uid h < 0 \<or> th_gid h < 0 \<or> mode_outside (th_mode h) then Inl (BOther ''invalid ownership or permissions'')
      else validate_headers (entries + 1) (header_restrictions (entries + 1) h rs) failure hs)"

definition ValidateCapturedArchive :: "tar_stream \<Rightarrow> backup_error + (string \<times> string) list" where
  "ValidateCapturedArchive t = validate_headers 0 [] (ta_error t) (ta_headers t)"


section \<open>Indexing\<close>

text \<open>\<open>IUnavailable\<close> is an error that wraps \<open>ErrIndexUnavailable\<close>.\<close>

datatype index_error = IUnavailable string | IError backup_error

record index_work =
  iw_entries :: "(string, FileEntry) gomap"
  iw_explicit :: "string list"
  iw_bytes :: int

text \<open>The parent directories of a name.  path.Dir of a name below its root ends at \<open>.\<close>; for other
  names the loop need not end, and has no result.\<close>

partial_function (option) parent_dirs :: "string \<Rightarrow> string list option" where
  "parent_dirs name =
     (if path_dir name = ''.'' then Some []
      else Option.bind (parent_dirs (path_dir name)) (\<lambda>ps. Some (path_dir name # ps)))"

declare parent_dirs.simps [code]

definition add_parent :: "string \<Rightarrow> index_work \<Rightarrow> index_work" where
  "add_parent parent w =
     (if mget (iw_entries w) parent \<noteq> None then w
      else w\<lparr>iw_entries := mput parent \<lparr>fe_path = parent, fe_type = ''directory'', fe_size = 0, fe_modified = 0, fe_sha256 = '''',
                 fe_metadata_sha256 = '''', fe_link = '''', fe_mode = 0, fe_uid = 0, fe_gid = 0\<rparr> (iw_entries w),
             iw_bytes := iw_bytes w + int (length parent) + 200\<rparr>)"

definition header_metadata :: "tar_header \<Rightarrow> (string, string) gomap" where
  "header_metadata h =
     fold (\<lambda>(key, v) m. if go_contains key ''.acl.'' \<or> go_contains key ''.xattr.'' then mput key v m else m) (th_pax h)
       (fold (\<lambda>(key, v) m. mput (''xattr:'' @ key) v m) (th_xattrs h) [])"

definition header_entry :: "((string, string) gomap \<Rightarrow> string) \<Rightarrow> string \<Rightarrow> tar_header \<Rightarrow> index_error + FileEntry" where
  "header_entry digest name h =
     (let entry = \<lparr>fe_path = name, fe_type = '''', fe_size = 0, fe_modified = th_modified h, fe_sha256 = '''',
                   fe_metadata_sha256 = if header_metadata h \<noteq> [] then digest (header_metadata h) else '''',
                   fe_link = '''', fe_mode = th_mode h, fe_uid = th_uid h, fe_gid = th_gid h\<rparr>;
          file = (case th_content h of
                    Inl e \<Rightarrow> Inl (IError (BOther e))
                  | Inr sha \<Rightarrow> Inr (entry\<lparr>fe_type := ''file'', fe_size := th_size h, fe_sha256 := sha\<rparr>))
      in case th_type h of
           TypeReg \<Rightarrow> file | TypeRegA \<Rightarrow> file
         | TypeDir \<Rightarrow> Inr (entry\<lparr>fe_type := ''directory''\<rparr>)
         | TypeSymlink \<Rightarrow> Inr (entry\<lparr>fe_type := ''symlink'', fe_link := th_link h\<rparr>)
         | TypeLink \<Rightarrow> Inr (entry\<lparr>fe_type := ''hardlink'', fe_link := path_clean (th_link h)\<rparr>)
         | TypeFifo \<Rightarrow> Inr (entry\<lparr>fe_type := ''fifo''\<rparr>)
         | TypeChar \<Rightarrow> Inr (entry\<lparr>fe_type := ''character_device''\<rparr>)
         | TypeBlock \<Rightarrow> Inr (entry\<lparr>fe_type := ''block_device''\<rparr>)
         | TypeOther \<Rightarrow> Inl (IUnavailable ''unsupported indexed file type''))"

text \<open>One header of the archive.  \<open>None\<close> is a loop over parents that does not end.\<close>

definition index_header ::
  "((string, string) gomap \<Rightarrow> string) \<Rightarrow> (FileEntry \<Rightarrow> int) \<Rightarrow> tar_header \<Rightarrow> index_work \<Rightarrow> (index_error + index_work) option" where
  "index_header digest encoded h w =
     (if path_clean (th_name h) = ''.'' then Some (Inr w)
      else case catalogPath (th_name h) False of
        Inl _ \<Rightarrow> Some (Inl (IUnavailable ''a captured path cannot be represented in the file browser''))
      | Inr name \<Rightarrow>
          if name \<in> set (iw_explicit w) then Some (Inl (IError (BOther ''source archive contains duplicate paths'')))
          else case header_entry digest name h of
            Inl e \<Rightarrow> Some (Inl e)
          | Inr entry \<Rightarrow>
              map_option (\<lambda>parents.
                let w1 = w\<lparr>iw_explicit := name # iw_explicit w, iw_entries := mput name entry (iw_entries w),
                           iw_bytes := iw_bytes w + encoded entry + 1\<rparr>;
                    w2 = fold add_parent parents w1
                in if int (length (iw_entries w2)) > maxCatalogEntries \<or> iw_bytes w2 > maxCatalogBytes - 1024
                   then Inl (IUnavailable ''source exceeds 100000 entries or 12 MiB of index metadata'')
                   else Inr w2)
              (parent_dirs name))"

fun index_headers ::
  "((string, string) gomap \<Rightarrow> string) \<Rightarrow> (FileEntry \<Rightarrow> int) \<Rightarrow> string option \<Rightarrow> tar_header list \<Rightarrow> index_work \<Rightarrow> (index_error + index_work) option" where
  "index_headers digest encoded failure [] w = Some (case failure of None \<Rightarrow> Inr w | Some e \<Rightarrow> Inl (IError (BOther e)))"
| "index_headers digest encoded failure (h # hs) w =
     (case index_header digest encoded h w of
        None \<Rightarrow> None
      | Some (Inl e) \<Rightarrow> Some (Inl e)
      | Some (Inr w1) \<Rightarrow> index_headers digest encoded failure hs w1)"

definition indexArchive ::
  "((string, string) gomap \<Rightarrow> string) \<Rightarrow> (FileEntry \<Rightarrow> int) \<Rightarrow> tar_stream \<Rightarrow> string \<Rightarrow> (index_error + FileIndex) option" where
  "indexArchive digest encoded t sourceID =
     (if \<not> safeID sourceID then Some (Inl (IError (BInvalid ''invalid source identity'')))
      else case ValidateCapturedArchive t of
        Inl e \<Rightarrow> Some (Inl (IError e))
      | Inr _ \<Rightarrow>
          map_option (\<lambda>r. rbind r (\<lambda>w. Inr \<lparr>fi_version = 1, fi_source = sourceID, fi_entries = sort_key fe_path (map snd (iw_entries w))\<rparr>))
            (index_headers digest encoded (ta_error t) (ta_headers t) \<lparr>iw_entries = [], iw_explicit = [], iw_bytes = 0\<rparr>))"

definition no_index :: "string \<Rightarrow> ManifestSource \<Rightarrow> ManifestSource" where
  "no_index reason source = source\<lparr>ms_index_reason := reason, ms_index_path := '''', ms_index_version := 0, ms_entry_count := 0\<rparr>"

text \<open>\<open>written\<close> is the error of creating the directory or writing the file; \<open>bytes\<close> the length of the encoded index.
  The result is the index stored, the bytes it takes and the manifest source.\<close>

definition writeSourceIndex ::
  "((string, string) gomap \<Rightarrow> string) \<Rightarrow> (FileEntry \<Rightarrow> int) \<Rightarrow> (FileIndex \<Rightarrow> int) \<Rightarrow> backup_error option \<Rightarrow> tar_stream \<Rightarrow> ManifestSource \<Rightarrow> int \<Rightarrow>
   (backup_error + FileIndex option \<times> int \<times> ManifestSource) option" where
  "writeSourceIndex digest encoded bytes written t source remaining =
     map_option (\<lambda>r. case r of
         Inl (IUnavailable reason) \<Rightarrow> Inr (None, 0, no_index (''source file index unavailable: '' @ reason) source)
       | Inl (IError e) \<Rightarrow> Inl e
       | Inr index \<Rightarrow>
           if bytes index > maxCatalogBytes \<or> bytes index > remaining
           then Inr (None, 0, no_index ''Source index exceeds the available staging budget or 12 MiB; the complete archive is preserved.'' source)
           else case written of
             Some e \<Rightarrow> Inl e
           | None \<Rightarrow> Inr (Some index, bytes index,
               source\<lparr>ms_index_reason := '''', ms_index_path := ''indexes/'' @ so_id (ms_source source) @ ''.json'', ms_index_version := 1,
                      ms_entry_count := int (length (fi_entries index))\<rparr>))
       (indexArchive digest encoded t (so_id (ms_source source)))"

definition bad_digest :: "string \<Rightarrow> bool" where
  "bad_digest s \<longleftrightarrow> length s \<noteq> 64 \<or> \<not> hex_decodes s"

definition entry_error :: "string list \<Rightarrow> FileEntry \<Rightarrow> backup_error option" where
  "entry_error seen e =
     (if catalogPath (fe_path e) False \<noteq> Inr (fe_path e) \<or> fe_path e \<in> set seen \<or> fe_size e < 0 \<or> fe_size e > 2 ^ 60 \<or>
         mode_outside (fe_mode e) \<or> fe_uid e < 0 \<or> fe_gid e < 0
      then Some (BOther ''invalid source index entry'')
      else if fe_metadata_sha256 e \<noteq> '''' \<and> bad_digest (fe_metadata_sha256 e) then Some (BOther ''invalid source metadata digest'')
      else if fe_type e = ''file'' then (if bad_digest (fe_sha256 e) then Some (BOther ''invalid source content digest'') else None)
      else if fe_type e \<in> set [''directory'', ''fifo'', ''character_device'', ''block_device''] then None
      else if fe_type e \<in> set [''symlink'', ''hardlink''] then
        (if int (length (fe_link e)) > 4096 \<or> go_contains_any (fe_link e) line_chars then Some (BOther ''invalid indexed link'') else None)
      else Some (BOther ''unsupported source index entry''))"

fun entries_error :: "string list \<Rightarrow> FileEntry list \<Rightarrow> backup_error option" where
  "entries_error seen [] = None"
| "entries_error seen (e # es) = (case entry_error seen e of Some err \<Rightarrow> Some err | None \<Rightarrow> entries_error (fe_path e # seen) es)"

definition decodeIndex :: "FileIndex json_data \<Rightarrow> ManifestSource \<Rightarrow> backup_error + FileIndex" where
  "decodeIndex data source =
     (if fst data > maxCatalogBytes then Inl (BOther ''source index exceeds 12 MiB'')
      else case snd data of
        None \<Rightarrow> Inl (BOther ''invalid source file index'')
      | Some index \<Rightarrow>
          if fi_version index \<noteq> 1 \<or> fi_source index \<noteq> so_id (ms_source source) \<or> int (length (fi_entries index)) > maxCatalogEntries
          then Inl (BOther ''unsupported or oversized source file index'')
          else case entries_error [] (fi_entries index) of Some err \<Rightarrow> Inl err | None \<Rightarrow> Inr index)"


section \<open>Manifests and queries\<close>

text \<open>The sentinel errors of snapshot_verification.go; any other error is \<open>SOther\<close>.\<close>

datatype snapshot_error = SIncomplete | SLegacy | SUnsupported | SInvalid | SOther backup_error

fun sources_error :: "string list \<Rightarrow> ManifestSource list \<Rightarrow> snapshot_error option" where
  "sources_error seen [] = None"
| "sources_error seen (s # ss) =
     (if \<not> safeID (so_id (ms_source s)) \<or> so_id (ms_source s) \<in> set seen \<or> ms_size s < 0 \<or> ms_size s > 2 ^ 60
      then Some SInvalid
      else if catalogPath (ms_saved_path s) False \<noteq> Inr (ms_saved_path s) then Some SInvalid
      else if ms_index_path s \<noteq> '''' \<and> ms_index_version s \<noteq> 1 then Some SUnsupported
      else if ms_index_path s \<noteq> '''' \<and> ms_index_path s \<noteq> ''indexes/'' @ so_id (ms_source s) @ ''.json'' then Some SInvalid
      else sources_error (so_id (ms_source s) # seen) ss)"


definition validateCatalogManifest :: "Manifest \<Rightarrow> snapshot_error option" where
  "validateCatalogManifest manifest =
     (if mf_version manifest \<noteq> 1 then Some SUnsupported
      else if int (length (mf_sources manifest)) > 10000 then Some SInvalid
      else sources_error [] (mf_sources manifest))"

text \<open>What restic reports of one snapshot: its file listing, its manifest and its source indexes.  A line of
  the listing is blank, not decodable, or a node.\<close>

record repository_node =
  rn_path :: string
  rn_type :: string
  rn_size :: int

datatype listing_line = BlankLine | BadLine | NodeLine repository_node

record saved_snapshot =
  sv_listing :: "backup_error + listing_line list"
  sv_manifest :: "backup_error + Manifest json_data"
  sv_index :: "string \<Rightarrow> backup_error + FileIndex json_data"

definition snapshotManifest :: "string \<Rightarrow> saved_snapshot \<Rightarrow> snapshot_error + Manifest" where
  "snapshotManifest sid r =
     (if \<not> snapshotID sid then Inl (SOther (BInvalid ''invalid snapshot ID''))
      else case sv_manifest r of
        Inl e \<Rightarrow> Inl (SOther e)
      | Inr data \<Rightarrow>
          if fst data > 16 * 1048576 then Inl SInvalid
          else case snd data of
            None \<Rightarrow> Inl SInvalid
          | Some manifest \<Rightarrow> (case validateCatalogManifest manifest of Some e \<Rightarrow> Inl e | None \<Rightarrow> Inr manifest))"

definition catalogSource :: "Manifest \<Rightarrow> string \<Rightarrow> ManifestSource option" where
  "catalogSource manifest sid = find (\<lambda>s. so_id (ms_source s) = sid) (mf_sources manifest)"

text \<open>An index that is not available is \<open>Inr None\<close>.\<close>

definition snapshotIndex :: "saved_snapshot \<Rightarrow> ManifestSource \<Rightarrow> backup_error + FileIndex option" where
  "snapshotIndex r source =
     (if ms_index_path source = '''' then Inr None
      else rbind (sv_index r (''/'' @ ms_index_path source)) (\<lambda>data. rbind (decodeIndex data source) (\<lambda>index. Inr (Some index))))"

text \<open>\<open>lower\<close> is strings.ToLower.\<close>

definition entryMatches :: "(string \<Rightarrow> string) \<Rightarrow> string \<Rightarrow> CatalogQuery \<Rightarrow> bool" where
  "entryMatches lower entryPath query =
     (if cq_path query \<noteq> '''' \<and> \<not> go_has_prefix entryPath (cq_path query @ ''/'') then False
      else if cq_search query \<noteq> '''' then go_contains (lower entryPath) (lower (cq_search query))
      else let parent = path_dir entryPath in (if parent = ''.'' then '''' else parent) = cq_path query)"

fun transfer_bytes :: "int \<Rightarrow> ManifestSource list \<Rightarrow> backup_error + int" where
  "transfer_bytes acc [] = Inr acc"
| "transfer_bytes acc (s # ss) =
     (if acc > 2 ^ 60 - ms_size s then Inl (BOther ''source transfer size overflow'') else transfer_bytes (acc + ms_size s) ss)"

definition page_of :: "int \<Rightarrow> int \<Rightarrow> 'a list \<Rightarrow> 'a list" where
  "page_of offset limit xs =
     (let n = int (length xs); start = min offset n; count = min limit (n - start) in take (nat count) (drop (nat start) xs))"

definition catalogPage :: "(string \<Rightarrow> string) \<Rightarrow> Manifest \<Rightarrow> FileIndex \<Rightarrow> bool \<Rightarrow> CatalogQuery \<Rightarrow> backup_error + CatalogPage" where
  "catalogPage lower manifest index available query =
     (let page = \<lparr>pg_items = [], pg_sources = mf_sources manifest, pg_source = cq_source query, pg_path = cq_path query, pg_total = 0,
                  pg_offset = cq_offset query, pg_limit = cq_limit query, pg_available = available, pg_reason = '''', pg_transfer = 0\<rparr>
      in if cq_source query = '''' then rbind (transfer_bytes 0 (mf_sources manifest)) (\<lambda>bytes. Inr (page\<lparr>pg_transfer := bytes\<rparr>))
         else case catalogSource manifest (cq_source query) of
           None \<Rightarrow> Inl BNotFound
         | Some source \<Rightarrow>
             let reason = (if available then ''''
                           else if ms_index_reason source = ''''
                             then ''This snapshot has no file index. Isolated recovery may build a bounded local index.''
                             else ms_index_reason source);
                 filtered = sort_key (\<lambda>e. (fe_type e \<noteq> ''directory'', fe_path e)) (filter (\<lambda>e. entryMatches lower (fe_path e) query) (fi_entries index))
             in Inr (page\<lparr>pg_transfer := ms_size source, pg_reason := reason, pg_total := int (length filtered),
                          pg_items := page_of (cq_offset query) (cq_limit query) filtered\<rparr>))"

text \<open>A repository that answers for every snapshot; the destination and the reservation of the repository are the caller's.\<close>

definition snapshot_failure :: "snapshot_error \<Rightarrow> backup_error" where
  "snapshot_failure e = (case e of SOther b \<Rightarrow> b | _ \<Rightarrow> BOther ''snapshot is not readable'')"

definition lift_snapshot :: "snapshot_error + 'a \<Rightarrow> backup_error + 'a" where
  "lift_snapshot r = (case r of Inl e \<Rightarrow> Inl (snapshot_failure e) | Inr x \<Rightarrow> Inr x)"

definition SnapshotCatalog :: "(string \<Rightarrow> string) \<Rightarrow> backup_error option \<Rightarrow> (string \<Rightarrow> saved_snapshot) \<Rightarrow> string \<Rightarrow> CatalogQuery \<Rightarrow> backup_error + CatalogPage" where
  "SnapshotCatalog lower reserved repo sid query =
     (if \<not> snapshotID sid then Inl (BInvalid ''invalid snapshot ID'')
      else rbind (normalizeCatalogQuery query) (\<lambda>q.
        case reserved of Some e \<Rightarrow> Inl e | None \<Rightarrow>
        rbind (lift_snapshot (snapshotManifest sid (repo sid))) (\<lambda>manifest.
          if cq_source q \<noteq> '''' then
            (case catalogSource manifest (cq_source q) of
               None \<Rightarrow> Inl BNotFound
             | Some source \<Rightarrow>
                 rbind (snapshotIndex (repo sid) source) (\<lambda>found.
                   case found of
                     None \<Rightarrow> catalogPage lower manifest \<lparr>fi_version = 0, fi_source = '''', fi_entries = []\<rparr> False q
                   | Some index \<Rightarrow> catalogPage lower manifest index True q))
          else catalogPage lower manifest \<lparr>fi_version = 0, fi_source = '''', fi_entries = []\<rparr>
                 (list_all (\<lambda>s. ms_index_path s \<noteq> '''') (mf_sources manifest)) q)))"

definition file_change :: "FileEntry option \<Rightarrow> FileEntry option \<Rightarrow> string \<Rightarrow> FileChange option" where
  "file_change old fresh name =
     (case old of
        None \<Rightarrow> Some \<lparr>fc_path = name, fc_change = ''added'', fc_before = None, fc_after = fresh, fc_content = False, fc_metadata = False\<rparr>
      | Some a \<Rightarrow>
          (case fresh of
             None \<Rightarrow> Some \<lparr>fc_path = name, fc_change = ''removed'', fc_before = old, fc_after = None, fc_content = False, fc_metadata = False\<rparr>
           | Some b \<Rightarrow>
               let content = (fe_type a \<noteq> fe_type b \<or> fe_size a \<noteq> fe_size b \<or> fe_sha256 a \<noteq> fe_sha256 b \<or> fe_link a \<noteq> fe_link b);
                   meta = (fe_modified a \<noteq> fe_modified b \<or> fe_mode a \<noteq> fe_mode b \<or> fe_uid a \<noteq> fe_uid b \<or> fe_gid a \<noteq> fe_gid b \<or>
                           fe_metadata_sha256 a \<noteq> fe_metadata_sha256 b)
               in if \<not> content \<and> \<not> meta then None
                  else Some \<lparr>fc_path = name, fc_change = ''modified'', fc_before = old, fc_after = fresh, fc_content = content, fc_metadata = meta\<rparr>))"

definition entry_table :: "FileEntry list \<Rightarrow> (string, FileEntry) gomap" where
  "entry_table es = fold (\<lambda>e m. mput (fe_path e) e m) es []"

definition all_changes :: "FileEntry list \<Rightarrow> FileEntry list \<Rightarrow> FileChange list" where
  "all_changes base current =
     (let before = entry_table base; after = entry_table current
      in List.map_filter (\<lambda>name. file_change (mget before name) (mget after name) name) (remdups (map fe_path base @ map fe_path current)))"

definition change_wanted :: "(string \<Rightarrow> string) \<Rightarrow> CatalogQuery \<Rightarrow> string \<Rightarrow> bool" where
  "change_wanted lower query name \<longleftrightarrow>
     (cq_path query = '''' \<or> name = cq_path query \<or> go_has_prefix name (cq_path query @ ''/'')) \<and>
     (cq_search query = '''' \<or> go_contains (lower name) (lower (cq_search query)))"

definition count_change :: "string \<Rightarrow> FileChange list \<Rightarrow> int" where
  "count_change kind cs = int (length (filter (\<lambda>c. fc_change c = kind) cs))"

definition compare_indexes :: "(string \<Rightarrow> string) \<Rightarrow> CatalogQuery \<Rightarrow> FileEntry list \<Rightarrow> FileEntry list \<Rightarrow> FileComparison" where
  "compare_indexes lower query base current =
     (let cs = all_changes base current;
          changes = sort_key fc_path (filter (\<lambda>c. change_wanted lower query (fc_path c)) cs)
      in \<lparr>cmp_items = page_of (cq_offset query) (cq_limit query) changes, cmp_total = int (length changes), cmp_offset = cq_offset query,
          cmp_limit = cq_limit query, cmp_available = True, cmp_reason = '''', cmp_added = count_change ''added'' cs,
          cmp_removed = count_change ''removed'' cs, cmp_modified = count_change ''modified'' cs\<rparr>)"

text \<open>The index of a source, the empty one for a source the manifest does not have.\<close>

definition compared_index :: "saved_snapshot \<Rightarrow> ManifestSource option \<Rightarrow> backup_error + FileIndex option" where
  "compared_index r source =
     (case source of None \<Rightarrow> Inr (Some \<lparr>fi_version = 0, fi_source = '''', fi_entries = []\<rparr>) | Some s \<Rightarrow> snapshotIndex r s)"

definition CompareSnapshotFiles ::
  "(string \<Rightarrow> string) \<Rightarrow> backup_error option \<Rightarrow> (string \<Rightarrow> saved_snapshot) \<Rightarrow> string \<Rightarrow> string \<Rightarrow> CatalogQuery \<Rightarrow> backup_error + FileComparison" where
  "CompareSnapshotFiles lower reserved repo sid baseID query =
     rbind (normalizeCatalogQuery query) (\<lambda>q.
       if cq_source q = '''' then Inl (BInvalid ''source_id is required for comparison'')
       else if \<not> snapshotID sid \<or> \<not> snapshotID baseID then Inl (BInvalid ''snapshot and base_snapshot_id must be hexadecimal IDs'')
       else case reserved of Some e \<Rightarrow> Inl e | None \<Rightarrow>
       rbind (lift_snapshot (snapshotManifest sid (repo sid))) (\<lambda>current.
       rbind (lift_snapshot (snapshotManifest baseID (repo baseID))) (\<lambda>base.
         let currentSource = catalogSource current (cq_source q); baseSource = catalogSource base (cq_source q)
         in if currentSource = None \<and> baseSource = None then Inl BNotFound
            else rbind (compared_index (repo sid) currentSource) (\<lambda>ci.
                 rbind (compared_index (repo baseID) baseSource) (\<lambda>bi.
                   case (ci, bi) of
                     (Some c, Some b) \<Rightarrow> Inr (compare_indexes lower q (fi_entries b) (fi_entries c))
                   | _ \<Rightarrow> Inr \<lparr>cmp_items = [], cmp_total = 0, cmp_offset = cq_offset q, cmp_limit = cq_limit q, cmp_available = False,
                               cmp_reason = ''Comparison requires complete indexes for both sources.'', cmp_added = 0, cmp_removed = 0,
                               cmp_modified = 0\<rparr>)))))"


section \<open>Paths\<close>

lemma contains_any_append: "go_contains_any s (a # cs) \<longleftrightarrow> a \<in> set s \<or> go_contains_any s cs"
  by (auto simp: go_contains_any_def list_ex_iff)

lemma contains_any_mono: "set s \<subseteq> set t \<union> (- set cs) \<Longrightarrow> \<not> go_contains_any t cs \<Longrightarrow> \<not> go_contains_any s cs"
  unfolding go_contains_any_def list_ex_iff by blast

definition catalog_path_ok :: "string \<Rightarrow> bool" where
  "catalog_path_ok p \<longleftrightarrow> below p \<and> length p \<le> 4096 \<and> \<not> go_contains_any p (CHR 0x5C # line_chars)"

lemma catalog_path_ok_fixed: "catalog_path_ok p \<Longrightarrow> catalogPath p r = Inr p"
  using below_not_escapes [of p] below_not_abs [of p] by (simp add: catalog_path_ok_def catalogPath_def below_clean escapes_def)

lemma catalog_path_result:
  assumes "catalogPath v r = Inr p"
  shows "r \<and> p = '''' \<or> catalog_path_ok p"
proof -
  have v: "length v \<le> 4096" "\<not> go_contains_any v (CHR 0x5C # line_chars)" "\<not> path_is_abs v"
    using assms by (auto simp: catalogPath_def split: if_splits)
  have res: "\<not> escapes (path_clean v)" "if path_clean v = ''.'' then r \<and> p = '''' else p = path_clean v"
    using assms v by (auto simp: catalogPath_def escapes_def Let_def split: if_splits)
  show ?thesis
  proof (cases "path_clean v = ''.''")
    case False
    then have p: "p = path_clean v" "below p" using res path_clean_relative [OF v(3)] by auto
    have len: "length p \<le> 4096" using path_clean_length [of v] v(1) p(1) by simp
    have "\<not> go_contains_any p (CHR 0x5C # line_chars)"
      by (rule contains_any_mono [OF _ v(2)]) (use path_clean_set [of v] p(1) in \<open>auto simp: line_chars_def\<close>)
    then show ?thesis using p len by (simp add: catalog_path_ok_def)
  qed (use res in simp)
qed

text \<open>C28: A path accepted by \<open>catalogPath\<close> names something strictly below its source: its elements are
  neither empty nor \<open>.\<close> nor \<open>..\<close>, it is bounded, without backslashes and line breaks, and a fixed
  point of the validation.  Only a caller that allows the root gets the empty path.\<close>

theorem catalog_path_safe:
  assumes "catalogPath v allowRoot = Inr p"
  shows "(allowRoot \<and> p = '''') \<or>
    list_all (\<lambda>part. part \<noteq> '''' \<and> part \<noteq> ''.'' \<and> part \<noteq> ''..'') (go_split slash p) \<and> \<not> path_is_abs p \<and> length p \<le> 4096 \<and>
    \<not> go_contains_any p (CHR 0x5C # line_chars) \<and> catalogPath p False = Inr p"
proof -
  have "list_all (\<lambda>part. part \<noteq> '''' \<and> part \<noteq> ''.'' \<and> part \<noteq> ''..'') (go_split slash p)" if "below p"
    using that by (simp add: below_def plain_part_def list_all_iff)
  then show ?thesis using catalog_path_result [OF assms] catalog_path_ok_fixed [of p False] below_not_abs [of p]
    unfolding catalog_path_ok_def by (elim disjE) simp_all
qed

theorem catalog_path_safe_witness:
  "catalogPath ''data//./logs/../app.log'' False = Inr ''data/app.log'' \<and> \<not> path_is_abs ''data/app.log'' \<and>
   catalogPath ''data/../../etc/passwd'' False = Inl (BInvalid ''file path escapes source'')"
proof (intro conjI)
  show c: "catalogPath ''data//./logs/../app.log'' False = Inr ''data/app.log''" by code_simp
  show "\<not> path_is_abs ''data/app.log''" using catalog_path_safe [OF c] by simp
  show "catalogPath ''data/../../etc/passwd'' False = Inl (BInvalid ''file path escapes source'')" by code_simp
qed


section \<open>What an index contains\<close>

lemma parent_dirs_total:
  "below name \<Longrightarrow> \<exists>ps. parent_dirs name = Some ps \<and>
     (\<forall>p \<in> set ps. below p \<and> prefix p name \<and> (path_dir p = ''.'' \<or> path_dir p \<in> set ps)) \<and> (path_dir name = ''.'' \<or> path_dir name \<in> set ps)"
proof (induction "length name" arbitrary: name rule: less_induct)
  case less
  show ?case
  proof (cases "path_dir name = ''.''")
    case True
    then show ?thesis using parent_dirs.simps [of name] by simp
  next
    case False
    then have d: "below (path_dir name)" "length (path_dir name) < length name" "prefix (path_dir name) name"
      using below_dir [OF less.prems] by auto
    obtain ps where ps: "parent_dirs (path_dir name) = Some ps"
      "\<forall>p \<in> set ps. below p \<and> prefix p (path_dir name) \<and> (path_dir p = ''.'' \<or> path_dir p \<in> set ps)"
      "path_dir (path_dir name) = ''.'' \<or> path_dir (path_dir name) \<in> set ps" using less.hyps [OF d(2,1)] by blast
    have "parent_dirs name = Some (path_dir name # ps)" using False ps(1) parent_dirs.simps [of name] by simp
    then show ?thesis using ps(2,3) d(1,3) prefix_order.trans by fastforce
  qed
qed


lemma mput_entries: "x \<in> set (mput k v m) \<Longrightarrow> x = (k, v) \<or> x \<in> set m"
  by (induction m) (auto split: if_splits)

lemma mput_keys: "fst ` set (mput k v m) = insert k (fst ` set m)"
  by (simp add: dom_update)

definition directory_entry :: "string \<Rightarrow> FileEntry" where
  "directory_entry p = \<lparr>fe_path = p, fe_type = ''directory'', fe_size = 0, fe_modified = 0, fe_sha256 = '''',
     fe_metadata_sha256 = '''', fe_link = '''', fe_mode = 0, fe_uid = 0, fe_gid = 0\<rparr>"

lemma add_parent_entries:
  assumes "map_ok (iw_entries w)"
  shows "map_ok (iw_entries (add_parent p w))" "fst ` set (iw_entries (add_parent p w)) = insert p (fst ` set (iw_entries w))"
    "x \<in> set (iw_entries (add_parent p w)) \<Longrightarrow> x \<in> set (iw_entries w) \<or> x = (p, directory_entry p)"
proof -
  have new: "iw_entries (add_parent p w) = mput p (directory_entry p) (iw_entries w)" if "mget (iw_entries w) p = None"
    using that by (simp add: add_parent_def directory_entry_def)
  have old: "iw_entries (add_parent p w) = iw_entries w" "p \<in> fst ` set (iw_entries w)" if "mget (iw_entries w) p \<noteq> None"
    using that by (auto simp: add_parent_def map_of_eq_None_iff)
  show "map_ok (iw_entries (add_parent p w))" using new old assms by (cases "mget (iw_entries w) p = None") auto
  show "fst ` set (iw_entries (add_parent p w)) = insert p (fst ` set (iw_entries w))"
    using new old by (cases "mget (iw_entries w) p = None") (simp_all only: mput_keys insert_absorb not_False_eq_True)
  show "x \<in> set (iw_entries w) \<or> x = (p, directory_entry p)" if "x \<in> set (iw_entries (add_parent p w))"
    using new old(1) mput_entries [of x p "directory_entry p" "iw_entries w"] that by (cases "mget (iw_entries w) p = None") auto
qed

lemma add_parents_entries:
  assumes "map_ok (iw_entries w)"
  shows "map_ok (iw_entries (fold add_parent ps w)) \<and> fst ` set (iw_entries (fold add_parent ps w)) = set ps \<union> fst ` set (iw_entries w) \<and>
    (\<forall>x \<in> set (iw_entries (fold add_parent ps w)). x \<in> set (iw_entries w) \<or> (\<exists>p \<in> set ps. x = (p, directory_entry p)))"
  using assms
proof (induction ps arbitrary: w)
  case (Cons p ps)
  note one = add_parent_entries [OF Cons.prems, where p = p]
  note IH = Cons.IH [OF one(1)]
  have "x \<in> set (iw_entries w) \<or> (\<exists>q \<in> set (p # ps). x = (q, directory_entry q))" if "x \<in> set (iw_entries (fold add_parent (p # ps) w))" for x
  proof -
    have "x \<in> set (iw_entries (add_parent p w)) \<or> (\<exists>q \<in> set ps. x = (q, directory_entry q))" using IH that by simp
    then show ?thesis using one(3) [of x] by (elim disjE) auto
  qed
  then show ?case using IH one(2) by auto
qed simp

lemma add_parents_other: "iw_explicit (fold add_parent ps w) = iw_explicit w"
  by (induction ps arbitrary: w) (simp_all add: add_parent_def)

text \<open>Every entry is stored under its path, below the source, satisfies \<open>Q\<close>, and its parents are entries too.\<close>

definition index_ok :: "(FileEntry \<Rightarrow> bool) \<Rightarrow> (string, FileEntry) gomap \<Rightarrow> bool" where
  "index_ok Q m \<longleftrightarrow> map_ok m \<and>
     (\<forall>x \<in> set m. fe_path (snd x) = fst x \<and> catalog_path_ok (fst x) \<and> Q (snd x) \<and> (path_dir (fst x) = ''.'' \<or> path_dir (fst x) \<in> fst ` set m))"

lemma header_entry_path: "header_entry digest name h = Inr e \<Longrightarrow> fe_path e = name"
  by (auto simp: header_entry_def Let_def split: Typeflag.splits sum.splits)

lemma prefix_contains: "prefix p s \<Longrightarrow> \<not> go_contains_any s cs \<Longrightarrow> \<not> go_contains_any p cs"
  by (rule contains_any_mono [of p s]) (auto dest: set_mono_prefix)

lemma parents_ok: "catalog_path_ok name \<Longrightarrow> below p \<Longrightarrow> prefix p name \<Longrightarrow> catalog_path_ok p"
  unfolding catalog_path_ok_def using prefix_contains prefix_length_le order_trans by blast

lemma index_header_cases:
  assumes "index_header digest encoded h w = Some (Inr w')"
  obtains (root) "w' = w" "path_clean (th_name h) = ''.''"
  | (entry) name e ps where "catalogPath (th_name h) False = Inr name" "header_entry digest name h = Inr e" "parent_dirs name = Some ps"
      "w' = fold add_parent ps (w\<lparr>iw_explicit := name # iw_explicit w, iw_entries := mput name e (iw_entries w), iw_bytes := iw_bytes w + encoded e + 1\<rparr>)"
      "int (length (iw_entries w')) \<le> maxCatalogEntries"
  using assms by (auto simp: index_header_def Let_def split: if_splits sum.splits)

lemma index_insert_ok:
  assumes "index_ok Q (iw_entries w)" "catalog_path_ok name" "fe_path e = name" "Q e" "\<And>p. Q (directory_entry p)" "parent_dirs name = Some ps"
    "iw_entries w1 = mput name e (iw_entries w)"
  shows "index_ok Q (iw_entries (fold add_parent ps w1))" "fst ` set (iw_entries (fold add_parent ps w1)) = set ps \<union> insert name (fst ` set (iw_entries w))"
proof -
  let ?m = "iw_entries (fold add_parent ps w1)"
  have m: "map_ok (iw_entries w1)" using assms(1,7) by (auto simp: index_ok_def)
  note fp = add_parents_entries [OF m, of ps]
  have pd: "\<forall>p \<in> set ps. below p \<and> prefix p name \<and> (path_dir p = ''.'' \<or> path_dir p \<in> set ps)" "path_dir name = ''.'' \<or> path_dir name \<in> set ps"
    using parent_dirs_total [of name] assms(2,6) by (auto simp: catalog_path_ok_def)
  show keys: "fst ` set ?m = set ps \<union> insert name (fst ` set (iw_entries w))" using fp unfolding assms(7) mput_keys by blast
  have "fe_path (snd x) = fst x \<and> catalog_path_ok (fst x) \<and> Q (snd x) \<and> (path_dir (fst x) = ''.'' \<or> path_dir (fst x) \<in> fst ` set ?m)"
    if "x \<in> set ?m" for x
  proof -
    have "x \<in> set (iw_entries w1) \<or> (\<exists>p \<in> set ps. x = (p, directory_entry p))" using fp that by blast
    then consider "x \<in> set (iw_entries w)" | "x = (name, e)" | p where "p \<in> set ps" "x = (p, directory_entry p)"
      using mput_entries [of x name e "iw_entries w"] assms(7) by auto
    then show ?thesis
    proof cases
      case 1
      then show ?thesis using assms(1) unfolding keys index_ok_def by blast
    next
      case 2
      then show ?thesis using assms(2-4) pd(2) unfolding keys by auto
    next
      case 3
      then show ?thesis using pd(1) parents_ok [OF assms(2), of p] assms(5) unfolding keys by (auto simp: directory_entry_def)
    qed
  qed
  then show "index_ok Q ?m" using fp by (simp add: index_ok_def)
qed

text \<open>The entries made from headers and for missing directories satisfy \<open>Q\<close>.\<close>

definition headers_give :: "((string, string) gomap \<Rightarrow> string) \<Rightarrow> (FileEntry \<Rightarrow> bool) \<Rightarrow> tar_header list \<Rightarrow> bool" where
  "headers_give digest Q hs \<longleftrightarrow>
     (\<forall>p. Q (directory_entry p)) \<and> (\<forall>h \<in> set hs. \<forall>name e. catalog_path_ok name \<longrightarrow> header_entry digest name h = Inr e \<longrightarrow> Q e)"

lemma index_header_ok:
  assumes "index_header digest encoded h w = Some (Inr w')" "index_ok Q (iw_entries w)" "headers_give digest Q (h # hs)"
  shows "index_ok Q (iw_entries w')" "fst ` set (iw_entries w) \<subseteq> fst ` set (iw_entries w')"
    "path_clean (th_name h) = ''.'' \<or> path_clean (th_name h) \<in> fst ` set (iw_entries w')"
    "int (length (iw_entries w)) \<le> maxCatalogEntries \<Longrightarrow> int (length (iw_entries w')) \<le> maxCatalogEntries"
proof -
  have "index_ok Q (iw_entries w') \<and> fst ` set (iw_entries w) \<subseteq> fst ` set (iw_entries w') \<and>
    (path_clean (th_name h) = ''.'' \<or> path_clean (th_name h) \<in> fst ` set (iw_entries w')) \<and>
    (int (length (iw_entries w)) \<le> maxCatalogEntries \<longrightarrow> int (length (iw_entries w')) \<le> maxCatalogEntries)"
    using assms(1)
  proof (cases rule: index_header_cases)
    case (entry name e ps)
    have nm: "catalog_path_ok name" "name = path_clean (th_name h)"
      using catalog_path_result [OF entry(1)] entry(1) by (auto simp: catalogPath_def Let_def split: if_splits)
    have "Q e" "\<And>p. Q (directory_entry p)" using assms(3) nm(1) entry(2) by (auto simp: headers_give_def)
    note ins = index_insert_ok [OF assms(2) nm(1) header_entry_path [OF entry(2)] this entry(3)]
    show ?thesis using ins(1,2) [of "w\<lparr>iw_explicit := name # iw_explicit w, iw_entries := mput name e (iw_entries w), iw_bytes := iw_bytes w + encoded e + 1\<rparr>"]
        entry(4,5) nm(2) by auto
  qed (use assms(2) in auto)
  then show "index_ok Q (iw_entries w')" "fst ` set (iw_entries w) \<subseteq> fst ` set (iw_entries w')"
    "path_clean (th_name h) = ''.'' \<or> path_clean (th_name h) \<in> fst ` set (iw_entries w')"
    "int (length (iw_entries w)) \<le> maxCatalogEntries \<Longrightarrow> int (length (iw_entries w')) \<le> maxCatalogEntries" by blast+
qed


lemma index_headers_ok:
  assumes "index_headers digest encoded failure hs w = Some (Inr w')" "index_ok Q (iw_entries w)" "headers_give digest Q hs"
    "int (length (iw_entries w)) \<le> maxCatalogEntries"
  shows "index_ok Q (iw_entries w') \<and> fst ` set (iw_entries w) \<subseteq> fst ` set (iw_entries w') \<and> int (length (iw_entries w')) \<le> maxCatalogEntries \<and>
    (\<forall>h \<in> set hs. path_clean (th_name h) = ''.'' \<or> path_clean (th_name h) \<in> fst ` set (iw_entries w'))"
  using assms
proof (induction hs arbitrary: w)
  case (Cons h hs)
  obtain w1 where w1: "index_header digest encoded h w = Some (Inr w1)" "index_headers digest encoded failure hs w1 = Some (Inr w')"
    using Cons.prems(1) by (auto split: option.splits sum.splits)
  note step = index_header_ok [OF w1(1) Cons.prems(2,3)]
  have "headers_give digest Q hs" using Cons.prems(3) by (simp add: headers_give_def)
  note rest = Cons.IH [OF w1(2) step(1) this step(4) [OF Cons.prems(4)]]
  have "fst ` set (iw_entries w) \<subseteq> fst ` set (iw_entries w')" using rest step(2) by blast
  moreover have "path_clean (th_name h) = ''.'' \<or> path_clean (th_name h) \<in> fst ` set (iw_entries w')" using rest step(3) by blast
  ultimately show ?case using rest by simp
qed (auto split: option.splits)

lemma index_header_total: "\<exists>r. index_header digest encoded h w = Some r"
proof (cases "catalogPath (th_name h) False")
  case (Inr name)
  then have "below name" using catalog_path_result [OF Inr] by (simp add: catalog_path_ok_def)
  then obtain ps where "parent_dirs name = Some ps" using parent_dirs_total by blast
  then show ?thesis using Inr by (simp add: index_header_def split: sum.split)
qed (simp add: index_header_def)

lemma index_headers_total: "\<exists>r. index_headers digest encoded failure hs w = Some r"
proof (induction hs arbitrary: w)
  case (Cons h hs)
  obtain r where "index_header digest encoded h w = Some r" using index_header_total by blast
  then show ?case using Cons by (cases r) simp_all
qed simp

lemma indexArchive_total: "\<exists>r. indexArchive digest encoded t sid = Some r"
proof -
  obtain r where "index_headers digest encoded (ta_error t) (ta_headers t) \<lparr>iw_entries = [], iw_explicit = [], iw_bytes = 0\<rparr> = Some r"
    using index_headers_total by blast
  then show ?thesis by (simp add: indexArchive_def split: sum.split)
qed

lemma indexArchive_spec:
  assumes "indexArchive digest encoded t sid = Some (Inr index)" "headers_give digest Q (ta_headers t)"
  shows "fi_version index = 1" "fi_source index = sid" "sorted (map fe_path (fi_entries index))" "distinct (map fe_path (fi_entries index))"
    "int (length (fi_entries index)) \<le> maxCatalogEntries"
    "e \<in> set (fi_entries index) \<Longrightarrow> catalog_path_ok (fe_path e) \<and> Q e \<and> (path_dir (fe_path e) = ''.'' \<or> path_dir (fe_path e) \<in> fe_path ` set (fi_entries index))"
    "h \<in> set (ta_headers t) \<Longrightarrow> path_clean (th_name h) = ''.'' \<or> path_clean (th_name h) \<in> fe_path ` set (fi_entries index)"
proof -
  obtain w where w: "index_headers digest encoded (ta_error t) (ta_headers t) \<lparr>iw_entries = [], iw_explicit = [], iw_bytes = 0\<rparr> = Some (Inr w)"
    and ix: "index = \<lparr>fi_version = 1, fi_source = sid, fi_entries = sort_key fe_path (map snd (iw_entries w))\<rparr>"
    using assms(1) by (auto simp: indexArchive_def rbind_Inr split: if_splits sum.splits)
  have ok: "index_ok Q (iw_entries w)" "int (length (iw_entries w)) \<le> maxCatalogEntries"
    "\<forall>h \<in> set (ta_headers t). path_clean (th_name h) = ''.'' \<or> path_clean (th_name h) \<in> fst ` set (iw_entries w)"
    using index_headers_ok [OF w _ assms(2)] by (simp_all add: index_ok_def maxCatalogEntries_def)
  have paths: "map fe_path (map snd (iw_entries w)) = map fst (iw_entries w)" using ok(1) by (auto simp: index_ok_def)
  then have keys: "fe_path ` set (fi_entries index) = fst ` set (iw_entries w)" unfolding ix by (metis FileIndex.select_convs(3) list.set_map set_sort)
  show "fi_version index = 1" "fi_source index = sid" "sorted (map fe_path (fi_entries index))" by (simp_all add: ix)
  have "distinct (map fe_path (map snd (iw_entries w)))" unfolding paths using ok(1) by (simp add: index_ok_def map_ok_def)
  then show "distinct (map fe_path (fi_entries index))" unfolding ix FileIndex.select_convs by (simp only: distinct_map distinct_sort set_sort)
  show "int (length (fi_entries index)) \<le> maxCatalogEntries" using ok(2) by (simp add: ix)
  show "catalog_path_ok (fe_path e) \<and> Q e \<and> (path_dir (fe_path e) = ''.'' \<or> path_dir (fe_path e) \<in> fe_path ` set (fi_entries index))"
    if "e \<in> set (fi_entries index)"
  proof -
    have "e \<in> snd ` set (iw_entries w)" using that by (simp add: ix)
    then obtain x where "x \<in> set (iw_entries w)" "e = snd x" by blast
    then show ?thesis using ok(1) unfolding keys index_ok_def by auto
  qed
  show "path_clean (th_name h) = ''.'' \<or> path_clean (th_name h) \<in> fe_path ` set (fi_entries index)" if "h \<in> set (ta_headers t)"
    using ok(3) that unfolding keys by blast
qed

text \<open>C30: Indexing a captured archive always ends, and an index it returns can be browsed from the root: it lists every
  member of the archive once, in order, within the limit, with safe paths, and the directory of each entry is an entry.\<close>

theorem index_browsable:
  "\<exists>r. indexArchive digest encoded t sid = Some r \<and>
     (\<forall>index. r = Inr index \<longrightarrow>
        distinct (map fe_path (fi_entries index)) \<and> sorted (map fe_path (fi_entries index)) \<and> int (length (fi_entries index)) \<le> maxCatalogEntries \<and>
        (\<forall>h \<in> set (ta_headers t). path_clean (th_name h) = ''.'' \<or> path_clean (th_name h) \<in> fe_path ` set (fi_entries index)) \<and>
        (\<forall>e \<in> set (fi_entries index). below (fe_path e) \<and> (path_dir (fe_path e) = ''.'' \<or> path_dir (fe_path e) \<in> fe_path ` set (fi_entries index))))"
proof -
  obtain r where r: "indexArchive digest encoded t sid = Some r" using indexArchive_total by blast
  have "distinct (map fe_path (fi_entries index)) \<and> sorted (map fe_path (fi_entries index)) \<and> int (length (fi_entries index)) \<le> maxCatalogEntries \<and>
        (\<forall>h \<in> set (ta_headers t). path_clean (th_name h) = ''.'' \<or> path_clean (th_name h) \<in> fe_path ` set (fi_entries index)) \<and>
        (\<forall>e \<in> set (fi_entries index). below (fe_path e) \<and> (path_dir (fe_path e) = ''.'' \<or> path_dir (fe_path e) \<in> fe_path ` set (fi_entries index)))"
    if "r = Inr index" for index
  proof -
    have "headers_give digest (\<lambda>_. True) (ta_headers t)" by (simp add: headers_give_def)
    note spec = indexArchive_spec [OF r [unfolded that] this]
    have "below (fe_path e) \<and> (path_dir (fe_path e) = ''.'' \<or> path_dir (fe_path e) \<in> fe_path ` set (fi_entries index))" if "e \<in> set (fi_entries index)" for e
      using spec(6) [OF that] by (simp add: catalog_path_ok_def)
    then show ?thesis using spec(3,4,5,7) by simp
  qed
  then show ?thesis using r by blast
qed



section \<open>Reading an index back\<close>

definition entry_accepted :: "FileEntry \<Rightarrow> bool" where
  "entry_accepted e \<longleftrightarrow> 0 \<le> fe_size e \<and> fe_size e \<le> 2 ^ 60 \<and> \<not> mode_outside (fe_mode e) \<and> 0 \<le> fe_uid e \<and> 0 \<le> fe_gid e \<and>
     (fe_metadata_sha256 e = '''' \<or> \<not> bad_digest (fe_metadata_sha256 e)) \<and> (fe_type e = ''file'' \<longrightarrow> \<not> bad_digest (fe_sha256 e)) \<and>
     (fe_type e \<in> {''symlink'', ''hardlink''} \<longrightarrow> length (fe_link e) \<le> 4096 \<and> \<not> go_contains_any (fe_link e) line_chars) \<and>
     fe_type e \<in> {''file'', ''directory'', ''fifo'', ''character_device'', ''block_device'', ''symlink'', ''hardlink''}"

lemma entry_error_None:
  assumes "entry_accepted e" "catalog_path_ok (fe_path e)" "fe_path e \<notin> set seen"
  shows "entry_error seen e = None"
proof -
  have "catalogPath (fe_path e) False = Inr (fe_path e)" using assms(2) by (rule catalog_path_ok_fixed)
  then show ?thesis using assms(1,3) unfolding entry_error_def entry_accepted_def by auto
qed

lemma entries_error_None:
  "list_all (\<lambda>e. entry_accepted e \<and> catalog_path_ok (fe_path e)) es \<Longrightarrow> distinct (map fe_path es) \<Longrightarrow> set seen \<inter> fe_path ` set es = {} \<Longrightarrow>
     entries_error seen es = None"
proof (induction es arbitrary: seen)
  case (Cons e es)
  have "entry_error seen e = None" by (rule entry_error_None) (use Cons.prems in auto)
  then show ?case using Cons.IH [of "fe_path e # seen"] Cons.prems by auto
qed simp

lemma validate_headers_member:
  "validate_headers n rs failure hs = Inr rs' \<Longrightarrow> h \<in> set hs \<Longrightarrow> length (th_link h) \<le> 4096 \<and> 0 \<le> th_uid h \<and> 0 \<le> th_gid h \<and> \<not> mode_outside (th_mode h)"
  by (induction hs arbitrary: n rs) (auto simp: Let_def split: if_splits)

text \<open>Headers as a tar archive of ordinary files has them: sizes in range, digests of 64 hexadecimal
  digits, and link targets without control characters that break lines.\<close>

definition plain_header :: "tar_header \<Rightarrow> bool" where
  "plain_header h \<longleftrightarrow> 0 \<le> th_size h \<and> th_size h \<le> 2 ^ 60 \<and> \<not> go_contains_any (th_link h) line_chars \<and>
     (case th_content h of Inl _ \<Rightarrow> True | Inr sha \<Rightarrow> \<not> bad_digest sha)"

lemma path_clean_link:
  assumes "length s \<le> 4096" "\<not> go_contains_any s line_chars"
  shows "length (path_clean s) \<le> 4096" "\<not> go_contains_any (path_clean s) line_chars"
proof -
  show "length (path_clean s) \<le> 4096" using path_clean_length [of s] assms(1) by simp
  show "\<not> go_contains_any (path_clean s) line_chars"
    by (rule contains_any_mono [OF _ assms(2)]) (use path_clean_set [of s] in \<open>auto simp: line_chars_def\<close>)
qed

lemma header_entry_accepted:
  assumes "header_entry digest name h = Inr e" "plain_header h" "\<And>m. \<not> bad_digest (digest m)"
    "length (th_link h) \<le> 4096" "0 \<le> th_uid h" "0 \<le> th_gid h" "\<not> mode_outside (th_mode h)"
  shows "entry_accepted e"
proof -
  define sum where "sum = (if header_metadata h \<noteq> [] then digest (header_metadata h) else '''')"
  have "sum = '''' \<or> \<not> bad_digest sum" using assms(3) by (simp add: sum_def)
  moreover note path_clean_link [of "th_link h"] assms(2,4-)
  ultimately show ?thesis using assms(1) unfolding header_entry_def sum_def [symmetric]
    by (cases "th_type h"; cases "th_content h") (clarsimp simp: entry_accepted_def plain_header_def Let_def)+
qed

lemma index_decodes:
  assumes "indexArchive digest encoded t (so_id (ms_source source)) = Some (Inr index)" "list_all plain_header (ta_headers t)"
    "\<And>m. \<not> bad_digest (digest m)" "n \<le> maxCatalogBytes" "so_id (ms_source source') = so_id (ms_source source)"
  shows "decodeIndex (n, Some index) source' = Inr index"
proof -
  obtain rs where v: "ValidateCapturedArchive t = Inr rs" using assms(1) by (auto simp: indexArchive_def split: if_splits sum.splits)
  have "entry_accepted e" if "h \<in> set (ta_headers t)" "header_entry digest name h = Inr e" for h name e
    using validate_headers_member [OF v [unfolded ValidateCapturedArchive_def] that(1)] assms(2) that(1)
    by (intro header_entry_accepted [OF that(2) _ assms(3)]) (simp_all add: list_all_iff)
  then have "headers_give digest entry_accepted (ta_headers t)"
    by (auto simp: headers_give_def directory_entry_def entry_accepted_def mode_outside_def)
  note spec = indexArchive_spec [OF assms(1) this]
  have "list_all (\<lambda>e. entry_accepted e \<and> catalog_path_ok (fe_path e)) (fi_entries index)" using spec(6) by (simp add: list_all_iff)
  then have "entries_error [] (fi_entries index) = None" by (rule entries_error_None) (use spec(4) in simp_all)
  then show ?thesis using spec(1,2,5) assms(4,5) by (simp add: decodeIndex_def)
qed


definition example_digest :: "(string, string) gomap \<Rightarrow> string" where
  "example_digest m = replicate 64 (CHR ''a'')"

definition example_header :: "string \<Rightarrow> Typeflag \<Rightarrow> string \<Rightarrow> tar_header" where
  "example_header name flag link = \<lparr>th_name = name, th_link = link, th_type = flag, th_size = 5, th_mode = 420, th_uid = 0, th_gid = 0, th_modified = 1,
     th_xattrs = [], th_pax = [], th_content = Inr (replicate 64 (CHR ''b''))\<rparr>"

definition example_source :: ManifestSource where
  "example_source = \<lparr>ms_source = \<lparr>so_id = ''a'', so_kind = ''volume'', so_stack = ''app'', so_service = ''web'', so_mount = ''/data'', so_path = ''/srv/data'', so_excludes = []\<rparr>,
     ms_saved_path = ''data.tar'', ms_original_path = ''/srv/data'', ms_writers = [], ms_consumers = [], ms_aliases = [], ms_archive = True, ms_size = 5,
     ms_volume = '''', ms_file_name = '''', ms_index_path = '''', ms_index_version = 0, ms_entry_count = 0, ms_index_reason = '''', ms_restrictions = []\<rparr>"

definition indexed_source :: "int \<Rightarrow> ManifestSource" where
  "indexed_source n = example_source\<lparr>ms_index_path := ''indexes/a.json'', ms_index_version := 1, ms_entry_count := n\<rparr>"

text \<open>A file in a directory that has no header of its own, and a link whose target ends with a line break.\<close>

definition example_file :: FileEntry where
  "example_file = \<lparr>fe_path = ''a/f'', fe_type = ''file'', fe_size = 5, fe_modified = 1, fe_sha256 = replicate 64 (CHR ''b''), fe_metadata_sha256 = '''',
     fe_link = '''', fe_mode = 420, fe_uid = 0, fe_gid = 0\<rparr>"

definition example_link :: FileEntry where
  "example_link = \<lparr>fe_path = ''n'', fe_type = ''symlink'', fe_size = 0, fe_modified = 1, fe_sha256 = '''', fe_metadata_sha256 = '''',
     fe_link = [CHR ''x'', CHR 0x0A], fe_mode = 420, fe_uid = 0, fe_gid = 0\<rparr>"




theorem index_browsable_witness:
  "\<exists>index. indexArchive example_digest (\<lambda>_. 150) \<lparr>ta_headers = [example_header ''a/f'' TypeReg ''''], ta_error = None\<rparr> ''a'' = Some (Inr index) \<and>
     ''a/f'' \<in> fe_path ` set (fi_entries index) \<and> ''a'' \<in> fe_path ` set (fi_entries index)"
proof -
  let ?t = "\<lparr>ta_headers = [example_header ''a/f'' TypeReg ''''], ta_error = None\<rparr>"
  let ?x = "\<lparr>fi_version = 1, fi_source = ''a'', fi_entries = [directory_entry ''a'', example_file]\<rparr>"
  have i: "indexArchive example_digest (\<lambda>_. 150) ?t ''a'' = Some (Inr ?x)" by code_simp
  have c: "path_clean ''a/f'' = ''a/f''" "path_dir ''a/f'' = ''a''" by code_simp+
  have "''a/f'' \<in> fe_path ` set (fi_entries ?x)"
    using index_browsable [of example_digest "\<lambda>_. 150" ?t "''a''"] i c(1) by (simp add: example_header_def)
  moreover have "''a'' \<in> fe_path ` set (fi_entries ?x)"
    using index_browsable [of example_digest "\<lambda>_. 150" ?t "''a''"] i c(2) by (simp add: example_file_def directory_entry_def)
  ultimately show ?thesis using i by blast
qed


section \<open>Pages\<close>

lemma page_of_take:
  assumes "0 \<le> offset" "0 \<le> limit"
  shows "page_of offset limit xs = take (nat limit) (drop (nat offset) xs)"
proof (cases "offset \<le> int (length xs)")
  case True
  then have "take (nat (min limit (int (length xs) - offset))) (drop (nat offset) xs) = take (nat limit) (drop (nat offset) xs)"
    using assms by (cases "limit \<le> int (length xs) - offset") (simp_all add: min_def nat_diff_distrib le_nat_iff)
  then show ?thesis using True by (simp add: page_of_def Let_def min_absorb1)
next
  case False
  then show ?thesis by (simp add: page_of_def Let_def min_absorb2)
qed

lemma concat_pages: "concat (map (\<lambda>k. take l (drop (k * l) xs)) [0..<n]) = take (n * l) xs"
proof (induction n)
  case (Suc n)
  have "take (n * l) xs @ take l (drop (n * l) xs) = take (n * l + l) xs" by (rule take_add [symmetric])
  then show ?case using Suc by (simp add: add.commute)
qed simp

definition catalog_listing :: "(string \<Rightarrow> string) \<Rightarrow> FileIndex \<Rightarrow> CatalogQuery \<Rightarrow> FileEntry list" where
  "catalog_listing lower index query = sort_key (\<lambda>e. (fe_type e \<noteq> ''directory'', fe_path e)) (filter (\<lambda>e. entryMatches lower (fe_path e) query) (fi_entries index))"

lemma entryMatches_offset [simp]: "entryMatches lower p (query\<lparr>cq_offset := offset\<rparr>) = entryMatches lower p query"
  by (simp add: entryMatches_def)

lemma catalogPage_items:
  assumes "catalogSource manifest (cq_source query) = Some source" "cq_source query \<noteq> ''''" "0 \<le> offset" "0 \<le> cq_limit query"
  shows "\<exists>page. catalogPage lower manifest index available (query\<lparr>cq_offset := offset\<rparr>) = Inr page \<and>
    pg_items page = take (nat (cq_limit query)) (drop (nat offset) (catalog_listing lower index query)) \<and>
    pg_total page = int (length (catalog_listing lower index query))"
  using assms unfolding catalogPage_def catalog_listing_def Let_def by (simp add: page_of_take)

text \<open>A path is listed under a directory exactly when it is that directory's path with one more element.\<close>

lemma entry_in_directory:
  assumes "below p" "cq_search query = ''''" "cq_path query = '''' \<or> below (cq_path query)"
  shows "entryMatches lower p query \<longleftrightarrow> (\<exists>q. plain_part q \<and> p = (if cq_path query = '''' then q else cq_path query @ slash # q))"
proof -
  obtain ps q where p: "p = path_join_parts (ps @ [q])" "list_all plain_part ps" "plain_part q"
  proof -
    obtain rs where "rs \<noteq> []" "list_all plain_part rs" "p = path_join_parts rs" using assms(1) by (auto simp: below_parts)
    then show thesis using that [of "butlast rs" "last rs"] by (metis append_butlast_last_id last_in_set list.pred_set list_all_append)
  qed
  let ?d = "if ps = [] then '''' else path_join_parts ps"
  have nodot: "path_join_parts ps \<noteq> ''.''" "path_join_parts ps \<noteq> ''''" if "ps \<noteq> []"
  proof -
    have "below (path_join_parts ps)" using that p(2) by (auto simp: below_parts)
    then show "path_join_parts ps \<noteq> ''.''" "path_join_parts ps \<noteq> ''''" using below_not_escapes by (auto simp: below_def)
  qed
  have dir: "(if path_dir p = ''.'' then '''' else path_dir p) = ?d" using path_dir_parts [OF p(2,3)] p(1) nodot by simp
  have pd: "p = (if ?d = '''' then q else ?d @ slash # q)" using p(1) nodot join_parts_snoc [of ps q] by simp
  have split: "path_split p = (if ?d = '''' then '''' else ?d @ [slash], q)"
    using pd p(3) path_split_plain [of q] path_split_snoc [of q ?d] by (auto simp: plain_part_def)
  have "entryMatches lower p query \<longleftrightarrow> ?d = cq_path query"
    using assms(2) dir pd by (auto simp: entryMatches_def go_has_prefix_iff Let_def)
  moreover have "?d = cq_path query" if "plain_part r" "p = (if cq_path query = '''' then r else cq_path query @ slash # r)" for r
  proof -
    have "path_split p = (if cq_path query = '''' then '''' else cq_path query @ [slash], r)"
      using that path_split_plain [of r] path_split_snoc [of r "cq_path query"] by (auto simp: plain_part_def)
    then show ?thesis using split by (auto split: if_splits)
  qed
  ultimately show ?thesis using pd p(3) by metis
qed


text \<open>C31: Following the pages of a directory lists exactly its children: with a positive limit, the first \<open>n\<close> pages are the
  first entries of one listing, directories first and in path order, whose entries are those of the index whose path is the
  directory's path with one more element.\<close>

theorem catalog_pages_complete:
  assumes "catalogSource manifest (cq_source query) = Some source" "cq_source query \<noteq> ''''" "0 < cq_limit query" "cq_search query = ''''"
    "cq_path query = '''' \<or> below (cq_path query)" "list_all (\<lambda>e. below (fe_path e)) (fi_entries index)"
  shows "\<exists>listing. sorted (map (\<lambda>e. (fe_type e \<noteq> ''directory'', fe_path e)) listing) \<and>
    (\<forall>e. e \<in> set listing \<longleftrightarrow> e \<in> set (fi_entries index) \<and>
       (\<exists>q. plain_part q \<and> fe_path e = (if cq_path query = '''' then q else cq_path query @ slash # q))) \<and>
    (\<forall>n. concat (map (\<lambda>k. case catalogPage lower manifest index available (query\<lparr>cq_offset := int k * cq_limit query\<rparr>) of
             Inr page \<Rightarrow> pg_items page | Inl _ \<Rightarrow> []) [0..<n]) = take (n * nat (cq_limit query)) listing)"
proof (intro exI conjI allI)
  let ?l = "catalog_listing lower index query"
  show "sorted (map (\<lambda>e. (fe_type e \<noteq> ''directory'', fe_path e)) ?l)" by (simp add: catalog_listing_def)
  show "e \<in> set ?l \<longleftrightarrow> e \<in> set (fi_entries index) \<and> (\<exists>q. plain_part q \<and> fe_path e = (if cq_path query = '''' then q else cq_path query @ slash # q))" for e
    using entry_in_directory [of "fe_path e" query lower] assms(4-6) by (auto simp: catalog_listing_def list_all_iff)
  show "concat (map (\<lambda>k. case catalogPage lower manifest index available (query\<lparr>cq_offset := int k * cq_limit query\<rparr>) of
      Inr page \<Rightarrow> pg_items page | Inl _ \<Rightarrow> []) [0..<n]) = take (n * nat (cq_limit query)) ?l" for n
  proof -
    have "(case catalogPage lower manifest index available (query\<lparr>cq_offset := int k * cq_limit query\<rparr>) of Inr page \<Rightarrow> pg_items page | Inl _ \<Rightarrow> []) =
        take (nat (cq_limit query)) (drop (k * nat (cq_limit query)) ?l)" for k
      using catalogPage_items [OF assms(1,2), of "int k * cq_limit query" lower index available] assms(3) by (auto simp: nat_mult_distrib)
    then show ?thesis by (simp only: concat_pages)
  qed
qed

definition example_manifest :: Manifest where
  "example_manifest = \<lparr>mf_version = 1, mf_run = ''run'', mf_plan = ''plan'', mf_captured_at = 1, mf_consistency = '''', mf_sources = [example_source],
     mf_warnings = [], mf_stacklab_version = '''', mf_images = [], mf_downtime = 0\<rparr>"

definition example_query :: CatalogQuery where
  "example_query = \<lparr>cq_source = ''a'', cq_path = ''a'', cq_search = '''', cq_offset = 0, cq_limit = 100\<rparr>"

theorem catalog_pages_complete_witness:
  "\<exists>listing. (\<forall>e. e \<in> set listing \<longleftrightarrow> e \<in> {directory_entry ''a'', example_file} \<and> (\<exists>q. plain_part q \<and> fe_path e = ''a'' @ slash # q)) \<and>
    (\<forall>n. concat (map (\<lambda>k. case catalogPage (\<lambda>s. s) example_manifest \<lparr>fi_version = 1, fi_source = ''a'', fi_entries = [directory_entry ''a'', example_file]\<rparr>
        True (example_query\<lparr>cq_offset := int k * 100\<rparr>) of Inr page \<Rightarrow> pg_items page | Inl _ \<Rightarrow> []) [0..<n]) = take (n * 100) listing)"
proof -
  let ?x = "\<lparr>fi_version = 1, fi_source = ''a'', fi_entries = [directory_entry ''a'', example_file]\<rparr>"
  have b: "below ''a''" "list_all (\<lambda>e. below (fe_path e)) (fi_entries ?x)"
    by (simp_all add: below_def plain_part_def directory_entry_def example_file_def)
  have s: "catalogSource example_manifest (cq_source example_query) = Some example_source"
    by (simp add: catalogSource_def example_manifest_def example_query_def example_source_def)
  have q: "cq_source example_query \<noteq> ''''" "0 < cq_limit example_query" "cq_search example_query = ''''"
    "cq_path example_query = '''' \<or> below (cq_path example_query)" "cq_path example_query = ''a''" "cq_limit example_query = 100"
    using b(1) by (simp_all add: example_query_def)
  show ?thesis using catalog_pages_complete [OF s q(1-4) b(2), of "\<lambda>s. s" True] unfolding q(5,6) by auto
qed


section \<open>Comparisons\<close>

definition entry_at :: "FileEntry list \<Rightarrow> string \<Rightarrow> FileEntry option" where
  "entry_at es p = find (\<lambda>e. fe_path e = p) es"

lemma entry_at_Some:
  assumes "distinct (map fe_path es)"
  shows "entry_at es p = Some e \<longleftrightarrow> e \<in> set es \<and> fe_path e = p"
  using assms by (induction es) (auto simp: entry_at_def rev_image_eqI)

lemma entry_at_None: "entry_at es p = None \<longleftrightarrow> p \<notin> fe_path ` set es"
  by (auto simp: entry_at_def find_None_iff)

lemma entry_table_get:
  assumes "distinct (map fe_path es)"
  shows "mget (entry_table es) p = entry_at es p"
proof -
  have "mget (fold (\<lambda>e m. mput (fe_path e) e m) es m) p = (case entry_at es p of Some e \<Rightarrow> Some e | None \<Rightarrow> mget m p)" for m
    using assms
  proof (induction es arbitrary: m)
    case (Cons e es)
    have "entry_at es p = None" if "fe_path e = p" using that Cons.prems by (auto simp: entry_at_None)
    then show ?case using Cons by (auto simp: entry_at_def update_conv' split: option.split)
  qed (simp add: entry_at_def)
  then show ?thesis by (simp add: entry_table_def split: option.splits)
qed

lemma file_change_spec:
  assumes "\<And>e. a = Some e \<Longrightarrow> fe_path e = p" "\<And>e. b = Some e \<Longrightarrow> fe_path e = p" "a \<noteq> None \<or> b \<noteq> None"
  shows "case file_change a b p of None \<Rightarrow> a = b | Some c \<Rightarrow> a \<noteq> b \<and> fc_path c = p \<and> fc_before c = a \<and> fc_after c = b"
proof (cases "a = None \<or> b = None")
  case False
  then obtain x y where xy: "a = Some x" "b = Some y" by auto
  then have "fe_path x = fe_path y" using assms by simp
  then show ?thesis unfolding xy file_change_def Let_def by (cases x; cases y) auto
qed (use assms(3) in \<open>auto simp: file_change_def\<close>)


lemma change_of_spec:
  assumes "distinct (map fe_path base)" "distinct (map fe_path current)" "p \<in> fe_path ` set base \<union> fe_path ` set current"
  shows "case file_change (mget (entry_table base) p) (mget (entry_table current) p) p of
      None \<Rightarrow> entry_at base p = entry_at current p
    | Some c \<Rightarrow> entry_at base p \<noteq> entry_at current p \<and> fc_path c = p \<and> fc_before c = entry_at base p \<and> fc_after c = entry_at current p"
  unfolding entry_table_get [OF assms(1)] entry_table_get [OF assms(2)]
  by (rule file_change_spec) (use assms entry_at_Some entry_at_None in auto)

lemma all_changes_spec:
  assumes "distinct (map fe_path base)" "distinct (map fe_path current)"
  shows "distinct (map fc_path (all_changes base current))"
    "p \<in> fc_path ` set (all_changes base current) \<longleftrightarrow> entry_at base p \<noteq> entry_at current p"
    "c \<in> set (all_changes base current) \<Longrightarrow> fc_before c = entry_at base (fc_path c) \<and> fc_after c = entry_at current (fc_path c)"
proof -
  define f where "f = (\<lambda>p. file_change (mget (entry_table base) p) (mget (entry_table current) p) p)"
  define ns where "ns = remdups (map fe_path base @ map fe_path current)"
  have all: "all_changes base current = List.map_filter f ns" by (simp add: all_changes_def f_def ns_def)
  have ns: "distinct ns" "set ns = fe_path ` set base \<union> fe_path ` set current" by (simp_all add: ns_def)
  have spec: "case f p of None \<Rightarrow> entry_at base p = entry_at current p
    | Some c \<Rightarrow> entry_at base p \<noteq> entry_at current p \<and> fc_path c = p \<and> fc_before c = entry_at base p \<and> fc_after c = entry_at current p" if "p \<in> set ns" for p
    using change_of_spec [OF assms, of p] that ns(2) by (simp add: f_def)
  have mem: "c \<in> set (List.map_filter f ns) \<longleftrightarrow> (\<exists>p \<in> set ns. f p = Some c)" for c by (force simp: map_filter_def)
  have "map fc_path (List.map_filter f ns) = filter (\<lambda>p. f p \<noteq> None) ns" if "\<forall>p \<in> set ns. \<forall>c. f p = Some c \<longrightarrow> fc_path c = p" for ns
    using that by (induction ns) (auto simp: map_filter_def)
  moreover have "\<forall>p \<in> set ns. \<forall>c. f p = Some c \<longrightarrow> fc_path c = p" using spec by fastforce
  ultimately have paths: "map fc_path (all_changes base current) = filter (\<lambda>p. f p \<noteq> None) ns" unfolding all by blast
  show "distinct (map fc_path (all_changes base current))" unfolding paths using ns(1) by simp
  have "p \<in> set (filter (\<lambda>p. f p \<noteq> None) ns) \<longleftrightarrow> entry_at base p \<noteq> entry_at current p"
  proof (cases "p \<in> set ns")
    case True
    then show ?thesis using spec [OF True] by (auto split: option.splits)
  next
    case False
    then show ?thesis using ns(2) entry_at_None [of base p] entry_at_None [of current p] by auto
  qed
  then show "p \<in> fc_path ` set (all_changes base current) \<longleftrightarrow> entry_at base p \<noteq> entry_at current p" unfolding paths [symmetric] set_map .
  show "fc_before c = entry_at base (fc_path c) \<and> fc_after c = entry_at current (fc_path c)" if "c \<in> set (all_changes base current)"
    using that spec unfolding all mem by fastforce
qed

text \<open>C32: A comparison of two indexes is exact: in path order and once each, it lists the paths in the selected subtree whose
  entries differ between the two snapshots, with both entries; nothing else, and every page is a section of that list.\<close>

theorem comparison_exact:
  assumes "distinct (map fe_path base)" "distinct (map fe_path current)" "0 \<le> cq_offset query" "0 \<le> cq_limit query"
  shows "\<exists>changes. sorted_wrt (<) (map fc_path changes) \<and>
    (\<forall>p. p \<in> fc_path ` set changes \<longleftrightarrow> change_wanted lower query p \<and> entry_at base p \<noteq> entry_at current p) \<and>
    (\<forall>c \<in> set changes. fc_before c = entry_at base (fc_path c) \<and> fc_after c = entry_at current (fc_path c)) \<and>
    cmp_total (compare_indexes lower query base current) = int (length changes) \<and>
    cmp_items (compare_indexes lower query base current) = take (nat (cq_limit query)) (drop (nat (cq_offset query)) changes)"
proof -
  let ?cs = "filter (\<lambda>c. change_wanted lower query (fc_path c)) (all_changes base current)"
  let ?l = "sort_key fc_path ?cs"
  note spec = all_changes_spec [OF assms(1,2)]
  have "distinct (map fc_path ?cs)" by (rule distinct_map_filter [OF spec(1)])
  then have "distinct (map fc_path ?l)" by (simp only: distinct_map distinct_sort set_sort)
  then have "sorted_wrt (<) (map fc_path ?l)" by (simp add: strict_sorted_iff)
  moreover have "p \<in> fc_path ` set ?l \<longleftrightarrow> change_wanted lower query p \<and> entry_at base p \<noteq> entry_at current p" for p
    using spec(2) [of p] by auto
  moreover have "\<forall>c \<in> set ?l. fc_before c = entry_at base (fc_path c) \<and> fc_after c = entry_at current (fc_path c)" using spec(3) by simp
  moreover have "cmp_total (compare_indexes lower query base current) = int (length ?l)"
    "cmp_items (compare_indexes lower query base current) = take (nat (cq_limit query)) (drop (nat (cq_offset query)) ?l)"
    by (simp_all add: compare_indexes_def Let_def page_of_take [OF assms(3,4)])
  ultimately show ?thesis by blast
qed


theorem comparison_exact_witness:
  "\<exists>changes :: FileChange list. ''a/f'' \<in> fc_path ` set changes \<and> ''a'' \<notin> fc_path ` set changes \<and>
    cmp_total (compare_indexes (\<lambda>s. s) (example_query\<lparr>cq_path := ''''\<rparr>) [directory_entry ''a''] [directory_entry ''a'', example_file]) = int (length changes)"
proof -
  have d: "distinct (map fe_path [directory_entry ''a''])" "distinct (map fe_path [directory_entry ''a'', example_file])"
    by (simp_all add: directory_entry_def example_file_def)
  have q: "0 \<le> cq_offset (example_query\<lparr>cq_path := ''''\<rparr>)" "0 \<le> cq_limit (example_query\<lparr>cq_path := ''''\<rparr>)" by (simp_all add: example_query_def)
  have w: "change_wanted (\<lambda>s. s) (example_query\<lparr>cq_path := ''''\<rparr>) p" for p by (simp add: change_wanted_def example_query_def)
  have e: "entry_at [directory_entry ''a''] ''a/f'' = None" "entry_at [directory_entry ''a'', example_file] ''a/f'' = Some example_file"
    "entry_at [directory_entry ''a''] ''a'' = entry_at [directory_entry ''a'', example_file] ''a''"
    by (simp_all add: entry_at_def directory_entry_def example_file_def)
  obtain changes :: "FileChange list" where c: "\<forall>p. p \<in> fc_path ` set changes \<longleftrightarrow> change_wanted (\<lambda>s. s) (example_query\<lparr>cq_path := ''''\<rparr>) p \<and>
      entry_at [directory_entry ''a''] p \<noteq> entry_at [directory_entry ''a'', example_file] p"
    "cmp_total (compare_indexes (\<lambda>s. s) (example_query\<lparr>cq_path := ''''\<rparr>) [directory_entry ''a''] [directory_entry ''a'', example_file]) = int (length changes)"
    using comparison_exact [OF d q, of "\<lambda>s. s"] by blast
  then show ?thesis using w e by (intro exI [of _ changes]) simp
qed

end
