(* ===== verification/Backup_Retention.thy ===== *)
theory Backup_Retention
  imports Backup_Catalog
begin

text \<open>
  Verification and retention of snapshots (internal/backup/snapshot_verification.go, retention.go).
  restic is a parameter: what it reports of a snapshot is a \<open>saved_snapshot\<close>, its inventory and the outcome of
  its commands are arguments.  Other goroutines may change the service state between two critical sections
  of a retention run; \<open>interfere\<close> is what they do before each lock.
\<close>

section \<open>Verifying a snapshot\<close>

fun check_listing :: "listing_line list \<Rightarrow> (string, int) gomap \<Rightarrow> snapshot_error + (string, int) gomap" where
  "check_listing [] expected = Inr expected"
| "check_listing (BlankLine # ls) expected = check_listing ls expected"
| "check_listing (BadLine # ls) expected = Inl (SOther (BOther ''invalid repository file listing''))"
| "check_listing (NodeLine node # ls) expected =
     (case mget expected (rn_path node) of
        None \<Rightarrow> check_listing ls expected
      | Some bytes \<Rightarrow>
          if rn_type node \<noteq> ''file'' \<or> rn_size node < 0 \<or> bytes \<ge> 0 \<and> rn_size node \<noteq> bytes then Inl SIncomplete
          else check_listing ls (mdel (rn_path node) expected))"

definition verifySnapshotObjects :: "saved_snapshot \<Rightarrow> (string, int) gomap \<Rightarrow> snapshot_error option" where
  "verifySnapshotObjects r expected =
     (case sv_listing r of
        Inl e \<Rightarrow> Some (SOther e)
      | Inr ls \<Rightarrow> (case check_listing ls expected of Inl e \<Rightarrow> Some e | Inr rest \<Rightarrow> if rest \<noteq> [] then Some SIncomplete else None))"

text \<open>strings.TrimPrefix.\<close>

definition trim_prefix :: "string \<Rightarrow> string \<Rightarrow> string" where
  "trim_prefix s p = (if go_has_prefix s p then drop (length p) s else s)"

fun source_objects :: "ManifestSource list \<Rightarrow> (string, int) gomap \<Rightarrow> snapshot_error + (string, int) gomap" where
  "source_objects [] expected = Inr expected"
| "source_objects (s # ss) expected =
     (if \<not> ms_archive s then Inl SLegacy
      else let e1 = mput (''/'' @ trim_prefix (ms_saved_path s) ''/'') (ms_size s) expected
           in source_objects ss (if ms_index_path s \<noteq> '''' then mput (''/'' @ ms_index_path s) (- 1) e1 else e1))"

definition verifySavedSnapshot :: "string \<Rightarrow> saved_snapshot \<Rightarrow> snapshot_error option" where
  "verifySavedSnapshot sid r =
     (case verifySnapshotObjects r [(''/manifest.json'', - 1)] of
        Some e \<Rightarrow> Some e
      | None \<Rightarrow>
          (case snapshotManifest sid r of
             Inl e \<Rightarrow> Some e
           | Inr manifest \<Rightarrow>
               (case source_objects (mf_sources manifest) [(''/manifest.json'', - 1)] of
                  Inl e \<Rightarrow> Some e
                | Inr expected \<Rightarrow> verifySnapshotObjects r expected)))"

definition savedSnapshotClassification :: "snapshot_error option \<Rightarrow> string option" where
  "savedSnapshotClassification err =
     (case err of
        None \<Rightarrow> Some ''complete''
      | Some SIncomplete \<Rightarrow> Some ''incomplete''
      | Some SLegacy \<Rightarrow> Some ''legacy''
      | Some SUnsupported \<Rightarrow> Some ''unsupported''
      | Some SInvalid \<Rightarrow> Some ''invalid''
      | Some (SOther _) \<Rightarrow> None)"


section \<open>Retention\<close>

definition keepAllSnapshots :: "Retention \<Rightarrow> bool" where
  "keepAllSnapshots policy \<longleftrightarrow> rt_daily policy = 0 \<and> rt_weekly policy = 0 \<and> rt_monthly policy = 0"

definition retentionBlockedError :: "Destination \<Rightarrow> backup_error option" where
  "retentionBlockedError d =
     (if \<not> repositoryMaintenanceBlocked d then None
      else let full = (ce_status (de_data_check d) = ''failed'' \<or> (case de_check_hold d of None \<Rightarrow> False | Some h \<Rightarrow> ch_scope h \<noteq> ''metadata'') \<or>
                       de_check_status d = ''failed'' \<and> ce_status (de_metadata_check d) \<noteq> ''failed'');
               scope = (if full then ''full data'' else ''metadata'')
           in Some (BBusy (if de_check_status d = ''failed'' \<or> ce_status (de_metadata_check d) = ''failed'' \<or> ce_status (de_data_check d) = ''failed''
                then ''retention is blocked by unresolved repository integrity failure; preserve existing snapshots and run a successful '' @ scope @ '' check after repair''
                else ''retention is blocked by an unresolved repository check; run a successful '' @ scope @ '' check before destructive maintenance'')))"

definition currentRetentionLocked :: "string \<Rightarrow> string \<Rightarrow> backup_state \<Rightarrow> backup_error + Destination \<times> Retention" where
  "currentRetentionLocked planID destinationID s =
     (case mget (bk_plans s) planID of
        None \<Rightarrow> Inl (BInvalid ''retention requires an existing enabled plan'')
      | Some plan \<Rightarrow>
          if \<not> pl_enabled plan then Inl (BInvalid ''retention requires an existing enabled plan'')
          else case find (\<lambda>a. as_destination a = destinationID) (pl_destinations plan) of
            None \<Rightarrow> Inl (BInvalid ''retention destination is no longer assigned to this plan'')
          | Some assignment \<Rightarrow>
              if \<not> as_enabled assignment then Inl (BInvalid ''retention requires an enabled destination assignment'')
              else case mget (bk_destinations s) destinationID of
                None \<Rightarrow> Inl (BInvalid ''retention destination no longer exists'')
              | Some destination \<Rightarrow>
                  (case if keepAllSnapshots (as_retention assignment) then None else retentionBlockedError destination of
                     Some e \<Rightarrow> Inl e
                   | None \<Rightarrow> Inr (destination, as_retention assignment)))"

text \<open>The calendar periods of a UTC time: the day, the ISO 8601 week (the week of the Thursday, counted in
  the year of that Thursday) and the month.  Day 0 is Monday, 1 January of year 1.\<close>

definition utc_day :: "time \<Rightarrow> nat" where
  "utc_day t = nat (t div (86400 * Second))"

definition day_period :: "time \<Rightarrow> string" where
  "day_period t = date_text (utc_day t)"

definition week_period :: "time \<Rightarrow> string" where
  "week_period t =
     (let thursday = utc_day t - utc_day t mod 7 + 3; y = year0_of_day thursday
      in year_text (Suc y) @ ''-'' @ pad_dec 2 ((thursday - days_before y) div 7 + 1))"

definition month_period :: "time \<Rightarrow> string" where
  "month_period t = (let c = civil_of_day (utc_day t) in year_text (cyear c) @ ''-'' @ pad_dec 2 (cmonth c))"

fun bucket_scan :: "(time \<Rightarrow> string) \<Rightarrow> int \<Rightarrow> string list \<Rightarrow> string list \<Rightarrow> Snapshot list \<Rightarrow> string list \<times> string list" where
  "bucket_scan key count periods keep [] = (periods, keep)"
| "bucket_scan key count periods keep (s # ss) =
     (if key (sn_time s) \<in> set periods then bucket_scan key count periods keep ss
      else if int (length periods) \<ge> count then (periods, keep)
      else bucket_scan key count (key (sn_time s) # periods) (set_add (sn_id s) keep) ss)"

definition bucket_keep :: "Snapshot list \<Rightarrow> int \<times> (time \<Rightarrow> string) \<Rightarrow> string list \<Rightarrow> string list" where
  "bucket_keep ordered b keep =
     (if fst b \<le> 0 then keep
      else let (periods, keep1) = bucket_scan (snd b) (fst b) [] keep ordered
           in if int (length periods) < fst b \<and> ordered \<noteq> [] then set_add (sn_id (last ordered)) keep1 else keep1)"

definition buckets :: "Retention \<Rightarrow> (int \<times> (time \<Rightarrow> string)) list" where
  "buckets policy = [(rt_daily policy, day_period), (rt_weekly policy, week_period), (rt_monthly policy, month_period)]"

text \<open>The newest first, equal times by identifier.\<close>

definition snapshots_newest_first :: "Snapshot list \<Rightarrow> Snapshot list" where
  "snapshots_newest_first snapshots = sort_key (\<lambda>s. (- sn_time s, sn_id s)) snapshots"

definition retainedSnapshotIDs :: "Snapshot list \<Rightarrow> Retention \<Rightarrow> string list" where
  "retainedSnapshotIDs snapshots policy = fold (bucket_keep (snapshots_newest_first snapshots)) (buckets policy) []"

text \<open>The outcomes of the calls a retention run makes: the inventory (\<open>None\<close>: not decodable), the contents of
  snapshots, the clock at the inspection of the \<open>n\<close>-th snapshot and at its classification, the two attempts to persist the state, each
  \<open>forget\<close> and the \<open>prune\<close>; and what other goroutines do before the \<open>n\<close>-th critical section.\<close>

record retention_env =
  re_inventory :: "backup_error + Snapshot list option"
  re_saved :: "string \<Rightarrow> saved_snapshot"
  re_now :: "nat \<Rightarrow> time"
  re_classified :: "nat \<Rightarrow> time"
  re_persist :: "backup_error option"
  re_deferred :: "backup_error option"
  re_forget :: "nat \<Rightarrow> backup_error option"
  re_prune :: "backup_error option"
  re_interfere :: "nat \<Rightarrow> backup_state \<Rightarrow> backup_state"

record inspection =
  in_verified :: "Snapshot list"
  in_remaining :: nat
  in_state :: backup_state

definition inspectable :: "time \<Rightarrow> Snapshot \<Rightarrow> bool" where
  "inspectable now s \<longleftrightarrow> snapshotID (sn_id s) \<and> \<not> time_is_zero (sn_time s) \<and> sn_time s \<le> now + clockSkewTolerance"

definition keep_if_complete :: "string \<Rightarrow> Snapshot \<Rightarrow> inspection \<Rightarrow> inspection" where
  "keep_if_complete status snapshot i = (if status = ''complete'' then i\<lparr>in_verified := in_verified i @ [snapshot]\<rparr> else i)"

text \<open>One snapshot.  Critical sections \<open>2 n + 1\<close> (look up) and \<open>2 n + 2\<close> (remember) belong to the \<open>n\<close>-th one.\<close>

definition inspect_snapshot :: "retention_env \<Rightarrow> Destination \<Rightarrow> string \<Rightarrow> nat \<Rightarrow> Snapshot \<Rightarrow> inspection \<Rightarrow> backup_error option \<times> inspection" where
  "inspect_snapshot env d planID n snapshot i =
     (if \<not> inspectable (re_now env n) snapshot then (None, i)
      else let i1 = i\<lparr>in_state := re_interfere env (2 * n + 1) (in_state i)\<rparr>
      in case snapshotClassificationLocked (de_id d) (sn_id snapshot) (in_state i1) of
        Some c \<Rightarrow> (None, keep_if_complete (cl_status c) snapshot i1)
      | None \<Rightarrow>
          if in_remaining i1 = 0 then (None, i1)
          else let s2 = rememberRetentionCursorLocked planID (de_id d) (sn_id snapshot) (re_interfere env (2 * n + 2) (in_state i1));
                   i2 = i1\<lparr>in_remaining := in_remaining i1 - 1\<rparr>
          in case savedSnapshotClassification (verifySavedSnapshot (sn_id snapshot) (re_saved env (sn_id snapshot))) of
               None \<Rightarrow> (Some (BOther ''retention verification unavailable''), i2\<lparr>in_state := s2\<rparr>)
             | Some status \<Rightarrow>
                 (None, keep_if_complete status snapshot
                   (i2\<lparr>in_state := rememberSnapshotClassificationLocked (de_id d) (sn_id snapshot) status (re_classified env n) s2\<rparr>)))"

fun inspect_all :: "retention_env \<Rightarrow> Destination \<Rightarrow> string \<Rightarrow> nat \<Rightarrow> Snapshot list \<Rightarrow> inspection \<Rightarrow> backup_error option \<times> inspection" where
  "inspect_all env d planID n [] i = (None, i)"
| "inspect_all env d planID n (s # ss) i =
     (case inspect_snapshot env d planID n s i of
        (Some e, i1) \<Rightarrow> (Some e, i1)
      | (None, i1) \<Rightarrow> inspect_all env d planID (Suc n) ss i1)"

function forget_batches :: "(nat \<Rightarrow> backup_error option) \<Rightarrow> nat \<Rightarrow> string list \<Rightarrow> backup_error option \<times> string list list" where
  "forget_batches run n remove =
     (if remove = [] then (None, [])
      else let k = min 128 (length remove)
           in case run n of
                Some e \<Rightarrow> (Some e, [take k remove])
              | None \<Rightarrow> (let (e, bs) = forget_batches run (Suc n) (drop k remove) in (e, take k remove # bs)))"
  by pat_completeness auto
termination
  by (relation "measure (\<lambda>(_, _, remove). length remove)") (auto simp: length_greater_0_conv [symmetric] simp del: length_greater_0_conv)

declare forget_batches.simps [simp del]

record retention_result =
  rr_errors :: "backup_error list"
  rr_state :: backup_state
  rr_forgotten :: "string list list"
  rr_pruned :: bool

definition error_list :: "backup_error option \<Rightarrow> backup_error list" where
  "error_list e = (case e of None \<Rightarrow> [] | Some x \<Rightarrow> [x])"

definition inspection_order :: "string \<Rightarrow> Snapshot list \<Rightarrow> Snapshot list" where
  "inspection_order cursor snapshots =
     (let sorted = sort_key sn_id snapshots; start = length (takeWhile (\<lambda>s. \<not> cursor < sn_id s) sorted)
      in if start = length sorted then sorted else drop start sorted @ take start sorted)"

definition retention_keep :: "Destination \<Rightarrow> string \<Rightarrow> Retention \<Rightarrow> Snapshot list \<Rightarrow> backup_state \<Rightarrow> string list" where
  "retention_keep d planID policy verified s =
     (case mget (bk_checkpoints s) (checkpointKey planID (de_id d)) of
        None \<Rightarrow> retainedSnapshotIDs verified policy
      | Some c \<Rightarrow> set_add (cp_snapshot c) (retainedSnapshotIDs verified policy))"

definition retain_stop :: "backup_error list \<Rightarrow> backup_state \<Rightarrow> retention_result" where
  "retain_stop es s = \<lparr>rr_errors = es, rr_state = s, rr_forgotten = [], rr_pruned = False\<rparr>"

text \<open>From the inspected inventory on: the state \<open>s\<close> is that of the last critical section.\<close>

definition retain_removal :: "retention_env \<Rightarrow> Destination \<Rightarrow> string \<Rightarrow> Retention \<Rightarrow> Snapshot list \<Rightarrow> backup_state \<Rightarrow> retention_result" where
  "retain_removal env d planID policy verified s =
     (case re_persist env of
        Some e \<Rightarrow> retain_stop (e # error_list (re_deferred env)) s
      | None \<Rightarrow>
          let keep = retention_keep d planID policy verified s;
              remove = filter (\<lambda>x. x \<notin> set keep) (map sn_id verified);
              (e, bs) = forget_batches (re_forget env) 0 remove
          in if e \<noteq> None then \<lparr>rr_errors = error_list e, rr_state = s, rr_forgotten = bs, rr_pruned = False\<rparr>
             else if remove \<noteq> [] \<and> bs_frequency (de_prune_schedule d) \<in> set ['''', ''manual'']
             then \<lparr>rr_errors = error_list (re_prune env), rr_state = s, rr_forgotten = bs, rr_pruned = True\<rparr>
             else \<lparr>rr_errors = [], rr_state = s, rr_forgotten = bs, rr_pruned = False\<rparr>)"

definition retain :: "retention_env \<Rightarrow> Destination \<Rightarrow> string \<Rightarrow> Retention \<Rightarrow> backup_state \<Rightarrow> retention_result" where
  "retain env d planID policy s =
     (if keepAllSnapshots policy then retain_stop [] s
      else case retentionBlockedError d of
        Some e \<Rightarrow> retain_stop [e] s
      | None \<Rightarrow>
          (case re_inventory env of
             Inl e \<Rightarrow> retain_stop [e] s
           | Inr None \<Rightarrow> retain_stop [BOther ''invalid retention snapshot inventory''] s
           | Inr (Some snapshots) \<Rightarrow>
               let s1 = re_interfere env 0 s;
                   cursor = (case mget (bk_cursors s1) (checkpointKey planID (de_id d)) of None \<Rightarrow> '''' | Some c \<Rightarrow> c);
                   (failed, i) = inspect_all env d planID 0 (inspection_order cursor snapshots) \<lparr>in_verified = [], in_remaining = 64, in_state = s1\<rparr>
               in case failed of
                    Some e \<Rightarrow> retain_stop (e # error_list (re_deferred env)) (in_state i)
                  | None \<Rightarrow> retain_removal env d planID policy (in_verified i) (re_interfere env (2 * length snapshots + 1) (in_state i))))"


section \<open>A verified snapshot has its objects\<close>

definition listed_file :: "listing_line list \<Rightarrow> string \<Rightarrow> int \<Rightarrow> bool" where
  "listed_file ls p bytes \<longleftrightarrow> (\<exists>node. NodeLine node \<in> set ls \<and> rn_path node = p \<and> rn_type node = ''file'' \<and> 0 \<le> rn_size node \<and> (0 \<le> bytes \<longrightarrow> rn_size node = bytes))"

lemma check_listing_found:
  "check_listing ls expected = Inr rest \<Longrightarrow> mget expected p = Some bytes \<Longrightarrow> mget rest p = Some bytes \<or> listed_file ls p bytes"
proof (induction ls expected arbitrary: rest rule: check_listing.induct)
  case (4 node ls expected)
  show ?case
  proof (cases "mget expected (rn_path node)")
    case None
    then show ?thesis using "4.IH"(1) [OF None] "4.prems" by (auto simp: listed_file_def)
  next
    case (Some b)
    then have ok: "rn_type node = ''file''" "0 \<le> rn_size node" "0 \<le> b \<longrightarrow> rn_size node = b" "check_listing ls (mdel (rn_path node) expected) = Inr rest"
      using "4.prems"(1) by (auto split: if_splits)
    show ?thesis
    proof (cases "p = rn_path node")
      case True
      then have "listed_file (NodeLine node # ls) p bytes" unfolding listed_file_def using ok Some "4.prems"(2) by (intro exI [of _ node]) simp
      then show ?thesis ..
    next
      case False
      then have "mget (mdel (rn_path node) expected) p = Some bytes" using "4.prems"(2) by (simp add: delete_conv')
      then have "mget rest p = Some bytes \<or> listed_file ls p bytes" using "4.IH"(2) [OF Some _ ok(4)] ok(1-3) by auto
      then show ?thesis unfolding listed_file_def by auto
    qed
  qed
qed (auto simp: listed_file_def)

lemma verify_objects_found:
  assumes "verifySnapshotObjects r expected = None" "mget expected p = Some bytes" "sv_listing r = Inr ls"
  shows "listed_file ls p bytes"
  using assms check_listing_found [of ls expected "[]" p bytes] by (auto simp: verifySnapshotObjects_def split: sum.splits if_splits)

text \<open>The objects the manifest of a snapshot names.\<close>

definition source_names :: "ManifestSource \<Rightarrow> (string \<times> int) list" where
  "source_names s = (''/'' @ ms_saved_path s, ms_size s) # (if ms_index_path s = '''' then [] else [(''/'' @ ms_index_path s, - 1)])"

lemma trim_below: "below p \<Longrightarrow> trim_prefix p ''/'' = p"
  using below_not_abs [of p] by (simp add: trim_prefix_def path_is_abs_def)

lemma source_objects_fold:
  "list_all (\<lambda>s. below (ms_saved_path s)) ss \<Longrightarrow> source_objects ss expected =
     (if list_all ms_archive ss then Inr (fold (\<lambda>(k, v). mput k v) (concat (map source_names ss)) expected) else Inl SLegacy)"
  by (induction ss arbitrary: expected) (auto simp: source_names_def trim_below Let_def)

lemma mget_fold_put:
  "mget (fold (\<lambda>(k, v). mput k v) kvs m) k = (case map_of (rev kvs) k of Some v \<Rightarrow> Some v | None \<Rightarrow> mget m k)"
  by (induction kvs arbitrary: m) (auto simp: update_conv' map_add_def split: option.splits)

lemma sources_error_below: "sources_error seen ss = None \<Longrightarrow> list_all (\<lambda>s. below (ms_saved_path s)) ss"
proof (induction ss arbitrary: seen)
  case (Cons s ss)
  then have "catalogPath (ms_saved_path s) False = Inr (ms_saved_path s)" "sources_error (so_id (ms_source s) # seen) ss = None"
    by (auto split: if_splits)
  then show ?case using Cons.IH catalog_path_result [of "ms_saved_path s" False] by (auto simp: catalog_path_ok_def)
qed simp

lemma snapshotManifest_valid: "snapshotManifest sid r = Inr manifest \<Longrightarrow> sources_error [] (mf_sources manifest) = None"
  by (auto simp: snapshotManifest_def validateCatalogManifest_def split: if_splits sum.splits option.splits)

lemma verifySavedSnapshot_cases:
  assumes "verifySavedSnapshot sid r = None"
  obtains manifest ls expected where "snapshotManifest sid r = Inr manifest" "sv_listing r = Inr ls"
    "source_objects (mf_sources manifest) [(''/manifest.json'', - 1)] = Inr expected" "verifySnapshotObjects r expected = None"
  using assms by (auto simp: verifySavedSnapshot_def verifySnapshotObjects_def split: option.splits sum.splits if_splits)



definition example_saved :: saved_snapshot where
  "example_saved = \<lparr>sv_listing = Inr [NodeLine \<lparr>rn_path = ''/manifest.json'', rn_type = ''file'', rn_size = 300\<rparr>, BlankLine,
       NodeLine \<lparr>rn_path = ''/data.tar'', rn_type = ''file'', rn_size = 5\<rparr>],
     sv_manifest = Inr (300, Some example_manifest), sv_index = (\<lambda>_. Inl BNotFound)\<rparr>"

lemma example_saved_complete: "verifySavedSnapshot ''abcdef01'' example_saved = None"
  by code_simp



section \<open>What retention keeps\<close>

text \<open>The first element of each period, in the order of the list.\<close>

fun firsts :: "('a \<Rightarrow> 'k) \<Rightarrow> 'a list \<Rightarrow> 'a list" where
  "firsts key [] = []"
| "firsts key (x # xs) = x # filter (\<lambda>y. key y \<noteq> key x) (firsts key xs)"

lemma bucket_scan_spec:
  assumes "int (length periods) \<le> count" "bucket_scan key count periods keep ss = (ps, keep1)"
  shows "set keep1 = set keep \<union> sn_id ` set (take (nat count - length periods) (filter (\<lambda>s. key (sn_time s) \<notin> set periods) (firsts (\<lambda>s. key (sn_time s)) ss))) \<and>
    length ps = length periods + min (nat count - length periods) (length (filter (\<lambda>s. key (sn_time s) \<notin> set periods) (firsts (\<lambda>s. key (sn_time s)) ss)))"
  using assms
proof (induction key count periods keep ss rule: bucket_scan.induct)
  case (2 key count periods keep s ss)
  let ?k = "\<lambda>s. key (sn_time s)"
  consider "?k s \<in> set periods" | "?k s \<notin> set periods" "int (length periods) = count" | "?k s \<notin> set periods" "int (length periods) < count"
    using "2.prems"(1) by linarith
  then show ?case
  proof cases
    case 1
    have "filter (\<lambda>t. ?k t \<notin> set periods) (firsts ?k (s # ss)) = filter (\<lambda>t. ?k t \<notin> set periods) (firsts ?k ss)"
      using 1 by (auto intro!: filter_cong)
    then show ?thesis using 1 "2.IH"(1) [OF 1 "2.prems"(1)] "2.prems"(2) by simp
  next
    case 2
    then show ?thesis using "2.prems"(2) by auto
  next
    case 3
    have eq: "filter (\<lambda>t. ?k t \<notin> set periods) (firsts ?k (s # ss)) = s # filter (\<lambda>t. ?k t \<notin> set (?k s # periods)) (firsts ?k ss)"
      using 3 by (auto intro!: filter_cong)
    have len: "nat count - length periods = Suc (nat count - length (?k s # periods))" using 3(2) by simp
    have "bucket_scan key count (?k s # periods) (set_add (sn_id s) keep) ss = (ps, keep1)" using 3 "2.prems"(2) by simp
    from "2.IH"(2) [OF 3(1) _ _ this] 3(2) show ?thesis unfolding eq len by simp
  qed
qed simp

definition bucket_spec :: "Snapshot list \<Rightarrow> int \<times> (time \<Rightarrow> string) \<Rightarrow> string set" where
  "bucket_spec ordered b =
     (if fst b \<le> 0 then {}
      else sn_id ` (set (take (nat (fst b)) (firsts (\<lambda>s. snd b (sn_time s)) ordered)) \<union>
                    (if length (firsts (\<lambda>s. snd b (sn_time s)) ordered) < nat (fst b) \<and> ordered \<noteq> [] then {last ordered} else {})))"

lemma bucket_keep_spec: "set (bucket_keep ordered b keep) = set keep \<union> bucket_spec ordered b"
proof (cases "fst b \<le> 0")
  case False
  obtain ps keep1 where sc: "bucket_scan (snd b) (fst b) [] keep ordered = (ps, keep1)" by fastforce
  have "set keep1 = set keep \<union> sn_id ` set (take (nat (fst b)) (firsts (\<lambda>s. snd b (sn_time s)) ordered))"
    "length ps = min (nat (fst b)) (length (firsts (\<lambda>s. snd b (sn_time s)) ordered))"
    using bucket_scan_spec [OF _ sc] False by simp_all
  then show ?thesis using False sc by (auto simp: bucket_keep_def bucket_spec_def)
qed (simp add: bucket_keep_def bucket_spec_def)

lemma retained_spec: "set (retainedSnapshotIDs snapshots policy) = (\<Union>b \<in> set (buckets policy). bucket_spec (snapshots_newest_first snapshots) b)"
proof -
  have "set (fold (bucket_keep o1) bs keep) = set keep \<union> (\<Union>b \<in> set bs. bucket_spec o1 b)" for o1 bs keep
    by (induction bs arbitrary: keep) (auto simp: bucket_keep_spec)
  then show ?thesis by (simp add: retainedSnapshotIDs_def)
qed

lemma firsts_subset: "set (firsts key xs) \<subseteq> set xs"
  by (induction xs) auto

lemma newest_first_newest: "s \<in> set snapshots \<Longrightarrow> sn_time s \<le> sn_time (hd (snapshots_newest_first snapshots))"
proof -
  assume s: "s \<in> set snapshots"
  let ?f = "\<lambda>s. (- sn_time s, sn_id s)"
  have so: "sorted (map ?f (snapshots_newest_first snapshots))" "s \<in> set (snapshots_newest_first snapshots)" using s by (simp_all add: snapshots_newest_first_def)
  then obtain x xs where x: "snapshots_newest_first snapshots = x # xs" by (cases "snapshots_newest_first snapshots") auto
  then have "s = x \<or> ?f x \<le> ?f s" using so by auto
  then show ?thesis using x by (auto simp: less_eq_prod_def)
qed

lemma newest_retained:
  assumes "\<not> keepAllSnapshots policy" "0 \<le> rt_daily policy" "0 \<le> rt_weekly policy" "0 \<le> rt_monthly policy" "snapshots \<noteq> []"
  shows "sn_id (hd (snapshots_newest_first snapshots)) \<in> set (retainedSnapshotIDs snapshots policy)"
proof -
  have "set (snapshots_newest_first snapshots) = set snapshots" by (simp add: snapshots_newest_first_def)
  then have "snapshots_newest_first snapshots \<noteq> []" using assms(5) by force
  then obtain x xs where x: "snapshots_newest_first snapshots = x # xs" by (cases "snapshots_newest_first snapshots") auto
  have "sn_id x \<in> bucket_spec (x # xs) b" if "0 < fst b" for b
  proof -
    obtain m where "nat (fst b) = Suc m" using \<open>0 < fst b\<close> by (cases "nat (fst b)") auto
    then show ?thesis using \<open>0 < fst b\<close> by (simp add: bucket_spec_def)
  qed
  moreover have "\<exists>b \<in> set (buckets policy). 0 < fst b" using assms(1-4) by (auto simp: keepAllSnapshots_def buckets_def)
  ultimately show ?thesis unfolding retained_spec x by auto
qed




section \<open>What retention removes\<close>

text \<open>Cached evidence of completeness is right: \<open>good\<close> holds of each snapshot it is recorded for.\<close>

definition cache_ok :: "string \<Rightarrow> (string \<Rightarrow> bool) \<Rightarrow> backup_state \<Rightarrow> bool" where
  "cache_ok did good s \<longleftrightarrow>
     (\<forall>sid e. mget (bk_classifications s) (snapshotEvidenceKey did sid) = Some e \<longrightarrow> cl_status e = ''complete'' \<longrightarrow> good sid) \<and>
     (\<forall>sid. mget (bk_verified_snapshots s) (snapshotEvidenceKey did sid) \<noteq> None \<longrightarrow> good sid)"

lemma evict_mget: "mget (evict limit at m) k = Some v \<Longrightarrow> mget m k = Some v"
proof (induction limit at m rule: evict.induct)
  case (1 limit at m)
  show ?case
  proof (cases "length m \<le> limit")
    case True
    then show ?thesis using "1.prems" by (simp add: evict.simps [of limit at m])
  next
    case False
    then have "mget (mdel (oldest_key at m) m) k = Some v" using 1 by (simp add: evict.simps [of limit at m])
    then show ?thesis by (simp add: delete_conv' split: if_splits)
  qed
qed

lemma evidence_key_inj: "snapshotEvidenceKey did a = snapshotEvidenceKey did b \<longleftrightarrow> a = b"
  by (simp add: snapshotEvidenceKey_def)

lemma cache_ok_remember:
  assumes "cache_ok did good s" "status = ''complete'' \<longrightarrow> good sid"
  shows "cache_ok did good (rememberSnapshotClassificationLocked did sid status at s)"
proof -
  have "good x" if "mget (bk_classifications (rememberSnapshotClassificationLocked did sid status at s)) (snapshotEvidenceKey did x) = Some e"
    "cl_status e = ''complete''" for x e
    using evict_mget [OF that(1) [unfolded rememberSnapshotClassificationLocked_def, simplified]] that(2) assms
    by (auto simp: update_conv' evidence_key_inj cache_ok_def split: if_splits)
  then show ?thesis using assms(1) by (simp add: cache_ok_def rememberSnapshotClassificationLocked_def)
qed

lemma cache_ok_cursor: "cache_ok did good (rememberRetentionCursorLocked p d sid s) = cache_ok did good s"
  by (simp add: cache_ok_def rememberRetentionCursorLocked_def)

lemma cached_complete_good:
  assumes "cache_ok did good s" "snapshotClassificationLocked did sid s = Some c" "cl_status c = ''complete''"
  shows "good sid"
  using assms unfolding cache_ok_def snapshotClassificationLocked_def Let_def by (fastforce split: option.splits if_splits)

text \<open>What the inspection relies on: the verification and the other goroutines.\<close>

definition sound_env :: "retention_env \<Rightarrow> string \<Rightarrow> (string \<Rightarrow> bool) \<Rightarrow> bool" where
  "sound_env env did good \<longleftrightarrow> (\<forall>sid. verifySavedSnapshot sid (re_saved env sid) = None \<longrightarrow> good sid) \<and>
     (\<forall>n s. cache_ok did good s \<longrightarrow> cache_ok did good (re_interfere env n s))"

definition inspected :: "string \<Rightarrow> (string \<Rightarrow> bool) \<Rightarrow> Snapshot set \<Rightarrow> inspection \<Rightarrow> bool" where
  "inspected did good seen i \<longleftrightarrow> cache_ok did good (in_state i) \<and> (\<forall>s \<in> set (in_verified i). good (sn_id s) \<and> s \<in> seen \<and> snapshotID (sn_id s))"

lemma inspected_keep:
  assumes "inspected did good seen i" "status = ''complete'' \<longrightarrow> good (sn_id snapshot)" "snapshot \<in> seen" "snapshotID (sn_id snapshot)"
  shows "inspected did good seen (keep_if_complete status snapshot i)"
  using assms by (auto simp: inspected_def keep_if_complete_def)

lemma inspected_state: "inspected did good seen i \<Longrightarrow> cache_ok did good s \<Longrightarrow> inspected did good seen (i\<lparr>in_state := s\<rparr>)"
  by (simp add: inspected_def)

lemma inspect_snapshot_ok:
  assumes "sound_env env (de_id d) good" "inspected (de_id d) good seen i" "snapshot \<in> seen"
  shows "inspected (de_id d) good seen (snd (inspect_snapshot env d planID n snapshot i))"
proof (cases "inspectable (re_now env n) snapshot")
  case True
  then have sid: "snapshotID (sn_id snapshot)" by (simp add: inspectable_def)
  define i1 where "i1 = i\<lparr>in_state := re_interfere env (2 * n + 1) (in_state i)\<rparr>"
  have i1: "inspected (de_id d) good seen i1" "cache_ok (de_id d) good (in_state i1)"
    using assms(1,2) by (simp_all add: i1_def inspected_def sound_env_def)
  show ?thesis
  proof (cases "snapshotClassificationLocked (de_id d) (sn_id snapshot) (in_state i1)")
    case (Some c)
    have "inspected (de_id d) good seen (keep_if_complete (cl_status c) snapshot i1)"
      by (rule inspected_keep [OF i1(1) _ assms(3) sid]) (use cached_complete_good [OF i1(2) Some] in blast)
    then show ?thesis using True Some by (simp add: inspect_snapshot_def i1_def Let_def)
  next
    case None
    define s2 where "s2 = rememberRetentionCursorLocked planID (de_id d) (sn_id snapshot) (re_interfere env (2 * n + 2) (in_state i1))"
    define i2 where "i2 = i1\<lparr>in_remaining := in_remaining i1 - 1\<rparr>"
    have s2: "cache_ok (de_id d) good s2" using assms(1) i1(2) by (simp add: s2_def cache_ok_cursor sound_env_def)
    have i2: "inspected (de_id d) good seen (i2\<lparr>in_state := s\<rparr>)" if "cache_ok (de_id d) good s" for s
      using i1(1) that by (simp add: i2_def inspected_def)
    have v: "good (sn_id snapshot)" if "savedSnapshotClassification (verifySavedSnapshot (sn_id snapshot) (re_saved env (sn_id snapshot))) = Some ''complete''"
      using that assms(1) by (auto simp: savedSnapshotClassification_def sound_env_def split: option.splits snapshot_error.splits)
    have k: "inspected (de_id d) good seen (keep_if_complete status snapshot
        (i2\<lparr>in_state := rememberSnapshotClassificationLocked (de_id d) (sn_id snapshot) status (re_classified env n) s2\<rparr>))"
      if "savedSnapshotClassification (verifySavedSnapshot (sn_id snapshot) (re_saved env (sn_id snapshot))) = Some status" for status
      by (rule inspected_keep [OF i2 [OF cache_ok_remember [OF s2]] _ assms(3) sid]) (use v that in auto)
    have "inspect_snapshot env d planID n snapshot i = (if in_remaining i1 = 0 then (None, i1)
      else case savedSnapshotClassification (verifySavedSnapshot (sn_id snapshot) (re_saved env (sn_id snapshot))) of
          None \<Rightarrow> (Some (BOther ''retention verification unavailable''), i2\<lparr>in_state := s2\<rparr>)
        | Some status \<Rightarrow> (None, keep_if_complete status snapshot
            (i2\<lparr>in_state := rememberSnapshotClassificationLocked (de_id d) (sn_id snapshot) status (re_classified env n) s2\<rparr>)))"
      using True None unfolding inspect_snapshot_def i2_def s2_def i1_def Let_def by simp
    then show ?thesis using i1(1) i2 [OF s2] k by (auto split: option.split)
  qed
qed (use assms(2) in \<open>simp add: inspect_snapshot_def\<close>)

lemma inspect_all_ok:
  assumes "sound_env env (de_id d) good"
  shows "inspected (de_id d) good seen i \<Longrightarrow> set ss \<subseteq> seen \<Longrightarrow> inspected (de_id d) good seen (snd (inspect_all env d planID n ss i))"
proof (induction ss arbitrary: n i)
  case (Cons s ss)
  obtain e i1 where e: "inspect_snapshot env d planID n s i = (e, i1)" by fastforce
  then have "inspected (de_id d) good seen i1" using inspect_snapshot_ok [OF assms Cons.prems(1), of s planID n] Cons.prems(2) by simp
  then show ?case using Cons.IH Cons.prems(2) e by (cases e) simp_all
qed simp

lemma forget_batches_spec:
  assumes "forget_batches run n remove = (e, bs)"
  shows "prefix (concat bs) remove \<and> (\<forall>b \<in> set bs. b \<noteq> [] \<and> length b \<le> 128)"
  using assms
proof (induction run n remove arbitrary: e bs rule: forget_batches.induct)
  case (1 run n remove)
  let ?k = "min 128 (length remove)"
  show ?case
  proof (cases "remove = []")
    case True
    then show ?thesis using "1.prems" by (simp add: forget_batches.simps [of run n "[]"])
  next
    case False
    then have b: "take ?k remove \<noteq> []" "length (take ?k remove) \<le> 128" by simp_all
    show ?thesis
    proof (cases "run n")
      case None
      obtain e' bs' where r: "forget_batches run (Suc n) (drop ?k remove) = (e', bs')" by fastforce
      then have "bs = take ?k remove # bs'" using "1.prems" False None by (simp add: forget_batches.simps [of run n remove] Let_def)
      moreover have "prefix (concat bs') (drop ?k remove)" "\<forall>b \<in> set bs'. b \<noteq> [] \<and> length b \<le> 128" using "1.IH" [OF False refl None r] by blast+
      ultimately show ?thesis using b append_take_drop_id [of ?k remove] same_prefix_prefix [of "take ?k remove" "concat bs'" "drop ?k remove"] by simp
    next
      case (Some x)
      then have "bs = [take ?k remove]" using "1.prems" False by (auto simp: forget_batches.simps [of run n remove] Let_def)
      then show ?thesis using b take_is_prefix [of ?k remove] by simp
    qed
  qed
qed

lemma set_inspection_order: "set (inspection_order cursor snapshots) = set snapshots"
proof -
  have rotate: "set (drop n xs @ take n xs) = set xs" for n and xs :: "Snapshot list"
    using arg_cong [OF append_take_drop_id [of n xs], of set] by (simp only: set_append Un_commute)
  show ?thesis unfolding inspection_order_def Let_def by (simp only: rotate set_sort if_cancel split: if_split) blast
qed


lemma retain_removal_spec:
  assumes "r = retain_removal env d planID policy verified s" "rr_forgotten r \<noteq> [] \<or> rr_pruned r"
  shows "rr_state r = s \<and> (\<exists>e. forget_batches (re_forget env) 0 (filter (\<lambda>x. x \<notin> set (retention_keep d planID policy verified s)) (map sn_id verified)) =
     (e, rr_forgotten r))"
proof -
  obtain e bs where fb: "forget_batches (re_forget env) 0 (filter (\<lambda>x. x \<notin> set (retention_keep d planID policy verified s)) (map sn_id verified)) = (e, bs)"
    by fastforce
  have "re_persist env = None" using assms by (cases "re_persist env") (simp_all add: retain_removal_def retain_stop_def)
  then have "rr_state r = s" "rr_forgotten r = bs" using assms(1) fb by (simp_all add: retain_removal_def Let_def)
  then show ?thesis using fb by blast
qed

lemma retain_run:
  assumes "r = retain env d planID policy s" "rr_forgotten r \<noteq> [] \<or> rr_pruned r"
  obtains inv cursor i where "\<not> keepAllSnapshots policy" "retentionBlockedError d = None" "re_inventory env = Inr (Some inv)"
    "inspect_all env d planID 0 (inspection_order cursor inv) \<lparr>in_verified = [], in_remaining = 64, in_state = re_interfere env 0 s\<rparr> = (None, i)"
    "r = retain_removal env d planID policy (in_verified i) (re_interfere env (2 * length inv + 1) (in_state i))"
proof -
  have k: "\<not> keepAllSnapshots policy" using assms by (auto simp: retain_def retain_stop_def)
  have b: "retentionBlockedError d = None" using assms k by (cases "retentionBlockedError d") (auto simp: retain_def retain_stop_def)
  obtain inv where inv: "re_inventory env = Inr (Some inv)"
    using assms k b by (cases "re_inventory env") (auto simp: retain_def retain_stop_def split: option.splits)
  define cursor where "cursor = (case mget (bk_cursors (re_interfere env 0 s)) (checkpointKey planID (de_id d)) of None \<Rightarrow> [] | Some c \<Rightarrow> c)"
  obtain failed i where ia: "inspect_all env d planID 0 (inspection_order cursor inv) \<lparr>in_verified = [], in_remaining = 64, in_state = re_interfere env 0 s\<rparr> = (failed, i)"
    by fastforce
  have r: "r = (case failed of Some e \<Rightarrow> retain_stop (e # error_list (re_deferred env)) (in_state i)
      | None \<Rightarrow> retain_removal env d planID policy (in_verified i) (re_interfere env (2 * length inv + 1) (in_state i)))"
    using assms(1) k b inv ia unfolding retain_def Let_def cursor_def by simp
  then have "failed = None" using assms(2) by (cases failed) (simp_all add: retain_stop_def)
  then show thesis using that [OF k b inv] ia r by simp
qed

lemma kept_survivor:
  assumes "x \<in> set (filter (\<lambda>x. x \<notin> set (retention_keep d planID policy verified s)) (map sn_id verified))" "\<not> keepAllSnapshots policy"
    "0 \<le> rt_daily policy" "0 \<le> rt_weekly policy" "0 \<le> rt_monthly policy"
  shows "\<exists>u \<in> set verified. \<exists>v \<in> set verified. sn_id u = x \<and> sn_time u \<le> sn_time v \<and> sn_id v \<in> set (retention_keep d planID policy verified s)"
proof -
  obtain u where u: "u \<in> set verified" "sn_id u = x" using assms(1) by auto
  let ?v = "hd (snapshots_newest_first verified)"
  have ne: "verified \<noteq> []" using u(1) by auto
  have "set (snapshots_newest_first verified) = set verified" by (simp add: snapshots_newest_first_def)
  then have v: "?v \<in> set verified" using ne hd_in_set [of "snapshots_newest_first verified"] by force
  have "sn_id ?v \<in> set (retention_keep d planID policy verified s)"
    using newest_retained [OF assms(2-5) ne] by (simp add: retention_keep_def split: option.split)
  then show ?thesis using u v newest_first_newest [OF u(1)] by blast
qed

text \<open>C24: Retention removes only what it may.  Whatever other goroutines do in between, every snapshot it asks restic to forget is
  in the inventory and known to be complete, is not the current checkpoint, and a complete snapshot at least as new survives;
  identifiers are passed in batches of 1 to 128.  With a keep-all policy or a blocked repository no command runs.\<close>

theorem snapshot_retention_safe:
  assumes "sound_env env (de_id d) good" "cache_ok (de_id d) good s" "0 \<le> rt_daily policy" "0 \<le> rt_weekly policy" "0 \<le> rt_monthly policy"
    "r = retain env d planID policy s"
  shows "(keepAllSnapshots policy \<or> repositoryMaintenanceBlocked d \<longrightarrow> rr_forgotten r = [] \<and> \<not> rr_pruned r) \<and>
    (\<forall>b \<in> set (rr_forgotten r). b \<noteq> [] \<and> length b \<le> 128) \<and>
    (\<forall>x \<in> set (concat (rr_forgotten r)). good x \<and>
       (\<forall>c. mget (bk_checkpoints (rr_state r)) (checkpointKey planID (de_id d)) = Some c \<longrightarrow> cp_snapshot c \<noteq> x) \<and>
       (\<exists>inventory. re_inventory env = Inr (Some inventory) \<and> (\<exists>u \<in> set inventory. \<exists>v \<in> set inventory.
          sn_id u = x \<and> good (sn_id v) \<and> sn_id v \<notin> set (concat (rr_forgotten r)) \<and> sn_time u \<le> sn_time v)))"
proof (cases "rr_forgotten r \<noteq> [] \<or> rr_pruned r")
  case True
  obtain inv cursor i where run: "\<not> keepAllSnapshots policy" "retentionBlockedError d = None" "re_inventory env = Inr (Some inv)"
    "inspect_all env d planID 0 (inspection_order cursor inv) \<lparr>in_verified = [], in_remaining = 64, in_state = re_interfere env 0 s\<rparr> = (None, i)"
    "r = retain_removal env d planID policy (in_verified i) (re_interfere env (2 * length inv + 1) (in_state i))" by (rule retain_run [OF assms(6) True])
  let ?rm = "filter (\<lambda>x. x \<notin> set (retention_keep d planID policy (in_verified i) (rr_state r))) (map sn_id (in_verified i))"
  have "inspected (de_id d) good (set inv) \<lparr>in_verified = [], in_remaining = 64, in_state = re_interfere env 0 s\<rparr>"
    using assms(1,2) by (simp add: inspected_def sound_env_def)
  from inspect_all_ok [OF assms(1) this, of "inspection_order cursor inv" planID 0, unfolded set_inspection_order run(4) snd_conv, OF subset_refl]
  have ok: "\<forall>u \<in> set (in_verified i). good (sn_id u) \<and> u \<in> set inv" by (simp only: inspected_def) blast
  define bs where "bs = rr_forgotten r"
  obtain e where "forget_batches (re_forget env) 0 ?rm = (e, bs)" using retain_removal_spec [OF run(5) True] by (auto simp: bs_def)
  note fb = forget_batches_spec [OF this]
  have sub: "set (concat bs) \<subseteq> set ?rm" using fb set_mono_prefix by blast
  have "good x \<and> (\<forall>c. mget (bk_checkpoints (rr_state r)) (checkpointKey planID (de_id d)) = Some c \<longrightarrow> cp_snapshot c \<noteq> x) \<and>
      (\<exists>u \<in> set inv. \<exists>v \<in> set inv. sn_id u = x \<and> good (sn_id v) \<and> sn_id v \<notin> set (concat bs) \<and> sn_time u \<le> sn_time v)" if "x \<in> set (concat bs)" for x
  proof -
    have x: "x \<in> set ?rm" using that sub by blast
    obtain u v where uv: "u \<in> set (in_verified i)" "v \<in> set (in_verified i)" "sn_id u = x" "sn_time u \<le> sn_time v"
      "sn_id v \<in> set (retention_keep d planID policy (in_verified i) (rr_state r))" using kept_survivor [OF x run(1) assms(3-5)] by blast
    have "sn_id v \<notin> set (concat bs)" using uv(5) sub by auto
    moreover have "cp_snapshot c \<noteq> x" if "mget (bk_checkpoints (rr_state r)) (checkpointKey planID (de_id d)) = Some c" for c
      using x that by (auto simp: retention_keep_def)
    ultimately show ?thesis using uv ok by blast
  qed
  moreover have "\<not> keepAllSnapshots policy" "\<not> repositoryMaintenanceBlocked d" using run(1,2) by (auto simp: retentionBlockedError_def Let_def split: if_splits)
  ultimately show ?thesis using fb run(3) unfolding bs_def [symmetric] by simp
qed auto


definition empty_state :: backup_state where
  "empty_state = \<lparr>bk_classifications = [], bk_cursors = [], bk_copy_attempts = [], bk_attempts_version = 1, bk_maintenance_attempts = [],
     bk_verified_snapshots = [], bk_restore_tests = [], bk_checkpoints = [], bk_instance = ''i'', bk_destinations = [], bk_plans = [], bk_runs = []\<rparr>"

definition example_env :: retention_env where
  "example_env = \<lparr>re_inventory = Inr (Some [\<lparr>sn_id = ''abcdef01'', sn_time = 1\<rparr>, \<lparr>sn_id = ''abcdef02'', sn_time = 2\<rparr>]), re_saved = (\<lambda>_. example_saved),
     re_now = (\<lambda>_. 10), re_classified = (\<lambda>_. 10), re_persist = None, re_deferred = None, re_forget = (\<lambda>_. None), re_prune = None, re_interfere = (\<lambda>_ s. s)\<rparr>"

definition example_policy :: Retention where
  "example_policy = \<lparr>rt_daily = 1, rt_weekly = 0, rt_monthly = 0\<rparr>"

definition example_state :: backup_state where
  "example_state = empty_state\<lparr>bk_classifications := [(''dst_1/abcdef01'', \<lparr>cl_version = 1, cl_status = ''complete'', cl_at = 5\<rparr>),
     (''dst_1/abcdef02'', \<lparr>cl_version = 1, cl_status = ''complete'', cl_at = 5\<rparr>)]\<rparr>"

theorem snapshot_retention_safe_witness:
  "rr_forgotten (retain example_env example_destination ''p'' example_policy example_state) = [[''abcdef01'']] \<and>
   verifySavedSnapshot ''abcdef01'' (re_saved example_env ''abcdef01'') = None"
proof -
  let ?a = "\<lparr>sn_id = ''abcdef01'', sn_time = 1\<rparr>" and ?b = "\<lparr>sn_id = ''abcdef02'', sn_time = 2\<rparr>"
  have day: "day_period 1 = day_period 2" by (simp add: day_period_def utc_day_def Second_def)
  have new: "snapshots_newest_first [?a, ?b] = [?b, ?a]" by code_simp
  have keep: "retainedSnapshotIDs [?a, ?b] example_policy = [''abcdef02'']"
    unfolding retainedSnapshotIDs_def new by (simp add: buckets_def bucket_keep_def example_policy_def day set_add_def)
  have order: "inspection_order '''' [?a, ?b] = [?a, ?b]" by code_simp
  have look: "inspect_all example_env example_destination ''p'' 0 [?a, ?b] \<lparr>in_verified = [], in_remaining = 64, in_state = example_state\<rparr> =
      (None, \<lparr>in_verified = [?a, ?b], in_remaining = 64, in_state = example_state\<rparr>)" by code_simp
  have open1: "\<not> keepAllSnapshots example_policy" "retentionBlockedError example_destination = None" by code_simp+
  have env: "re_inventory example_env = Inr (Some [?a, ?b])" "re_interfere example_env = (\<lambda>_ s. s)" "re_persist example_env = None" "re_forget example_env = (\<lambda>_. None)"
    "mget (bk_cursors example_state) k = None" "mget (bk_checkpoints example_state) k = None" for k
    by (simp_all add: example_env_def example_state_def empty_state_def)
  have f: "rr_forgotten (retain example_env example_destination ''p'' example_policy example_state) = [[''abcdef01'']]"
    by (simp add: retain_def open1 env order look retain_removal_def retention_keep_def keep forget_batches.simps Let_def del: inspect_all.simps)
  let ?good = "\<lambda>sid. verifySavedSnapshot sid (re_saved example_env sid) = None"
  have s: "sound_env example_env (de_id example_destination) ?good" by (simp add: sound_env_def example_env_def)
  have "verifySavedSnapshot ''abcdef02'' example_saved = None" by code_simp
  then have c: "cache_ok (de_id example_destination) ?good example_state"
    using example_saved_complete by (auto simp: cache_ok_def example_state_def empty_state_def example_env_def example_destination_def snapshotEvidenceKey_def split: if_splits)
  have p: "0 \<le> rt_daily example_policy" "0 \<le> rt_weekly example_policy" "0 \<le> rt_monthly example_policy" by (simp_all add: example_policy_def)
  show ?thesis using snapshot_retention_safe [OF s c p refl, of "''p''"] f by simp
qed

end
