(* ===== verification/Backup_Health.thy ===== *)
theory Backup_Health
  imports Backup_Retention
begin

text \<open>
  Protection evidence (internal/backup/health.go, inventory.go): completed attempts, checkpoints of saved copies, the reconciliation
  with a repository inventory, and the protection state reported for a plan.  The SHA-256 digest of a selection,
  the time zone database and the clock are parameters; the clock is read once per operation.
\<close>

section \<open>Attempts\<close>

definition completedCopyAttempt :: "Run \<Rightarrow> CopyResult \<Rightarrow> copyAttempt option" where
  "completedCopyAttempt run copy =
     (let captureFailed = (ru_capture_state run = ''failed'' \<and> ru_state run \<noteq> ''running'' \<and> ru_state run \<noteq> ''queued'')
      in if co_state copy \<noteq> ''succeeded'' \<and> co_state copy \<noteq> ''failed'' \<and> \<not> captureFailed then None
         else let at = (case co_completed_at copy of
                          Some t \<Rightarrow> t
                        | None \<Rightarrow>
                            if co_verified_at copy \<noteq> None \<and> co_state copy = ''succeeded'' then the (co_verified_at copy)
                            else if co_uploaded_at copy \<noteq> None \<and> co_state copy = ''succeeded'' then the (co_uploaded_at copy)
                            else case ru_completed_at run of Some t \<Rightarrow> t | None \<Rightarrow> ru_created_at run)
              in Some \<lparr>ca_run = ru_id run, ca_completed_at = at, ca_error = if captureFailed then ru_error run else co_error copy\<rparr>)"

definition completedMaintenanceAttempt :: "Run \<Rightarrow> CopyResult \<Rightarrow> copyAttempt option" where
  "completedMaintenanceAttempt run copy =
     (if \<not> verifiedCopy copy \<or> co_retention copy \<noteq> ''succeeded'' \<and> co_retention copy \<noteq> ''failed'' then None
      else let at = (case co_retention_completed copy of
                       Some t \<Rightarrow> t
                     | None \<Rightarrow> (case co_completed_at copy of
                                  Some t \<Rightarrow> t
                                | None \<Rightarrow> (case co_verified_at copy of Some t \<Rightarrow> t | None \<Rightarrow> ru_created_at run)))
           in Some \<lparr>ca_run = ru_id run, ca_completed_at = at, ca_error = if co_retention copy = ''failed'' then co_retention_error copy else ''''\<rparr>)"

text \<open>Attempts of older versions.  The first copy of the run under the key decides.\<close>

definition migrate_attempt :: "string \<times> copyAttempt \<Rightarrow> backup_state \<Rightarrow> backup_state" where
  "migrate_attempt entry s =
     (case mget (bk_runs s) (ca_run (snd entry)) of
        None \<Rightarrow> if ca_error (snd entry) = '''' then s\<lparr>bk_copy_attempts := mdel (fst entry) (bk_copy_attempts s)\<rparr> else s
      | Some (run, _) \<Rightarrow>
          (case find (\<lambda>c. checkpointKey (ru_plan run) (co_destination c) = fst entry) (ru_copies run) of
             None \<Rightarrow> s
           | Some copy \<Rightarrow>
               if \<not> verifiedCopy copy then s
               else let s1 = (case completedCopyAttempt run copy of
                                None \<Rightarrow> s
                              | Some a \<Rightarrow> s\<lparr>bk_copy_attempts := mput (fst entry) a (bk_copy_attempts s)\<rparr>)
                    in if co_retention copy = ''pending'' \<or> co_retention copy = ''running''
                       then s1\<lparr>bk_maintenance_attempts := mput (fst entry) (snd entry) (bk_maintenance_attempts s1)\<rparr> else s1))"

definition initializeCopyAttemptsLocked :: "backup_state \<Rightarrow> backup_state" where
  "initializeCopyAttemptsLocked s =
     (if bk_attempts_version s \<ge> 1 then s else (fold migrate_attempt (bk_copy_attempts s) s)\<lparr>bk_attempts_version := 1\<rparr>)"

definition in_future :: "time \<Rightarrow> time \<Rightarrow> bool" where
  "in_future now t \<longleftrightarrow> t > now + clockSkewTolerance"

definition newerCopyAttempt :: "copyAttempt \<Rightarrow> copyAttempt \<Rightarrow> time \<Rightarrow> bool" where
  "newerCopyAttempt candidate previous now =
     (if in_future now (ca_completed_at candidate) \<noteq> in_future now (ca_completed_at previous) then \<not> in_future now (ca_completed_at candidate)
      else if ca_completed_at candidate = ca_completed_at previous then ca_run candidate \<ge> ca_run previous
      else ca_completed_at candidate > ca_completed_at previous)"

text \<open>Keep the newer of a recorded attempt and a completed one.\<close>

definition latest_attempt :: "time \<Rightarrow> copyAttempt option \<Rightarrow> copyAttempt option \<Rightarrow> copyAttempt option" where
  "latest_attempt now completed previous =
     (case completed of
        None \<Rightarrow> previous
      | Some c \<Rightarrow> (case previous of None \<Rightarrow> Some c | Some p \<Rightarrow> if newerCopyAttempt c p now then Some c else Some p))"

definition record_attempt :: "time \<Rightarrow> string \<Rightarrow> copyAttempt option \<Rightarrow> (string, copyAttempt) gomap \<Rightarrow> (string, copyAttempt) gomap" where
  "record_attempt now key completed m =
     (case completed of
        None \<Rightarrow> m
      | Some c \<Rightarrow> (case mget m key of None \<Rightarrow> mput key c m | Some p \<Rightarrow> if newerCopyAttempt c p now then mput key c m else m))"

definition configured :: "backup_state \<Rightarrow> Run \<Rightarrow> CopyResult \<Rightarrow> bool" where
  "configured s run copy \<longleftrightarrow> mget (bk_plans s) (ru_plan run) \<noteq> None \<and> mget (bk_destinations s) (co_destination copy) \<noteq> None"

definition record_copy_attempt :: "time \<Rightarrow> Run \<Rightarrow> CopyResult \<Rightarrow> backup_state \<Rightarrow> backup_state" where
  "record_copy_attempt now run copy s =
     (if \<not> configured s run copy then s
      else let key = checkpointKey (ru_plan run) (co_destination copy)
           in s\<lparr>bk_copy_attempts := record_attempt now key (completedCopyAttempt run copy) (bk_copy_attempts s),
                bk_maintenance_attempts := record_attempt now key (completedMaintenanceAttempt run copy) (bk_maintenance_attempts s)\<rparr>)"

definition recordCopyAttemptsLocked :: "time \<Rightarrow> Run \<Rightarrow> backup_state \<Rightarrow> backup_state" where
  "recordCopyAttemptsLocked now run s = fold (record_copy_attempt now run) (ru_copies run) s"


section \<open>Checkpoints\<close>

definition selectionFingerprint :: "(string \<times> Source list \<Rightarrow> string) \<Rightarrow> Plan \<Rightarrow> string" where
  "selectionFingerprint digest plan = digest (pl_consistency plan, sort_key so_id (pl_sources plan))"

text \<open>Whether the recorded checkpoint stays: it is newer, or it has the same snapshot and no older check.\<close>

definition keeps_checkpoint :: "time \<Rightarrow> Run \<Rightarrow> time \<Rightarrow> CopyResult \<Rightarrow> copyCheckpoint \<Rightarrow> bool" where
  "keeps_checkpoint now run captured copy old \<longleftrightarrow>
     \<not> in_future now (cp_captured_at old) \<and> in_future now captured \<or>
     in_future now (cp_captured_at old) = in_future now captured \<and> cp_captured_at old > captured \<or>
     cp_snapshot old = co_snapshot copy \<and> cp_run old = ru_id run \<and>
       (case co_verified_at copy of None \<Rightarrow> True | Some v \<Rightarrow> (case cp_snapshot_checked old of None \<Rightarrow> False | Some c \<Rightarrow> v \<le> c))"

definition record_checkpoint :: "(string \<times> Source list \<Rightarrow> string) \<Rightarrow> time \<Rightarrow> Run \<Rightarrow> Plan \<Rightarrow> time \<Rightarrow> CopyResult \<Rightarrow> backup_state \<Rightarrow> backup_state" where
  "record_checkpoint digest now run plan captured copy s =
     (if \<not> configured s run copy then s
      else if co_snapshot copy = '''' \<or> co_verification copy \<noteq> recoveryObjectsVerified \<and> co_verification copy \<noteq> ''snapshot_metadata_verified'' then s
      else let key = checkpointKey (ru_plan run) (co_destination copy)
           in if (case mget (bk_checkpoints s) key of None \<Rightarrow> False | Some old \<Rightarrow> keeps_checkpoint now run captured copy old) then s
              else let verified = (co_verification copy = recoveryObjectsVerified);
                       present = (verified \<and> co_verified_at copy \<noteq> None);
                       s1 = s\<lparr>bk_checkpoints := mput key
                                \<lparr>cp_captured_at = captured, cp_uploaded_at = co_uploaded_at copy, cp_snapshot = co_snapshot copy, cp_run = ru_id run,
                                 cp_selection = selectionFingerprint digest plan, cp_verification = co_verification copy,
                                 cp_snapshot_status = if present then ''present'' else ''unknown'',
                                 cp_snapshot_checked = if present then co_verified_at copy else None\<rparr> (bk_checkpoints s)\<rparr>
                   in if verified then rememberSnapshotClassificationLocked (co_destination copy) (co_snapshot copy) ''complete'' now s1 else s1)"

definition recordCheckpointsLocked :: "(string \<times> Source list \<Rightarrow> string) \<Rightarrow> time \<Rightarrow> Run \<Rightarrow> Plan \<Rightarrow> backup_state \<Rightarrow> backup_state" where
  "recordCheckpointsLocked digest now run plan s =
     (let s1 = recordCopyAttemptsLocked now run s
      in case ru_captured_at run of
           None \<Rightarrow> s1
         | Some captured \<Rightarrow> fold (record_checkpoint digest now run plan captured) (ru_copies run) s1)"


section \<open>Inventory\<close>

definition reconcile_checkpoint :: "(string \<Rightarrow> saved_snapshot) \<Rightarrow> time \<Rightarrow> string list \<Rightarrow> copyCheckpoint \<Rightarrow> copyCheckpoint" where
  "reconcile_checkpoint repo now present c =
     (let c1 = (if cp_snapshot c \<notin> set present then c\<lparr>cp_snapshot_status := ''missing''\<rparr>
                else if cp_verification c = recoveryObjectsVerified then c\<lparr>cp_snapshot_status := ''present''\<rparr>
                else if verifySavedSnapshot (cp_snapshot c) (repo (cp_snapshot c)) = None
                then c\<lparr>cp_snapshot_status := ''present'', cp_verification := recoveryObjectsVerified\<rparr>
                else c\<lparr>cp_snapshot_status := ''unknown''\<rparr>)
      in c1\<lparr>cp_snapshot_checked := Some now\<rparr>)"

text \<open>The checkpoints are copied under the lock, checked without it, and written back where the state
  (\<open>s\<close>, as other goroutines have left it) still names the same snapshot.\<close>

definition checkpoint_copies :: "string \<Rightarrow> backup_state \<Rightarrow> (string, copyCheckpoint) gomap" where
  "checkpoint_copies did s = filter (\<lambda>(key, _). go_has_suffix key (''/'' @ did)) (bk_checkpoints s)"

definition no_checkpoint :: copyCheckpoint where
  "no_checkpoint = \<lparr>cp_captured_at = 0, cp_uploaded_at = None, cp_snapshot = '''', cp_run = '''', cp_selection = '''', cp_verification = '''',
     cp_snapshot_status = '''', cp_snapshot_checked = None\<rparr>"

definition write_back :: "string \<times> copyCheckpoint \<Rightarrow> (string, copyCheckpoint) gomap \<Rightarrow> (string, copyCheckpoint) gomap" where
  "write_back entry m =
     (let current = (case mget m (fst entry) of None \<Rightarrow> no_checkpoint | Some c \<Rightarrow> c)
      in if cp_snapshot current = cp_snapshot (snd entry) then mput (fst entry) (snd entry) m else m)"

definition zero_destination :: Destination where
  "zero_destination =
     \<lparr>de_id = '''', de_name = '''', de_kind = '''', de_repository = '''', de_expected_filesystem = '''', de_region = '''',
      de_repository_size = None, de_credentials = False, de_attempt_at = None, de_attempt_policy = '''', de_attempt_status = '''',
      de_attempt_error = '''', de_metadata_check = no_evidence, de_data_check = no_evidence, de_check_hold = None, de_review_token = '''',
      de_last_check_at = None, de_last_check_policy = '''', de_check_schedule = no_schedule, de_check_read_data = '''',
      de_prune_schedule = no_schedule, de_last_check_scheduled = None, de_last_prune_scheduled = None, de_last_prune_at = None,
      de_check_status = '''', de_check_error = '''', de_last_operation = '''', de_last_operation_status = '''', de_last_operation_error = '''',
      de_last_operation_at = None, de_last_restore_test_at = None, de_last_restore_test_snapshot = '''', de_last_inventory_at = None,
      de_last_inventory_attempt = None, de_inventory_error = '''', de_last_success_at = None, de_status = '''', de_error = ''''\<rparr>"

definition destination_of :: "backup_state \<Rightarrow> string \<Rightarrow> Destination" where
  "destination_of s did = (case mget (bk_destinations s) did of None \<Rightarrow> zero_destination | Some d \<Rightarrow> d)"

definition reconcileInventory ::
  "(string \<Rightarrow> saved_snapshot) \<Rightarrow> time \<Rightarrow> Destination \<Rightarrow> Snapshot list \<Rightarrow> (backup_state \<Rightarrow> backup_state) \<Rightarrow> backup_state \<Rightarrow> backup_state" where
  "reconcileInventory repo now d snapshots interfere s0 =
     (let copies = map (\<lambda>(key, c). (key, reconcile_checkpoint repo now (map sn_id snapshots) c)) (checkpoint_copies (de_id d) s0);
          s = interfere s0
      in s\<lparr>bk_checkpoints := fold write_back copies (bk_checkpoints s),
           bk_destinations := mput (de_id d) ((destination_of s (de_id d))\<lparr>de_last_inventory_at := Some now, de_last_inventory_attempt := Some now,
             de_inventory_error := '''', de_status := ''available'', de_error := ''''\<rparr>) (bk_destinations s)\<rparr>)"

definition recordInventoryError :: "time \<Rightarrow> Destination \<Rightarrow> string \<Rightarrow> backup_state \<Rightarrow> backup_state" where
  "recordInventoryError now d message s =
     (case mget (bk_destinations s) (de_id d) of
        None \<Rightarrow> s
      | Some current \<Rightarrow> s\<lparr>bk_destinations := mput (de_id d) (current\<lparr>de_last_inventory_attempt := Some now,
          de_inventory_error := ''Repository inventory could not be refreshed: '' @ message\<rparr>) (bk_destinations s)\<rparr>)"

definition inventory_due :: "time \<Rightarrow> Destination \<Rightarrow> bool" where
  "inventory_due now d \<longleftrightarrow>
     (case de_last_inventory_at d of None \<Rightarrow> True | Some t \<Rightarrow> in_future now t \<or> now - t \<ge> Hour) \<and>
     (case de_last_inventory_attempt d of None \<Rightarrow> True | Some t \<Rightarrow> in_future now t \<or> now - t \<ge> 5 * Minute)"



section \<open>Protection of a plan\<close>

record CopyProtection =
  pc_activity :: string
  pc_destination :: string
  pc_state :: string
  pc_last_capture :: "time option"
  pc_last_uploaded :: "time option"
  pc_snapshot :: string
  pc_next_run :: "time option"
  pc_due :: "time option"
  pc_first_outstanding :: "time option"
  pc_overdue_since :: "time option"
  pc_last_run :: string
  pc_last_error :: string
  pc_usable :: bool
  pc_snapshot_status :: string
  pc_snapshot_checked :: "time option"
  pc_integrity :: string
  pc_availability :: string
  pc_restore_test :: "time option"

record PlanProtection =
  pp_activity :: string
  pp_plan :: string
  pp_name :: string
  pp_state :: string
  pp_expected :: int
  pp_current :: int
  pp_last_capture :: "time option"
  pp_next_run :: "time option"
  pp_latest_run :: string
  pp_copies :: "CopyProtection list"

definition newerRun :: "Run \<Rightarrow> Run \<Rightarrow> time \<Rightarrow> bool" where
  "newerRun candidate previous now =
     (if in_future now (ru_created_at candidate) \<noteq> in_future now (ru_created_at previous) then \<not> in_future now (ru_created_at candidate)
      else if ru_created_at candidate = ru_created_at previous then ru_id candidate > ru_id previous
      else ru_created_at candidate > ru_created_at previous)"

definition or_unknown :: "string \<Rightarrow> string" where
  "or_unknown s = (if s = '''' then ''unknown'' else s)"

definition manual_schedule :: "Schedule \<Rightarrow> bool" where
  "manual_schedule sch \<longleftrightarrow> bs_frequency sch = ''manual'' \<or> bs_frequency sch = ''''"

text \<open>The configuration and the checkpoint of a copy.\<close>

definition copy_saved :: "Plan \<Rightarrow> backup_state \<Rightarrow> Assignment \<Rightarrow> CopyProtection" where
  "copy_saved plan s a =
     (let d = destination_of s (as_destination a);
          integrity = or_unknown (de_check_status d);
          copy = \<lparr>pc_activity = ''idle'', pc_destination = as_destination a, pc_state = ''unprotected'', pc_last_capture = None, pc_last_uploaded = None,
                  pc_snapshot = '''', pc_next_run = None, pc_due = None, pc_first_outstanding = None, pc_overdue_since = None, pc_last_run = '''',
                  pc_last_error = '''', pc_usable = False, pc_snapshot_status = ''unknown'', pc_snapshot_checked = None,
                  pc_integrity = if de_check_hold d \<noteq> None \<and> integrity \<noteq> ''failed'' then ''unverified'' else integrity,
                  pc_availability = or_unknown (de_status d), pc_restore_test = None\<rparr>
      in case mget (bk_checkpoints s) (checkpointKey (pl_id plan) (as_destination a)) of
           None \<Rightarrow> copy
         | Some c \<Rightarrow> copy\<lparr>pc_last_capture := Some (cp_captured_at c), pc_last_uploaded := cp_uploaded_at c, pc_snapshot := cp_snapshot c,
             pc_last_run := cp_run c, pc_snapshot_status := or_unknown (cp_snapshot_status c), pc_snapshot_checked := cp_snapshot_checked c,
             pc_restore_test := restoreTestedAtLocked d (cp_snapshot c) s, pc_state := ''current''\<rparr>)"

definition copy_schedule :: "tzdb \<Rightarrow> duration \<Rightarrow> time \<Rightarrow> Plan \<Rightarrow> copyCheckpoint option \<Rightarrow> Assignment \<Rightarrow> CopyProtection \<Rightarrow> CopyProtection" where
  "copy_schedule tz grace now plan saved a copy =
     (if manual_schedule (as_schedule a) then (if saved \<noteq> None then copy\<lparr>pc_state := ''manual''\<rparr> else copy)
      else let c1 = (case latestDue tz (as_schedule a) now of
                       None \<Rightarrow> copy
                     | Some due \<Rightarrow> copy\<lparr>pc_due := Some due,
                         pc_state := if saved \<noteq> None \<and> cp_captured_at (the saved) < due then ''overdue'' else pc_state copy\<rparr>);
               c2 = (case PreviewSchedule tz (as_schedule a) now 1 of Inr (t # _) \<Rightarrow> c1\<lparr>pc_next_run := Some t\<rparr> | _ \<Rightarrow> c1)
           in if \<not> (pl_enabled plan \<and> as_enabled a) then c2
              else case firstOutstandingDue tz a (pc_last_capture c2) now grace of
                None \<Rightarrow> c2
              | Some due \<Rightarrow> c2\<lparr>pc_first_outstanding := Some due, pc_overdue_since := if now \<ge> due + grace then Some (due + grace) else None\<rparr>)"

text \<open>The first objection to a saved copy decides its state.\<close>

definition checkpoint_objection :: "time \<Rightarrow> Assignment \<Rightarrow> Destination \<Rightarrow> copyCheckpoint \<Rightarrow> (string \<times> string option) option" where
  "checkpoint_objection now a d c =
     (if in_future now (cp_captured_at c) \<or> (case as_last_scheduled a of None \<Rightarrow> False | Some t \<Rightarrow> in_future now t)
      then Some (''clock_skew'', Some ''The host clock moved backwards; this recovery point cannot establish current protection.'')
      else if cp_snapshot_status c = ''missing'' then Some (''missing'', None)
      else if de_check_status d = ''failed'' then Some (''integrity_failed'', Some (de_check_error d))
      else case de_check_hold d of
        Some h \<Rightarrow> Some (''unverified'', Some (''Repository check requires review before this recovery evidence can be used.'' @
                     (if ch_error h \<noteq> '''' then '' '' @ ch_error h else '''')))
      | None \<Rightarrow>
          if de_status d = ''error'' then Some (''unavailable'', Some (de_error d))
          else if de_inventory_error d \<noteq> '''' then Some (''unverified'', Some (de_inventory_error d))
          else if cp_verification c \<noteq> recoveryObjectsVerified then Some (''unverified'', None)
          else case cp_snapshot_checked c of
            None \<Rightarrow> Some (''unverified'', None)
          | Some t \<Rightarrow> if in_future now t then Some (''clock_skew'', None)
                       else if now - t > 24 * Hour then Some (''unverified'', None) else None)"

definition copy_objections :: "string \<Rightarrow> time \<Rightarrow> Assignment \<Rightarrow> Destination \<Rightarrow> copyCheckpoint option \<Rightarrow> CopyProtection \<Rightarrow> CopyProtection" where
  "copy_objections selection now a d saved copy =
     (case saved of
        None \<Rightarrow> copy
      | Some c \<Rightarrow>
          let c1 = (if cp_selection c \<noteq> selection then copy\<lparr>pc_state := ''outdated''\<rparr> else copy)
          in case checkpoint_objection now a d c of
               None \<Rightarrow> c1
             | Some (state, None) \<Rightarrow> c1\<lparr>pc_state := state\<rparr>
             | Some (state, Some message) \<Rightarrow> c1\<lparr>pc_state := state, pc_last_error := message\<rparr>)"

text \<open>The runs of the plan: the activity of the copy, its last transfer and its last maintenance.\<close>

record copy_activity =
  cy_activity :: string
  cy_attempt :: "copyAttempt option"
  cy_maintenance :: "copyAttempt option"

definition observe_copy :: "time \<Rightarrow> string \<Rightarrow> Run \<Rightarrow> CopyResult \<Rightarrow> copy_activity \<Rightarrow> copy_activity" where
  "observe_copy now did run copy y =
     (if co_destination copy \<noteq> did then y
      else let active = (ru_state run = ''running'' \<or> ru_state run = ''queued'');
               activity = (if \<not> active then cy_activity y
                           else if co_state copy = ''running'' \<or> co_retention copy = ''running'' \<or> ru_capture_state run = ''running'' then ''running''
                           else if copyWorkPending copy \<and> cy_activity y = ''idle'' then ''queued'' else cy_activity y)
           in \<lparr>cy_activity = activity, cy_attempt = latest_attempt now (completedCopyAttempt run copy) (cy_attempt y),
               cy_maintenance = latest_attempt now (completedMaintenanceAttempt run copy) (cy_maintenance y)\<rparr>)"

definition observe_run :: "time \<Rightarrow> Plan \<Rightarrow> string \<Rightarrow> string \<times> Run \<times> Plan \<Rightarrow> copy_activity \<Rightarrow> copy_activity" where
  "observe_run now plan did entry y =
     (let run = fst (snd entry) in if ru_plan run \<noteq> pl_id plan then y else fold (observe_copy now did run) (ru_copies run) y)"

definition observed :: "time \<Rightarrow> Plan \<Rightarrow> string \<Rightarrow> backup_state \<Rightarrow> copy_activity" where
  "observed now plan did s =
     fold (observe_run now plan did) (bk_runs s)
       \<lparr>cy_activity = ''idle'', cy_attempt = mget (bk_copy_attempts s) (checkpointKey (pl_id plan) did),
        cy_maintenance = mget (bk_maintenance_attempts s) (checkpointKey (pl_id plan) did)\<rparr>"

definition attempt_error :: "copyAttempt option \<Rightarrow> string \<Rightarrow> string" where
  "attempt_error a current = (if current \<noteq> '''' then current else case a of None \<Rightarrow> '''' | Some x \<Rightarrow> ca_error x)"

definition copy_evidence :: "copyCheckpoint option \<Rightarrow> copy_activity \<Rightarrow> CopyProtection \<Rightarrow> CopyProtection" where
  "copy_evidence saved y copy =
     copy\<lparr>pc_activity := cy_activity y,
          pc_usable := saved \<noteq> None \<and> pc_snapshot_status copy = ''present'' \<and> pc_state copy \<in> set [''current'', ''manual'', ''overdue''],
          pc_last_run := (case cy_attempt y of None \<Rightarrow> pc_last_run copy | Some a \<Rightarrow> ca_run a),
          pc_last_error := attempt_error (cy_maintenance y) (attempt_error (cy_attempt y) (pc_last_error copy))\<rparr>"

definition protection_copy :: "tzdb \<Rightarrow> (string \<times> Source list \<Rightarrow> string) \<Rightarrow> duration \<Rightarrow> time \<Rightarrow> Plan \<Rightarrow> backup_state \<Rightarrow> Assignment \<Rightarrow> CopyProtection" where
  "protection_copy tz digest grace now plan s a =
     (let saved = mget (bk_checkpoints s) (checkpointKey (pl_id plan) (as_destination a))
      in copy_evidence saved (observed now plan (as_destination a) s)
           (copy_objections (selectionFingerprint digest plan) now a (destination_of s (as_destination a)) saved
             (copy_schedule tz grace now plan saved a (copy_saved plan s a))))"

record protection_work =
  pw_result :: PlanProtection
  pw_all_manual :: bool
  pw_attention :: bool

definition good_state :: "CopyProtection \<Rightarrow> bool" where
  "good_state c \<longleftrightarrow> pc_state c = ''current'' \<or> pc_state c = ''manual''"

definition later :: "time option \<Rightarrow> time \<Rightarrow> time option" where
  "later old t = (case old of None \<Rightarrow> Some t | Some u \<Rightarrow> if u < t then Some t else Some u)"

definition earlier :: "time option \<Rightarrow> time \<Rightarrow> time option" where
  "earlier old t = (case old of None \<Rightarrow> Some t | Some u \<Rightarrow> if u > t then Some t else Some u)"

definition protect_assignment ::
  "tzdb \<Rightarrow> (string \<times> Source list \<Rightarrow> string) \<Rightarrow> duration \<Rightarrow> time \<Rightarrow> Plan \<Rightarrow> backup_state \<Rightarrow> Assignment \<Rightarrow> protection_work \<Rightarrow> protection_work" where
  "protect_assignment tz digest grace now plan s a w =
     (let copy = protection_copy tz digest grace now plan s a;
          enabled = (pl_enabled plan \<and> as_enabled a);
          r = pw_result w;
          r1 = r\<lparr>pp_last_capture := (case pc_last_capture copy of None \<Rightarrow> pp_last_capture r | Some t \<Rightarrow> later (pp_last_capture r) t),
                 pp_next_run := (case pc_next_run copy of None \<Rightarrow> pp_next_run r | Some t \<Rightarrow> if enabled then earlier (pp_next_run r) t else pp_next_run r)\<rparr>
      in if \<not> enabled
         then w\<lparr>pw_result := r1\<lparr>pp_copies := pp_copies r @ [copy\<lparr>pc_state := ''disabled'', pc_next_run := None, pc_due := None\<rparr>]\<rparr>,
                pw_all_manual := pw_all_manual w \<and> (manual_schedule (as_schedule a) \<or> \<not> as_enabled a)\<rparr>
         else \<lparr>pw_result = r1\<lparr>pp_expected := pp_expected r + 1,
                   pp_current := if pc_usable copy \<and> good_state copy then pp_current r + 1 else pp_current r, pp_copies := pp_copies r @ [copy]\<rparr>,
               pw_all_manual = (pw_all_manual w \<and> manual_schedule (as_schedule a)),
               pw_attention = (pw_attention w \<or> \<not> good_state copy \<or> pc_last_error copy \<noteq> '''')\<rparr>)"

definition plan_activity :: "Plan \<Rightarrow> string \<times> Run \<times> Plan \<Rightarrow> string \<Rightarrow> string" where
  "plan_activity plan entry activity =
     (let run = fst (snd entry)
      in if ru_plan run = pl_id plan \<and> (ru_state run = ''running'' \<or> ru_state run = ''queued'' \<and> activity = ''idle'') then ru_state run else activity)"

definition latest_run :: "time \<Rightarrow> Plan \<Rightarrow> string \<times> Run \<times> Plan \<Rightarrow> Run option \<Rightarrow> Run option" where
  "latest_run now plan entry latest =
     (let run = fst (snd entry)
      in if ru_plan run = pl_id plan \<and> (case latest of None \<Rightarrow> True | Some l \<Rightarrow> newerRun run l now) then Some run else latest)"

definition protectionLocked :: "tzdb \<Rightarrow> (string \<times> Source list \<Rightarrow> string) \<Rightarrow> duration \<Rightarrow> time \<Rightarrow> Plan \<Rightarrow> backup_state \<Rightarrow> PlanProtection" where
  "protectionLocked tz digest grace now plan s =
     (let start = \<lparr>pp_activity = fold (plan_activity plan) (bk_runs s) ''idle'', pp_plan = pl_id plan, pp_name = pl_name plan, pp_state = ''healthy'',
                    pp_expected = 0, pp_current = 0, pp_last_capture = None, pp_next_run = None,
                    pp_latest_run = (case fold (latest_run now plan) (bk_runs s) None of None \<Rightarrow> '''' | Some run \<Rightarrow> ru_id run), pp_copies = []\<rparr>;
          w = fold (protect_assignment tz digest grace now plan s) (pl_destinations plan)
                \<lparr>pw_result = start, pw_all_manual = True, pw_attention = False\<rparr>;
          r = pw_result w
      in if \<not> pl_enabled plan \<or> pp_expected r = 0 then r\<lparr>pp_state := ''disabled'', pp_next_run := None\<rparr>
         else if pp_current r = 0 \<and> pp_last_capture r = None then r\<lparr>pp_state := ''unprotected''\<rparr>
         else if pw_attention w then r\<lparr>pp_state := ''attention''\<rparr>
         else if pw_all_manual w then r\<lparr>pp_state := ''manual''\<rparr>
         else r)"



section \<open>Checkpoint evidence\<close>

text \<open>A verified checkpoint that has been checked was found present or missing.\<close>

definition checkpoint_ok :: "copyCheckpoint \<Rightarrow> bool" where
  "checkpoint_ok c \<longleftrightarrow> (cp_verification c = recoveryObjectsVerified \<longrightarrow> cp_snapshot_checked c \<noteq> None \<longrightarrow> cp_snapshot_status c \<in> {''present'', ''missing''})"

definition checkpoints_ok :: "backup_state \<Rightarrow> bool" where
  "checkpoints_ok s \<longleftrightarrow> (\<forall>key c. mget (bk_checkpoints s) key = Some c \<longrightarrow> checkpoint_ok c)"

lemma checkpoints_ok_put:
  "checkpoints_ok s \<Longrightarrow> checkpoint_ok c \<Longrightarrow> bk_checkpoints s' = mput key c (bk_checkpoints s) \<Longrightarrow> checkpoints_ok s'"
  by (auto simp: checkpoints_ok_def update_conv' split: if_splits)

lemma checkpoints_ok_same: "bk_checkpoints s' = bk_checkpoints s \<Longrightarrow> checkpoints_ok s' = checkpoints_ok s"
  by (simp add: checkpoints_ok_def)

lemma record_attempts_checkpoints: "bk_checkpoints (recordCopyAttemptsLocked now run s) = bk_checkpoints s"
proof -
  have "bk_checkpoints (fold (record_copy_attempt now run) cs s) = bk_checkpoints s" for cs
    by (induction cs arbitrary: s) (simp_all add: record_copy_attempt_def Let_def)
  then show ?thesis by (simp add: recordCopyAttemptsLocked_def)
qed

lemma record_checkpoint_ok:
  assumes "checkpoints_ok s"
  shows "checkpoints_ok (record_checkpoint digest now run plan captured copy s)"
proof -
  define present where "present = (co_verification copy = recoveryObjectsVerified \<and> co_verified_at copy \<noteq> None)"
  define c where "c = \<lparr>cp_captured_at = captured, cp_uploaded_at = co_uploaded_at copy, cp_snapshot = co_snapshot copy, cp_run = ru_id run,
    cp_selection = selectionFingerprint digest plan, cp_verification = co_verification copy,
    cp_snapshot_status = if present then ''present'' else ''unknown'', cp_snapshot_checked = if present then co_verified_at copy else None\<rparr>"
  define s1 where "s1 = s\<lparr>bk_checkpoints := mput (checkpointKey (ru_plan run) (co_destination copy)) c (bk_checkpoints s)\<rparr>"
  have "checkpoint_ok c" by (simp add: checkpoint_ok_def c_def)
  then have s1: "checkpoints_ok s1" using checkpoints_ok_put [OF assms] by (simp add: s1_def)
  have "bk_checkpoints (rememberSnapshotClassificationLocked x y z t s1) = bk_checkpoints s1" for x y z t
    by (simp add: rememberSnapshotClassificationLocked_def)
  then have "checkpoints_ok (rememberSnapshotClassificationLocked x y z t s1)" for x y z t
    using checkpoints_ok_same s1 by blast
  moreover have "record_checkpoint digest now run plan captured copy s \<in>
      {s, s1, rememberSnapshotClassificationLocked (co_destination copy) (co_snapshot copy) ''complete'' now s1}"
    unfolding record_checkpoint_def s1_def c_def present_def Let_def by simp
  ultimately show ?thesis using assms s1 by auto
qed

lemma record_checkpoints_ok: "checkpoints_ok s \<Longrightarrow> checkpoints_ok (recordCheckpointsLocked digest now run plan s)"
proof -
  assume ok: "checkpoints_ok s"
  have "checkpoints_ok (fold (record_checkpoint digest now run plan captured) cs t)" if "checkpoints_ok t" for captured cs t
    using that by (induction cs arbitrary: t) (simp_all add: record_checkpoint_ok)
  moreover have "checkpoints_ok (recordCopyAttemptsLocked now run s)" using ok checkpoints_ok_same [OF record_attempts_checkpoints] by blast
  ultimately show ?thesis by (simp add: recordCheckpointsLocked_def Let_def split: option.split)
qed

lemma reconcile_checkpoint_ok: "checkpoint_ok (reconcile_checkpoint repo now present c)"
  by (simp add: checkpoint_ok_def reconcile_checkpoint_def Let_def)

lemma write_backs_ok:
  "(\<And>key c. mget m key = Some c \<Longrightarrow> checkpoint_ok c) \<Longrightarrow> (\<And>x. x \<in> set xs \<Longrightarrow> checkpoint_ok (snd x)) \<Longrightarrow>
     mget (fold write_back xs m) key = Some c \<Longrightarrow> checkpoint_ok c"
proof (induction xs arbitrary: m key c)
  case (Cons x xs)
  have "checkpoint_ok c'" if "mget (write_back x m) k = Some c'" for k c'
    using that Cons.prems(1) Cons.prems(2) [of x] by (simp add: write_back_def Let_def update_conv' split: if_splits)
  then show ?case using Cons.IH [of "write_back x m"] Cons.prems(2,3) by simp
qed simp

lemma reconcile_inventory_ok:
  assumes "checkpoints_ok (interfere s)"
  shows "checkpoints_ok (reconcileInventory repo now d snapshots interfere s)"
proof -
  let ?xs = "map (\<lambda>(key, c). (key, reconcile_checkpoint repo now (map sn_id snapshots) c)) (checkpoint_copies (de_id d) s)"
  have "checkpoint_ok c" if "mget (fold write_back ?xs (bk_checkpoints (interfere s))) key = Some c" for key c
  proof (rule write_backs_ok [OF _ _ that])
    show "checkpoint_ok c'" if "mget (bk_checkpoints (interfere s)) k = Some c'" for k c' using assms that by (auto simp: checkpoints_ok_def)
    show "checkpoint_ok (snd x)" if "x \<in> set ?xs" for x using that reconcile_checkpoint_ok by auto
  qed
  then show ?thesis by (simp add: checkpoints_ok_def reconcileInventory_def Let_def)
qed

section \<open>What a healthy plan means\<close>

lemma copy_schedule_state:
  "pc_state (copy_schedule tz grace now plan saved a copy) =
     (if manual_schedule (as_schedule a) then (if saved \<noteq> None then ''manual'' else pc_state copy)
      else if saved \<noteq> None \<and> (\<exists>due. latestDue tz (as_schedule a) now = Some due \<and> cp_captured_at (the saved) < due) then ''overdue'' else pc_state copy)"
  by (auto simp: copy_schedule_def Let_def split: option.splits sum.splits list.splits)

lemma copy_schedule_status: "pc_snapshot_status (copy_schedule tz grace now plan saved a copy) = pc_snapshot_status copy"
  by (auto simp: copy_schedule_def Let_def split: option.splits sum.splits list.splits)

lemma copy_objections_status: "pc_snapshot_status (copy_objections sel now a d saved copy) = pc_snapshot_status copy"
  by (auto simp: copy_objections_def Let_def split: option.splits)

lemma objection_state: "checkpoint_objection now a d c = Some (state, m) \<Longrightarrow> state \<noteq> ''current'' \<and> state \<noteq> ''manual''"
  by (auto simp: checkpoint_objection_def split: if_splits option.splits)

lemma copy_objections_good:
  assumes "pc_state (copy_objections sel now a d (Some c) copy) \<in> {''current'', ''manual''}"
  shows "checkpoint_objection now a d c = None \<and> cp_selection c = sel \<and> pc_state copy \<in> {''current'', ''manual''}"
proof (cases "checkpoint_objection now a d c")
  case None
  then show ?thesis using assms by (auto simp: copy_objections_def Let_def split: if_splits)
next
  case (Some x)
  obtain state m where x: "x = (state, m)" by fastforce
  have "pc_state (copy_objections sel now a d (Some c) copy) = state" using Some x by (cases m) (simp_all add: copy_objections_def Let_def)
  then show ?thesis using assms objection_state [OF Some [unfolded x]] by simp
qed

lemma good_copy:
  assumes "good_state (protection_copy tz digest grace now plan s a)"
  obtains c where "mget (bk_checkpoints s) (checkpointKey (pl_id plan) (as_destination a)) = Some c"
    "checkpoint_objection now a (destination_of s (as_destination a)) c = None" "cp_selection c = selectionFingerprint digest plan"
    "\<not> manual_schedule (as_schedule a) \<longrightarrow> (\<forall>due. latestDue tz (as_schedule a) now = Some due \<longrightarrow> due \<le> cp_captured_at c)"
    "pc_usable (protection_copy tz digest grace now plan s a) \<longleftrightarrow> cp_snapshot_status c = ''present''"
proof -
  define saved where "saved = mget (bk_checkpoints s) (checkpointKey (pl_id plan) (as_destination a))"
  define sch where "sch = copy_schedule tz grace now plan saved a (copy_saved plan s a)"
  define obj where "obj = copy_objections (selectionFingerprint digest plan) now a (destination_of s (as_destination a)) saved sch"
  have eq: "protection_copy tz digest grace now plan s a = copy_evidence saved (observed now plan (as_destination a) s) obj"
    by (simp only: protection_copy_def saved_def sch_def obj_def Let_def)
  have st: "pc_state obj \<in> {''current'', ''manual''}" using assms by (auto simp: eq good_state_def copy_evidence_def)
  have "saved \<noteq> None"
  proof
    assume "saved = None"
    then have "pc_state obj = ''unprotected''"
      by (simp add: obj_def copy_objections_def sch_def copy_schedule_state copy_saved_def saved_def [symmetric] Let_def)
    then show False using st by simp
  qed
  then obtain c where c: "saved = Some c" by blast
  have ob: "checkpoint_objection now a (destination_of s (as_destination a)) c = None" "cp_selection c = selectionFingerprint digest plan"
    "pc_state sch \<in> {''current'', ''manual''}" using copy_objections_good [OF st [unfolded obj_def c]] by blast+
  have due: "\<not> manual_schedule (as_schedule a) \<longrightarrow> (\<forall>due. latestDue tz (as_schedule a) now = Some due \<longrightarrow> due \<le> cp_captured_at c)"
    using ob(3) by (auto simp: sch_def copy_schedule_state c split: if_splits)
  have "pc_snapshot_status obj = or_unknown (cp_snapshot_status c)"
    by (simp add: obj_def copy_objections_status sch_def copy_schedule_status copy_saved_def saved_def [symmetric] c Let_def)
  then have "pc_usable (protection_copy tz digest grace now plan s a) \<longleftrightarrow> cp_snapshot_status c = ''present''"
    using st by (auto simp: eq copy_evidence_def c or_unknown_def)
  then show thesis using that [OF _ ob(1,2) due] c by (simp add: saved_def)
qed

lemma no_objection:
  assumes "checkpoint_objection now a d c = None" "checkpoint_ok c"
  shows "cp_snapshot_status c = ''present''" "cp_verification c = recoveryObjectsVerified" "\<not> in_future now (cp_captured_at c)"
    "\<exists>t. cp_snapshot_checked c = Some t \<and> \<not> in_future now t \<and> now - t \<le> 24 * Hour"
    "de_check_status d \<noteq> ''failed''" "de_check_hold d = None" "de_status d \<noteq> ''error''" "de_inventory_error d = ''''"
  using assms by (auto simp: checkpoint_objection_def checkpoint_ok_def split: if_splits option.splits)


definition counted :: "Plan \<Rightarrow> Assignment list \<Rightarrow> Assignment list" where
  "counted plan as = filter (\<lambda>a. pl_enabled plan \<and> as_enabled a) as"

definition covered :: "CopyProtection \<Rightarrow> bool" where
  "covered c \<longleftrightarrow> pc_usable c \<and> good_state c"

lemma protect_fold:
  "w' = fold (protect_assignment tz digest grace now plan s) as w \<Longrightarrow>
     pp_expected (pw_result w') = pp_expected (pw_result w) + int (length (counted plan as)) \<and>
     pp_current (pw_result w') = pp_current (pw_result w) + int (length (filter (\<lambda>a. covered (protection_copy tz digest grace now plan s a)) (counted plan as))) \<and>
     pp_state (pw_result w') = pp_state (pw_result w) \<and>
     (pw_attention w' \<longleftrightarrow> pw_attention w \<or>
        (\<exists>a \<in> set (counted plan as). \<not> good_state (protection_copy tz digest grace now plan s a) \<or> pc_last_error (protection_copy tz digest grace now plan s a) \<noteq> ''''))"
proof (induction as arbitrary: w)
  case (Cons a as)
  let ?c = "protection_copy tz digest grace now plan s a" and ?w = "protect_assignment tz digest grace now plan s a w"
  have step: "if pl_enabled plan \<and> as_enabled a
    then pp_expected (pw_result ?w) = pp_expected (pw_result w) + 1 \<and> pp_current (pw_result ?w) = pp_current (pw_result w) + (if covered ?c then 1 else 0) \<and>
      pp_state (pw_result ?w) = pp_state (pw_result w) \<and> (pw_attention ?w \<longleftrightarrow> pw_attention w \<or> \<not> good_state ?c \<or> pc_last_error ?c \<noteq> '''')
    else pp_expected (pw_result ?w) = pp_expected (pw_result w) \<and> pp_current (pw_result ?w) = pp_current (pw_result w) \<and>
      pp_state (pw_result ?w) = pp_state (pw_result w) \<and> pw_attention ?w = pw_attention w"
    by (simp add: protect_assignment_def Let_def covered_def)
  have "w' = fold (protect_assignment tz digest grace now plan s) as ?w" using Cons.prems by simp
  from Cons.IH [OF this] step show ?case by (auto simp: counted_def split: if_splits)
qed (simp add: counted_def)

lemma protection_states:
  assumes "r = protectionLocked tz digest grace now plan s" "pp_state r \<in> {''healthy'', ''manual''}"
  shows "pl_enabled plan" "0 < pp_expected r" "pp_expected r = int (length (counted plan (pl_destinations plan)))"
    "pp_current r = int (length (filter (\<lambda>a. covered (protection_copy tz digest grace now plan s a)) (counted plan (pl_destinations plan))))"
    "\<And>a. a \<in> set (pl_destinations plan) \<Longrightarrow> as_enabled a \<Longrightarrow> good_state (protection_copy tz digest grace now plan s a)"
proof -
  define start where "start = \<lparr>pp_activity = fold (plan_activity plan) (bk_runs s) ''idle'', pp_plan = pl_id plan, pp_name = pl_name plan, pp_state = ''healthy'',
      pp_expected = 0, pp_current = 0, pp_last_capture = None, pp_next_run = None,
      pp_latest_run = (case fold (latest_run now plan) (bk_runs s) None of None \<Rightarrow> '''' | Some run \<Rightarrow> ru_id run), pp_copies = []\<rparr>"
  define w where "w = fold (protect_assignment tz digest grace now plan s) (pl_destinations plan) \<lparr>pw_result = start, pw_all_manual = True, pw_attention = False\<rparr>"
  let ?r = "pw_result w"
  note f = protect_fold [OF w_def]
  have r: "r = (if \<not> pl_enabled plan \<or> pp_expected ?r = 0 then ?r\<lparr>pp_state := ''disabled'', pp_next_run := None\<rparr>
      else if pp_current ?r = 0 \<and> pp_last_capture ?r = None then ?r\<lparr>pp_state := ''unprotected''\<rparr>
      else if pw_attention w then ?r\<lparr>pp_state := ''attention''\<rparr> else if pw_all_manual w then ?r\<lparr>pp_state := ''manual''\<rparr> else ?r)"
    unfolding assms(1) protectionLocked_def w_def start_def Let_def by simp
  have en: "pl_enabled plan" "pp_expected ?r \<noteq> 0" "\<not> pw_attention w" using assms(2) r by (auto split: if_splits)
  have eq: "pp_expected r = pp_expected ?r" "pp_current r = pp_current ?r" using r en by (auto split: if_splits)
  show "pl_enabled plan" by (rule en(1))
  show ex: "pp_expected r = int (length (counted plan (pl_destinations plan)))" using f eq by (simp add: start_def)
  show "0 < pp_expected r" using ex en(2) eq by simp
  show "pp_current r = int (length (filter (\<lambda>a. covered (protection_copy tz digest grace now plan s a)) (counted plan (pl_destinations plan))))"
    using f eq by (simp add: start_def)
  show "good_state (protection_copy tz digest grace now plan s a)" if "a \<in> set (pl_destinations plan)" "as_enabled a" for a
    using f en(1,3) that by (auto simp: counted_def)
qed

text \<open>A saved copy of the plan's selection at the destination that establishes its protection now.\<close>

definition current_evidence :: "tzdb \<Rightarrow> (string \<times> Source list \<Rightarrow> string) \<Rightarrow> time \<Rightarrow> Plan \<Rightarrow> backup_state \<Rightarrow> Assignment \<Rightarrow> bool" where
  "current_evidence tz digest now plan s a \<longleftrightarrow>
     (\<exists>c t. mget (bk_checkpoints s) (checkpointKey (pl_id plan) (as_destination a)) = Some c \<and> cp_selection c = selectionFingerprint digest plan \<and>
        cp_verification c = recoveryObjectsVerified \<and> cp_snapshot_status c = ''present'' \<and> cp_snapshot_checked c = Some t \<and> now - t \<le> 24 * Hour \<and>
        cp_captured_at c \<le> now + clockSkewTolerance \<and>
        (\<forall>due. \<not> manual_schedule (as_schedule a) \<longrightarrow> latestDue tz (as_schedule a) now = Some due \<longrightarrow> due \<le> cp_captured_at c) \<and>
        de_check_status (destination_of s (as_destination a)) \<noteq> ''failed'' \<and> de_check_hold (destination_of s (as_destination a)) = None \<and>
        de_status (destination_of s (as_destination a)) \<noteq> ''error'' \<and> de_inventory_error (destination_of s (as_destination a)) = '''')"

text \<open>C25: A plan is reported healthy (or manual) only when every enabled destination holds current evidence: a checkpoint of the
  present selection, verified and found present within a day, not from the future, not older than the last
  scheduled occurrence, in a repository without failed, inconclusive or unavailable checks.  All expected copies are then counted as current.\<close>

theorem healthy_plan_protected:
  assumes "checkpoints_ok s" "r = protectionLocked tz digest grace now plan s" "pp_state r \<in> {''healthy'', ''manual''}"
  shows "pl_enabled plan \<and> 0 < pp_expected r \<and> pp_current r = pp_expected r \<and>
    (\<forall>a \<in> set (pl_destinations plan). as_enabled a \<longrightarrow> current_evidence tz digest now plan s a)"
proof -
  note st = protection_states [OF assms(2,3)]
  have cov: "covered (protection_copy tz digest grace now plan s a)" if a: "a \<in> set (pl_destinations plan)" "as_enabled a" for a
  proof -
    have g: "good_state (protection_copy tz digest grace now plan s a)" by (rule st(5) [OF a])
    then obtain c where c: "mget (bk_checkpoints s) (checkpointKey (pl_id plan) (as_destination a)) = Some c"
      "checkpoint_objection now a (destination_of s (as_destination a)) c = None"
      "pc_usable (protection_copy tz digest grace now plan s a) \<longleftrightarrow> cp_snapshot_status c = ''present''" by (rule good_copy)
    have "checkpoint_ok c" using assms(1) c(1) by (auto simp: checkpoints_ok_def)
    then show ?thesis using g c(3) no_objection(1) [OF c(2)] by (simp add: covered_def)
  qed
  then have "filter (\<lambda>a. covered (protection_copy tz digest grace now plan s a)) (counted plan (pl_destinations plan)) = counted plan (pl_destinations plan)"
    using st(1) by (intro filter_True) (simp add: counted_def)
  then have "pp_current r = pp_expected r" using st(3,4) by simp
  moreover have "current_evidence tz digest now plan s a"
    if a: "a \<in> set (pl_destinations plan)" "as_enabled a" for a
  proof -
    obtain c where c: "mget (bk_checkpoints s) (checkpointKey (pl_id plan) (as_destination a)) = Some c"
      "checkpoint_objection now a (destination_of s (as_destination a)) c = None" "cp_selection c = selectionFingerprint digest plan"
      "\<not> manual_schedule (as_schedule a) \<longrightarrow> (\<forall>due. latestDue tz (as_schedule a) now = Some due \<longrightarrow> due \<le> cp_captured_at c)"
      by (rule good_copy [OF st(5) [OF a]])
    have "checkpoint_ok c" using assms(1) c(1) by (auto simp: checkpoints_ok_def)
    note n = no_objection [OF c(2) this]
    obtain t where "cp_snapshot_checked c = Some t" "now - t \<le> 24 * Hour" using n(4) by blast
    then show ?thesis using c n(1-3,5-8) by (auto simp: current_evidence_def in_future_def)
  qed
  ultimately show ?thesis using st(1,2) by blast
qed

text \<open>The evidence that the protection state relies on is kept: recording the checkpoints of a run, and reconciling them with an inventory
  while other goroutines run, leave no verified and checked checkpoint whose presence is unknown.\<close>

theorem checkpoint_evidence_kept:
  assumes "checkpoints_ok s" "checkpoints_ok (interfere s)"
  shows "checkpoints_ok (recordCheckpointsLocked digest now run plan s) \<and> checkpoints_ok (reconcileInventory repo now d snapshots interfere s)"
  using record_checkpoints_ok [OF assms(1)] reconcile_inventory_ok [of interfere s] assms(2) by simp


definition example_plan :: Plan where
  "example_plan = \<lparr>pl_id = ''p'', pl_name = ''Nightly'', pl_enabled = True, pl_consistency = ''stop'', pl_sources = [],
     pl_destinations = [\<lparr>as_destination = ''dst_1'', as_enabled = True, as_schedule = no_schedule, as_retention = example_policy, as_last_scheduled = None,
       as_activated = None\<rparr>], pl_staging_max = 0, pl_staging_ttl = 0, pl_stop_timeout = 0\<rparr>"

definition example_run :: Run where
  "example_run = \<lparr>ru_id = ''r'', ru_job = ''j'', ru_plan = ''p'', ru_plan_name = ''Nightly'', ru_state = ''succeeded'', ru_capture_state = ''succeeded'',
     ru_phase = '''', ru_completed_at = Some 9, ru_captured_at = Some 7, ru_created_at = 6, ru_expires_at = 100,
     ru_copies = [\<lparr>co_destination = ''dst_1'', co_state = ''succeeded'', co_snapshot = ''abcdef01'', co_uploaded_at = Some 8, co_verification = recoveryObjectsVerified,
       co_verified_at = Some 8, co_retention = ''succeeded'', co_retention_error = '''', co_retention_started = None, co_retention_completed = None, co_error = '''',
       co_started_at = None, co_completed_at = Some 9\<rparr>], ru_manifest = True, ru_error = ''''\<rparr>"

definition example_saved_state :: backup_state where
  "example_saved_state = empty_state\<lparr>bk_plans := [(''p'', example_plan)], bk_destinations := [(''dst_1'', example_destination)],
     bk_checkpoints := [(''p/dst_1'', \<lparr>cp_captured_at = 7, cp_uploaded_at = Some 8, cp_snapshot = ''abcdef01'', cp_run = ''r'', cp_selection = ''sel'',
       cp_verification = recoveryObjectsVerified, cp_snapshot_status = ''present'', cp_snapshot_checked = Some 8\<rparr>)]\<rparr>"

lemma example_saved_ok: "checkpoints_ok example_saved_state"
  by (auto simp: checkpoints_ok_def checkpoint_ok_def example_saved_state_def split: if_splits)

theorem healthy_plan_protected_witness:
  "pp_state (protectionLocked example_zones (\<lambda>_. ''sel'') Hour 10 example_plan example_saved_state) = ''manual'' \<and>
   pp_current (protectionLocked example_zones (\<lambda>_. ''sel'') Hour 10 example_plan example_saved_state) = 1"
proof -
  have m: "pp_state (protectionLocked example_zones (\<lambda>_. ''sel'') Hour 10 example_plan example_saved_state) = ''manual''"
    "pp_expected (protectionLocked example_zones (\<lambda>_. ''sel'') Hour 10 example_plan example_saved_state) = 1" by code_simp+
  then show ?thesis using healthy_plan_protected [OF example_saved_ok refl, of example_zones "\<lambda>_. ''sel''" Hour 10 example_plan] by simp
qed

theorem checkpoint_evidence_kept_witness:
  "checkpoints_ok (recordCheckpointsLocked (\<lambda>_. ''sel'') 10 example_run example_plan example_saved_state) \<and>
   checkpoints_ok (reconcileInventory (\<lambda>_. example_saved) 10 example_destination [] (\<lambda>s. s) example_saved_state)"
  using checkpoint_evidence_kept [OF example_saved_ok, of "\<lambda>s. s"] example_saved_ok by simp

end
