(* ===== verification/Spec2Isabelle.thy ===== *)
theory Spec2Isabelle
  imports Job_Properties Auth_System Audit_Service Store_Migrations Scheduler_System Terminal_System
    Lifecycle Limited_IO Request_Id Backup_Health
begin

text \<open>
  Stacklab is a server that manages Docker Compose stacks on one host (src/cmd/stacklab and the packages under
  src/internal).  HTTP and WebSocket handlers authenticate a session, start jobs that hold typed resources,
  record what happened in an audit log, and serve terminals, schedules and backups; everything durable is in one SQLite database.
  This library models the packages whose behaviour is decided by their own state, operation by operation.

  \<^bold>\<open>Conventions.\<close>  Strings are byte lists.  A Go map is an association list with distinct keys (\<open>gomap\<close>, \<open>map_ok\<close>) whose
  order stands for the unspecified iteration order.  A \<open>time.Time\<close> is an integer number of nanoseconds, zero being Go's zero time.  Errors are
  the left values of a sum, or an option.  Random identifiers, the clock, store faults and outcomes of system calls are arguments.
  A critical section is one atomic step; an operation that releases its lock is several steps, and interleavings
  are \<open>inductive\<close> step relations with invariants by rule induction (locale \<open>step_invariant\<close> of \<open>Step_Systems\<close>).  Hash functions, the time zone database,
  restic, the tar reader and JSON encodings are parameters; a JSON document is kept as the value it encodes.

  \<^bold>\<open>The Go library.\<close>  \<open>Prelude\<close> has maps (locale \<open>go_map\<close> with its interpretation), sets, strings.TrimSpace, Split, Cut and the result type;
  \<open>Go_Time\<close>, \<open>Go_Timestamp\<close> and \<open>Go_Zone\<close> civil dates, RFC 3339 text with its order and round trip, and local time over zone transitions;
  \<open>Go_Codec\<close> base64, UTF-8 and decimal numbers; \<open>Go_Path\<close> path.Clean, Dir and Join with the lemma that a cleaned relative path
  either escapes visibly or lies below its start.

  \<^bold>\<open>Jobs\<close> (internal/jobs, the job tables of internal/store/store.go).  \<open>Job_Resources\<close>: resources, conflict matrix and lock table.  \<open>Job_Store\<close>: rows, events and
  the transactional transitions.  \<open>Job_Service\<close>: the handlers (start, publish, finish, cancel, reconcile).  \<open>Job_System\<close> interleaves them, \<open>Job_Streams\<close> adds live
  subscribers, \<open>Job_Properties\<close> states the results: active jobs exclude each other, resources follow the rows, states never move
  backwards, starts are all or nothing, streams are ordered, interrupted jobs are reconciled.

  \<^bold>\<open>Authentication\<close> (internal/auth).  \<open>Auth_Store\<close>, \<open>Password_Hash\<close>, \<open>Login_Throttle\<close> and \<open>Session_Hub\<close> are the session tables, the encoded argon2id hash, the lockout
  and verification slots, and the leases with their expiry timers; \<open>Auth_Service\<close> composes them and \<open>Auth_System\<close> interleaves
  them.  Dead sessions stay dead, tracked sessions are valid, the hub never blocks on a channel or panics, a password change ends every
  session, parsed hashes have bounded cost.

  \<^bold>\<open>Store and audit\<close> (internal/store, internal/audit, internal/retention).  \<open>Store_Migrations\<close>: migrations are resumable after any fault.  \<open>Audit_Store\<close>: the audit table, its cursor
  pages (complete, without repetition) and the retention transaction.  \<open>Audit_Service\<close>: recorders and last actions.

  \<^bold>\<open>Scheduler\<close> (internal/scheduler).  \<open>Scheduler\<close> has the calendar arithmetic, settings and validation, refined against abstract
  occurrences; \<open>Scheduler_System\<close> the loop, workers and settings requests as steps: runs are exclusive and at most once per occurrence.

  \<^bold>\<open>Terminals and infrastructure.\<close>  \<open>Terminal\<close> and \<open>Terminal_System\<close> (internal/terminal): registry, attachments, timers and closure under concurrency, with the
  bound per owner.  \<open>Lifecycle\<close> (internal/lifecycle): the worker group; \<open>Limited_IO\<close> (internal/limitedio): bounded buffers; \<open>Request_Id\<close> (internal/requestid).

  \<^bold>\<open>Backups\<close> (internal/backup).  \<open>Backup_Types\<close>: plans, destinations, runs and the persisted state.  \<open>Backup_Schedule\<close> (schedule.go): due times and previews.
  \<open>Backup_Evidence\<close> (check_evidence.go, snapshot_evidence.go): what repository checks prove and the bounded caches.  \<open>Backup_Catalog\<close> (catalog.go,
  capture_validation.go): archives, indexes, manifests, browsing and comparison.  \<open>Backup_Retention\<close> (snapshot_verification.go, retention.go): when a snapshot counts as
  complete and what a retention run may remove while other goroutines change the state.  \<open>Backup_Health\<close> (health.go, inventory.go): attempts,
  checkpoints, inventory reconciliation and the protection state of a plan.

  \<^bold>\<open>Loops and bounds.\<close>  Recursion is structural or has a termination proof (\<open>evict\<close>, \<open>forget_batches\<close>, \<open>trim_with\<close>).  The loop over parent directories is a
  \<open>partial_function\<close>, total on every name the indexer gives it (\<open>parent_dirs_total\<close>).  Loops that the code bounds keep the code's bound: 15 and 100
  days of a backup schedule, 64 inspections and batches of 128 identifiers of a retention run, 4096 cached classifications, 100000 index entries.
  Integers are unbounded where the code's checks keep them in range; truncations (\<open>uint16\<close> terminal sizes, \<open>uint32\<close> hash parameters, saturated durations) are written out.

  \<^bold>\<open>Simplifications.\<close>  The backup theories read the clock once per locked operation where the code calls it several times.  sort.Slice is a stable
  sort; the keys sorted by are distinct in the code's uses.  strings.ToLower on catalogue paths is a parameter.  Error values keep their sentinel and fixed text, not
  the wrapped detail.

  \<^bold>\<open>Not modelled.\<close>  Packages that mostly run other programs or touch the file system: stacks, maintenance and maintenancejobs, imageupdates, gitworkspace,
  stackworkspace, configworkspace, workspacefiles, workspacerepair, dockeradmin, dockerregistryauth, selfupdate, hostinfo, atomicfile, fsmeta and the helper
  commands; their correctness depends on Docker, git and the kernel.  Routing and transport (httpapi), delivery of notifications, metrics and environment
  parsing have little state of their own.  Of internal/backup: capture and restore of data, the restic process with its diagnostics and watchdogs, runs and
  repository leases, the operational policy and the recovery library.  Of internal/auth: client addresses and origins (net/netip, net/url).  Of internal/store:
  image status, deploy baselines and opening the database file.  Of internal/retention: the ticker loop.
\<close>

end
